(* ===== verification/Onda_Prelude.thy ===== *)
theory Onda_Prelude
  imports Main "HOL-Library.Word" "HOL-Library.Signed_Division"
    "HOL-Library.Code_Target_Nat" "HOL-Library.Code_Target_Int"
begin

unbundle bit_operations_syntax

section \<open>Prelude: shared types, stateful traversals and machine-integer lemmas\<close>

text \<open>
  This theory holds what the component theories of the development share: the names of the
  machine integers, the threading combinator that models Rust's \<open>for x in xs.iter_mut()\<close>
  over a mutable accumulator, saturating counters, truncating division and the facts about
  signed words that connect the wrapping operators of the code with integer arithmetic.
  The collection \<open>onda_word\<close> holds the rewrite rules that read a word as an integer.
\<close>

named_theorems onda_word "rewriting words to signed integers"
named_theorems onda_state "results of stateful traversals that do not depend on the counters"

type_synonym i32 = "32 word"
type_synonym i64 = "64 word"
type_synonym u8 = "8 word"
type_synonym u32 = "32 word"
type_synonym u64 = "64 word"

subsection \<open>Integer type bounds\<close>

abbreviation i32_min :: int where "i32_min \<equiv> - 2147483648"
abbreviation i32_max :: int where "i32_max \<equiv> 2147483647"
abbreviation i64_min :: int where "i64_min \<equiv> - 9223372036854775808"
abbreviation i64_max :: int where "i64_max \<equiv> 9223372036854775807"
abbreviation u64_max :: nat where "u64_max \<equiv> 18446744073709551615"

lemma sint_i32_bounds: "i32_min \<le> sint (w :: i32)" "sint (w :: i32) \<le> i32_max"
  using sint_ge [of w] sint_lt [of w] by simp_all

lemma sint_i64_bounds: "i64_min \<le> sint (w :: i64)" "sint (w :: i64) \<le> i64_max"
  using sint_ge [of w] sint_lt [of w] by simp_all

lemma sint_word_of_int_i32:
  "i32_min \<le> x \<Longrightarrow> x \<le> i32_max \<Longrightarrow> sint (word_of_int x :: i32) = x"
  by (simp add: signed_of_int signed_take_bit_int_eq_self)

lemma sint_word_of_int_i64:
  "i64_min \<le> x \<Longrightarrow> x \<le> i64_max \<Longrightarrow> sint (word_of_int x :: i64) = x"
  by (simp add: signed_of_int signed_take_bit_int_eq_self)

lemma word_of_int_sint_self [simp]: "word_of_int (sint (w :: 'a::len word)) = w"
  by simp

lemma word_eq_iff_sint: "(a :: 'a::len word) = b \<longleftrightarrow> sint a = sint b"
  by (metis word_of_int_sint_self)

text \<open>The signed value an \<open>n\<close>-bit two's complement register holds after a wrap-around.\<close>

definition wrap_int :: "nat \<Rightarrow> int \<Rightarrow> int" where
  "wrap_int n x = (x + 2 ^ (n - 1)) mod 2 ^ n - 2 ^ (n - 1)"

lemma wrap_int_signed_take_bit: "wrap_int (Suc n) x = signed_take_bit n x"
  by (simp add: wrap_int_def signed_take_bit_eq_take_bit_shift take_bit_eq_mod)

lemma sint_wrap: "sint (word_of_int x :: 'a::len word) = wrap_int LENGTH('a) x"
  using wrap_int_signed_take_bit [of "LENGTH('a) - Suc 0" x]
  by (simp add: signed_of_int)

lemma wrap_int_id:
  assumes "- (2 ^ (n - 1)) \<le> x" and "x < 2 ^ (n - 1)" and "0 < n"
  shows "wrap_int n x = x"
proof -
  have p: "(2::int) ^ n = 2 * 2 ^ (n - 1)"
    using assms(3) by (cases n) simp_all
  have "0 \<le> x + 2 ^ (n - 1)" and "x + 2 ^ (n - 1) < 2 ^ n"
    using assms p by linarith+
  then have "(x + 2 ^ (n - 1)) mod 2 ^ n = x + 2 ^ (n - 1)"
    by (rule mod_pos_pos_trivial)
  then show ?thesis by (simp add: wrap_int_def)
qed

subsection \<open>Division that truncates towards zero\<close>

lemma sdiv_eq_div_nonneg: "0 \<le> a \<Longrightarrow> 0 < b \<Longrightarrow> (a::int) sdiv b = a div b"
  by (cases "a = 0") (simp_all add: signed_divide_int_def)

lemma sdiv_abs: "\<bar>(a::int) sdiv b\<bar> = \<bar>a\<bar> div \<bar>b\<bar>"
  by (cases "a = 0"; cases "b = 0")
    (simp_all add: signed_divide_int_def abs_mult pos_imp_zdiv_nonneg_iff)

lemma smod_abs: "b \<noteq> 0 \<Longrightarrow> \<bar>(a::int) smod b\<bar> = \<bar>a\<bar> mod \<bar>b\<bar>"
  by (cases "a = 0") (simp_all add: signed_modulo_int_def abs_mult)

lemma smod_sgn: "(0::int) \<le> a \<Longrightarrow> b \<noteq> 0 \<Longrightarrow> 0 \<le> a smod b" "(a::int) \<le> 0 \<Longrightarrow> b \<noteq> 0 \<Longrightarrow> a smod b \<le> 0"
  by (simp_all add: signed_modulo_int_def sgn_if)

lemma smod_abs_le: "b \<noteq> 0 \<Longrightarrow> \<bar>(a::int) smod b\<bar> \<le> \<bar>a\<bar>"
  by (simp add: smod_abs zmod_le_nonneg_dividend)

subsection \<open>Saturating counters\<close>

definition sat_add :: "nat \<Rightarrow> nat \<Rightarrow> nat \<Rightarrow> nat" where
  "sat_add limit a b = min limit (a + b)"

abbreviation sat_add_u64 :: "nat \<Rightarrow> nat \<Rightarrow> nat" where
  "sat_add_u64 \<equiv> sat_add u64_max"

lemma sat_add_zero_iff: "0 < limit \<Longrightarrow> sat_add limit a b = 0 \<longleftrightarrow> a = 0 \<and> b = 0"
  by (auto simp: sat_add_def)

lemma sat_add_assoc: "sat_add l (sat_add l a b) c = sat_add l a (sat_add l b c)"
  by (simp add: sat_add_def)

subsection \<open>Traversals that update an accumulator\<close>

fun map_st :: "('a \<Rightarrow> 's \<Rightarrow> 'b \<times> 's) \<Rightarrow> 'a list \<Rightarrow> 's \<Rightarrow> 'b list \<times> 's" where
  "map_st f [] s = ([], s)"
| "map_st f (x # xs) s =
     (let (y, s') = f x s; (ys, s'') = map_st f xs s' in (y # ys, s''))"

lemma map_st_cong [fundef_cong]:
  assumes "xs = ys" and "s = t" and "\<And>x u. x \<in> set ys \<Longrightarrow> f x u = g x u"
  shows "map_st f xs s = map_st g ys t"
proof -
  have "(\<And>x u. x \<in> set ys \<Longrightarrow> f x u = g x u) \<Longrightarrow> map_st f ys t = map_st g ys t"
    by (induction ys arbitrary: t) (simp_all add: Let_def split: prod.splits)
  with assms show ?thesis by simp
qed

lemma fst_map_st [onda_state]:
  "(\<And>x s. x \<in> set xs \<Longrightarrow> fst (f x s) = g x) \<Longrightarrow> fst (map_st f xs s) = map g xs"
proof (induction xs arbitrary: s)
  case Nil
  then show ?case by simp
next
  case (Cons x xs)
  have "fst (f x s) = g x" by (simp add: Cons.prems)
  moreover have "fst (map_st f xs (snd (f x s))) = map g xs"
    by (rule Cons.IH) (simp add: Cons.prems)
  ultimately show ?case by (simp add: split_def Let_def)
qed

fun opt_st :: "('a \<Rightarrow> 's \<Rightarrow> 'b \<times> 's) \<Rightarrow> 'a option \<Rightarrow> 's \<Rightarrow> 'b option \<times> 's" where
  "opt_st f None s = (None, s)"
| "opt_st f (Some x) s = (let (y, s') = f x s in (Some y, s'))"

lemma fst_opt_st [onda_state]:
  "(\<And>x s. fst (f x s) = g x) \<Longrightarrow> fst (opt_st f v s) = map_option g v"
  by (cases v) (simp_all add: split_def Let_def)

subsection \<open>Safe indexing\<close>

text \<open>\<open>nth_opt xs i\<close> is Rust's \<open>xs.get(i)\<close>.\<close>

definition nth_opt :: "'a list \<Rightarrow> nat \<Rightarrow> 'a option" where
  "nth_opt xs i = (if i < length xs then Some (xs ! i) else None)"

lemma nth_opt_Some_iff: "nth_opt xs i = Some x \<longleftrightarrow> i < length xs \<and> xs ! i = x"
  by (auto simp: nth_opt_def)

lemma nth_opt_less [dest]: "Some x = nth_opt xs i \<Longrightarrow> i < length xs"
  by (simp add: nth_opt_def split: if_splits)

lemma nth_opt_None_iff: "nth_opt xs i = None \<longleftrightarrow> length xs \<le> i"
  by (auto simp: nth_opt_def)

lemma nth_opt_map: "nth_opt (map f xs) i = map_option f (nth_opt xs i)"
  by (simp add: nth_opt_def)

lemma nth_opt_update:
  "nth_opt (xs[i := v]) j = (if i = j \<and> i < length xs then Some v else nth_opt xs j)"
  by (auto simp: nth_opt_def)

lemma nth_opt_replicate: "nth_opt (replicate n x) i = (if i < n then Some x else None)"
  by (simp add: nth_opt_def)

text \<open>\<open>get_flat xs i\<close> is Rust's \<open>xs.get(i).copied().flatten()\<close>.\<close>

definition get_flat :: "'a option list \<Rightarrow> nat \<Rightarrow> 'a option" where
  "get_flat xs i = (if i < length xs then xs ! i else None)"

lemma get_flat_Some_iff: "get_flat xs i = Some x \<longleftrightarrow> i < length xs \<and> xs ! i = Some x"
  by (auto simp: get_flat_def)

lemma get_flat_update:
  "get_flat (xs[i := v]) j = (if i = j \<and> i < length xs then v else get_flat xs j)"
  by (auto simp: get_flat_def)

lemma get_flat_replicate_None [simp]: "get_flat (replicate n None) i = None"
  by (simp add: get_flat_def)

end
