(* ===== verification/Float_Bits.thy ===== *)
theory Float_Bits
  imports Onda_Prelude
begin

section \<open>IEEE 754 values as bit patterns\<close>

text \<open>
  The compiler stores \<open>f32\<close> and \<open>f64\<close> constants and compares them by their bits, so the
  development represents a float by its bit pattern. This theory gives the standard-library
  operations the code applies to them, over one format record for both widths: a pattern is
  decoded to a sign, an integer mantissa and a binary exponent, the exact result is computed on
  integers, and it is rounded once to nearest, ties to even. Every operation is executable.
  Where Rust leaves the payload of a NaN result open, the quiet NaN without payload is taken.
  The transcendental functions are not here: they belong to the platform's mathematics library
  and are a parameter of the definitions that call them.
\<close>

record float_format =
  exp_bits :: nat
  frac_bits :: nat

definition fmt32 :: float_format where
  "fmt32 = \<lparr>exp_bits = 8, frac_bits = 23\<rparr>"

definition fmt64 :: float_format where
  "fmt64 = \<lparr>exp_bits = 11, frac_bits = 52\<rparr>"

definition exp_bias :: "float_format \<Rightarrow> int" where
  "exp_bias f = 2 ^ (exp_bits f - 1) - 1"

text \<open>The exponent of the least subnormal: every finite value is a multiple of \<open>2 ^ exp_min\<close>.\<close>

definition exp_min :: "float_format \<Rightarrow> int" where
  "exp_min f = 1 - exp_bias f - int (frac_bits f)"

definition exp_ones :: "float_format \<Rightarrow> nat" where
  "exp_ones f = 2 ^ exp_bits f - 1"

text \<open>A decoded pattern: \<open>Fin s m e\<close> stands for \<open>(-1)^s * m * 2^e\<close>.\<close>

datatype fnum = Nan | Infty bool | Fin bool nat int

definition fsign_bit :: "float_format \<Rightarrow> bool \<Rightarrow> nat" where
  "fsign_bit f s = (if s then 2 ^ (exp_bits f + frac_bits f) else 0)"

definition fdecode :: "float_format \<Rightarrow> nat \<Rightarrow> fnum" where
  "fdecode f b =
     (let s = odd (b div 2 ^ (exp_bits f + frac_bits f));
          ex = b div 2 ^ frac_bits f mod 2 ^ exp_bits f;
          fr = b mod 2 ^ frac_bits f
      in if ex = exp_ones f then (if fr = 0 then Infty s else Nan)
         else if ex = 0 then Fin s fr (exp_min f)
         else Fin s (2 ^ frac_bits f + fr) (exp_min f + int ex - 1))"

fun bit_length :: "nat \<Rightarrow> nat" where
  "bit_length n = (if n = 0 then 0 else Suc (bit_length (n div 2)))"

declare bit_length.simps [simp del]

text \<open>The mantissa of \<open>m * 2^e\<close> at exponent \<open>q\<close>, rounded to nearest, ties to even.\<close>

definition round_mant :: "nat \<Rightarrow> int \<Rightarrow> int \<Rightarrow> nat" where
  "round_mant m e q =
     (if q \<le> e then m * 2 ^ nat (e - q)
      else let d = 2 ^ nat (q - e); t = m div d; r = m mod d
           in if d < 2 * r \<or> (2 * r = d \<and> odd t) then t + 1 else t)"

definition fround :: "float_format \<Rightarrow> bool \<Rightarrow> nat \<Rightarrow> int \<Rightarrow> nat" where
  "fround f s m e =
     (let q = max (exp_min f) (e + int (bit_length m) - int (frac_bits f) - 1);
          t = round_mant m e q;
          body = (if t < 2 ^ frac_bits f then t
                  else nat (q - exp_min f + 1) * 2 ^ frac_bits f + (t - 2 ^ frac_bits f))
      in fsign_bit f s +
         (if exp_ones f \<le> body div 2 ^ frac_bits f then exp_ones f * 2 ^ frac_bits f else body))"

definition fnan_bits :: "float_format \<Rightarrow> nat" where
  "fnan_bits f = exp_ones f * 2 ^ frac_bits f + 2 ^ (frac_bits f - 1)"

fun fencode :: "float_format \<Rightarrow> fnum \<Rightarrow> nat" where
  "fencode f Nan = fnan_bits f"
| "fencode f (Infty s) = fsign_bit f s + exp_ones f * 2 ^ frac_bits f"
| "fencode f (Fin s m e) = (if m = 0 then fsign_bit f s else fround f s m e)"

subsection \<open>Exact arithmetic on decoded values\<close>

definition signed_mant :: "bool \<Rightarrow> nat \<Rightarrow> int" where
  "signed_mant s m = (if s then - int m else int m)"

fun fnum_add :: "fnum \<Rightarrow> fnum \<Rightarrow> fnum" where
  "fnum_add (Fin s m e) (Fin t n d) =
     (let q = min e d;
          v = signed_mant s (m * 2 ^ nat (e - q)) + signed_mant t (n * 2 ^ nat (d - q))
      in if v = 0 then Fin (s \<and> t) 0 q else Fin (v < 0) (nat \<bar>v\<bar>) q)"
| "fnum_add (Infty s) (Infty t) = (if s = t then Infty s else Nan)"
| "fnum_add (Infty s) (Fin _ _ _) = Infty s"
| "fnum_add (Fin _ _ _) (Infty t) = Infty t"
| "fnum_add _ _ = Nan"

fun fnum_neg :: "fnum \<Rightarrow> fnum" where
  "fnum_neg Nan = Nan"
| "fnum_neg (Infty s) = Infty (\<not> s)"
| "fnum_neg (Fin s m e) = Fin (\<not> s) m e"

fun fnum_mul :: "fnum \<Rightarrow> fnum \<Rightarrow> fnum" where
  "fnum_mul (Fin s m e) (Fin t n d) = Fin (s \<noteq> t) (m * n) (e + d)"
| "fnum_mul (Infty s) (Infty t) = Infty (s \<noteq> t)"
| "fnum_mul (Infty s) (Fin t n d) = (if n = 0 then Nan else Infty (s \<noteq> t))"
| "fnum_mul (Fin s m e) (Infty t) = (if m = 0 then Nan else Infty (s \<noteq> t))"
| "fnum_mul _ _ = Nan"

text \<open>
  A quotient and a square root are computed to three bits more than the format holds, with a
  last bit that records whether anything was cut off; rounding that value once is exact.
\<close>

definition with_sticky :: "nat \<Rightarrow> bool \<Rightarrow> nat" where
  "with_sticky q inexact = 2 * q + (if inexact then 1 else 0)"

fun fnum_div :: "float_format \<Rightarrow> fnum \<Rightarrow> fnum \<Rightarrow> fnum" where
  "fnum_div f (Fin s m e) (Fin t n d) =
     (if n = 0 then (if m = 0 then Nan else Infty (s \<noteq> t))
      else let k = frac_bits f + 3 + bit_length n
           in Fin (s \<noteq> t) (with_sticky (m * 2 ^ k div n) (m * 2 ^ k mod n \<noteq> 0))
                (e - d - int k - 1))"
| "fnum_div f (Infty s) (Fin t n d) = Infty (s \<noteq> t)"
| "fnum_div f (Fin s m e) (Infty t) = Fin (s \<noteq> t) 0 0"
| "fnum_div f _ _ = Nan"

fun fnum_rem :: "fnum \<Rightarrow> fnum \<Rightarrow> fnum" where
  "fnum_rem (Fin s m e) (Fin t n d) =
     (if n = 0 then Nan
      else let q = min e d
           in Fin s ((m * 2 ^ nat (e - q)) mod (n * 2 ^ nat (d - q))) q)"
| "fnum_rem (Fin s m e) (Infty t) = Fin s m e"
| "fnum_rem _ _ = Nan"

fun isqrt :: "nat \<Rightarrow> nat" where
  "isqrt n = (if n = 0 then 0
     else let r = 2 * isqrt (n div 4) in if (r + 1) * (r + 1) \<le> n then r + 1 else r)"

declare isqrt.simps [simp del]

fun fnum_sqrt :: "float_format \<Rightarrow> fnum \<Rightarrow> fnum" where
  "fnum_sqrt f (Fin s m e) =
     (if m = 0 then Fin s 0 e
      else if s then Nan
      else let k = frac_bits f + 3;
               m' = (if even e then m else 2 * m) * 2 ^ (2 * k);
               r = isqrt m'
           in Fin False (with_sticky r (r * r \<noteq> m')) (e div 2 - int k - 1))"
| "fnum_sqrt f (Infty s) = (if s then Nan else Infty False)"
| "fnum_sqrt f Nan = Nan"

fun fnum_less :: "fnum \<Rightarrow> fnum \<Rightarrow> bool" where
  "fnum_less (Fin s m e) (Fin t n d) =
     (let q = min e d
      in signed_mant s (m * 2 ^ nat (e - q)) < signed_mant t (n * 2 ^ nat (d - q)))"
| "fnum_less (Infty s) (Infty t) = (s \<and> \<not> t)"
| "fnum_less (Infty s) (Fin _ _ _) = s"
| "fnum_less (Fin _ _ _) (Infty t) = (\<not> t)"
| "fnum_less _ _ = False"

fun fnum_eq :: "fnum \<Rightarrow> fnum \<Rightarrow> bool" where
  "fnum_eq (Fin s m e) (Fin t n d) =
     (let q = min e d
      in signed_mant s (m * 2 ^ nat (e - q)) = signed_mant t (n * 2 ^ nat (d - q)))"
| "fnum_eq (Infty s) (Infty t) = (s = t)"
| "fnum_eq _ _ = False"

text \<open>Rounding a finite value to an integral one, by a rule on the quotient and the remainder.\<close>

fun fnum_integral :: "(bool \<Rightarrow> nat \<Rightarrow> nat \<Rightarrow> nat \<Rightarrow> nat) \<Rightarrow> fnum \<Rightarrow> fnum" where
  "fnum_integral rule (Fin s m e) =
     (if 0 \<le> e then Fin s m e
      else let d = 2 ^ nat (- e) in Fin s (rule s (m div d) (m mod d) d) 0)"
| "fnum_integral rule x = x"

definition floor_rule :: "bool \<Rightarrow> nat \<Rightarrow> nat \<Rightarrow> nat \<Rightarrow> nat" where
  "floor_rule s q r d = (if s \<and> r \<noteq> 0 then q + 1 else q)"

definition ceil_rule :: "bool \<Rightarrow> nat \<Rightarrow> nat \<Rightarrow> nat \<Rightarrow> nat" where
  "ceil_rule s q r d = (if \<not> s \<and> r \<noteq> 0 then q + 1 else q)"

definition trunc_rule :: "bool \<Rightarrow> nat \<Rightarrow> nat \<Rightarrow> nat \<Rightarrow> nat" where
  "trunc_rule s q r d = q"

definition round_rule :: "bool \<Rightarrow> nat \<Rightarrow> nat \<Rightarrow> nat \<Rightarrow> nat" where
  "round_rule s q r d = (if d \<le> 2 * r then q + 1 else q)"

text \<open>Saturating conversion to an integer range (\<open>as i32\<close>, \<open>as i64\<close>, \<open>as u32\<close>).\<close>

fun fnum_to_int :: "int \<Rightarrow> int \<Rightarrow> fnum \<Rightarrow> int" where
  "fnum_to_int lo hi Nan = 0"
| "fnum_to_int lo hi (Infty s) = (if s then lo else hi)"
| "fnum_to_int lo hi (Fin s m e) =
     (let t = (if 0 \<le> e then m * 2 ^ nat e else m div 2 ^ nat (- e))
      in max lo (min hi (signed_mant s t)))"

definition fnum_of_int :: "int \<Rightarrow> fnum" where
  "fnum_of_int x = Fin (x < 0) (nat \<bar>x\<bar>) 0"

subsection \<open>The operations on 32-bit and 64-bit patterns\<close>

definition is_nan_bits :: "float_format \<Rightarrow> nat \<Rightarrow> bool" where
  "is_nan_bits f b = (fdecode f b = Nan)"

fun fnum_finite :: "fnum \<Rightarrow> bool" where
  "fnum_finite (Fin _ _ _) = True"
| "fnum_finite _ = False"

definition lift1 :: "float_format \<Rightarrow> (fnum \<Rightarrow> fnum) \<Rightarrow> nat \<Rightarrow> nat" where
  "lift1 f op a = fencode f (op (fdecode f a))"

definition lift2 :: "float_format \<Rightarrow> (fnum \<Rightarrow> fnum \<Rightarrow> fnum) \<Rightarrow> nat \<Rightarrow> nat \<Rightarrow> nat" where
  "lift2 f op a b = fencode f (op (fdecode f a) (fdecode f b))"

text \<open>Negation and absolute value only touch the sign bit, also of a NaN.\<close>

definition fneg_bits :: "float_format \<Rightarrow> nat \<Rightarrow> nat" where
  "fneg_bits f b =
     (let w = 2 ^ (exp_bits f + frac_bits f) in if odd (b div w) then b - w else b + w)"

definition fabs_bits :: "float_format \<Rightarrow> nat \<Rightarrow> nat" where
  "fabs_bits f b =
     (let w = 2 ^ (exp_bits f + frac_bits f) in if odd (b div w) then b - w else b)"

text \<open>Rounding to an integral value returns NaNs, infinities and integral values unchanged.\<close>

definition fintegral_bits ::
  "float_format \<Rightarrow> (bool \<Rightarrow> nat \<Rightarrow> nat \<Rightarrow> nat \<Rightarrow> nat) \<Rightarrow> nat \<Rightarrow> nat" where
  "fintegral_bits f rule b =
     (case fdecode f b of
        Fin s m e \<Rightarrow> if 0 \<le> e then b else fencode f (fnum_integral rule (Fin s m e))
      | _ \<Rightarrow> b)"

definition fma_bits :: "float_format \<Rightarrow> nat \<Rightarrow> nat \<Rightarrow> nat \<Rightarrow> nat" where
  "fma_bits f a b c =
     fencode f (fnum_add (fnum_mul (fdecode f a) (fdecode f b)) (fdecode f c))"

definition fsub_bits :: "float_format \<Rightarrow> nat \<Rightarrow> nat \<Rightarrow> nat" where
  "fsub_bits f a b = fencode f (fnum_add (fdecode f a) (fnum_neg (fdecode f b)))"

definition fless_bits :: "float_format \<Rightarrow> nat \<Rightarrow> nat \<Rightarrow> bool" where
  "fless_bits f a b = fnum_less (fdecode f a) (fdecode f b)"

definition feq_bits :: "float_format \<Rightarrow> nat \<Rightarrow> nat \<Rightarrow> bool" where
  "feq_bits f a b = fnum_eq (fdecode f a) (fdecode f b)"

text \<open>
  \<open>max\<close> and \<open>min\<close> of the standard library: a NaN operand gives the other one.
\<close>

definition fmax_bits :: "float_format \<Rightarrow> nat \<Rightarrow> nat \<Rightarrow> nat" where
  "fmax_bits f a b =
     (if is_nan_bits f a then b else if is_nan_bits f b then a
      else if fless_bits f a b then b else a)"

definition fmin_bits :: "float_format \<Rightarrow> nat \<Rightarrow> nat \<Rightarrow> nat" where
  "fmin_bits f a b =
     (if is_nan_bits f a then b else if is_nan_bits f b then a
      else if fless_bits f b a then b else a)"

definition f32_to_f64 :: "32 word \<Rightarrow> 64 word" where
  "f32_to_f64 w = of_nat (fencode fmt64 (fdecode fmt32 (unat w)))"

definition f64_to_f32 :: "64 word \<Rightarrow> 32 word" where
  "f64_to_f32 w = of_nat (fencode fmt32 (fdecode fmt64 (unat w)))"

subsection \<open>Word-level names for the 64-bit operations\<close>

definition f64_lift1 :: "(nat \<Rightarrow> nat) \<Rightarrow> 64 word \<Rightarrow> 64 word" where
  "f64_lift1 op a = of_nat (op (unat a))"

definition f64_lift2 :: "(nat \<Rightarrow> nat \<Rightarrow> nat) \<Rightarrow> 64 word \<Rightarrow> 64 word \<Rightarrow> 64 word" where
  "f64_lift2 op a b = of_nat (op (unat a) (unat b))"

definition f64_num :: "64 word \<Rightarrow> fnum" where
  "f64_num a = fdecode fmt64 (unat a)"

definition f64_of :: "fnum \<Rightarrow> 64 word" where
  "f64_of x = of_nat (fencode fmt64 x)"

definition f64_add :: "64 word \<Rightarrow> 64 word \<Rightarrow> 64 word" where
  "f64_add a b = f64_of (fnum_add (f64_num a) (f64_num b))"

definition f64_sub :: "64 word \<Rightarrow> 64 word \<Rightarrow> 64 word" where
  "f64_sub a b = f64_of (fnum_add (f64_num a) (fnum_neg (f64_num b)))"

definition f64_mul :: "64 word \<Rightarrow> 64 word \<Rightarrow> 64 word" where
  "f64_mul a b = f64_of (fnum_mul (f64_num a) (f64_num b))"

definition f64_div :: "64 word \<Rightarrow> 64 word \<Rightarrow> 64 word" where
  "f64_div a b = f64_of (fnum_div fmt64 (f64_num a) (f64_num b))"

definition f64_rem :: "64 word \<Rightarrow> 64 word \<Rightarrow> 64 word" where
  "f64_rem a b = f64_of (fnum_rem (f64_num a) (f64_num b))"

definition f64_less :: "64 word \<Rightarrow> 64 word \<Rightarrow> bool" where
  "f64_less a b = fnum_less (f64_num a) (f64_num b)"

definition f64_eq :: "64 word \<Rightarrow> 64 word \<Rightarrow> bool" where
  "f64_eq a b = fnum_eq (f64_num a) (f64_num b)"

definition f64_le :: "64 word \<Rightarrow> 64 word \<Rightarrow> bool" where
  "f64_le a b = (f64_less a b \<or> f64_eq a b)"

definition f64_is_nan :: "64 word \<Rightarrow> bool" where
  "f64_is_nan a = (f64_num a = Nan)"

definition f64_is_finite :: "64 word \<Rightarrow> bool" where
  "f64_is_finite a = fnum_finite (f64_num a)"

definition f64_neg :: "64 word \<Rightarrow> 64 word" where
  "f64_neg = f64_lift1 (fneg_bits fmt64)"

definition f64_abs :: "64 word \<Rightarrow> 64 word" where
  "f64_abs = f64_lift1 (fabs_bits fmt64)"

definition f64_max :: "64 word \<Rightarrow> 64 word \<Rightarrow> 64 word" where
  "f64_max = f64_lift2 (fmax_bits fmt64)"

definition f64_min :: "64 word \<Rightarrow> 64 word \<Rightarrow> 64 word" where
  "f64_min = f64_lift2 (fmin_bits fmt64)"

definition f64_round :: "64 word \<Rightarrow> 64 word" where
  "f64_round = f64_lift1 (fintegral_bits fmt64 round_rule)"

definition f64_trunc :: "64 word \<Rightarrow> 64 word" where
  "f64_trunc = f64_lift1 (fintegral_bits fmt64 trunc_rule)"

definition f64_fract :: "64 word \<Rightarrow> 64 word" where
  "f64_fract a = f64_sub a (f64_trunc a)"

text \<open>\<open>clamp\<close>; the standard library panics unless \<open>lo <= hi\<close>, which every caller establishes.\<close>

definition f64_clamp :: "64 word \<Rightarrow> 64 word \<Rightarrow> 64 word \<Rightarrow> 64 word" where
  "f64_clamp x lo hi =
     (let y = (if f64_less x lo then lo else x) in if f64_less hi y then hi else y)"

definition f64_of_int :: "int \<Rightarrow> 64 word" where
  "f64_of_int x = f64_of (fnum_of_int x)"

definition f64_to_u32 :: "64 word \<Rightarrow> u32" where
  "f64_to_u32 a = word_of_int (fnum_to_int 0 4294967295 (f64_num a))"

definition f64_zero :: "64 word" where "f64_zero = 0"
definition f64_one :: "64 word" where "f64_one = 0x3FF0000000000000"

end
