(* ===== verification/Mir_Types.thy ===== *)
theory Mir_Types
  imports Float_Bits
begin

section \<open>Scalar types and values of the MIR\<close>

text \<open>
  The logical types of the backend-neutral representation (\<open>onda_mir/src/types.rs\<close> and
  \<open>ids.rs\<close>). Identifiers are indices into the program's tables; the newtypes around
  \<open>u32\<close> are type synonyms of \<open>nat\<close>. A float constant is its bit pattern.
\<close>

type_synonym source_file_id = nat
type_synonym type_id = nat
type_synonym struct_id = nat
type_synonym field_id = nat
type_synonym function_id = nat
type_synonym parameter_id = nat
type_synonym local_id = nat
type_synonym state_id = nat
type_synonym input_id = nat
type_synonym output_id = nat
type_synonym control_output_id = nat
type_synonym param_id = nat
type_synonym buffer_id = nat
type_synonym event_id = nat
type_synonym event_param_id = nat
type_synonym delegate_id = nat
type_synonym log_site_id = nat
type_synonym const_data_id = nat

datatype scalar_type = TF32 | TF64 | TI32 | TI64 | TBool

datatype integer_range_mode = Range_Clamp | Range_Wrap

datatype scalar_value =
    F32 (f32_bits: "32 word")
  | F64 (f64_bits: "64 word")
  | I32 i32
  | I64 i64
  | Bool bool

record integer_range_invariant =
  inv_min :: scalar_value
  inv_max :: scalar_value
  inv_mode :: integer_range_mode

definition scalar_types_all :: "scalar_type list" where
  "scalar_types_all = [TF32, TF64, TI32, TI64, TBool]"

fun scalar_name :: "scalar_type \<Rightarrow> string" where
  "scalar_name TF32 = ''f32''"
| "scalar_name TF64 = ''f64''"
| "scalar_name TI32 = ''i32''"
| "scalar_name TI64 = ''i64''"
| "scalar_name TBool = ''bool''"

definition is_numeric :: "scalar_type \<Rightarrow> bool" where
  "is_numeric t = (t \<noteq> TBool)"

fun logical_byte_width :: "scalar_type \<Rightarrow> nat" where
  "logical_byte_width TF32 = 4"
| "logical_byte_width TI32 = 4"
| "logical_byte_width TF64 = 8"
| "logical_byte_width TI64 = 8"
| "logical_byte_width TBool = 1"

datatype access_mode = ReadOnly | ReadWrite

datatype buffer_channels = Mono | Static nat | Dynamic

datatype mir_type =
    T_Scalar scalar_type
  | T_Tuple "type_id list"
  | T_Array type_id nat
  | T_Struct struct_id
  | T_Slice scalar_type access_mode
  | T_Buffer scalar_type buffer_channels access_mode
  | T_BufferSpan scalar_type buffer_channels access_mode nat

fun scalar_ty :: "scalar_value \<Rightarrow> scalar_type" where
  "scalar_ty (F32 _) = TF32"
| "scalar_ty (F64 _) = TF64"
| "scalar_ty (I32 _) = TI32"
| "scalar_ty (I64 _) = TI64"
| "scalar_ty (Bool _) = TBool"

fun as_f64 :: "scalar_value \<Rightarrow> 64 word" where
  "as_f64 (F32 v) = f32_to_f64 v"
| "as_f64 (F64 v) = v"
| "as_f64 (I32 v) = f64_of_int (sint v)"
| "as_f64 (I64 v) = f64_of_int (sint v)"
| "as_f64 (Bool v) = f64_of_int (if v then 1 else 0)"

datatype constant_value = C_Scalar scalar_value | C_Aggregate "constant_value list"

record value_range =
  range_min :: scalar_value
  range_max :: scalar_value

text \<open>The signed value of an integer scalar.\<close>

fun int_value :: "scalar_value \<Rightarrow> int option" where
  "int_value (I32 v) = Some (sint v)"
| "int_value (I64 v) = Some (sint v)"
| "int_value _ = None"

lemma int_value_Some_cases:
  assumes "int_value v = Some n"
  obtains (I32) w where "v = I32 w" "n = sint w" | (I64) w where "v = I64 w" "n = sint w"
  using assms by (cases v) auto

lemma int_value_ty: "int_value v = Some n \<Longrightarrow> scalar_ty v = TI32 \<or> scalar_ty v = TI64"
  by (cases v) auto

lemma int_value_iff_ty: "(\<exists>n. int_value v = Some n) \<longleftrightarrow> scalar_ty v \<in> {TI32, TI64}"
  by (cases v) auto

subsection \<open>Lossless text for numbers\<close>

text \<open>
  JSON text for scalars: an \<open>i64\<close> is a decimal string, a non-finite float the hexadecimal
  spelling of its bits. The value handed to the serializer is either a number or a string;
  the number syntax itself belongs to the serializer.
\<close>

datatype 'w json_number = J_Number 'w | J_String string

definition hex_digit :: "nat \<Rightarrow> char" where
  "hex_digit d = (if d < 10 then char_of (48 + d) else char_of (87 + d))"

fun hex_fixed :: "nat \<Rightarrow> nat \<Rightarrow> string" where
  "hex_fixed 0 n = []"
| "hex_fixed (Suc k) n = hex_fixed k (n div 16) @ [hex_digit (n mod 16)]"

definition hex_value :: "char \<Rightarrow> nat option" where
  "hex_value c =
     (let k = of_char c :: nat
      in if 48 \<le> k \<and> k \<le> 57 then Some (k - 48)
         else if 97 \<le> k \<and> k \<le> 102 then Some (k - 87)
         else if 65 \<le> k \<and> k \<le> 70 then Some (k - 55)
         else None)"

fun parse_hex :: "nat \<Rightarrow> string \<Rightarrow> nat option" where
  "parse_hex acc [] = Some acc"
| "parse_hex acc (c # cs) =
     (case hex_value c of None \<Rightarrow> None | Some d \<Rightarrow> parse_hex (16 * acc + d) cs)"

text \<open>\<open>from_str_radix(_, 16)\<close> of an unsigned type: an optional plus sign, then digits.\<close>

definition from_hex_radix :: "nat \<Rightarrow> string \<Rightarrow> nat option" where
  "from_hex_radix limit s =
     (let digits = (case s of c # cs \<Rightarrow> if c = CHR ''+'' then cs else s | [] \<Rightarrow> [])
      in if digits = [] then None
         else case parse_hex 0 digits of
                None \<Rightarrow> None
              | Some v \<Rightarrow> if v < limit then Some v else None)"

definition json_f32_serialize :: "32 word \<Rightarrow> 32 word json_number" where
  "json_f32_serialize v =
     (if fnum_finite (fdecode fmt32 (unat v)) then J_Number v
      else J_String (''0x'' @ hex_fixed 8 (unat v)))"

definition json_f64_serialize :: "64 word \<Rightarrow> 64 word json_number" where
  "json_f64_serialize v =
     (if f64_is_finite v then J_Number v
      else J_String (''0x'' @ hex_fixed 16 (unat v)))"

datatype json_error = MissingPrefix | WrongDigitCount | BadDigits

fun strip_0x :: "string \<Rightarrow> string option" where
  "strip_0x (a # b # cs) = (if a = CHR ''0'' \<and> b = CHR ''x'' then Some cs else None)"
| "strip_0x _ = None"

definition json_bits_deserialize :: "nat \<Rightarrow> string \<Rightarrow> json_error + nat" where
  "json_bits_deserialize width bits =
     (case strip_0x bits of
        None \<Rightarrow> Inl MissingPrefix
      | Some digits \<Rightarrow>
          if length digits \<noteq> width then Inl WrongDigitCount
          else case from_hex_radix (16 ^ width) digits of
                 None \<Rightarrow> Inl BadDigits
               | Some v \<Rightarrow> Inr v)"

fun json_f32_deserialize :: "32 word json_number \<Rightarrow> json_error + 32 word" where
  "json_f32_deserialize (J_Number v) = Inr v"
| "json_f32_deserialize (J_String s) = map_sum id of_nat (json_bits_deserialize 8 s)"

fun json_f64_deserialize :: "64 word json_number \<Rightarrow> json_error + 64 word" where
  "json_f64_deserialize (J_Number v) = Inr v"
| "json_f64_deserialize (J_String s) = map_sum id of_nat (json_bits_deserialize 16 s)"

text \<open>Decimal text of an \<open>i64\<close>: \<open>to_string\<close> and \<open>parse\<close>.\<close>

fun show_nat :: "nat \<Rightarrow> string" where
  "show_nat n =
     (if n < 10 then [char_of (48 + n)] else show_nat (n div 10) @ [char_of (48 + n mod 10)])"

declare show_nat.simps [simp del]

definition json_i64_serialize :: "i64 \<Rightarrow> string" where
  "json_i64_serialize v =
     (if sint v < 0 then CHR ''-'' # show_nat (nat (- sint v)) else show_nat (nat (sint v)))"

fun parse_digits :: "nat \<Rightarrow> string \<Rightarrow> nat option" where
  "parse_digits acc [] = Some acc"
| "parse_digits acc (c # cs) =
     (let k = of_char c :: nat
      in if 48 \<le> k \<and> k \<le> 57 then parse_digits (10 * acc + (k - 48)) cs else None)"

definition json_i64_deserialize :: "string \<Rightarrow> i64 option" where
  "json_i64_deserialize s =
     (let (neg, digits) =
        (case s of [] \<Rightarrow> (False, [])
         | c # cs \<Rightarrow> if c = CHR ''-'' then (True, cs)
                    else if c = CHR ''+'' then (False, cs) else (False, s))
      in if digits = [] then None
         else case parse_digits 0 digits of
                None \<Rightarrow> None
              | Some n \<Rightarrow>
                  let v = (if neg then - int n else int n)
                  in if i64_min \<le> v \<and> v \<le> i64_max then Some (word_of_int v) else None)"

subsection \<open>Round trips\<close>


lemma hex_value_digit: "d < 16 \<Longrightarrow> hex_value (hex_digit d) = Some d"
  by (auto simp: hex_value_def hex_digit_def)

lemma hex_digit_not_plus: "d < 16 \<Longrightarrow> hex_digit d \<noteq> CHR ''+''"
proof
  assume d: "d < 16" and "hex_digit d = CHR ''+''"
  then have "(of_char (hex_digit d) :: nat) = 43" by simp
  with d show False by (auto simp: hex_digit_def split: if_splits)
qed

lemma length_hex_fixed [simp]: "length (hex_fixed k n) = k"
  by (induction k arbitrary: n) simp_all

lemma parse_hex_append:
  "parse_hex acc (xs @ ys) =
     (case parse_hex acc xs of None \<Rightarrow> None | Some v \<Rightarrow> parse_hex v ys)"
  by (induction xs arbitrary: acc) (simp_all split: option.splits)

lemma parse_hex_fixed: "parse_hex acc (hex_fixed k n) = Some (acc * 16 ^ k + n mod 16 ^ k)"
proof (induction k arbitrary: n)
  case 0
  then show ?case by simp
next
  case (Suc k)
  have "n mod 16 ^ Suc k = n mod 16 + 16 * (n div 16 mod 16 ^ k)"
    by (simp add: mod_mult2_eq)
  with Suc show ?case
    by (simp add: parse_hex_append hex_value_digit algebra_simps)
qed

lemma hd_hex_fixed: "hd (hex_fixed (Suc k) n) \<noteq> CHR ''+''"
proof (induction k arbitrary: n)
  case 0
  then show ?case by (simp add: hex_digit_not_plus)
next
  case (Suc k)
  have "hex_fixed (Suc k) (n div 16) \<noteq> []" by simp
  with Suc.IH [of "n div 16"] show ?case
    by (metis hex_fixed.simps(2) hd_append2)
qed

lemma from_hex_radix_fixed:
  assumes "0 < k" and "n < 16 ^ k"
  shows "from_hex_radix (16 ^ k) (hex_fixed k n) = Some n"
proof -
  obtain j where k: "k = Suc j" using assms(1) by (cases k) auto
  obtain c cs where eq: "hex_fixed k n = c # cs"
    by (cases "hex_fixed k n") (simp_all add: k)
  have "c \<noteq> CHR ''+''" using hd_hex_fixed [of j n] eq by (metis k list.sel(1))
  with eq assms parse_hex_fixed [of 0 k n] show ?thesis
    by (simp add: from_hex_radix_def)
qed

lemma json_bits_deserialize_fixed:
  "0 < k \<Longrightarrow> n < 16 ^ k \<Longrightarrow> json_bits_deserialize k (''0x'' @ hex_fixed k n) = Inr n"
  by (simp add: json_bits_deserialize_def from_hex_radix_fixed)

lemma parse_digits_append:
  "parse_digits acc (xs @ ys) =
     (case parse_digits acc xs of None \<Rightarrow> None | Some v \<Rightarrow> parse_digits v ys)"
  by (induction xs arbitrary: acc) (simp_all add: Let_def)

lemma show_nat_digits:
  "\<exists>k. \<forall>acc. parse_digits acc (show_nat n) = Some (acc * 10 ^ k + n)"
proof (induction n rule: show_nat.induct)
  case (1 n)
  show ?case
  proof (cases "n < 10")
    case True
    then show ?thesis
      by (intro exI [of _ 1]) (subst show_nat.simps, simp add: algebra_simps)
  next
    case False
    with 1 obtain k where "\<forall>acc. parse_digits acc (show_nat (n div 10)) = Some (acc * 10 ^ k + n div 10)"
      by blast
    with False show ?thesis
      by (intro exI [of _ "Suc k"])
        (subst show_nat.simps, simp add: parse_digits_append algebra_simps)
  qed
qed

lemma parse_show_nat: "parse_digits 0 (show_nat n) = Some n"
  using show_nat_digits [of n] by auto

lemma show_nat_head: "\<exists>c cs. show_nat n = c # cs \<and> c \<noteq> CHR ''-'' \<and> c \<noteq> CHR ''+''"
proof (induction n rule: show_nat.induct)
  case (1 n)
  show ?case
  proof (cases "n < 10")
    case True
    have ne: "char_of (48 + n) \<noteq> c" if "(of_char c :: nat) < 48" for c
      using that True by auto
    from True show ?thesis
      by (subst show_nat.simps) (auto intro!: ne)
  next
    case False
    with 1 show ?thesis by (subst show_nat.simps) auto
  qed
qed

text \<open>The decimal text of every \<open>i64\<close>, the least one included, parses back to it.\<close>

theorem json_i64_round_trip: "json_i64_deserialize (json_i64_serialize v) = Some v"
proof (cases "sint v < 0")
  case True
  obtain c cs where "show_nat (nat (- sint v)) = c # cs" using show_nat_head by blast
  with True parse_show_nat [of "nat (- sint v)"] sint_i64_bounds [of v] show ?thesis
    by (simp add: json_i64_serialize_def json_i64_deserialize_def Let_def)
next
  case False
  obtain c cs where "show_nat (nat (sint v)) = c # cs" "c \<noteq> CHR ''-''" "c \<noteq> CHR ''+''"
    using show_nat_head by blast
  with False parse_show_nat [of "nat (sint v)"] sint_i64_bounds [of v] show ?thesis
    by (simp add: json_i64_serialize_def json_i64_deserialize_def Let_def)
qed

lemma unat_u32_hex: "unat (v :: 32 word) < 16 ^ 8"
  using unsigned_less [of v] by simp

lemma unat_u64_hex: "unat (v :: 64 word) < 16 ^ 16"
  using unsigned_less [of v] by simp



end
