(* ===== verification/Payload_Types.thy ===== *)
theory Payload_Types
  imports Onda_Prelude
begin

section \<open>Recursive message schemas\<close>

text \<open>
  The schema language of event and delegate payloads (\<open>onda_processor_abi/src/payload.rs\<close>
  and the range metadata of \<open>lib.rs\<close>), with the scalar encodings and the error values that
  every payload operation returns.
\<close>

datatype scalar_encoding = Enc_F32 | Enc_F64 | Enc_I32 | Enc_I64 | Enc_Bool

fun byte_size :: "scalar_encoding \<Rightarrow> nat" where
  "byte_size Enc_Bool = 1"
| "byte_size Enc_F32 = 4"
| "byte_size Enc_I32 = 4"
| "byte_size Enc_F64 = 8"
| "byte_size Enc_I64 = 8"

lemma byte_size_cases: "byte_size e \<in> {1, 4, 8}"
  by (cases e) simp_all

lemma byte_size_pos [simp]: "0 < byte_size e"
  by (cases e) simp_all

record integer_range_endpoint =
  endpoint_scalar :: string
  endpoint_value :: string

record integer_range_metadata =
  meta_min :: integer_range_endpoint
  meta_max :: integer_range_endpoint
  meta_mode :: string

datatype payload_default = PD_Scalar string | PD_Aggregate "payload_default list"

datatype payload_type =
    PT_Scalar scalar_encoding "integer_range_metadata option"
  | PT_Tuple "payload_type list"
  | PT_Struct string "payload_field list"
  | PT_Array payload_type nat
  | PT_Slice payload_type
and payload_field =
    PayloadField (pf_name: string) (pf_ty: payload_type) (pf_default: "payload_default option")

definition payload_scalar :: "scalar_encoding \<Rightarrow> payload_type" where
  "payload_scalar e = PT_Scalar e None"

record payload_schema =
  schema_params :: "payload_field list"

datatype payload_error =
    InvalidSchema | InvalidValue | InvalidRange | Overflow | NegativeLength | Truncated
  | TrailingBytes | InsufficientCapacity | MisalignedWorkspace | InvalidLengths

fun encoding_display :: "scalar_encoding \<Rightarrow> string" where
  "encoding_display Enc_F32 = ''f32''"
| "encoding_display Enc_F64 = ''f64''"
| "encoding_display Enc_I32 = ''i32''"
| "encoding_display Enc_I64 = ''i64''"
| "encoding_display Enc_Bool = ''bool''"

end
