(* ===== verification/Mir_Ir.thy ===== *)
theory Mir_Ir
  imports Mir_Types Payload_Types
begin

section \<open>The MIR program\<close>

text \<open>
  The executable representation (\<open>onda_mir/src/ir.rs\<close>): structured statements over places,
  values and calls, functions, and the program with its tables. Statements, statement kinds and
  blocks are one mutually recursive datatype, as the code's enums are.
\<close>

subsection \<open>Operators\<close>

datatype unary_op = Negate | LogicalNot | BitNot

datatype binary_op =
    Add | Subtract | Multiply | Divide | Remainder
  | BitAnd | BitOr | BitXor | ShiftLeft | ShiftRight

datatype compare_op = Equal | NotEqual | Less | LessEqual | Greater | GreaterEqual

datatype intrinsic =
    Sin | Cos | Tan | Tanh | Atan | Atan2 | Exp | Log | Sqrt | Pow
  | Abs | Floor | Ceil | Round | Trunc | Min | Max | Fma | RangeClamp | RangeWrap

datatype bounds_mode = Clamp | Checked | Unchecked

subsection \<open>Values, places and resource references\<close>

datatype mir_value = V_Local local_id | V_Constant scalar_value

datatype place_base =
    PB_Local local_id
  | PB_Parameter parameter_id
  | PB_State state_id
  | PB_Param param_id
  | PB_EventParam event_param_id

datatype projection = P_Field field_id | P_Index mir_value bounds_mode

record place =
  place_base :: place_base
  place_projections :: "projection list"

definition place_local :: "local_id \<Rightarrow> place" where
  "place_local l = \<lparr>place_base = PB_Local l, place_projections = []\<rparr>"

datatype buffer_ref =
    BR_Direct buffer_id
  | BR_ArrayElement buffer_id nat mir_value bounds_mode

datatype buffer_param_ref =
    BP_Direct parameter_id
  | BP_ArrayElement parameter_id mir_value bounds_mode

datatype buffer_span_ref =
    BS_Interface buffer_id nat
  | BS_Parameter parameter_id nat nat

fun buffer_param_ref_first :: "buffer_param_ref \<Rightarrow> parameter_id" where
  "buffer_param_ref_first (BP_Direct p) = p"
| "buffer_param_ref_first (BP_ArrayElement p _ _) = p"

definition buffer_param_possible_indices :: "buffer_param_ref \<Rightarrow> nat list" where
  "buffer_param_possible_indices r = [buffer_param_ref_first r ..< buffer_param_ref_first r + 1]"

fun buffer_ref_first :: "buffer_ref \<Rightarrow> buffer_id" where
  "buffer_ref_first (BR_Direct b) = b"
| "buffer_ref_first (BR_ArrayElement b _ _ _) = b"

fun buffer_ref_len :: "buffer_ref \<Rightarrow> nat" where
  "buffer_ref_len (BR_Direct _) = 1"
| "buffer_ref_len (BR_ArrayElement _ len _ _) = len"

definition buffer_ref_possible_indices :: "buffer_ref \<Rightarrow> nat list" where
  "buffer_ref_possible_indices r =
     [buffer_ref_first r ..< buffer_ref_first r + buffer_ref_len r]"

datatype slice_source =
    SS_Place place
  | SS_Buffer buffer_ref "mir_value option"
  | SS_BufferParam buffer_param_ref "mir_value option"
  | SS_ConstData const_data_id

record slice_copy =
  copy_destination :: mir_value
  copy_source :: mir_value

datatype slice_copy_preflight = Required | ProvenUnnecessary

datatype call_argument =
    A_Value mir_value
  | A_Place place
  | A_SliceElement mir_value mir_value bounds_mode
  | A_ArrayWindow place mir_value bounds_mode
  | A_SliceWindow mir_value mir_value bounds_mode
  | A_Buffer buffer_ref
  | A_BufferParam buffer_param_ref
  | A_BufferSpan buffer_span_ref

datatype rvalue =
    R_Use mir_value
  | R_Load place
  | R_InitAll
  | R_Unary unary_op mir_value
  | R_Binary binary_op mir_value mir_value
  | R_Compare compare_op mir_value mir_value
  | R_Cast mir_value scalar_type
  | R_Intrinsic intrinsic "mir_value list"
  | R_ProcessFrame mir_value
  | R_NormalizeIndex mir_value mir_value bounds_mode
  | R_InputLoad input_id "mir_value option" bounds_mode mir_value
  | R_OutputLoad output_id "mir_value option" bounds_mode mir_value
  | R_BufferLoad buffer_ref "mir_value option" mir_value bounds_mode
  | R_BufferParamLoad buffer_param_ref "mir_value option" mir_value bounds_mode
  | R_BufferLen buffer_ref
  | R_BufferChannels buffer_ref
  | R_BufferSampleRate buffer_ref
  | R_BufferIsBound buffer_ref
  | R_BufferParamLen buffer_param_ref
  | R_BufferParamChannels buffer_param_ref
  | R_BufferParamSampleRate buffer_param_ref
  | R_BufferParamIsBound buffer_param_ref
  | R_ConstDataLoad const_data_id mir_value bounds_mode
  | R_MakeSlice slice_source mir_value mir_value bounds_mode access_mode
  | R_SliceLoad mir_value mir_value bounds_mode
  | R_SliceLen mir_value

subsection \<open>Statements\<close>

record source_span =
  span_file :: "source_file_id option"
  span_line :: nat
  span_column :: nat
  span_end_line :: nat
  span_end_column :: nat

definition span_unknown :: source_span where
  "span_unknown = \<lparr>span_file = None, span_line = 0, span_column = 0,
     span_end_line = 0, span_end_column = 0\<rparr>"

definition span_is_unknown :: "source_span \<Rightarrow> bool" where
  "span_is_unknown s = (span_line s = 0)"

datatype statement = Statement (stmt_kind: statement_kind) (stmt_source: source_span)
and statement_kind =
    S_Assign place rvalue
  | S_Call "local_id list" function_id "call_argument list"
  | S_PublishDelegate delegate_id "call_argument list"
  | S_PublishLog log_site_id "mir_value list"
  | S_OutputStore output_id "mir_value option" bounds_mode mir_value mir_value
  | S_ControlOutputStore control_output_id "mir_value option" bounds_mode mir_value
  | S_BufferStore buffer_ref "mir_value option" mir_value mir_value bounds_mode
  | S_BufferParamStore buffer_param_ref "mir_value option" mir_value mir_value bounds_mode
  | S_SliceStore mir_value mir_value mir_value bounds_mode
  | S_SliceFill mir_value mir_value
  | S_SliceCopy "slice_copy list" slice_copy_preflight
  | S_If mir_value block block
  | S_Loop block
  | S_Break
  | S_Continue
  | S_Return "mir_value list"
and block = Block (block_statements: "statement list")

subsection \<open>Functions\<close>

datatype function_kind = FK_Init | FK_Process | FK_Event event_id | FK_User

datatype function_origin = FO_Source | FO_CompilerGenerated

datatype inline_hint = IH_Auto | IH_Always | IH_Never

record function_attributes =
  attr_origin :: function_origin
  attr_inline :: inline_hint
  attr_runtime_context :: bool

definition default_attributes :: function_attributes where
  "default_attributes = \<lparr>attr_origin = FO_Source, attr_inline = IH_Auto,
     attr_runtime_context = False\<rparr>"

datatype passing_mode =
    PM_Value | PM_ReadOnlyReference | PM_ReadWriteReference | PM_ResultReference

fun is_writable_reference :: "passing_mode \<Rightarrow> bool" where
  "is_writable_reference PM_ReadWriteReference = True"
| "is_writable_reference PM_ResultReference = True"
| "is_writable_reference _ = False"

record function_param =
  fp_name :: string
  fp_ty :: type_id
  fp_mode :: passing_mode
  fp_integer_range :: "integer_range_invariant option"

record mir_local =
  lc_name :: "string option"
  lc_ty :: type_id
  lc_integer_range :: "integer_range_invariant option"

record mir_function =
  fn_name :: string
  fn_kind :: function_kind
  fn_attributes :: function_attributes
  fn_params :: "function_param list"
  fn_results :: "type_id list"
  fn_locals :: "mir_local list"
  fn_body :: block
  fn_source :: source_span

definition max_function_parameter_count :: nat where
  "max_function_parameter_count = 1024"

definition max_function_local_count :: nat where
  "max_function_local_count = 32 * 1024"

definition process_param_names :: "string list" where
  "process_param_names = [''start_frame'', ''frames'', ''flags'']"

definition process_function_params :: "type_id \<Rightarrow> function_param list" where
  "process_function_params i32_ty =
     map (\<lambda>name. \<lparr>fp_name = name, fp_ty = i32_ty, fp_mode = PM_Value, fp_integer_range = None\<rparr>)
       process_param_names"

end
