(* ===== verification/Mir_Program.thy ===== *)
theory Mir_Program
  imports Mir_Ir
begin

section \<open>Program tables, compile configuration and type identity\<close>

text \<open>
  The program record with its interface, state and constant tables (\<open>onda_mir/src/ir.rs\<close>),
  the validation of a compile configuration, the resolution of a place to the type of the
  storage it denotes, and logical equality of type identifiers.
\<close>

subsection \<open>Compile configuration\<close>

record compile_config =
  sample_rate :: "32 word"
  block_size :: nat

definition max_block_size :: nat where
  "max_block_size = 2147483647"

datatype compile_config_error = InvalidSampleRate | InvalidBlockSize

definition config_validate :: "compile_config \<Rightarrow> compile_config_error + unit" where
  "config_validate c =
     (if \<not> fnum_finite (fdecode fmt32 (unat (sample_rate c)))
         \<or> fnum_less (fdecode fmt32 (unat (sample_rate c))) (Fin False 0 0)
         \<or> fnum_eq (fdecode fmt32 (unat (sample_rate c))) (Fin False 0 0)
      then Inl InvalidSampleRate
      else if block_size c = 0 \<or> max_block_size < block_size c then Inl InvalidBlockSize
      else Inr ())"

definition config_new :: "32 word \<Rightarrow> nat \<Rightarrow> compile_config_error + compile_config" where
  "config_new rate frames =
     (let config = \<lparr>sample_rate = rate, block_size = frames\<rparr>
      in case config_validate config of Inl e \<Rightarrow> Inl e | Inr _ \<Rightarrow> Inr config)"

text \<open>A host-sized count is first narrowed to \<open>u32\<close>.\<close>

definition config_from_usize :: "32 word \<Rightarrow> nat \<Rightarrow> compile_config_error + compile_config" where
  "config_from_usize rate frames =
     (if 2 ^ 32 \<le> frames then Inl InvalidBlockSize else config_new rate frames)"

subsection \<open>Tables\<close>

record source_file =
  file_path :: string

record log_site =
  log_label :: "string option"
  log_source :: source_span
  log_lexical_owner :: string
  log_declaration :: "string option"
  log_argument_types :: "scalar_type list"
  log_payload_size :: nat

record struct_field =
  sf_name :: string
  sf_ty :: type_id

record struct_type =
  st_name :: string
  st_fields :: "struct_field list"

record mir_input =
  input_name :: string
  input_ty :: type_id
  input_default :: "constant_value option"
  input_range :: "value_range option"

record mir_output =
  output_name :: string
  output_ty :: type_id

record control_output =
  co_name :: string
  co_ty :: type_id
  co_mirror :: state_id

datatype param_scale = Scale_Linear | Scale_Log

record param_control =
  pc_scale :: param_scale
  pc_curve :: "64 word option"
  pc_unit :: "string option"
  pc_step :: "scalar_value option"
  pc_step_count :: "u32 option"

record mir_param =
  param_name :: string
  param_ty :: type_id
  param_default :: constant_value
  param_range :: "value_range option"
  param_control :: param_control

record mir_buffer =
  buf_name :: string
  buf_element :: scalar_type
  buf_channels :: buffer_channels
  buf_access :: access_mode

record buffer_array =
  ba_name :: string
  ba_first :: buffer_id
  ba_len :: nat

record event_param =
  ep_name :: string
  ep_ty :: type_id
  ep_default :: "constant_value option"

record mir_event =
  ev_schema :: payload_schema
  ev_name :: string
  ev_params :: "event_param list"
  ev_handler :: function_id

record delegate_param =
  dp_name :: string
  dp_ty :: type_id

record mir_delegate =
  dg_schema :: payload_schema
  dg_name :: string
  dg_params :: "delegate_param list"

record interface =
  if_inputs :: "mir_input list"
  if_outputs :: "mir_output list"
  if_control_outputs :: "control_output list"
  if_params :: "mir_param list"
  if_buffers :: "mir_buffer list"
  if_buffer_arrays :: "buffer_array list"
  if_events :: "mir_event list"
  if_delegates :: "mir_delegate list"

datatype state_persistence = Snapshot | InstanceScratch | ControlMirror

record state_slot =
  ss_name :: string
  ss_ty :: type_id
  ss_persistence :: state_persistence
  ss_authored :: bool
  ss_pinned :: bool
  ss_integer_range :: "integer_range_invariant option"

record const_data =
  cd_name :: string
  cd_element :: scalar_type
  cd_values :: "scalar_value list"

record entry_points =
  entry_init :: function_id
  entry_process :: function_id

record program =
  pr_schema_version :: nat
  pr_config :: compile_config
  pr_source_files :: "source_file list"
  pr_log_sites :: "log_site list"
  pr_types :: "mir_type list"
  pr_structs :: "struct_type list"
  pr_interface :: interface
  pr_state :: "state_slot list"
  pr_const_data :: "const_data list"
  pr_functions :: "mir_function list"
  pr_entry_points :: entry_points

definition mir_schema_version :: nat where
  "mir_schema_version = 7"

definition empty_interface :: interface where
  "empty_interface = \<lparr>if_inputs = [], if_outputs = [], if_control_outputs = [],
     if_params = [], if_buffers = [], if_buffer_arrays = [], if_events = [], if_delegates = []\<rparr>"

definition program_new :: "compile_config \<Rightarrow> function_id \<Rightarrow> function_id \<Rightarrow> program" where
  "program_new config init process =
     \<lparr>pr_schema_version = mir_schema_version, pr_config = config, pr_source_files = [],
      pr_log_sites = [], pr_types = [], pr_structs = [], pr_interface = empty_interface,
      pr_state = [], pr_const_data = [], pr_functions = [],
      pr_entry_points = \<lparr>entry_init = init, entry_process = process\<rparr>\<rparr>"

subsection \<open>The type of a place\<close>

fun base_type :: "program \<Rightarrow> mir_function \<Rightarrow> place_base \<Rightarrow> type_id option" where
  "base_type p f (PB_Local l) = map_option lc_ty (nth_opt (fn_locals f) l)"
| "base_type p f (PB_Parameter i) = map_option fp_ty (nth_opt (fn_params f) i)"
| "base_type p f (PB_State s) = map_option ss_ty (nth_opt (pr_state p) s)"
| "base_type p f (PB_Param i) = map_option param_ty (nth_opt (if_params (pr_interface p)) i)"
| "base_type p f (PB_EventParam i) =
     (case fn_kind f of
        FK_Event e \<Rightarrow>
          Option.bind (nth_opt (if_events (pr_interface p)) e)
            (\<lambda>ev. map_option ep_ty (nth_opt (ev_params ev) i))
      | _ \<Rightarrow> None)"

fun project_type :: "program \<Rightarrow> type_id \<Rightarrow> projection \<Rightarrow> type_id option" where
  "project_type p ty pr =
     (case (nth_opt (pr_types p) ty, pr) of
        (Some (T_Struct s), P_Field field) \<Rightarrow>
          Option.bind (nth_opt (pr_structs p) s)
            (\<lambda>st. map_option sf_ty (nth_opt (st_fields st) field))
      | (Some (T_Array element _), P_Index _ _) \<Rightarrow> Some element
      | _ \<Rightarrow> None)"

fun project_types :: "program \<Rightarrow> type_id \<Rightarrow> projection list \<Rightarrow> type_id option" where
  "project_types p ty [] = Some ty"
| "project_types p ty (pr # prs) =
     (case project_type p ty pr of None \<Rightarrow> None | Some ty' \<Rightarrow> project_types p ty' prs)"

definition place_type :: "program \<Rightarrow> mir_function \<Rightarrow> place \<Rightarrow> type_id option" where
  "place_type p f pl =
     (case base_type p f (place_base pl) of
        None \<Rightarrow> None
      | Some ty \<Rightarrow> project_types p ty (place_projections pl))"

lemma project_types_append:
  "project_types p ty (xs @ ys) =
     (case project_types p ty xs of None \<Rightarrow> None | Some t \<Rightarrow> project_types p t ys)"
  by (induction xs arbitrary: ty) (simp_all split: option.splits)

subsection \<open>Logical equality of type identifiers\<close>

text \<open>
  Type tables may hold duplicate entries, so two identifiers may denote the same type. The set
  of pairs under comparison is passed down; a pair met again below itself counts as equal, which
  keeps the comparison of recursive tables finite.
\<close>

definition open_pairs :: "program \<Rightarrow> (type_id \<times> type_id) list \<Rightarrow> (type_id \<times> type_id) set" where
  "open_pairs p visiting =
     {..<length (pr_types p)} \<times> {..<length (pr_types p)} - set visiting"

lemma finite_open_pairs [simp]: "finite (open_pairs p v)"
  by (simp add: open_pairs_def)

lemma card_open_pairs_less:
  assumes "l < length (pr_types p)" and "r < length (pr_types p)" and "(l, r) \<notin> set v"
  shows "card (open_pairs p ((l, r) # v)) < card (open_pairs p v)"
proof (rule psubset_card_mono)
  show "open_pairs p ((l, r) # v) \<subset> open_pairs p v"
    using assms by (auto simp: open_pairs_def)
qed simp

function types_equivalent_inner ::
  "program \<Rightarrow> type_id \<Rightarrow> type_id \<Rightarrow> (type_id \<times> type_id) list \<Rightarrow> bool" where
  "types_equivalent_inner p lhs rhs visiting =
     (if lhs = rhs then True
      else case (nth_opt (pr_types p) lhs, nth_opt (pr_types p) rhs) of
        (Some lhs_ty, Some rhs_ty) \<Rightarrow>
          if (lhs, rhs) \<in> set visiting then True
          else (case (lhs_ty, rhs_ty) of
              (T_Scalar a, T_Scalar b) \<Rightarrow> a = b
            | (T_Tuple as, T_Tuple bs) \<Rightarrow>
                length as = length bs \<and>
                list_all (\<lambda>(a, b). types_equivalent_inner p a b ((lhs, rhs) # visiting)) (zip as bs)
            | (T_Array a m, T_Array b n) \<Rightarrow>
                m = n \<and> types_equivalent_inner p a b ((lhs, rhs) # visiting)
            | (T_Struct a, T_Struct b) \<Rightarrow> a = b
            | (T_Slice a m, T_Slice b n) \<Rightarrow> a = b \<and> m = n
            | (T_Buffer a c m, T_Buffer b d n) \<Rightarrow> a = b \<and> c = d \<and> m = n
            | (T_BufferSpan a c m k, T_BufferSpan b d n l) \<Rightarrow> a = b \<and> c = d \<and> m = n \<and> k = l
            | _ \<Rightarrow> False)
      | _ \<Rightarrow> False)"
  by pat_completeness auto
termination
  by (relation "measure (\<lambda>(p, l, r, v). card (open_pairs p v))")
    (auto simp: nth_opt_Some_iff intro!: card_open_pairs_less)

declare types_equivalent_inner.simps [simp del]

definition types_equivalent :: "program \<Rightarrow> type_id \<Rightarrow> type_id \<Rightarrow> bool" where
  "types_equivalent p lhs rhs = types_equivalent_inner p lhs rhs []"

end
