(* ===== verification/Constant_Eval.thy ===== *)
theory Constant_Eval
  imports Mir_Program
begin

section \<open>Scalar constant operations\<close>

text \<open>
  The operations of \<open>onda_mir/src/constant_eval.rs\<close>, shared by the evaluation of source
  constants and by MIR folding; they are the reference for what a scalar operation computes.
  An invalid operation gives \<open>None\<close>. The functions of the platform's mathematics library are
  the parameter \<open>m\<close>: one result pattern for every intrinsic and argument list.
\<close>

record libm =
  libm_f32 :: "intrinsic \<Rightarrow> nat list \<Rightarrow> nat"
  libm_f64 :: "intrinsic \<Rightarrow> nat list \<Rightarrow> nat"

subsection \<open>Floats\<close>

definition float_extremum :: "float_format \<Rightarrow> nat \<Rightarrow> nat \<Rightarrow> bool \<Rightarrow> nat" where
  "float_extremum f lhs rhs minimum =
     (if is_nan_bits f lhs then lhs
      else if is_nan_bits f rhs then rhs
      else if feq_bits f lhs 0 \<and> feq_bits f rhs 0
        then (if minimum then lhs OR rhs else lhs AND rhs)
      else if minimum then fmin_bits f lhs rhs
      else fmax_bits f lhs rhs)"

definition float_intrinsic ::
  "float_format \<Rightarrow> (intrinsic \<Rightarrow> nat list \<Rightarrow> nat) \<Rightarrow> intrinsic \<Rightarrow> nat list \<Rightarrow> nat option" where
  "float_intrinsic f lib op args =
     (case args of
        [x] \<Rightarrow>
          (case op of
             Sin \<Rightarrow> Some (lib op [x]) | Cos \<Rightarrow> Some (lib op [x]) | Tan \<Rightarrow> Some (lib op [x])
           | Tanh \<Rightarrow> Some (lib op [x]) | Atan \<Rightarrow> Some (lib op [x]) | Exp \<Rightarrow> Some (lib op [x])
           | Log \<Rightarrow> Some (lib op [x])
           | Sqrt \<Rightarrow> Some (lift1 f (fnum_sqrt f) x)
           | Abs \<Rightarrow> Some (fabs_bits f x)
           | Floor \<Rightarrow> Some (fintegral_bits f floor_rule x)
           | Ceil \<Rightarrow> Some (fintegral_bits f ceil_rule x)
           | Round \<Rightarrow> Some (fintegral_bits f round_rule x)
           | Trunc \<Rightarrow> Some (fintegral_bits f trunc_rule x)
           | _ \<Rightarrow> None)
      | [x, y] \<Rightarrow>
          (case op of
             Atan2 \<Rightarrow> Some (lib op [x, y]) | Pow \<Rightarrow> Some (lib op [x, y])
           | Min \<Rightarrow> Some (float_extremum f x y True)
           | Max \<Rightarrow> Some (float_extremum f x y False)
           | _ \<Rightarrow> None)
      | [x, y, z] \<Rightarrow>
          (case op of
             Fma \<Rightarrow> Some (fma_bits f x y z)
           | RangeClamp \<Rightarrow> Some (fmin_bits f (fmax_bits f x y) z)
           | _ \<Rightarrow> None)
      | _ \<Rightarrow> None)"

fun float_binary :: "float_format \<Rightarrow> binary_op \<Rightarrow> nat \<Rightarrow> nat \<Rightarrow> nat option" where
  "float_binary f Add a b = Some (lift2 f fnum_add a b)"
| "float_binary f Subtract a b = Some (fsub_bits f a b)"
| "float_binary f Multiply a b = Some (lift2 f fnum_mul a b)"
| "float_binary f Divide a b = Some (lift2 f (fnum_div f) a b)"
| "float_binary f Remainder a b = Some (lift2 f fnum_rem a b)"
| "float_binary _ _ _ _ = None"

fun float_compare :: "float_format \<Rightarrow> compare_op \<Rightarrow> nat \<Rightarrow> nat \<Rightarrow> bool" where
  "float_compare f Equal a b = feq_bits f a b"
| "float_compare f NotEqual a b = (\<not> feq_bits f a b)"
| "float_compare f Less a b = fless_bits f a b"
| "float_compare f LessEqual a b = (fless_bits f a b \<or> feq_bits f a b)"
| "float_compare f Greater a b = fless_bits f b a"
| "float_compare f GreaterEqual a b = (fless_bits f b a \<or> feq_bits f b a)"

subsection \<open>Integers of one width\<close>

definition wrapping_abs :: "'a::len word \<Rightarrow> 'a word" where
  "wrapping_abs x = (if sint x < 0 then - x else x)"

definition smin :: "'a::len word \<Rightarrow> 'a word \<Rightarrow> 'a word" where
  "smin x y = (if sint x \<le> sint y then x else y)"

definition smax :: "'a::len word \<Rightarrow> 'a word \<Rightarrow> 'a word" where
  "smax x y = (if sint x \<le> sint y then y else x)"

definition range_wrap :: "'a::len word \<Rightarrow> 'a word \<Rightarrow> 'a word \<Rightarrow> 'a word option" where
  "range_wrap x lo hi =
     (let lower = sint lo; width = sint hi - lower + 1
      in if width \<le> 0 then None
         else Some (word_of_int (lower + (sint x - lower) mod width)))"

definition integer_intrinsic :: "intrinsic \<Rightarrow> 'a::len word list \<Rightarrow> 'a word option" where
  "integer_intrinsic op args =
     (case args of
        [x] \<Rightarrow> (case op of Abs \<Rightarrow> Some (wrapping_abs x) | _ \<Rightarrow> None)
      | [x, y] \<Rightarrow> (case op of Min \<Rightarrow> Some (smin x y) | Max \<Rightarrow> Some (smax x y) | _ \<Rightarrow> None)
      | [x, lo, hi] \<Rightarrow>
          (case op of
             RangeClamp \<Rightarrow> Some (smin (smax x lo) hi)
           | RangeWrap \<Rightarrow> range_wrap x lo hi
           | _ \<Rightarrow> None)
      | _ \<Rightarrow> None)"

text \<open>
  Shift counts are cast to \<open>u32\<close> and then masked to the operand width.
\<close>

definition shift_count :: "'a::len word \<Rightarrow> nat" where
  "shift_count b = unat (ucast b :: u32) mod LENGTH('a)"

fun fold_integer_binary :: "binary_op \<Rightarrow> 'a::len word \<Rightarrow> 'a word \<Rightarrow> 'a word option" where
  "fold_integer_binary Add a b = Some (a + b)"
| "fold_integer_binary Subtract a b = Some (a - b)"
| "fold_integer_binary Multiply a b = Some (a * b)"
| "fold_integer_binary Divide a b =
     (if b \<noteq> 0 then Some (word_of_int (sint a sdiv sint b)) else None)"
| "fold_integer_binary Remainder a b =
     (if b \<noteq> 0 then Some (word_of_int (sint a smod sint b)) else None)"
| "fold_integer_binary BitAnd a b = Some (a AND b)"
| "fold_integer_binary BitOr a b = Some (a OR b)"
| "fold_integer_binary BitXor a b = Some (a XOR b)"
| "fold_integer_binary ShiftLeft a b = Some (push_bit (shift_count b) a)"
| "fold_integer_binary ShiftRight a b = Some (signed_drop_bit (shift_count b) a)"

fun integer_compare :: "compare_op \<Rightarrow> int \<Rightarrow> int \<Rightarrow> bool" where
  "integer_compare Equal a b = (a = b)"
| "integer_compare NotEqual a b = (a \<noteq> b)"
| "integer_compare Less a b = (a < b)"
| "integer_compare LessEqual a b = (a \<le> b)"
| "integer_compare Greater a b = (b < a)"
| "integer_compare GreaterEqual a b = (b \<le> a)"

subsection \<open>The operations on scalar values\<close>

fun as_f32_bits :: "scalar_value \<Rightarrow> nat option" where
  "as_f32_bits (F32 x) = Some (unat x)"
| "as_f32_bits _ = None"

fun as_f64_bits :: "scalar_value \<Rightarrow> nat option" where
  "as_f64_bits (F64 x) = Some (unat x)"
| "as_f64_bits _ = None"

fun as_i32 :: "scalar_value \<Rightarrow> i32 option" where
  "as_i32 (I32 x) = Some x"
| "as_i32 _ = None"

fun as_i64 :: "scalar_value \<Rightarrow> i64 option" where
  "as_i64 (I64 x) = Some x"
| "as_i64 _ = None"

definition eval_intrinsic ::
  "libm \<Rightarrow> intrinsic \<Rightarrow> scalar_value list \<Rightarrow> scalar_value option" where
  "eval_intrinsic m op args =
     (case args of
        [] \<Rightarrow> None
      | F32 _ # _ \<Rightarrow>
          Option.bind (those (map as_f32_bits args))
            (\<lambda>xs. map_option (F32 \<circ> of_nat) (float_intrinsic fmt32 (libm_f32 m) op xs))
      | F64 _ # _ \<Rightarrow>
          Option.bind (those (map as_f64_bits args))
            (\<lambda>xs. map_option (F64 \<circ> of_nat) (float_intrinsic fmt64 (libm_f64 m) op xs))
      | I32 _ # _ \<Rightarrow>
          Option.bind (those (map as_i32 args)) (\<lambda>xs. map_option I32 (integer_intrinsic op xs))
      | I64 _ # _ \<Rightarrow>
          Option.bind (those (map as_i64 args)) (\<lambda>xs. map_option I64 (integer_intrinsic op xs))
      | Bool _ # _ \<Rightarrow> None)"

fun eval_unary :: "unary_op \<Rightarrow> scalar_value \<Rightarrow> scalar_value option" where
  "eval_unary Negate (F32 v) = Some (F32 (of_nat (fneg_bits fmt32 (unat v))))"
| "eval_unary Negate (F64 v) = Some (F64 (of_nat (fneg_bits fmt64 (unat v))))"
| "eval_unary Negate (I32 v) = Some (I32 (- v))"
| "eval_unary Negate (I64 v) = Some (I64 (- v))"
| "eval_unary LogicalNot (Bool v) = Some (Bool (\<not> v))"
| "eval_unary BitNot (I32 v) = Some (I32 (NOT v))"
| "eval_unary BitNot (I64 v) = Some (I64 (NOT v))"
| "eval_unary _ _ = None"

fun eval_binary :: "binary_op \<Rightarrow> scalar_value \<Rightarrow> scalar_value \<Rightarrow> scalar_value option" where
  "eval_binary op (I32 a) (I32 b) = map_option I32 (fold_integer_binary op a b)"
| "eval_binary op (I64 a) (I64 b) = map_option I64 (fold_integer_binary op a b)"
| "eval_binary op (F32 a) (F32 b) =
     map_option (F32 \<circ> of_nat) (float_binary fmt32 op (unat a) (unat b))"
| "eval_binary op (F64 a) (F64 b) =
     map_option (F64 \<circ> of_nat) (float_binary fmt64 op (unat a) (unat b))"
| "eval_binary _ _ _ = None"

fun eval_compare :: "compare_op \<Rightarrow> scalar_value \<Rightarrow> scalar_value \<Rightarrow> bool option" where
  "eval_compare op (F32 a) (F32 b) = Some (float_compare fmt32 op (unat a) (unat b))"
| "eval_compare op (F64 a) (F64 b) = Some (float_compare fmt64 op (unat a) (unat b))"
| "eval_compare op (I32 a) (I32 b) = Some (integer_compare op (sint a) (sint b))"
| "eval_compare op (I64 a) (I64 b) = Some (integer_compare op (sint a) (sint b))"
| "eval_compare op (Bool a) (Bool b) =
     (case op of Equal \<Rightarrow> Some (a = b) | NotEqual \<Rightarrow> Some (a \<noteq> b) | _ \<Rightarrow> None)"
| "eval_compare _ _ _ = None"

fun cast_from_float :: "float_format \<Rightarrow> nat \<Rightarrow> scalar_type \<Rightarrow> scalar_value option" where
  "cast_from_float f b TF32 =
     Some (F32 (of_nat (if f = fmt32 then b else fencode fmt32 (fdecode f b))))"
| "cast_from_float f b TF64 =
     Some (F64 (of_nat (if f = fmt64 then b else fencode fmt64 (fdecode f b))))"
| "cast_from_float f b TI32 = Some (I32 (word_of_int (fnum_to_int i32_min i32_max (fdecode f b))))"
| "cast_from_float f b TI64 = Some (I64 (word_of_int (fnum_to_int i64_min i64_max (fdecode f b))))"
| "cast_from_float f b TBool = None"

fun cast_from_int :: "int \<Rightarrow> scalar_type \<Rightarrow> scalar_value option" where
  "cast_from_int x TF32 = Some (F32 (of_nat (fencode fmt32 (fnum_of_int x))))"
| "cast_from_int x TF64 = Some (F64 (of_nat (fencode fmt64 (fnum_of_int x))))"
| "cast_from_int x TI32 = Some (I32 (word_of_int x))"
| "cast_from_int x TI64 = Some (I64 (word_of_int x))"
| "cast_from_int x TBool = None"

fun eval_cast :: "scalar_value \<Rightarrow> scalar_type \<Rightarrow> scalar_value option" where
  "eval_cast (F32 v) to = cast_from_float fmt32 (unat v) to"
| "eval_cast (F64 v) to = cast_from_float fmt64 (unat v) to"
| "eval_cast (I32 v) to = cast_from_int (sint v) to"
| "eval_cast (I64 v) to = cast_from_int (sint v) to"
| "eval_cast (Bool _) to = None"

subsection \<open>What the integer operations compute\<close>


text \<open>The exact result of an integer operation, before it is wrapped to the width.\<close>

fun integer_spec :: "nat \<Rightarrow> binary_op \<Rightarrow> int \<Rightarrow> int \<Rightarrow> int" where
  "integer_spec w Add a b = a + b"
| "integer_spec w Subtract a b = a - b"
| "integer_spec w Multiply a b = a * b"
| "integer_spec w Divide a b = a sdiv b"
| "integer_spec w Remainder a b = a smod b"
| "integer_spec w BitAnd a b = a AND b"
| "integer_spec w BitOr a b = a OR b"
| "integer_spec w BitXor a b = a XOR b"
| "integer_spec w ShiftLeft a b = a * 2 ^ nat (b mod int w)"
| "integer_spec w ShiftRight a b = a div 2 ^ nat (b mod int w)"

lemma wrap_int_sint [simp]: "wrap_int LENGTH('a) (sint (a :: 'a::len word)) = sint a"
  using sint_wrap [of "sint a", where 'a='a] by simp

lemma shift_count_eq:
  fixes b :: "'a::len word"
  assumes "LENGTH('a) dvd 2 ^ 32" and "LENGTH('a) dvd 2 ^ LENGTH('a)"
  shows "shift_count b = nat (sint b mod int LENGTH('a))"
proof -
  let ?n = "LENGTH('a)"
  have "unat (ucast b :: u32) = unat b mod 2 ^ 32"
    by (simp add: unsigned_ucast_eq take_bit_eq_mod)
  then have "int (shift_count b) = int (unat b) mod 2 ^ 32 mod int ?n"
    by (simp add: shift_count_def zmod_int)
  also have "int (unat b) = uint b"
    by simp
  also have "uint b mod 2 ^ 32 mod int ?n = uint b mod int ?n"
    using assms(1) by (metis mod_mod_cancel of_nat_dvd_iff of_nat_numeral of_nat_power)
  also have "uint b = sint b mod 2 ^ ?n"
    by (simp add: uint_sint take_bit_eq_mod)
  also have "sint b mod 2 ^ ?n mod int ?n = sint b mod int ?n"
    using assms(2) by (metis mod_mod_cancel of_nat_dvd_iff of_nat_numeral of_nat_power)
  finally show ?thesis by simp
qed

lemma shift_count_less: "shift_count (b :: 'a::len word) < LENGTH('a)"
  by (simp add: shift_count_def)

lemma fold_integer_binary_spec:
  fixes a b r :: "'a::len word"
  assumes "fold_integer_binary op a b = Some r"
    and "LENGTH('a) dvd 2 ^ 32" and "LENGTH('a) dvd 2 ^ LENGTH('a)"
  shows "sint r = wrap_int LENGTH('a) (integer_spec LENGTH('a) op (sint a) (sint b))"
proof -
  have arith: "sint (word_of_int x :: 'a word) = wrap_int LENGTH('a) x" for x
    by (rule sint_wrap)
  have bits: "sint (a AND b) = sint a AND sint b" "sint (a OR b) = sint a OR sint b"
    "sint (a XOR b) = sint a XOR sint b"
    by (simp_all add: signed_and_eq signed_or_eq signed_xor_eq)
  have self: "wrap_int LENGTH('a) (sint a AND sint b) = sint a AND sint b"
    "wrap_int LENGTH('a) (sint a OR sint b) = sint a OR sint b"
    "wrap_int LENGTH('a) (sint a XOR sint b) = sint a XOR sint b"
    using wrap_int_sint [of "a AND b"] wrap_int_sint [of "a OR b"] wrap_int_sint [of "a XOR b"]
    by (simp_all only: bits)
  have shr: "sint (signed_drop_bit n a) = sint a div 2 ^ n" for n
    by (simp add: sint_signed_drop_bit_eq drop_bit_eq_div)
  have shr_self: "wrap_int LENGTH('a) (sint a div 2 ^ n) = sint a div 2 ^ n" for n
    using wrap_int_sint [of "signed_drop_bit n a"] by (simp only: shr)
  note count = shift_count_eq [OF assms(2,3), of b]
  have shl: "push_bit n a = word_of_int (sint a * 2 ^ n)" for n
    by (simp add: push_bit_eq_mult mult.commute)
  have add: "a + b = word_of_int (sint a + sint b)" "a - b = word_of_int (sint a - sint b)"
    "a * b = word_of_int (sint a * sint b)" by simp_all
  show ?thesis
    using assms(1)
    by (cases op)
      (auto simp: arith add bits shl count self shr shr_self
        split: if_splits simp del: of_int_add of_int_diff of_int_mult)
qed

lemma fold_integer_binary_None:
  "fold_integer_binary op a b = None \<longleftrightarrow> op \<in> {Divide, Remainder} \<and> b = 0"
  by (cases op) auto

lemma fold_integer_binary_eq:
  fixes a b :: "'a::len word"
  assumes "LENGTH('a) dvd 2 ^ 32" and "LENGTH('a) dvd 2 ^ LENGTH('a)"
  shows "fold_integer_binary op a b =
    (if op \<in> {Divide, Remainder} \<and> b = 0 then None
     else Some (word_of_int (integer_spec LENGTH('a) op (sint a) (sint b))))"
proof (cases "fold_integer_binary op a b")
  case None
  with fold_integer_binary_None [of op a b] show ?thesis by simp
next
  case (Some r)
  then have "sint r = sint (word_of_int (integer_spec LENGTH('a) op (sint a) (sint b)) :: 'a word)"
    using fold_integer_binary_spec assms by (metis sint_wrap)
  then have "r = word_of_int (integer_spec LENGTH('a) op (sint a) (sint b))"
    by (simp only: word_eq_iff_sint)
  with Some fold_integer_binary_None [of op a b] show ?thesis by auto
qed

text \<open>C37: on \<open>i32\<close> and \<open>i64\<close> operands every binary operation is the mathematical one wrapped to the
  operand width, with shift counts taken modulo the width and an arithmetic right shift; it is
  invalid exactly for a division or remainder by zero. In particular \<open>MIN / -1\<close> wraps to \<open>MIN\<close>.\<close>

theorem eval_binary_integer:
  "eval_binary op (I32 a) (I32 b) =
     (if op \<in> {Divide, Remainder} \<and> b = 0 then None
      else Some (I32 (word_of_int (integer_spec 32 op (sint a) (sint b)))))
   \<and> eval_binary op (I64 c) (I64 d) =
     (if op \<in> {Divide, Remainder} \<and> d = 0 then None
      else Some (I64 (word_of_int (integer_spec 64 op (sint c) (sint d)))))"
  by (simp add: fold_integer_binary_eq)

subsection \<open>Range normalization\<close>

lemma sint_between:
  fixes lo hi :: "'a::len word"
  assumes "sint lo \<le> x" and "x \<le> sint hi"
  shows "sint (word_of_int x :: 'a word) = x"
proof -
  have "- (2 ^ (LENGTH('a) - 1)) \<le> x" and "x < 2 ^ (LENGTH('a) - 1)"
    using assms sint_ge [of lo] sint_lt [of hi] by linarith+
  then show ?thesis by (simp add: sint_wrap wrap_int_id)
qed

lemma range_wrap_bounds:
  fixes x lo hi :: "'a::len word"
  assumes "sint lo \<le> sint hi"
  obtains r where "range_wrap x lo hi = Some r"
    and "sint r = sint lo + (sint x - sint lo) mod (sint hi - sint lo + 1)"
    and "sint lo \<le> sint r" and "sint r \<le> sint hi"
proof
  let ?w = "sint hi - sint lo + 1"
  let ?v = "sint lo + (sint x - sint lo) mod ?w"
  have w: "0 < ?w" using assms by linarith
  have b: "sint lo \<le> ?v" "?v \<le> sint hi"
    using pos_mod_bound [OF w, of "sint x - sint lo"] pos_mod_sign [OF w, of "sint x - sint lo"]
    by linarith+
  then have v: "sint (word_of_int ?v :: 'a word) = ?v" by (rule sint_between)
  show "range_wrap x lo hi = Some (word_of_int ?v)"
    using w by (simp add: range_wrap_def Let_def)
  show "sint (word_of_int ?v :: 'a word) = ?v"
    "sint lo \<le> sint (word_of_int ?v :: 'a word)" "sint (word_of_int ?v :: 'a word) \<le> sint hi"
    using v b by simp_all
qed



lemma fnum_less_irrefl [simp]: "\<not> fnum_less x x"
  by (cases x) simp_all

lemma fnum_less_asym: "fnum_less x y \<Longrightarrow> \<not> fnum_less y x"
  by (cases x; cases y) (auto simp: Let_def min.commute)

lemma fnum_less_not_nan: "fnum_less x y \<Longrightarrow> x \<noteq> Nan \<and> y \<noteq> Nan"
  by (cases x; cases y) simp_all

text \<open>The generated range clamp of a float returns a value that is not a NaN and lies within its
  bounds, and it maps every NaN to the lower bound.\<close>

theorem eval_range_clamp_float:
  assumes "\<not> is_nan_bits fmt32 (unat lo)" and "\<not> is_nan_bits fmt32 (unat hi)"
    and "\<not> fless_bits fmt32 (unat hi) (unat lo)"
  shows "\<exists>r. eval_intrinsic m RangeClamp [F32 x, F32 lo, F32 hi] = Some (F32 r)
    \<and> \<not> is_nan_bits fmt32 (unat r)
    \<and> \<not> fless_bits fmt32 (unat r) (unat lo) \<and> \<not> fless_bits fmt32 (unat hi) (unat r)
    \<and> (is_nan_bits fmt32 (unat x) \<longrightarrow> r = lo)"
proof -
  let ?r = "fmin_bits fmt32 (fmax_bits fmt32 (unat x) (unat lo)) (unat hi)"
  have "?r \<in> {unat x, unat lo, unat hi}"
    by (auto simp: fmin_bits_def fmax_bits_def)
  then have u: "unat (of_nat ?r :: 32 word) = ?r"
    by auto
  have "\<not> is_nan_bits fmt32 ?r \<and> \<not> fless_bits fmt32 ?r (unat lo)
      \<and> \<not> fless_bits fmt32 (unat hi) ?r \<and> (is_nan_bits fmt32 (unat x) \<longrightarrow> ?r = unat lo)"
    using assms by (auto simp: fmin_bits_def fmax_bits_def fless_bits_def)
  then show ?thesis
    by (auto simp: eval_intrinsic_def float_intrinsic_def u)
qed

theorem eval_range_clamp_float_witness:
  "\<exists>r. eval_intrinsic \<lparr>libm_f32 = \<lambda>_ _. 0, libm_f64 = \<lambda>_ _. 0\<rparr> RangeClamp [F32 0x7FC00000, F32 0xBF800000, F32 0x3F800000] = Some (F32 r)
    \<and> \<not> is_nan_bits fmt32 (unat r)"
proof -
  have "\<not> is_nan_bits fmt32 (unat (0xBF800000 :: 32 word))"
    "\<not> is_nan_bits fmt32 (unat (0x3F800000 :: 32 word))"
    "\<not> fless_bits fmt32 (unat (0x3F800000 :: 32 word)) (unat (0xBF800000 :: 32 word))"
    by code_simp+
  from eval_range_clamp_float [OF this, of "\<lparr>libm_f32 = \<lambda>_ _. 0, libm_f64 = \<lambda>_ _. 0\<rparr>" "0x7FC00000"] show ?thesis by blast
qed

subsection \<open>Types of results\<close>

lemma those_map_as_i32: "those (map as_i32 vs) = Some xs \<Longrightarrow> vs = map I32 xs"
proof (induction vs arbitrary: xs)
  case (Cons v vs)
  then show ?case by (cases v) (auto split: option.splits)
qed simp

lemma those_map_as_i64: "those (map as_i64 vs) = Some xs \<Longrightarrow> vs = map I64 xs"
proof (induction vs arbitrary: xs)
  case (Cons v vs)
  then show ?case by (cases v) (auto split: option.splits)
qed simp

lemma eval_unary_ty: "eval_unary op v = Some r \<Longrightarrow> scalar_ty r = scalar_ty v"
  by (cases "(op, v)" rule: eval_unary.cases) auto

lemma eval_binary_ty:
  "eval_binary op a b = Some r \<Longrightarrow> scalar_ty r = scalar_ty a \<and> scalar_ty b = scalar_ty a"
  by (cases "(op, a, b)" rule: eval_binary.cases) auto

lemma eval_intrinsic_ty:
  assumes "eval_intrinsic m op (a # args) = Some r"
  shows "scalar_ty r = scalar_ty a"
  using assms by (cases a) (auto simp: eval_intrinsic_def bind_eq_Some_conv)

lemma eval_cast_ty:
  "map_option scalar_ty (eval_cast v to) =
     (if scalar_ty v = TBool \<or> to = TBool then None else Some to)"
  by (cases v; cases to) simp_all

text \<open>Evaluation is type-correct: unary, binary and intrinsic results have the scalar type of the
  operands, both operands of a successful binary operation have the same type, and a cast succeeds
  exactly between numeric types, with a result of the requested type.\<close>

theorem scalar_operations_typed:
  assumes "eval_unary uop u = Some ru" and "eval_binary bop a b = Some rb"
    and "eval_intrinsic m iop (c # cs) = Some ri"
  shows "scalar_ty ru = scalar_ty u \<and> scalar_ty rb = scalar_ty a \<and> scalar_ty b = scalar_ty a
    \<and> scalar_ty ri = scalar_ty c
    \<and> map_option scalar_ty (eval_cast v to) =
        (if scalar_ty v = TBool \<or> to = TBool then None else Some to)"
  using assms by (simp add: eval_unary_ty eval_binary_ty eval_intrinsic_ty eval_cast_ty)

theorem scalar_operations_typed_witness:
  "scalar_ty (I32 (- 3)) = scalar_ty (I32 3) \<and> scalar_ty (I64 5) = scalar_ty (I64 2)
    \<and> scalar_ty (I32 4) = scalar_ty (I32 (- 4))"
  using scalar_operations_typed [of Negate "I32 3" "I32 (- 3)" Add "I64 2" "I64 3" "I64 5"
      "\<lparr>libm_f32 = \<lambda>_ _. 0, libm_f64 = \<lambda>_ _. 0\<rparr>" Abs
      "I32 (- 4)" "[]" "I32 4" "Bool True" TI32]
  by (simp add: eval_intrinsic_def integer_intrinsic_def wrapping_abs_def)


end
