(* ===== verification/Int_Range.thy ===== *)
theory Int_Range
  imports Constant_Eval
begin

section \<open>Integer intervals\<close>

text \<open>
  The interval domain of the range analysis (\<open>IntegerRange\<close> and the \<open>range_of_binary\<close> group of
  \<open>onda_mir/src/analysis.rs\<close>). The bounds are \<open>i64\<close> values; every computation that could leave
  that width is done by the code in \<open>i128\<close>, so the model computes on integers.
\<close>

record integer_range =
  ir_scalar :: scalar_type
  ir_min :: int
  ir_max :: int

fun integer_type_bounds :: "scalar_type \<Rightarrow> (int \<times> int) option" where
  "integer_type_bounds TI32 = Some (i32_min, i32_max)"
| "integer_type_bounds TI64 = Some (i64_min, i64_max)"
| "integer_type_bounds _ = None"

definition range_new :: "scalar_type \<Rightarrow> int \<Rightarrow> int \<Rightarrow> integer_range option" where
  "range_new scalar lo hi =
     (case integer_type_bounds scalar of
        None \<Rightarrow> None
      | Some (type_min, type_max) \<Rightarrow>
          if lo \<le> hi \<and> type_min \<le> lo \<and> hi \<le> type_max
          then Some \<lparr>ir_scalar = scalar, ir_min = lo, ir_max = hi\<rparr> else None)"

definition range_contains :: "integer_range \<Rightarrow> int \<Rightarrow> bool" where
  "range_contains r v \<longleftrightarrow> ir_min r \<le> v \<and> v \<le> ir_max r"

definition range_is_nonnegative :: "integer_range \<Rightarrow> bool" where
  "range_is_nonnegative r \<longleftrightarrow> 0 \<le> ir_min r"

definition range_full :: "scalar_type \<Rightarrow> integer_range option" where
  "range_full scalar =
     map_option (\<lambda>(lo, hi). \<lparr>ir_scalar = scalar, ir_min = lo, ir_max = hi\<rparr>)
       (integer_type_bounds scalar)"

fun range_singleton :: "scalar_value \<Rightarrow> integer_range option" where
  "range_singleton (I32 v) = range_new TI32 (sint v) (sint v)"
| "range_singleton (I64 v) = range_new TI64 (sint v) (sint v)"
| "range_singleton _ = None"

definition range_join :: "integer_range \<Rightarrow> integer_range \<Rightarrow> integer_range option" where
  "range_join a b =
     (if ir_scalar a = ir_scalar b
      then Some \<lparr>ir_scalar = ir_scalar a, ir_min = min (ir_min a) (ir_min b),
                 ir_max = max (ir_max a) (ir_max b)\<rparr>
      else None)"

definition checked_range :: "scalar_type \<Rightarrow> int \<Rightarrow> int \<Rightarrow> integer_range option" where
  "checked_range scalar lo hi =
     (case integer_type_bounds scalar of
        None \<Rightarrow> None
      | Some (type_min, type_max) \<Rightarrow>
          if lo < type_min \<or> type_max < hi then range_full scalar else range_new scalar lo hi)"

definition min4 :: "int \<Rightarrow> int \<Rightarrow> int \<Rightarrow> int \<Rightarrow> int" where
  "min4 a b c d = min (min a b) (min c d)"

definition max4 :: "int \<Rightarrow> int \<Rightarrow> int \<Rightarrow> int \<Rightarrow> int" where
  "max4 a b c d = max (max a b) (max c d)"

text \<open>The range spanned by the four results at the corners of two intervals.\<close>

definition corner_range ::
  "scalar_type \<Rightarrow> (int \<Rightarrow> int \<Rightarrow> int) \<Rightarrow> int \<Rightarrow> int \<Rightarrow> int \<Rightarrow> int \<Rightarrow> integer_range option" where
  "corner_range scalar f a b c d =
     checked_range scalar (min4 (f a c) (f a d) (f b c) (f b d))
       (max4 (f a c) (f a d) (f b c) (f b d))"

definition range_of_remainder :: "integer_range \<Rightarrow> integer_range \<Rightarrow> integer_range option" where
  "range_of_remainder lhs rhs =
     (let magnitude = max \<bar>ir_min rhs\<bar> \<bar>ir_max rhs\<bar>;
          maximum = max 0 (magnitude - 1)
      in if i64_max < maximum then None
         else range_new (ir_scalar lhs) (max (min (ir_min lhs) 0) (- maximum))
                (min (max (ir_max lhs) 0) maximum))"

definition range_of_and :: "integer_range \<Rightarrow> integer_range \<Rightarrow> integer_range option" where
  "range_of_and lhs rhs =
     (if 0 \<le> ir_min lhs \<or> 0 \<le> ir_min rhs
      then let maximum =
             (if 0 \<le> ir_min lhs \<and> 0 \<le> ir_min rhs then min (ir_max lhs) (ir_max rhs)
              else if 0 \<le> ir_min lhs then ir_max lhs
              else ir_max rhs)
           in range_new (ir_scalar lhs) 0 maximum
      else range_full (ir_scalar lhs))"

definition range_of_or_xor :: "integer_range \<Rightarrow> integer_range \<Rightarrow> integer_range option" where
  "range_of_or_xor lhs rhs =
     (if 0 \<le> ir_min lhs \<and> 0 \<le> ir_min rhs
      then let highest = ir_max lhs OR ir_max rhs;
               maximum = (if highest = 0 then 0 else 2 ^ bit_length (nat highest) - 1)
           in range_new (ir_scalar lhs) 0 maximum
      else range_full (ir_scalar lhs))"

definition shift_bits :: "scalar_type \<Rightarrow> int" where
  "shift_bits scalar = (if scalar = TI32 then 32 else 64)"

definition shift_bounds :: "integer_range \<Rightarrow> integer_range \<Rightarrow> (nat \<times> nat) option" where
  "shift_bounds lhs rhs =
     (let bits = shift_bits (ir_scalar lhs)
      in if ir_min rhs = ir_max rhs
         then let shift = nat (ir_min rhs mod 2 ^ 32 mod bits) in Some (shift, shift)
         else if 0 \<le> ir_min rhs \<and> ir_max rhs < bits
         then Some (nat (ir_min rhs), nat (ir_max rhs))
         else None)"

definition range_of_shift ::
  "(int \<Rightarrow> nat \<Rightarrow> int) \<Rightarrow> integer_range \<Rightarrow> integer_range \<Rightarrow> integer_range option" where
  "range_of_shift f lhs rhs =
     (case shift_bounds lhs rhs of
        None \<Rightarrow> range_full (ir_scalar lhs)
      | Some (min_shift, max_shift) \<Rightarrow>
          corner_range (ir_scalar lhs) (\<lambda>v s. f v (nat s)) (ir_min lhs) (ir_max lhs)
            (int min_shift) (int max_shift))"

definition range_of_binary ::
  "binary_op \<Rightarrow> integer_range \<Rightarrow> integer_range \<Rightarrow> integer_range option" where
  "range_of_binary op lhs rhs =
     (if ir_scalar lhs \<noteq> ir_scalar rhs then None
      else case op of
        Add \<Rightarrow> checked_range (ir_scalar lhs) (ir_min lhs + ir_min rhs) (ir_max lhs + ir_max rhs)
      | Subtract \<Rightarrow>
          checked_range (ir_scalar lhs) (ir_min lhs - ir_max rhs) (ir_max lhs - ir_min rhs)
      | Multiply \<Rightarrow>
          corner_range (ir_scalar lhs) (*) (ir_min lhs) (ir_max lhs) (ir_min rhs) (ir_max rhs)
      | Remainder \<Rightarrow>
          if \<not> range_contains rhs 0 then range_of_remainder lhs rhs else range_full (ir_scalar lhs)
      | Divide \<Rightarrow>
          if \<not> range_contains rhs 0
          then corner_range (ir_scalar lhs) (sdiv) (ir_min lhs) (ir_max lhs)
                 (ir_min rhs) (ir_max rhs)
          else range_full (ir_scalar lhs)
      | BitAnd \<Rightarrow> range_of_and lhs rhs
      | BitOr \<Rightarrow> range_of_or_xor lhs rhs
      | BitXor \<Rightarrow> range_of_or_xor lhs rhs
      | ShiftLeft \<Rightarrow> range_of_shift (\<lambda>v s. v * 2 ^ s) lhs rhs
      | ShiftRight \<Rightarrow> range_of_shift (\<lambda>v s. v div 2 ^ s) lhs rhs)"

fun integer_range_from_value_range :: "value_range \<Rightarrow> integer_range option" where
  "integer_range_from_value_range r =
     (case (range_min r, range_max r) of
        (I32 lo, I32 hi) \<Rightarrow> range_new TI32 (sint lo) (sint hi)
      | (I64 lo, I64 hi) \<Rightarrow> range_new TI64 (sint lo) (sint hi)
      | _ \<Rightarrow> None)"

definition integer_range_from_invariant :: "integer_range_invariant \<Rightarrow> integer_range option" where
  "integer_range_from_invariant r =
     integer_range_from_value_range \<lparr>range_min = inv_min r, range_max = inv_max r\<rparr>"



subsection \<open>What an interval describes\<close>

text \<open>The scalar values an interval stands for, and the intervals the constructors build.\<close>

definition range_has :: "integer_range \<Rightarrow> scalar_value \<Rightarrow> bool" where
  "range_has r v \<longleftrightarrow> scalar_ty v = ir_scalar r
     \<and> (\<exists>n. int_value v = Some n \<and> ir_min r \<le> n \<and> n \<le> ir_max r)"

definition range_wf :: "integer_range \<Rightarrow> bool" where
  "range_wf r \<longleftrightarrow> (case integer_type_bounds (ir_scalar r) of
     None \<Rightarrow> False
   | Some (lo, hi) \<Rightarrow> lo \<le> ir_min r \<and> ir_min r \<le> ir_max r \<and> ir_max r \<le> hi)"

abbreviation width_of :: "scalar_type \<Rightarrow> nat" where
  "width_of s \<equiv> nat (shift_bits s)"

lemma integer_type_bounds_width:
  "integer_type_bounds s = Some (lo, hi) \<Longrightarrow>
     lo = - (2 ^ (width_of s - 1)) \<and> hi = 2 ^ (width_of s - 1) - 1 \<and> 0 < width_of s"
  by (cases s) (auto simp: shift_bits_def)

lemma integer_type_bounds_wrap:
  assumes "integer_type_bounds s = Some (lo, hi)" and "lo \<le> x" and "x \<le> hi"
  shows "wrap_int (width_of s) x = x"
  using integer_type_bounds_width [OF assms(1)] assms(2,3)
  by (intro wrap_int_id) auto

lemma wrap_int_in_type:
  assumes "integer_type_bounds s = Some (lo, hi)"
  shows "lo \<le> wrap_int (width_of s) x \<and> wrap_int (width_of s) x \<le> hi"
proof -
  let ?w = "width_of s"
  have p: "(2::int) ^ ?w = 2 * 2 ^ (?w - 1)"
    using integer_type_bounds_width [OF assms] by (cases ?w) simp_all
  have "0 \<le> (x + 2 ^ (?w - 1)) mod 2 ^ ?w" and "(x + 2 ^ (?w - 1)) mod 2 ^ ?w < 2 ^ ?w"
    by simp_all
  then show ?thesis
    using integer_type_bounds_width [OF assms] p by (simp add: wrap_int_def)
qed

lemma range_new_wf: "range_new s lo hi = Some r \<Longrightarrow>
    range_wf r \<and> ir_scalar r = s \<and> ir_min r = lo \<and> ir_max r = hi"
  by (auto simp: range_new_def range_wf_def split: option.splits if_splits)

lemma range_full_wf: "range_full s = Some r \<Longrightarrow> range_wf r \<and> ir_scalar r = s"
  by (cases s) (auto simp: range_full_def range_wf_def)

lemma range_full_wraps:
  assumes "range_full s = Some r"
  shows "ir_min r \<le> wrap_int (width_of s) x \<and> wrap_int (width_of s) x \<le> ir_max r"
  using assms wrap_int_in_type by (auto simp: range_full_def split: option.splits)

lemma checked_range_wf: "checked_range s lo hi = Some r \<Longrightarrow> range_wf r \<and> ir_scalar r = s"
  by (auto simp: checked_range_def range_full_wf dest: range_new_wf range_full_wf
      split: option.splits if_splits)

lemma checked_range_wraps:
  assumes "checked_range s lo hi = Some r" and "lo \<le> x" and "x \<le> hi"
  shows "ir_min r \<le> wrap_int (width_of s) x \<and> wrap_int (width_of s) x \<le> ir_max r"
proof -
  obtain tlo thi where b: "integer_type_bounds s = Some (tlo, thi)"
    using assms(1) by (auto simp: checked_range_def split: option.splits)
  show ?thesis
  proof (cases "lo < tlo \<or> thi < hi")
    case True
    then show ?thesis using assms(1) b range_full_wraps by (simp add: checked_range_def)
  next
    case False
    then have "range_new s lo hi = Some r" using assms(1) b by (simp add: checked_range_def)
    moreover have "wrap_int (width_of s) x = x"
      using assms(2,3) False by (intro integer_type_bounds_wrap [OF b]) auto
    ultimately show ?thesis using assms(2,3) by (auto dest: range_new_wf)
  qed
qed

lemma checked_range_total:
  "integer_type_bounds s \<noteq> None \<Longrightarrow> lo \<le> hi \<Longrightarrow> checked_range s lo hi \<noteq> None"
  by (auto simp: checked_range_def range_full_def range_new_def split: prod.splits)

subsection \<open>Corners\<close>

definition between :: "int \<Rightarrow> int \<Rightarrow> int \<Rightarrow> bool" where
  "between a b x \<longleftrightarrow> min a b \<le> x \<and> x \<le> max a b"

lemma between_mono: "f a \<le> f x \<and> f x \<le> f b \<or> f b \<le> f x \<and> f x \<le> f a \<Longrightarrow> between (f a) (f b) (f x)"
  by (auto simp: between_def)

lemma corners:
  assumes "between (f a1 y) (f a2 y) (f x y)"
    and "between (f a1 b1) (f a1 b2) (f a1 y)" and "between (f a2 b1) (f a2 b2) (f a2 y)"
  shows "min4 (f a1 b1) (f a1 b2) (f a2 b1) (f a2 b2) \<le> f x y
    \<and> f x y \<le> max4 (f a1 b1) (f a1 b2) (f a2 b1) (f a2 b2)"
  using assms by (auto simp: between_def min4_def max4_def)

lemma min4_le_max4: "min4 a b c d \<le> max4 a b c d"
  by (simp add: min4_def max4_def)

lemma corner_range_sound:
  assumes "corner_range s f a1 a2 b1 b2 = Some r"
    and "between (f a1 y) (f a2 y) (f x y)"
    and "between (f a1 b1) (f a1 b2) (f a1 y)" and "between (f a2 b1) (f a2 b2) (f a2 y)"
  shows "ir_min r \<le> wrap_int (width_of s) (f x y) \<and> wrap_int (width_of s) (f x y) \<le> ir_max r"
  using corners [OF assms(2-4)] assms(1) unfolding corner_range_def
  by (intro checked_range_wraps) auto

lemma corner_range_wf: "corner_range s f a b c d = Some r \<Longrightarrow> range_wf r \<and> ir_scalar r = s"
  by (simp add: corner_range_def checked_range_wf)

lemma corner_range_total:
  "integer_type_bounds s \<noteq> None \<Longrightarrow> corner_range s f a b c d \<noteq> None"
  unfolding corner_range_def by (rule checked_range_total) (auto simp: min4_le_max4)

lemma between_mult:
  "a1 \<le> x \<Longrightarrow> x \<le> a2 \<Longrightarrow> between (a1 * y) (a2 * y) (x * (y::int))"
  "b1 \<le> y \<Longrightarrow> y \<le> b2 \<Longrightarrow> between (a * b1) (a * b2) (a * y)"
  by (auto simp: between_def min_le_iff_disj le_max_iff_disj mult_le_cancel_right
      mult_le_cancel_left)

lemma sdiv_pos_right: "0 < (b::int) \<Longrightarrow> a sdiv b = (if 0 \<le> a then a div b else - (- a div b))"
  by (auto simp: signed_divide_int_def sgn_if)

lemma sdiv_minus_right: "(a::int) sdiv (- b) = - (a sdiv b)"
  by (simp add: signed_divide_int_def sgn_if)

lemma sdiv_minus_left: "- (a::int) sdiv b = - (a sdiv b)"
  by (simp add: signed_divide_int_def sgn_if)

lemma sdiv_mono_left: "0 < (b::int) \<Longrightarrow> a \<le> a' \<Longrightarrow> a sdiv b \<le> a' sdiv b"
  apply (auto simp: sdiv_pos_right zdiv_mono1)
   apply (smt (verit) pos_imp_zdiv_nonneg_iff)
  done

lemma between_sdiv_left:
  assumes "a1 \<le> x" and "x \<le> a2" and "(y::int) \<noteq> 0"
  shows "between (a1 sdiv y) (a2 sdiv y) (x sdiv y)"
proof (cases "0 < y")
  case True
  then show ?thesis using assms by (auto simp: between_def sdiv_mono_left min_le_iff_disj le_max_iff_disj)
next
  case False
  then have "0 < - y" using assms(3) by simp
  then have "a1 sdiv (- y) \<le> x sdiv (- y) \<and> x sdiv (- y) \<le> a2 sdiv (- y)"
    using assms by (simp only: sdiv_mono_left)
  then show ?thesis by (auto simp: sdiv_minus_right between_def)
qed

lemma sdiv_antimono_right: "0 \<le> (a::int) \<Longrightarrow> 0 < b \<Longrightarrow> b \<le> b' \<Longrightarrow> a sdiv b' \<le> a sdiv b"
  by (simp add: sdiv_pos_right zdiv_mono2)

lemma between_sdiv_right_pos:
  assumes "0 < b1" and "b1 \<le> y" and "y \<le> b2"
  shows "between (a sdiv b1) (a sdiv b2) ((a::int) sdiv y)"
proof (cases "0 \<le> a")
  case True
  then have "a sdiv y \<le> a sdiv b1 \<and> a sdiv b2 \<le> a sdiv y"
    using assms by (auto intro: sdiv_antimono_right)
  then show ?thesis by (auto simp: between_def)
next
  case False
  then have "(- a) sdiv y \<le> (- a) sdiv b1 \<and> (- a) sdiv b2 \<le> (- a) sdiv y"
    using assms False by (intro conjI sdiv_antimono_right; linarith)
  then show ?thesis by (auto simp: between_def sdiv_minus_left)
qed

lemma between_sdiv_right:
  assumes "b1 \<le> y" and "y \<le> b2" and "0 < b1 \<or> b2 < 0"
  shows "between (a sdiv b1) (a sdiv b2) ((a::int) sdiv y)"
proof (cases "0 < b1")
  case True
  then show ?thesis using assms between_sdiv_right_pos by blast
next
  case False
  then have "between (a sdiv (- b2)) (a sdiv (- b1)) (a sdiv (- y))"
    using assms by (intro between_sdiv_right_pos) auto
  then show ?thesis by (auto simp: sdiv_minus_right between_def)
qed

lemma between_shl:
  fixes v :: int
  shows "a1 \<le> v \<Longrightarrow> v \<le> a2 \<Longrightarrow> between (a1 * 2 ^ s) (a2 * 2 ^ s) (v * 2 ^ s)"
    and "s1 \<le> s \<Longrightarrow> s \<le> s2 \<Longrightarrow> between (a * 2 ^ s1) (a * 2 ^ s2) (a * 2 ^ s)"
  by (intro between_mult; simp add: power_increasing)+

lemma between_shr:
  fixes v :: int
  shows "a1 \<le> v \<Longrightarrow> v \<le> a2 \<Longrightarrow> between (a1 div 2 ^ s) (a2 div 2 ^ s) (v div 2 ^ s)"
    and "s1 \<le> s \<Longrightarrow> s \<le> s2 \<Longrightarrow> between (a div 2 ^ s1) (a div 2 ^ s2) (a div 2 ^ s)"
proof -
  assume "a1 \<le> v" "v \<le> a2"
  then have "a1 div 2 ^ s \<le> v div 2 ^ s \<and> v div 2 ^ s \<le> a2 div 2 ^ s"
    by (simp add: zdiv_mono1)
  then show "between (a1 div 2 ^ s) (a2 div 2 ^ s) (v div 2 ^ s)"
    by (auto simp: between_def)
next
  have pos: "b div 2 ^ t \<le> b div 2 ^ u" if "u \<le> t" "0 \<le> b" for b :: int and t u :: nat
    using that by (intro zdiv_mono2) (simp_all add: power_increasing)
  have neg: "b div 2 ^ u \<le> b div 2 ^ t" if "u \<le> t" "b < 0" for b :: int and t u :: nat
    using that by (intro zdiv_mono2_neg) (simp_all add: power_increasing)
  assume "s1 \<le> s" "s \<le> s2"
  then show "between (a div 2 ^ s1) (a div 2 ^ s2) (a div 2 ^ s)"
    using pos [of s1 s a] pos [of s s2 a] neg [of s1 s a] neg [of s s2 a]
    by (cases "0 \<le> a") (auto simp: between_def)
qed



subsection \<open>Soundness of the binary transfer function\<close>

abbreviation int_in :: "integer_range \<Rightarrow> int \<Rightarrow> bool" where
  "int_in r n \<equiv> ir_min r \<le> n \<and> n \<le> ir_max r"

lemma range_of_remainder_sound:
  assumes "range_of_remainder l r = Some out" and "int_in l a" and "int_in r b" and "b \<noteq> 0"
  shows "int_in out (a smod b)"
proof -
  define m where "m = max 0 (max \<bar>ir_min r\<bar> \<bar>ir_max r\<bar> - 1)"
  have out: "ir_min out = max (min (ir_min l) 0) (- m)" "ir_max out = min (max (ir_max l) 0) m"
    using assms(1)
    by (auto simp: range_of_remainder_def Let_def m_def dest!: range_new_wf split: if_splits)
  define c where "c = a smod b"
  have "\<bar>c\<bar> < \<bar>b\<bar>" using assms(4) by (simp add: c_def smod_abs)
  moreover have "\<bar>b\<bar> \<le> max \<bar>ir_min r\<bar> \<bar>ir_max r\<bar>" using assms(3) by (auto simp: abs_le_iff)
  ultimately have "\<bar>c\<bar> \<le> m" by (simp add: m_def)
  moreover have "\<bar>c\<bar> \<le> \<bar>a\<bar>" unfolding c_def using assms(4) by (rule smod_abs_le)
  moreover have "0 \<le> a \<Longrightarrow> 0 \<le> c" "a \<le> 0 \<Longrightarrow> c \<le> 0"
    unfolding c_def using assms(4) smod_sgn by blast+
  ultimately show ?thesis using assms(2) unfolding out c_def [symmetric]
    by (cases "0 \<le> a") (auto simp: min_le_iff_disj le_max_iff_disj)
qed

lemma range_of_and_sound:
  assumes "range_of_and l r = Some out" and "int_in l a" and "int_in r b"
    and "wrap_int (width_of (ir_scalar l)) (a AND b) = a AND b"
  shows "int_in out (a AND b)"
proof (cases "0 \<le> ir_min l \<or> 0 \<le> ir_min r")
  case True
  have l: "0 \<le> ir_min l \<Longrightarrow> 0 \<le> a AND b \<and> a AND b \<le> ir_max l"
    using AND_upper1 [of a b] assms(2) by (auto intro: order_trans)
  have r: "0 \<le> ir_min r \<Longrightarrow> 0 \<le> a AND b \<and> a AND b \<le> ir_max r"
    using AND_upper2 [of b a] assms(3) by (auto intro: order_trans)
  show ?thesis
    using assms(1) l r True
    by (auto simp: range_of_and_def Let_def dest!: range_new_wf split: if_splits)
next
  case False
  then have "range_full (ir_scalar l) = Some out" using assms(1) by (simp add: range_of_and_def)
  from range_full_wraps [OF this, of "a AND b"] show ?thesis by (simp add: assms(4))
qed

lemma less_two_power_bit_length: "n < 2 ^ bit_length n"
proof (induction n rule: less_induct)
  case (less n)
  show ?case
  proof (cases "n = 0")
    case False
    then have "n div 2 < 2 ^ bit_length (n div 2)" using less by simp
    then have "n < 2 * 2 ^ bit_length (n div 2)" by linarith
    with False show ?thesis by (subst bit_length.simps) simp
  qed simp
qed

lemma or_xor_bound:
  fixes a b :: int
  assumes "0 \<le> a" "a \<le> m" and "0 \<le> b" "b \<le> n"
  shows "0 \<le> a OR b \<and> a OR b \<le> 2 ^ bit_length (nat (m OR n)) - 1
    \<and> 0 \<le> a XOR b \<and> a XOR b \<le> 2 ^ bit_length (nat (m OR n)) - 1"
proof -
  let ?k = "bit_length (nat (m OR n))"
  have mn: "m \<le> m OR n" "n \<le> m OR n"
    using or_greater_eq [of n m] or_greater_eq [of m n] assms by (auto simp: or.commute)
  have "nat (m OR n) < 2 ^ ?k" by (rule less_two_power_bit_length)
  then have "m OR n < 2 ^ ?k"
    using assms mn by (simp add: nat_less_iff)
  then have "a < 2 ^ ?k" "b < 2 ^ ?k" using assms mn by linarith+
  then show ?thesis
    using assms OR_upper [of a ?k b] XOR_upper [of a ?k b] by auto
qed

lemma range_of_or_xor_sound:
  assumes "range_of_or_xor l r = Some out" and "int_in l a" and "int_in r b"
    and "c = a OR b \<or> c = a XOR b"
    and "wrap_int (width_of (ir_scalar l)) c = c"
  shows "int_in out c"
proof (cases "0 \<le> ir_min l \<and> 0 \<le> ir_min r")
  case True
  have zero: "bit_length 0 = 0" by (subst bit_length.simps) simp
  have "int_in out c \<longleftrightarrow> 0 \<le> c \<and> c \<le> 2 ^ bit_length (nat (ir_max l OR ir_max r)) - 1"
    using True assms(1) zero
    by (auto simp: range_of_or_xor_def Let_def dest!: range_new_wf split: if_splits)
  with or_xor_bound [of a "ir_max l" b "ir_max r"] True assms show ?thesis by auto
next
  case False
  then have "range_full (ir_scalar l) = Some out" using assms(1)
    by (auto simp: range_of_or_xor_def)
  from range_full_wraps [OF this, of c] show ?thesis by (simp add: assms(5))
qed

lemma shift_bounds_sound:
  assumes "shift_bounds l r = Some (s1, s2)" and "int_in r b"
  shows "s1 \<le> nat (b mod shift_bits (ir_scalar l)) \<and> nat (b mod shift_bits (ir_scalar l)) \<le> s2"
proof (cases "ir_min r = ir_max r")
  case True
  let ?n = "shift_bits (ir_scalar l)"
  have "?n dvd 2 ^ 32" by (simp add: shift_bits_def)
  then have "ir_min r mod 2 ^ 32 mod ?n = ir_min r mod ?n" by (rule mod_mod_cancel)
  with True assms show ?thesis by (auto simp: shift_bounds_def Let_def)
next
  case False
  then have "0 \<le> ir_min r" "ir_max r < shift_bits (ir_scalar l)"
      "s1 = nat (ir_min r)" "s2 = nat (ir_max r)"
    using assms(1) by (auto simp: shift_bounds_def Let_def split: if_splits)
  then show ?thesis using assms(2) by (simp add: nat_le_eq_zle)
qed

lemma range_of_shift_sound:
  assumes "range_of_shift f l r = Some out" and "int_in l a" and "int_in r b"
    and "\<And>s v x y. x \<le> v \<Longrightarrow> v \<le> y \<Longrightarrow> between (f x s) (f y s) (f v s)"
    and "\<And>v s s1 s2. s1 \<le> s \<Longrightarrow> s \<le> s2 \<Longrightarrow> between (f v s1) (f v s2) (f v s)"
  shows "int_in out (wrap_int (width_of (ir_scalar l)) (f a (nat (b mod shift_bits (ir_scalar l)))))"
proof (cases "shift_bounds l r")
  case None
  then show ?thesis using assms(1) range_full_wraps by (simp add: range_of_shift_def)
next
  case (Some p)
  obtain s1 s2 where p: "p = (s1, s2)" by fastforce
  let ?s = "nat (b mod shift_bits (ir_scalar l))"
  have "corner_range (ir_scalar l) (\<lambda>v s. f v (nat s)) (ir_min l) (ir_max l) (int s1) (int s2)
      = Some out"
    using assms(1) Some p by (simp add: range_of_shift_def)
  from corner_range_sound [OF this, of "int ?s" a]
  have "between (f (ir_min l) ?s) (f (ir_max l) ?s) (f a ?s) \<Longrightarrow>
      between (f (ir_min l) s1) (f (ir_min l) s2) (f (ir_min l) ?s) \<Longrightarrow>
      between (f (ir_max l) s1) (f (ir_max l) s2) (f (ir_max l) ?s) \<Longrightarrow> ?thesis"
    by (simp only: nat_int)
  then show ?thesis
    using assms(2,4,5) shift_bounds_sound [OF _ assms(3), of l s1 s2] Some p by blast
qed



text \<open>The wrapped result of an integer operation lies in the computed interval.\<close>

lemma range_of_binary_int:
  assumes "range_of_binary op l r = Some out" and "int_in l a" and "int_in r b"
    and "op \<in> {Divide, Remainder} \<longrightarrow> b \<noteq> 0"
    and bits: "op \<in> {Remainder, BitAnd, BitOr, BitXor} \<Longrightarrow>
      wrap_int w (integer_spec w op a b) = integer_spec w op a b"
    and w: "w = width_of (ir_scalar l)"
  shows "int_in out (wrap_int w (integer_spec w op a b))"
proof -
  note rb = assms(1) [unfolded range_of_binary_def]
  have pos: "0 \<le> shift_bits (ir_scalar l)" by (simp add: shift_bits_def)
  show ?thesis
  proof (cases op)
    case Add
    then have "checked_range (ir_scalar l) (ir_min l + ir_min r) (ir_max l + ir_max r) = Some out"
      using rb by (simp split: if_splits)
    from checked_range_wraps [OF this, of "a + b"] show ?thesis
      using Add assms(2,3) by (simp add: w)
  next
    case Subtract
    then have "checked_range (ir_scalar l) (ir_min l - ir_max r) (ir_max l - ir_min r) = Some out"
      using rb by (simp split: if_splits)
    from checked_range_wraps [OF this, of "a - b"] show ?thesis
      using Subtract assms(2,3) by (simp add: w)
  next
    case Multiply
    then have "corner_range (ir_scalar l) (*) (ir_min l) (ir_max l) (ir_min r) (ir_max r) = Some out"
      using rb by (simp split: if_splits)
    from corner_range_sound [OF this, of b a] show ?thesis
      using Multiply assms(2,3) between_mult by (simp add: w)
  next
    case Divide
    show ?thesis
    proof (cases "range_contains r 0")
      case True
      with Divide rb have "range_full (ir_scalar l) = Some out" by (simp split: if_splits)
      then show ?thesis unfolding w by (rule range_full_wraps)
    next
      case False
      with Divide rb have c: "corner_range (ir_scalar l) (sdiv) (ir_min l) (ir_max l)
          (ir_min r) (ir_max r) = Some out" by (simp split: if_splits)
      have "0 < ir_min r \<or> ir_max r < 0" using False assms(3) by (auto simp: range_contains_def)
      with corner_range_sound [OF c, of b a] show ?thesis
        using Divide assms(2-4) between_sdiv_left between_sdiv_right by (simp add: w)
    qed
  next
    case Remainder
    show ?thesis
    proof (cases "range_contains r 0")
      case True
      with Remainder rb have "range_full (ir_scalar l) = Some out" by (simp split: if_splits)
      then show ?thesis unfolding w by (rule range_full_wraps)
    next
      case False
      with Remainder rb have "range_of_remainder l r = Some out" by (simp split: if_splits)
      from range_of_remainder_sound [OF this assms(2,3)] show ?thesis
        using Remainder assms(4) bits by simp
    qed
  next
    case BitAnd
    then have "range_of_and l r = Some out" using rb by (simp split: if_splits)
    from range_of_and_sound [OF this assms(2,3)] show ?thesis using BitAnd bits w by simp
  next
    case BitOr
    then have "range_of_or_xor l r = Some out" using rb by (simp split: if_splits)
    from range_of_or_xor_sound [OF this assms(2,3), of "a OR b"] show ?thesis
      using BitOr bits w by simp
  next
    case BitXor
    then have "range_of_or_xor l r = Some out" using rb by (simp split: if_splits)
    from range_of_or_xor_sound [OF this assms(2,3), of "a XOR b"] show ?thesis
      using BitXor bits w by simp
  next
    case ShiftLeft
    then have "range_of_shift (\<lambda>v s. v * 2 ^ s) l r = Some out" using rb by (simp split: if_splits)
    from range_of_shift_sound [OF this assms(2,3) between_shl] show ?thesis
      using ShiftLeft by (simp add: w pos)
  next
    case ShiftRight
    then have "range_of_shift (\<lambda>v s. v div 2 ^ s) l r = Some out" using rb by (simp split: if_splits)
    from range_of_shift_sound [OF this assms(2,3) between_shr] show ?thesis
      using ShiftRight by (simp add: w pos)
  qed
qed

lemma bit_results_fit:
  fixes a b :: "'a::len word"
  assumes "op \<in> {Remainder, BitAnd, BitOr, BitXor}" and "op = Remainder \<Longrightarrow> b \<noteq> 0"
  shows "wrap_int LENGTH('a) (integer_spec LENGTH('a) op (sint a) (sint b))
    = integer_spec LENGTH('a) op (sint a) (sint b)"
proof -
  have "wrap_int LENGTH('a) (sint a smod sint b) = sint a smod sint b" if "b \<noteq> 0"
  proof (rule wrap_int_id)
    have nz: "sint b \<noteq> 0" using that word_eq_iff_sint [of b 0] by simp
    have "\<bar>sint a smod sint b\<bar> < \<bar>sint b\<bar>" using nz by (simp add: smod_abs)
    then show "- (2 ^ (LENGTH('a) - 1)) \<le> sint a smod sint b"
        "sint a smod sint b < 2 ^ (LENGTH('a) - 1)"
      using sint_ge [of b] sint_lt [of b] by linarith+
  qed simp
  moreover have "wrap_int LENGTH('a) (sint a AND sint b) = sint a AND sint b"
    "wrap_int LENGTH('a) (sint a OR sint b) = sint a OR sint b"
    "wrap_int LENGTH('a) (sint a XOR sint b) = sint a XOR sint b"
    using wrap_int_sint [of "a AND b"] wrap_int_sint [of "a OR b"] wrap_int_sint [of "a XOR b"]
    by (simp_all only: signed_and_eq signed_or_eq signed_xor_eq)
  ultimately show ?thesis using assms by auto
qed

lemma range_has_I32 [simp]: "range_has r (I32 v) \<longleftrightarrow> ir_scalar r = TI32 \<and> int_in r (sint v)"
  by (auto simp: range_has_def)

lemma range_has_I64 [simp]: "range_has r (I64 v) \<longleftrightarrow> ir_scalar r = TI64 \<and> int_in r (sint v)"
  by (auto simp: range_has_def)

lemma range_has_other [simp]: "\<not> range_has r (F32 x)" "\<not> range_has r (F64 y)" "\<not> range_has r (Bool z)"
  by (auto simp: range_has_def)

lemma range_has_cases:
  assumes "range_has r v"
  obtains x where "v = I32 x" | x where "v = I64 x"
  using assms by (cases v) (auto simp: range_has_def)

lemma range_of_binary_wf:
  assumes "range_of_binary op l r = Some out"
  shows "range_wf out \<and> ir_scalar out = ir_scalar l"
  using assms unfolding range_of_binary_def range_of_shift_def range_of_remainder_def
    range_of_and_def range_of_or_xor_def Let_def
  by (auto dest: range_new_wf range_full_wf checked_range_wf corner_range_wf
      split: if_splits binary_op.splits option.splits prod.splits)

lemma range_wf_bounds: "range_wf r \<Longrightarrow> integer_type_bounds (ir_scalar r) \<noteq> None"
  by (auto simp: range_wf_def split: option.splits)

lemma range_of_binary_word:
  fixes x y :: "'a::len word"
  assumes "range_of_binary op l r = Some out" and "int_in l (sint x)" and "int_in r (sint y)"
    and "\<not> (op \<in> {Divide, Remainder} \<and> y = 0)" and w: "LENGTH('a) = width_of (ir_scalar l)"
  shows "int_in out (sint (word_of_int (integer_spec LENGTH('a) op (sint x) (sint y)) :: 'a word))"
  unfolding sint_wrap
proof (rule range_of_binary_int [OF assms(1-3) _ _ w])
  show "op \<in> {Divide, Remainder} \<longrightarrow> sint y \<noteq> 0"
    using assms(4) word_eq_iff_sint [of y 0] by auto
  show "op \<in> {Remainder, BitAnd, BitOr, BitXor} \<Longrightarrow>
      wrap_int LENGTH('a) (integer_spec LENGTH('a) op (sint x) (sint y))
      = integer_spec LENGTH('a) op (sint x) (sint y)"
    using assms(4) by (intro bit_results_fit) auto
qed

lemma range_of_binary_sound:
  assumes "range_of_binary op l r = Some out" and "range_has l a" and "range_has r b"
    and "eval_binary op a b = Some v"
  shows "range_has out v"
proof -
  have "ir_scalar l = ir_scalar r"
    using assms(1) by (simp only: range_of_binary_def split: if_splits) simp
  with range_of_binary_wf [OF assms(1)]
  have sc: "ir_scalar r = ir_scalar l" "ir_scalar out = ir_scalar l" by simp_all
  from assms(2) show ?thesis
  proof (cases rule: range_has_cases)
    case (1 x)
    then have l: "ir_scalar l = TI32" "int_in l (sint x)" using assms(2) by auto
    obtain y where y: "b = I32 y" "int_in r (sint y)"
      using assms(3) sc l by (cases b) simp_all
    have v: "\<not> (op \<in> {Divide, Remainder} \<and> y = 0)"
        "v = I32 (word_of_int (integer_spec 32 op (sint x) (sint y)))"
      using assms(4) by (auto simp: 1 y fold_integer_binary_eq split: if_splits)
    from range_of_binary_word [OF assms(1) l(2) y(2) v(1)] show ?thesis
      unfolding v(2) using l sc by (simp add: shift_bits_def)
  next
    case (2 x)
    then have l: "ir_scalar l = TI64" "int_in l (sint x)" using assms(2) by auto
    obtain y where y: "b = I64 y" "int_in r (sint y)"
      using assms(3) sc l by (cases b) simp_all
    have v: "\<not> (op \<in> {Divide, Remainder} \<and> y = 0)"
        "v = I64 (word_of_int (integer_spec 64 op (sint x) (sint y)))"
      using assms(4) by (auto simp: 2 y fold_integer_binary_eq split: if_splits)
    from range_of_binary_word [OF assms(1) l(2) y(2) v(1)] show ?thesis
      unfolding v(2) using l sc by (simp add: shift_bits_def)
  qed
qed

text \<open>On well-formed operands of one scalar type the transfer function always answers.\<close>

lemma range_new_total:
  assumes "integer_type_bounds s = Some (lo, hi)" and "lo \<le> a" and "a \<le> b" and "b \<le> hi"
  shows "range_new s a b \<noteq> None"
  using assms by (simp add: range_new_def)

lemma range_wf_obtain:
  assumes "range_wf r"
  obtains lo hi where "integer_type_bounds (ir_scalar r) = Some (lo, hi)" "lo \<le> ir_min r"
    "ir_min r \<le> ir_max r" "ir_max r \<le> hi" "lo < 0" "0 < hi" "i64_min \<le> lo" "hi \<le> i64_max"
    "hi = 2 ^ (width_of (ir_scalar r) - 1) - 1"
  using assms by (cases "ir_scalar r") (auto simp: range_wf_def shift_bits_def)

lemma range_of_remainder_total:
  assumes "range_wf l" and "range_wf r" and "ir_scalar l = ir_scalar r"
  shows "range_of_remainder l r \<noteq> None"
proof -
  obtain lo hi where b: "integer_type_bounds (ir_scalar l) = Some (lo, hi)" "lo \<le> ir_min l"
      "ir_min l \<le> ir_max l" "ir_max l \<le> hi" "lo < 0" "0 < hi"
    using assms(1) by (rule range_wf_obtain)
  obtain lo' hi' where b': "lo' \<le> ir_min r" "ir_min r \<le> ir_max r" "ir_max r \<le> hi'"
      "i64_min \<le> lo'" "hi' \<le> i64_max"
    using assms(2) by (rule range_wf_obtain)
  define m where "m = max 0 (max \<bar>ir_min r\<bar> \<bar>ir_max r\<bar> - 1)"
  have m: "0 \<le> m" by (simp add: m_def)
  have "max \<bar>ir_min r\<bar> \<bar>ir_max r\<bar> \<le> i64_max + 1" using b' by (simp add: abs_le_iff)
  then have "m \<le> i64_max" by (simp add: m_def)
  moreover have "range_new (ir_scalar l) (max (min (ir_min l) 0) (- m)) (min (max (ir_max l) 0) m)
      \<noteq> None"
    using m b by (intro range_new_total [OF b(1)]) auto
  ultimately show ?thesis by (auto simp: range_of_remainder_def Let_def m_def [symmetric])
qed

lemma bit_length_le: "n < 2 ^ k \<Longrightarrow> bit_length n \<le> k"
proof (induction k arbitrary: n)
  case 0
  then show ?case by (subst bit_length.simps) simp
next
  case (Suc k)
  then have "bit_length (n div 2) \<le> k" by (simp add: less_mult_imp_div_less mult.commute)
  then show ?case by (subst bit_length.simps) simp
qed

lemma or_xor_total:
  assumes "range_wf l" and "range_wf r" and "ir_scalar l = ir_scalar r"
    and "0 \<le> ir_min l" and "0 \<le> ir_min r"
  shows "range_of_or_xor l r \<noteq> None"
proof -
  let ?h = "ir_max l OR ir_max r" and ?k = "width_of (ir_scalar l) - 1"
  obtain lo hi where b: "integer_type_bounds (ir_scalar l) = Some (lo, hi)" "lo \<le> ir_min l"
      "ir_min l \<le> ir_max l" "ir_max l \<le> hi" "lo < 0" "0 < hi" "hi = 2 ^ ?k - 1"
    using assms(1) by (rule range_wf_obtain)
  obtain lo' hi' where b': "integer_type_bounds (ir_scalar r) = Some (lo', hi')"
      "ir_min r \<le> ir_max r" "ir_max r \<le> hi'"
    using assms(2) by (rule range_wf_obtain)
  have r: "0 \<le> ir_max l" "0 \<le> ir_max r" "ir_max r \<le> hi" using b b' assms by auto
  have "?h < 2 ^ ?k" using b r by (intro OR_upper) auto
  moreover have "0 \<le> ?h" using r by simp
  ultimately have "nat ?h < 2 ^ ?k" by (simp add: nat_less_iff)
  then have "bit_length (nat ?h) \<le> ?k" by (rule bit_length_le)
  then have p: "(2::int) ^ bit_length (nat ?h) \<le> 2 ^ ?k" by (simp add: power_increasing)
  have "1 \<le> (2::int) ^ bit_length (nat ?h)" by simp
  then have "range_new (ir_scalar l) 0 (if ?h = 0 then 0 else 2 ^ bit_length (nat ?h) - 1) \<noteq> None"
    using b p \<open>1 \<le> 2 ^ bit_length (nat ?h)\<close>
    by (intro range_new_total [OF b(1)]) (auto split: if_splits simp del: power_increasing_iff)
  then show ?thesis using assms by (simp add: range_of_or_xor_def Let_def)
qed

lemma range_full_total: "integer_type_bounds s \<noteq> None \<Longrightarrow> range_full s \<noteq> None"
  by (auto simp: range_full_def)

lemma range_of_binary_total:
  assumes "range_wf l" and "range_wf r" and "ir_scalar l = ir_scalar r"
  shows "range_of_binary op l r \<noteq> None"
proof -
  let ?s = "ir_scalar l"
  obtain lo hi where b: "integer_type_bounds ?s = Some (lo, hi)" "lo \<le> ir_min l"
      "ir_min l \<le> ir_max l" "ir_max l \<le> hi" "lo < 0" "0 < hi"
    using assms(1) by (rule range_wf_obtain)
  obtain lo' hi' where b': "integer_type_bounds (ir_scalar r) = Some (lo', hi')"
      "lo' \<le> ir_min r" "ir_min r \<le> ir_max r" "ir_max r \<le> hi'"
    using assms(2) by (rule range_wf_obtain)
  have e: "lo' = lo" "hi' = hi" using b b' assms(3) by auto
  have full: "range_full ?s \<noteq> None" and corner: "corner_range ?s f p q u v \<noteq> None" for f p q u v
    using b(1) by (auto simp: range_full_def simp del: not_None_eq intro!: corner_range_total)
  have "checked_range ?s (ir_min l + ir_min r) (ir_max l + ir_max r) \<noteq> None"
    by (rule checked_range_total) (use b b' in auto)
  moreover have "checked_range ?s (ir_min l - ir_max r) (ir_max l - ir_min r) \<noteq> None"
    by (rule checked_range_total) (use b b' in auto)
  moreover have "range_of_shift f l r \<noteq> None" for f
    using full corner by (auto simp: range_of_shift_def split: option.splits)
  moreover have "range_of_or_xor l r \<noteq> None"
    using or_xor_total [OF assms] full by (auto simp: range_of_or_xor_def Let_def)
  moreover have "range_of_and l r \<noteq> None"
    using b b' e full range_new_total [OF b(1)]
    by (auto simp: range_of_and_def Let_def simp del: not_None_eq)
  moreover note range_of_remainder_total [OF assms] full corner
  ultimately show ?thesis
    using assms(3) by (cases op) (simp_all add: range_of_binary_def del: not_None_eq)
qed



subsection \<open>Construction and join\<close>

lemma range_singleton_has:
  "range_singleton v = Some r \<Longrightarrow> range_wf r \<and> range_has r v \<and> ir_scalar r = scalar_ty v"
  by (cases v) (auto dest: range_new_wf)

lemma range_singleton_total: "int_value v \<noteq> None \<Longrightarrow> range_singleton v \<noteq> None"
  by (cases v) (simp_all add: range_new_def sint_i32_bounds sint_i64_bounds)

lemma range_join_has:
  assumes "range_join a b = Some c" and "range_has a v \<or> range_has b v"
  shows "range_has c v"
  using assms by (auto simp: range_join_def range_has_def split: if_splits)

lemma range_join_wf:
  assumes "range_join a b = Some c" and "range_wf a" and "range_wf b"
  shows "range_wf c \<and> ir_scalar c = ir_scalar a"
  using assms by (auto simp: range_join_def range_wf_def split: if_splits option.splits)

lemma range_full_has:
  assumes "range_full (scalar_ty v) = Some r"
  shows "range_has r v"
  using assms sint_i32_bounds sint_i64_bounds by (cases v) (auto simp: range_full_def)



text \<open>Joining two intervals of one type gives the smallest interval that contains both, joining
  intervals of two types is refused, and a singleton interval contains exactly its value.\<close>

theorem range_join_least:
  assumes "range_wf a" and "range_wf b"
  shows "(ir_scalar a \<noteq> ir_scalar b \<longrightarrow> range_join a b = None)
    \<and> (ir_scalar a = ir_scalar b \<longrightarrow> (\<exists>c. range_join a b = Some c \<and> range_wf c
        \<and> (\<forall>n. range_contains a n \<or> range_contains b n \<longrightarrow> range_contains c n)
        \<and> (\<forall>d. (\<forall>n. range_contains a n \<or> range_contains b n \<longrightarrow> range_contains d n)
             \<longrightarrow> (\<forall>n. range_contains c n \<longrightarrow> range_contains d n))))
    \<and> (case range_singleton v of None \<Rightarrow> int_value v = None
       | Some s \<Rightarrow> \<forall>n. range_contains s n \<longleftrightarrow> int_value v = Some n)"
proof -
  have "\<exists>c. range_join a b = Some c \<and> range_wf c
        \<and> (\<forall>n. range_contains a n \<or> range_contains b n \<longrightarrow> range_contains c n)
        \<and> (\<forall>d. (\<forall>n. range_contains a n \<or> range_contains b n \<longrightarrow> range_contains d n)
             \<longrightarrow> (\<forall>n. range_contains c n \<longrightarrow> range_contains d n))"
    if eq: "ir_scalar a = ir_scalar b"
  proof -
    obtain c where c: "range_join a b = Some c" "ir_min c = min (ir_min a) (ir_min b)"
        "ir_max c = max (ir_max a) (ir_max b)"
      using eq by (simp add: range_join_def)
    have ab: "ir_min a \<le> ir_max a" "ir_min b \<le> ir_max b"
      using assms by (auto simp: range_wf_def split: option.splits)
    have "range_contains d n"
      if d: "\<forall>n. range_contains a n \<or> range_contains b n \<longrightarrow> range_contains d n"
        and n: "range_contains c n" for d n
    proof -
      have "range_contains d (ir_min a)" "range_contains d (ir_max a)"
        "range_contains d (ir_min b)" "range_contains d (ir_max b)"
        using d ab by (auto simp: range_contains_def)
      then show ?thesis using n c by (auto simp: range_contains_def)
    qed
    moreover have "range_wf c" using range_join_wf [OF c(1) assms] by simp
    moreover have "\<forall>n. range_contains a n \<or> range_contains b n \<longrightarrow> range_contains c n"
      using c by (auto simp: range_contains_def)
    ultimately show ?thesis using c(1) by blast
  qed
  moreover have "case range_singleton v of None \<Rightarrow> int_value v = None
       | Some s \<Rightarrow> \<forall>n. range_contains s n \<longleftrightarrow> int_value v = Some n"
    by (cases v) (auto simp: range_new_def range_contains_def sint_i32_bounds sint_i64_bounds)
  moreover have "ir_scalar a \<noteq> ir_scalar b \<longrightarrow> range_join a b = None"
    by (simp add: range_join_def)
  ultimately show ?thesis by blast
qed

theorem range_join_least_witness:
  "\<exists>c. range_join \<lparr>ir_scalar = TI64, ir_min = 0, ir_max = 4\<rparr>
      \<lparr>ir_scalar = TI64, ir_min = 9, ir_max = 12\<rparr> = Some c \<and> range_contains c 7"
proof -
  let ?a = "\<lparr>ir_scalar = TI64, ir_min = 0, ir_max = 4\<rparr>"
  let ?b = "\<lparr>ir_scalar = TI64, ir_min = 9, ir_max = 12\<rparr>"
  have w: "range_wf ?a" "range_wf ?b" by (simp_all add: range_wf_def)
  obtain c where c: "range_join ?a ?b = Some c"
      "\<forall>n. range_contains ?a n \<or> range_contains ?b n \<longrightarrow> range_contains c n"
    using range_join_least [OF w, of "Bool True"] by auto
  have "range_contains ?a 4" "range_contains ?b 9" by (simp_all add: range_contains_def)
  with c(2) have "range_contains c 4" "range_contains c 9" by blast+
  then have "range_contains c 7" by (simp add: range_contains_def)
  with c(1) show ?thesis by blast
qed

end
