(* ===== verification/Mir_Operands.thy ===== *)
theory Mir_Operands
  imports Int_Range
begin

section \<open>The values a statement mentions\<close>

text \<open>
  Every pass walks over the operands of right-hand sides, call arguments and statements. The
  operand list and the map over operands defined here are the common yardstick for those walks:
  a pass that rewrites operands is shown to be a map, a pass that collects operands is shown to
  enumerate this list. A \<open>shape\<close> is a construct whose operands have been erased.
\<close>

subsection \<open>Maps over operands\<close>

definition map_index :: "(mir_value \<Rightarrow> mir_value) \<Rightarrow> projection \<Rightarrow> projection" where
  "map_index f p = (case p of P_Field i \<Rightarrow> P_Field i | P_Index v b \<Rightarrow> P_Index (f v) b)"

definition map_place :: "(mir_value \<Rightarrow> mir_value) \<Rightarrow> place \<Rightarrow> place" where
  "map_place f p = p\<lparr>place_projections := map (map_index f) (place_projections p)\<rparr>"

definition map_buffer_ref :: "(mir_value \<Rightarrow> mir_value) \<Rightarrow> buffer_ref \<Rightarrow> buffer_ref" where
  "map_buffer_ref f b =
     (case b of BR_Direct i \<Rightarrow> BR_Direct i | BR_ArrayElement i n v m \<Rightarrow> BR_ArrayElement i n (f v) m)"

definition map_buffer_param_ref ::
  "(mir_value \<Rightarrow> mir_value) \<Rightarrow> buffer_param_ref \<Rightarrow> buffer_param_ref" where
  "map_buffer_param_ref f b =
     (case b of BP_Direct i \<Rightarrow> BP_Direct i | BP_ArrayElement i v m \<Rightarrow> BP_ArrayElement i (f v) m)"

definition map_slice_source :: "(mir_value \<Rightarrow> mir_value) \<Rightarrow> slice_source \<Rightarrow> slice_source" where
  "map_slice_source f s =
     (case s of
        SS_Place p \<Rightarrow> SS_Place (map_place f p)
      | SS_Buffer b c \<Rightarrow> SS_Buffer (map_buffer_ref f b) (map_option f c)
      | SS_BufferParam b c \<Rightarrow> SS_BufferParam (map_buffer_param_ref f b) (map_option f c)
      | SS_ConstData d \<Rightarrow> SS_ConstData d)"

definition map_rvalue :: "(mir_value \<Rightarrow> mir_value) \<Rightarrow> rvalue \<Rightarrow> rvalue" where
  "map_rvalue f r =
     (case r of
        R_Use v \<Rightarrow> R_Use (f v)
      | R_Load p \<Rightarrow> R_Load (map_place f p)
      | R_InitAll \<Rightarrow> R_InitAll
      | R_Unary op v \<Rightarrow> R_Unary op (f v)
      | R_Binary op a b \<Rightarrow> R_Binary op (f a) (f b)
      | R_Compare op a b \<Rightarrow> R_Compare op (f a) (f b)
      | R_Cast v to \<Rightarrow> R_Cast (f v) to
      | R_Intrinsic op vs \<Rightarrow> R_Intrinsic op (map f vs)
      | R_ProcessFrame v \<Rightarrow> R_ProcessFrame (f v)
      | R_NormalizeIndex i n b \<Rightarrow> R_NormalizeIndex (f i) (f n) b
      | R_InputLoad i el b fr \<Rightarrow> R_InputLoad i (map_option f el) b (f fr)
      | R_OutputLoad i el b fr \<Rightarrow> R_OutputLoad i (map_option f el) b (f fr)
      | R_BufferLoad bf ch i b \<Rightarrow> R_BufferLoad (map_buffer_ref f bf) (map_option f ch) (f i) b
      | R_BufferParamLoad bf ch i b \<Rightarrow>
          R_BufferParamLoad (map_buffer_param_ref f bf) (map_option f ch) (f i) b
      | R_BufferLen bf \<Rightarrow> R_BufferLen (map_buffer_ref f bf)
      | R_BufferChannels bf \<Rightarrow> R_BufferChannels (map_buffer_ref f bf)
      | R_BufferSampleRate bf \<Rightarrow> R_BufferSampleRate (map_buffer_ref f bf)
      | R_BufferIsBound bf \<Rightarrow> R_BufferIsBound (map_buffer_ref f bf)
      | R_BufferParamLen bf \<Rightarrow> R_BufferParamLen (map_buffer_param_ref f bf)
      | R_BufferParamChannels bf \<Rightarrow> R_BufferParamChannels (map_buffer_param_ref f bf)
      | R_BufferParamSampleRate bf \<Rightarrow> R_BufferParamSampleRate (map_buffer_param_ref f bf)
      | R_BufferParamIsBound bf \<Rightarrow> R_BufferParamIsBound (map_buffer_param_ref f bf)
      | R_ConstDataLoad d i b \<Rightarrow> R_ConstDataLoad d (f i) b
      | R_MakeSlice s st n b a \<Rightarrow> R_MakeSlice (map_slice_source f s) (f st) (f n) b a
      | R_SliceLoad s i b \<Rightarrow> R_SliceLoad (f s) (f i) b
      | R_SliceLen s \<Rightarrow> R_SliceLen (f s))"

definition map_argument :: "(mir_value \<Rightarrow> mir_value) \<Rightarrow> call_argument \<Rightarrow> call_argument" where
  "map_argument f a =
     (case a of
        A_Value v \<Rightarrow> A_Value (f v)
      | A_Place p \<Rightarrow> A_Place (map_place f p)
      | A_SliceElement s i b \<Rightarrow> A_SliceElement (f s) (f i) b
      | A_ArrayWindow p st b \<Rightarrow> A_ArrayWindow (map_place f p) (f st) b
      | A_SliceWindow s st b \<Rightarrow> A_SliceWindow (f s) (f st) b
      | A_Buffer b \<Rightarrow> A_Buffer (map_buffer_ref f b)
      | A_BufferParam b \<Rightarrow> A_BufferParam (map_buffer_param_ref f b)
      | A_BufferSpan b \<Rightarrow> A_BufferSpan b)"

definition map_copy :: "(mir_value \<Rightarrow> mir_value) \<Rightarrow> slice_copy \<Rightarrow> slice_copy" where
  "map_copy f c = \<lparr>copy_destination = f (copy_destination c), copy_source = f (copy_source c)\<rparr>"

text \<open>The operands of a statement itself; nested blocks are left alone.\<close>

definition map_kind :: "(mir_value \<Rightarrow> mir_value) \<Rightarrow> statement_kind \<Rightarrow> statement_kind" where
  "map_kind f k =
     (case k of
        S_Assign p r \<Rightarrow> S_Assign (map_place f p) (map_rvalue f r)
      | S_Call rs g as \<Rightarrow> S_Call rs g (map (map_argument f) as)
      | S_PublishDelegate d as \<Rightarrow> S_PublishDelegate d (map (map_argument f) as)
      | S_PublishLog l vs \<Rightarrow> S_PublishLog l (map f vs)
      | S_OutputStore i el b fr v \<Rightarrow> S_OutputStore i (map_option f el) b (f fr) (f v)
      | S_ControlOutputStore i el b v \<Rightarrow> S_ControlOutputStore i (map_option f el) b (f v)
      | S_BufferStore bf ch i v b \<Rightarrow>
          S_BufferStore (map_buffer_ref f bf) (map_option f ch) (f i) (f v) b
      | S_BufferParamStore bf ch i v b \<Rightarrow>
          S_BufferParamStore (map_buffer_param_ref f bf) (map_option f ch) (f i) (f v) b
      | S_SliceStore s i v b \<Rightarrow> S_SliceStore (f s) (f i) (f v) b
      | S_SliceFill s v \<Rightarrow> S_SliceFill (f s) (f v)
      | S_SliceCopy cs p \<Rightarrow> S_SliceCopy (map (map_copy f) cs) p
      | S_If c t e \<Rightarrow> S_If (f c) t e
      | S_Loop b \<Rightarrow> S_Loop b
      | S_Break \<Rightarrow> S_Break
      | S_Continue \<Rightarrow> S_Continue
      | S_Return vs \<Rightarrow> S_Return (map f vs))"

subsection \<open>Operand lists\<close>

definition index_operands :: "projection \<Rightarrow> mir_value list" where
  "index_operands p = (case p of P_Field _ \<Rightarrow> [] | P_Index v _ \<Rightarrow> [v])"

definition place_operands :: "place \<Rightarrow> mir_value list" where
  "place_operands p = concat (map index_operands (place_projections p))"

definition buffer_ref_operands :: "buffer_ref \<Rightarrow> mir_value list" where
  "buffer_ref_operands b = (case b of BR_Direct _ \<Rightarrow> [] | BR_ArrayElement _ _ v _ \<Rightarrow> [v])"

definition buffer_param_ref_operands :: "buffer_param_ref \<Rightarrow> mir_value list" where
  "buffer_param_ref_operands b = (case b of BP_Direct _ \<Rightarrow> [] | BP_ArrayElement _ v _ \<Rightarrow> [v])"

definition option_operands :: "mir_value option \<Rightarrow> mir_value list" where
  "option_operands v = (case v of None \<Rightarrow> [] | Some x \<Rightarrow> [x])"

definition slice_source_operands :: "slice_source \<Rightarrow> mir_value list" where
  "slice_source_operands s =
     (case s of
        SS_Place p \<Rightarrow> place_operands p
      | SS_Buffer b c \<Rightarrow> buffer_ref_operands b @ option_operands c
      | SS_BufferParam b c \<Rightarrow> buffer_param_ref_operands b @ option_operands c
      | SS_ConstData _ \<Rightarrow> [])"

definition rvalue_operands :: "rvalue \<Rightarrow> mir_value list" where
  "rvalue_operands r =
     (case r of
        R_Use v \<Rightarrow> [v]
      | R_Load p \<Rightarrow> place_operands p
      | R_InitAll \<Rightarrow> []
      | R_Unary _ v \<Rightarrow> [v]
      | R_Binary _ a b \<Rightarrow> [a, b]
      | R_Compare _ a b \<Rightarrow> [a, b]
      | R_Cast v _ \<Rightarrow> [v]
      | R_Intrinsic _ vs \<Rightarrow> vs
      | R_ProcessFrame v \<Rightarrow> [v]
      | R_NormalizeIndex i n _ \<Rightarrow> [i, n]
      | R_InputLoad _ el _ fr \<Rightarrow> option_operands el @ [fr]
      | R_OutputLoad _ el _ fr \<Rightarrow> option_operands el @ [fr]
      | R_BufferLoad bf ch i _ \<Rightarrow> buffer_ref_operands bf @ option_operands ch @ [i]
      | R_BufferParamLoad bf ch i _ \<Rightarrow> buffer_param_ref_operands bf @ option_operands ch @ [i]
      | R_BufferLen bf \<Rightarrow> buffer_ref_operands bf
      | R_BufferChannels bf \<Rightarrow> buffer_ref_operands bf
      | R_BufferSampleRate bf \<Rightarrow> buffer_ref_operands bf
      | R_BufferIsBound bf \<Rightarrow> buffer_ref_operands bf
      | R_BufferParamLen bf \<Rightarrow> buffer_param_ref_operands bf
      | R_BufferParamChannels bf \<Rightarrow> buffer_param_ref_operands bf
      | R_BufferParamSampleRate bf \<Rightarrow> buffer_param_ref_operands bf
      | R_BufferParamIsBound bf \<Rightarrow> buffer_param_ref_operands bf
      | R_ConstDataLoad _ i _ \<Rightarrow> [i]
      | R_MakeSlice s st n _ _ \<Rightarrow> slice_source_operands s @ [st, n]
      | R_SliceLoad s i _ \<Rightarrow> [s, i]
      | R_SliceLen s \<Rightarrow> [s])"

definition argument_operands :: "call_argument \<Rightarrow> mir_value list" where
  "argument_operands a =
     (case a of
        A_Value v \<Rightarrow> [v]
      | A_Place p \<Rightarrow> place_operands p
      | A_SliceElement s i _ \<Rightarrow> [s, i]
      | A_ArrayWindow p st _ \<Rightarrow> place_operands p @ [st]
      | A_SliceWindow s st _ \<Rightarrow> [s, st]
      | A_Buffer b \<Rightarrow> buffer_ref_operands b
      | A_BufferParam b \<Rightarrow> buffer_param_ref_operands b
      | A_BufferSpan _ \<Rightarrow> [])"

definition kind_operands :: "statement_kind \<Rightarrow> mir_value list" where
  "kind_operands k =
     (case k of
        S_Assign p r \<Rightarrow> place_operands p @ rvalue_operands r
      | S_Call _ _ as \<Rightarrow> concat (map argument_operands as)
      | S_PublishDelegate _ as \<Rightarrow> concat (map argument_operands as)
      | S_PublishLog _ vs \<Rightarrow> vs
      | S_OutputStore _ el _ fr v \<Rightarrow> option_operands el @ [fr, v]
      | S_ControlOutputStore _ el _ v \<Rightarrow> option_operands el @ [v]
      | S_BufferStore bf ch i v _ \<Rightarrow> buffer_ref_operands bf @ option_operands ch @ [i, v]
      | S_BufferParamStore bf ch i v _ \<Rightarrow>
          buffer_param_ref_operands bf @ option_operands ch @ [i, v]
      | S_SliceStore s i v _ \<Rightarrow> [s, i, v]
      | S_SliceFill s v \<Rightarrow> [s, v]
      | S_SliceCopy cs _ \<Rightarrow> concat (map (\<lambda>c. [copy_destination c, copy_source c]) cs)
      | S_If c _ _ \<Rightarrow> [c]
      | S_Loop _ \<Rightarrow> []
      | S_Break \<Rightarrow> []
      | S_Continue \<Rightarrow> []
      | S_Return vs \<Rightarrow> vs)"

lemmas operand_maps = map_index_def map_place_def map_buffer_ref_def map_buffer_param_ref_def
  map_slice_source_def map_rvalue_def map_argument_def map_copy_def map_kind_def

lemmas operand_lists = index_operands_def place_operands_def buffer_ref_operands_def
  buffer_param_ref_operands_def option_operands_def slice_source_operands_def
  rvalue_operands_def argument_operands_def kind_operands_def

subsection \<open>Operands of a mapped construct\<close>

named_theorems operand_simps "operands and shapes of mapped constructs"

lemma index_operands_map [operand_simps]: "index_operands (map_index f p) = map f (index_operands p)"
  by (cases p) (simp_all add: index_operands_def map_index_def)

lemma place_operands_map [operand_simps]: "place_operands (map_place f p) = map f (place_operands p)"
  by (simp add: place_operands_def map_place_def map_concat comp_def index_operands_map)

lemma place_base_map [operand_simps]: "place_base (map_place f p) = place_base p"
  by (simp add: map_place_def)

lemma buffer_ref_operands_map [operand_simps]:
  "buffer_ref_operands (map_buffer_ref f b) = map f (buffer_ref_operands b)"
  by (cases b) (simp_all add: buffer_ref_operands_def map_buffer_ref_def)

lemma buffer_param_ref_operands_map [operand_simps]:
  "buffer_param_ref_operands (map_buffer_param_ref f b) = map f (buffer_param_ref_operands b)"
  by (cases b) (simp_all add: buffer_param_ref_operands_def map_buffer_param_ref_def)

lemma option_operands_map [operand_simps]: "option_operands (map_option f v) = map f (option_operands v)"
  by (cases v) (simp_all add: option_operands_def)

lemma slice_source_operands_map [operand_simps]:
  "slice_source_operands (map_slice_source f s) = map f (slice_source_operands s)"
  by (cases s) (simp_all add: slice_source_operands_def map_slice_source_def operand_simps)

lemma rvalue_operands_map [operand_simps]:
  "rvalue_operands (map_rvalue f r) = map f (rvalue_operands r)"
  by (cases r) (simp_all add: rvalue_operands_def map_rvalue_def operand_simps)

lemma argument_operands_map [operand_simps]:
  "argument_operands (map_argument f a) = map f (argument_operands a)"
  by (cases a) (simp_all add: argument_operands_def map_argument_def operand_simps)

lemma kind_operands_map: "kind_operands (map_kind f k) = map f (kind_operands k)"
  by (cases k)
    (simp_all add: kind_operands_def map_kind_def operand_simps map_concat comp_def map_copy_def)

lemma map_index_comp [operand_simps]: "map_index f (map_index g p) = map_index (f \<circ> g) p"
  by (cases p) (simp_all add: map_index_def)

lemma map_place_comp [operand_simps]: "map_place f (map_place g p) = map_place (f \<circ> g) p"
  by (simp add: map_place_def map_index_comp)

lemma map_buffer_ref_comp [operand_simps]:
  "map_buffer_ref f (map_buffer_ref g b) = map_buffer_ref (f \<circ> g) b"
  by (cases b) (simp_all add: map_buffer_ref_def)

lemma map_buffer_param_ref_comp [operand_simps]:
  "map_buffer_param_ref f (map_buffer_param_ref g b) = map_buffer_param_ref (f \<circ> g) b"
  by (cases b) (simp_all add: map_buffer_param_ref_def)

lemma map_slice_source_comp [operand_simps]:
  "map_slice_source f (map_slice_source g s) = map_slice_source (f \<circ> g) s"
  by (cases s) (simp_all add: map_slice_source_def operand_simps option.map_comp)

lemma map_rvalue_comp [operand_simps]: "map_rvalue f (map_rvalue g r) = map_rvalue (f \<circ> g) r"
  by (cases r) (simp_all add: map_rvalue_def operand_simps option.map_comp)

lemma map_argument_comp [operand_simps]:
  "map_argument f (map_argument g a) = map_argument (f \<circ> g) a"
  by (cases a) (simp_all add: map_argument_def operand_simps)

lemma map_kind_comp: "map_kind f (map_kind g k) = map_kind (f \<circ> g) k"
  by (cases k)
    (simp_all add: map_kind_def operand_simps option.map_comp comp_def map_copy_def)

subsection \<open>Shapes\<close>

text \<open>A construct with its operands erased: everything an operation depends on besides the
  operand values.\<close>

definition erase :: "mir_value \<Rightarrow> mir_value" where
  "erase v = V_Local 0"

abbreviation "place_shape \<equiv> map_place erase"
abbreviation "rvalue_shape \<equiv> map_rvalue erase"
abbreviation "argument_shape \<equiv> map_argument erase"
abbreviation "kind_shape \<equiv> map_kind erase"

lemma erase_comp [operand_simps]: "erase \<circ> f = erase"
  by (simp add: erase_def fun_eq_iff)

lemma place_shape_map [operand_simps]: "place_shape (map_place f p) = place_shape p"
  by (simp add: operand_simps)

lemma rvalue_shape_map [operand_simps]: "rvalue_shape (map_rvalue f r) = rvalue_shape r"
  by (simp add: operand_simps)

lemma argument_shape_map [operand_simps]: "argument_shape (map_argument f a) = argument_shape a"
  by (simp add: operand_simps)

lemma kind_shape_map: "kind_shape (map_kind f k) = kind_shape k"
  by (simp add: map_kind_comp operand_simps)

subsection \<open>Induction over structured code\<close>

text \<open>Statements with nested blocks are \<open>If\<close> and \<open>Loop\<close>; all others are one case here.\<close>

definition has_blocks :: "statement_kind \<Rightarrow> bool" where
  "has_blocks k = (case k of S_If _ _ _ \<Rightarrow> True | S_Loop _ \<Rightarrow> True | _ \<Rightarrow> False)"

lemma has_blocks_simps [simp]: "has_blocks (S_If c t f)" "has_blocks (S_Loop b)"
  by (simp_all add: has_blocks_def)

primrec blocks_size_s :: "statement \<Rightarrow> nat" and blocks_size_k :: "statement_kind \<Rightarrow> nat"
  and blocks_size_b :: "block \<Rightarrow> nat" and blocks_size_l :: "statement list \<Rightarrow> nat" where
  "blocks_size_s (Statement k s) = Suc (blocks_size_k k)"
| "blocks_size_k (S_Assign p r) = 0"
| "blocks_size_k (S_Call rs f as) = 0"
| "blocks_size_k (S_PublishDelegate d as) = 0"
| "blocks_size_k (S_PublishLog l vs) = 0"
| "blocks_size_k (S_OutputStore i el b fr v) = 0"
| "blocks_size_k (S_ControlOutputStore i el b v) = 0"
| "blocks_size_k (S_BufferStore bf ch i v b) = 0"
| "blocks_size_k (S_BufferParamStore bp ch i v b) = 0"
| "blocks_size_k (S_SliceStore s i v b) = 0"
| "blocks_size_k (S_SliceFill s v) = 0"
| "blocks_size_k (S_SliceCopy cs p) = 0"
| "blocks_size_k (S_If c t f) = Suc (blocks_size_b t + blocks_size_b f)"
| "blocks_size_k (S_Loop b) = Suc (blocks_size_b b)"
| "blocks_size_k S_Break = 0"
| "blocks_size_k S_Continue = 0"
| "blocks_size_k (S_Return vs) = 0"
| "blocks_size_b (Block ss) = Suc (blocks_size_l ss)"
| "blocks_size_l [] = 0"
| "blocks_size_l (s # ss) = Suc (blocks_size_s s + blocks_size_l ss)"

lemma mir_induct [case_names Statement Simple If Loop Block Nil Cons]:
  assumes "\<And>k src. K k \<Longrightarrow> S (Statement k src)"
    and "\<And>k. \<not> has_blocks k \<Longrightarrow> K k"
    and "\<And>c t f. B t \<Longrightarrow> B f \<Longrightarrow> K (S_If c t f)"
    and "\<And>b. B b \<Longrightarrow> K (S_Loop b)"
    and "\<And>ss. L ss \<Longrightarrow> B (Block ss)"
    and "L []"
    and "\<And>s ss. S s \<Longrightarrow> L ss \<Longrightarrow> L (s # ss)"
  shows "S s" and "K k" and "B b" and "L ss"
  by (induction s and k and b and ss rule: blocks_size_s.induct blocks_size_k.induct
      blocks_size_b.induct blocks_size_l.induct)
    (auto intro: assms(1,3-7) assms(2) [unfolded has_blocks_def])

end
