(* ===== verification/Mir_Semantics.thy ===== *)
theory Mir_Semantics
  imports Mir_Operands
begin

section \<open>The meaning of structured MIR\<close>

text \<open>
  A reference semantics for function bodies, against which the passes are judged. A run-time
  value is a scalar or an opaque handle (an aggregate, a slice, a buffer); scalar operations mean
  what \<open>constant_eval.rs\<close> computes. Everything outside the body (memory, host tables, callees) is
  the record \<open>ops\<close> of functions over an uninterpreted world \<open>'w\<close>; they receive the shape of the
  construct and its operand values. A local array whose storage a slice may reach is \<open>sliced\<close>:
  the outside operations may read and change the contents of such locals only.

  Fuel bounds the iterations of loops and nothing else, so a pass that leaves the loops in place
  is an equality between evaluators at every fuel; \<open>None\<close> is running out of fuel. A failing
  operation is the outcome \<open>Trapped\<close>.
\<close>

subsection \<open>States\<close>

datatype 'x rt = Sc scalar_value | Opaque 'x

type_synonym 'x env = "local_id \<Rightarrow> 'x rt option"

datatype 'x outcome = Normal | Broke | Continued | Returned "'x rt list" | Trapped

type_synonym ('x, 'w) result = "'x outcome \<times> 'x env \<times> 'w"

record ('x, 'w) ops =
  op_libm :: libm
  op_sliced :: "local_id \<Rightarrow> bool"
  op_modes :: "passing_mode list list"
  op_rvalue :: "rvalue \<Rightarrow> 'x rt list \<Rightarrow> 'x rt option \<Rightarrow> 'x env \<Rightarrow> 'w \<Rightarrow> 'x rt option"
  op_update :: "place \<Rightarrow> 'x rt list \<Rightarrow> 'x rt option \<Rightarrow> 'x rt \<Rightarrow> 'x rt option"
  op_write :: "place \<Rightarrow> 'x rt list \<Rightarrow> 'x rt \<Rightarrow> 'w \<Rightarrow> 'w option"
  op_effect :: "statement_kind \<Rightarrow> 'x rt list \<Rightarrow> 'x rt option list \<Rightarrow> 'x env \<Rightarrow> 'w
    \<Rightarrow> ('x env \<times> 'w) option"
  op_call :: "function_id \<Rightarrow> call_argument list \<Rightarrow> 'x rt list \<Rightarrow> 'x rt option list \<Rightarrow> 'x env \<Rightarrow> 'w
    \<Rightarrow> ('x rt list \<times> 'x rt option list \<times> 'x env \<times> 'w) option"

subsection \<open>Right-hand sides\<close>

fun eval_value :: "'x env \<Rightarrow> mir_value \<Rightarrow> 'x rt option" where
  "eval_value e (V_Local l) = e l"
| "eval_value e (V_Constant c) = Some (Sc c)"

fun scalar_of :: "'x rt \<Rightarrow> scalar_value option" where
  "scalar_of (Sc c) = Some c"
| "scalar_of (Opaque _) = None"

definition eval_scalar :: "'x env \<Rightarrow> mir_value \<Rightarrow> scalar_value option" where
  "eval_scalar e v = Option.bind (eval_value e v) scalar_of"

definition eval_values :: "'x env \<Rightarrow> mir_value list \<Rightarrow> 'x rt list option" where
  "eval_values e vs = those (map (eval_value e) vs)"

definition sliced_part :: "('x, 'w) ops \<Rightarrow> 'x env \<Rightarrow> 'x env" where
  "sliced_part M e = (\<lambda>l. if op_sliced M l then e l else None)"

definition set_sliced :: "('x, 'w) ops \<Rightarrow> 'x env \<Rightarrow> 'x env \<Rightarrow> 'x env" where
  "set_sliced M e new = (\<lambda>l. if op_sliced M l then new l else e l)"

definition place_content :: "'x env \<Rightarrow> place \<Rightarrow> 'x rt option" where
  "place_content e p = (case place_base p of PB_Local l \<Rightarrow> e l | _ \<Rightarrow> None)"

definition rvalue_content :: "'x env \<Rightarrow> rvalue \<Rightarrow> 'x rt option" where
  "rvalue_content e r = (case r of R_Load p \<Rightarrow> place_content e p | _ \<Rightarrow> None)"

definition eval_rvalue :: "('x, 'w) ops \<Rightarrow> rvalue \<Rightarrow> 'x env \<Rightarrow> 'w \<Rightarrow> 'x rt option" where
  "eval_rvalue M r e w =
     (case r of
        R_Use v \<Rightarrow> eval_value e v
      | R_Unary op v \<Rightarrow>
          Option.bind (eval_scalar e v) (\<lambda>c. map_option Sc (eval_unary op c))
      | R_Binary op a b \<Rightarrow>
          Option.bind (eval_scalar e a) (\<lambda>x.
            Option.bind (eval_scalar e b) (\<lambda>y. map_option Sc (eval_binary op x y)))
      | R_Compare op a b \<Rightarrow>
          Option.bind (eval_scalar e a) (\<lambda>x.
            Option.bind (eval_scalar e b) (\<lambda>y. map_option (Sc \<circ> Bool) (eval_compare op x y)))
      | R_Cast v to \<Rightarrow> Option.bind (eval_scalar e v) (\<lambda>c. map_option Sc (eval_cast c to))
      | R_Intrinsic op vs \<Rightarrow>
          Option.bind (those (map (eval_scalar e) vs))
            (\<lambda>cs. map_option Sc (eval_intrinsic (op_libm M) op cs))
      | _ \<Rightarrow>
          Option.bind (eval_values e (rvalue_operands r))
            (\<lambda>vs. op_rvalue M (rvalue_shape r) vs (rvalue_content e r) (sliced_part M e) w))"

subsection \<open>Simple statements\<close>

text \<open>A simple statement has one successor: it ends normally or traps.\<close>

definition assign_place ::
  "('x, 'w) ops \<Rightarrow> place \<Rightarrow> 'x rt \<Rightarrow> 'x env \<Rightarrow> 'w \<Rightarrow> ('x env \<times> 'w) option" where
  "assign_place M p v e w =
     Option.bind (eval_values e (place_operands p)) (\<lambda>is.
       case place_base p of
         PB_Local l \<Rightarrow>
           (if place_projections p = [] then Some (e(l \<mapsto> v), w)
            else map_option (\<lambda>new. (e(l \<mapsto> new), w)) (op_update M (place_shape p) is (e l) v))
       | _ \<Rightarrow> map_option (\<lambda>w'. (e, w')) (op_write M (place_shape p) is v w))"

fun argument_content :: "'x env \<Rightarrow> call_argument \<Rightarrow> 'x rt option" where
  "argument_content e (A_Place p) = place_content e p"
| "argument_content e (A_ArrayWindow p _ _) = place_content e p"
| "argument_content e _ = None"

definition argument_local :: "call_argument \<Rightarrow> local_id option" where
  "argument_local a =
     (case a of
        A_Place p \<Rightarrow> (case place_base p of PB_Local l \<Rightarrow> Some l | _ \<Rightarrow> None)
      | A_ArrayWindow p _ _ \<Rightarrow> (case place_base p of PB_Local l \<Rightarrow> Some l | _ \<Rightarrow> None)
      | _ \<Rightarrow> None)"

definition argument_mode :: "passing_mode list list \<Rightarrow> function_id \<Rightarrow> nat \<Rightarrow> passing_mode option" where
  "argument_mode modes f i = Option.bind (nth_opt modes f) (\<lambda>ms. nth_opt ms i)"

definition argument_is_written :: "passing_mode list list \<Rightarrow> function_id \<Rightarrow> nat \<Rightarrow> bool" where
  "argument_is_written modes f i =
     (case argument_mode modes f i of Some m \<Rightarrow> is_writable_reference m | None \<Rightarrow> False)"

text \<open>The locals a call may change through its reference arguments, in argument order.\<close>

definition written_arguments ::
  "passing_mode list list \<Rightarrow> function_id \<Rightarrow> call_argument list \<Rightarrow> (local_id \<times> nat) list" where
  "written_arguments modes f as =
     concat (map (\<lambda>(i, a). if argument_is_written modes f i
                           then (case argument_local a of Some l \<Rightarrow> [(l, i)] | None \<Rightarrow> [])
                           else []) (enumerate 0 as))"

fun write_back :: "(local_id \<times> nat) list \<Rightarrow> 'x rt option list \<Rightarrow> 'x env \<Rightarrow> 'x env" where
  "write_back [] news e = e"
| "write_back ((l, i) # ws) news e =
     write_back ws news (case get_flat news i of Some v \<Rightarrow> e(l \<mapsto> v) | None \<Rightarrow> e)"

fun bind_results :: "local_id list \<Rightarrow> 'x rt list \<Rightarrow> 'x env \<Rightarrow> 'x env option" where
  "bind_results [] [] e = Some e"
| "bind_results (l # ls) (v # vs) e = bind_results ls vs (e(l \<mapsto> v))"
| "bind_results _ _ _ = None"

definition exec_call ::
  "('x, 'w) ops \<Rightarrow> local_id list \<Rightarrow> function_id \<Rightarrow> call_argument list \<Rightarrow> 'x env \<Rightarrow> 'w
     \<Rightarrow> ('x env \<times> 'w) option" where
  "exec_call M rs f as e w =
     Option.bind (eval_values e (concat (map argument_operands as))) (\<lambda>vs.
       Option.bind (op_call M f (map argument_shape as) vs (map (argument_content e) as)
           (sliced_part M e) w) (\<lambda>(res, news, sl, w').
         map_option (\<lambda>e'. (e', w'))
           (bind_results rs res
             (write_back (written_arguments (op_modes M) f as) news (set_sliced M e sl)))))"

fun kind_contents :: "'x env \<Rightarrow> statement_kind \<Rightarrow> 'x rt option list" where
  "kind_contents e (S_PublishDelegate _ as) = map (argument_content e) as"
| "kind_contents e _ = []"

definition exec_simple ::
  "('x, 'w) ops \<Rightarrow> statement_kind \<Rightarrow> 'x env \<Rightarrow> 'w \<Rightarrow> ('x env \<times> 'w) option" where
  "exec_simple M k e w =
     (case k of
        S_Assign p r \<Rightarrow> Option.bind (eval_rvalue M r e w) (\<lambda>v. assign_place M p v e w)
      | S_Call rs f as \<Rightarrow> exec_call M rs f as e w
      | _ \<Rightarrow>
          Option.bind (eval_values e (kind_operands k)) (\<lambda>vs.
            map_option (\<lambda>(sl, w'). (set_sliced M e sl, w'))
              (op_effect M (kind_shape k) vs (kind_contents e k) (sliced_part M e) w)))"

definition finish :: "('x env \<times> 'w) option \<Rightarrow> 'x env \<Rightarrow> 'w \<Rightarrow> ('x, 'w) result" where
  "finish r e w = (case r of Some (e', w') \<Rightarrow> (Normal, e', w') | None \<Rightarrow> (Trapped, e, w))"

subsection \<open>Control flow\<close>

text \<open>At most \<open>n\<close> iterations of a body.\<close>

fun iterate ::
  "nat \<Rightarrow> ('x env \<Rightarrow> 'w \<Rightarrow> ('x, 'w) result option) \<Rightarrow> 'x env \<Rightarrow> 'w \<Rightarrow> ('x, 'w) result option" where
  "iterate 0 body e w = None"
| "iterate (Suc n) body e w =
     (case body e w of
        None \<Rightarrow> None
      | Some (out, e', w') \<Rightarrow>
          (case out of
             Normal \<Rightarrow> iterate n body e' w'
           | Continued \<Rightarrow> iterate n body e' w'
           | Broke \<Rightarrow> Some (Normal, e', w')
           | _ \<Rightarrow> Some (out, e', w')))"

definition run_return :: "mir_value list \<Rightarrow> 'x env \<Rightarrow> 'w \<Rightarrow> ('x, 'w) result" where
  "run_return vs e w =
     (case eval_values e vs of Some rs \<Rightarrow> (Returned rs, e, w) | None \<Rightarrow> (Trapped, e, w))"

definition run_if ::
  "'x env \<Rightarrow> 'w \<Rightarrow> mir_value \<Rightarrow> ('x, 'w) result option \<Rightarrow> ('x, 'w) result option
     \<Rightarrow> ('x, 'w) result option" where
  "run_if e w c rt rf =
     (case eval_scalar e c of
        Some (Bool b) \<Rightarrow> if b then rt else rf
      | _ \<Rightarrow> Some (Trapped, e, w))"

primrec run_statement ::
    "statement \<Rightarrow> ('x, 'w) ops \<Rightarrow> nat \<Rightarrow> 'x env \<Rightarrow> 'w \<Rightarrow> ('x, 'w) result option"
  and run_kind ::
    "statement_kind \<Rightarrow> ('x, 'w) ops \<Rightarrow> nat \<Rightarrow> 'x env \<Rightarrow> 'w \<Rightarrow> ('x, 'w) result option"
  and run_block ::
    "block \<Rightarrow> ('x, 'w) ops \<Rightarrow> nat \<Rightarrow> 'x env \<Rightarrow> 'w \<Rightarrow> ('x, 'w) result option"
  and run_statements ::
    "statement list \<Rightarrow> ('x, 'w) ops \<Rightarrow> nat \<Rightarrow> 'x env \<Rightarrow> 'w \<Rightarrow> ('x, 'w) result option"
where
  "run_statement (Statement k src) = run_kind k"
| "run_kind (S_Assign p r) = (\<lambda>M n e w. Some (finish (exec_simple M (S_Assign p r) e w) e w))"
| "run_kind (S_Call rs f as) = (\<lambda>M n e w. Some (finish (exec_simple M (S_Call rs f as) e w) e w))"
| "run_kind (S_PublishDelegate d as) =
     (\<lambda>M n e w. Some (finish (exec_simple M (S_PublishDelegate d as) e w) e w))"
| "run_kind (S_PublishLog l vs) =
     (\<lambda>M n e w. Some (finish (exec_simple M (S_PublishLog l vs) e w) e w))"
| "run_kind (S_OutputStore i el b fr v) =
     (\<lambda>M n e w. Some (finish (exec_simple M (S_OutputStore i el b fr v) e w) e w))"
| "run_kind (S_ControlOutputStore i el b v) =
     (\<lambda>M n e w. Some (finish (exec_simple M (S_ControlOutputStore i el b v) e w) e w))"
| "run_kind (S_BufferStore bf ch i v b) =
     (\<lambda>M n e w. Some (finish (exec_simple M (S_BufferStore bf ch i v b) e w) e w))"
| "run_kind (S_BufferParamStore bp ch i v b) =
     (\<lambda>M n e w. Some (finish (exec_simple M (S_BufferParamStore bp ch i v b) e w) e w))"
| "run_kind (S_SliceStore s i v b) =
     (\<lambda>M n e w. Some (finish (exec_simple M (S_SliceStore s i v b) e w) e w))"
| "run_kind (S_SliceFill s v) =
     (\<lambda>M n e w. Some (finish (exec_simple M (S_SliceFill s v) e w) e w))"
| "run_kind (S_SliceCopy cs p) =
     (\<lambda>M n e w. Some (finish (exec_simple M (S_SliceCopy cs p) e w) e w))"
| "run_kind (S_If c t f) = (\<lambda>M n e w. run_if e w c (run_block t M n e w) (run_block f M n e w))"
| "run_kind (S_Loop body) = (\<lambda>M n e w. iterate n (run_block body M n) e w)"
| "run_kind S_Break = (\<lambda>M n e w. Some (Broke, e, w))"
| "run_kind S_Continue = (\<lambda>M n e w. Some (Continued, e, w))"
| "run_kind (S_Return vs) = (\<lambda>M n e w. Some (run_return vs e w))"
| "run_block (Block ss) = run_statements ss"
| "run_statements [] = (\<lambda>M n e w. Some (Normal, e, w))"
| "run_statements (s # ss) =
     (\<lambda>M n e w. case run_statement s M n e w of
        Some (Normal, e', w') \<Rightarrow> run_statements ss M n e' w'
      | r \<Rightarrow> r)"

definition is_control :: "statement_kind \<Rightarrow> bool" where
  "is_control k =
     (case k of S_If _ _ _ \<Rightarrow> True | S_Loop _ \<Rightarrow> True | S_Break \<Rightarrow> True | S_Continue \<Rightarrow> True
      | S_Return _ \<Rightarrow> True | _ \<Rightarrow> False)"

lemma run_kind_simple:
  "\<not> is_control k \<Longrightarrow> run_kind k M n e w = Some (finish (exec_simple M k e w) e w)"
  by (cases k) (simp_all add: is_control_def)

lemma run_statement_kind: "run_statement s M n e w = run_kind (stmt_kind s) M n e w"
  by (cases s) simp

lemma run_block_statements: "run_block b M n e w = run_statements (block_statements b) M n e w"
  by (cases b) simp

text \<open>Sequencing.\<close>

definition seq ::
  "('x, 'w) result option \<Rightarrow> ('x env \<Rightarrow> 'w \<Rightarrow> ('x, 'w) result option) \<Rightarrow> ('x, 'w) result option" where
  "seq r k = (case r of Some (Normal, e', w') \<Rightarrow> k e' w' | _ \<Rightarrow> r)"

lemma run_statements_Cons:
  "run_statements (s # ss) M n e w = seq (run_statement s M n e w) (run_statements ss M n)"
  by (simp add: seq_def split: option.splits prod.splits outcome.splits)

lemma run_statements_append:
  "run_statements (xs @ ys) M n e w = seq (run_statements xs M n e w) (run_statements ys M n)"
  by (induction xs arbitrary: e w)
    (simp_all add: seq_def split: option.splits prod.splits outcome.splits)

declare run_statements.simps(2) [simp del]

lemma iterate_cong [fundef_cong]:
  assumes "\<And>e w. f e w = g e w"
  shows "iterate n f e w = iterate n g e w"
  using assms by (metis ext)

text \<open>More fuel never changes a result.\<close>

lemma iterate_more:
  assumes "iterate n f e w = Some r" and "\<And>e w r. f e w = Some r \<Longrightarrow> g e w = Some r"
  shows "iterate (n + k) g e w = Some r"
  using assms(1)
proof (induction n arbitrary: e w)
  case (Suc n)
  then show ?case
    by (fastforce simp: assms(2) split: option.splits prod.splits outcome.splits)
qed simp

lemma run_more:
  shows "run_statement s M n e w = Some r \<Longrightarrow> run_statement s M (n + j) e w = Some r"
    and "run_kind k M n e w = Some r \<Longrightarrow> run_kind k M (n + j) e w = Some r"
    and "run_block b M n e w = Some r \<Longrightarrow> run_block b M (n + j) e w = Some r"
    and "run_statements ss M n e w = Some r \<Longrightarrow> run_statements ss M (n + j) e w = Some r"
proof (induction s and k and b and ss arbitrary: e w r and e w r and e w r and e w r
    rule: mir_induct)
  case (Simple k)
  then show ?case by (cases k) simp_all
next
  case (If c t f)
  then show ?case by (simp add: run_if_def split: option.splits scalar_value.splits if_splits)
next
  case (Loop body)
  then show ?case by (auto intro!: iterate_more)
next
  case (Cons s ss)
  from Cons.prems obtain out e' w' where 1: "run_statement s M n e w = Some (out, e', w')"
    by (cases "run_statement s M n e w") (auto simp: run_statements_Cons seq_def)
  show ?case
    using Cons.IH(1) [OF 1] Cons.IH(2) [of e' w' r] Cons.prems 1
    by (cases out) (auto simp: run_statements_Cons seq_def)
qed simp_all

subsection \<open>A machine without an outside world\<close>

text \<open>Scalar code runs on it; every operation that leaves the body traps.\<close>

definition bare_ops :: "('x, 'w) ops" where
  "bare_ops = \<lparr>op_libm = \<lparr>libm_f32 = \<lambda>_ _. 0, libm_f64 = \<lambda>_ _. 0\<rparr>, op_sliced = \<lambda>_. False,
     op_modes = [], op_rvalue = \<lambda>_ _ _ _ _. None, op_update = \<lambda>_ _ _ _. None,
     op_write = \<lambda>_ _ _ _. None, op_effect = \<lambda>_ _ _ _ _. None, op_call = \<lambda>_ _ _ _ _ _. None\<rparr>"

end
