(* ===== verification/Pass_Canonicalize.thy ===== *)
theory Pass_Canonicalize
  imports Mir_Semantics
begin

section \<open>Canonicalization\<close>

text \<open>
  Pass statistics, constant folding, control-flow summaries and the structured cleanup of
  \<open>onda_mir/src/passes.rs\<close>. A pass that mutates a program and its \<open>PassStats\<close> is a
  function returning both.
\<close>

subsection \<open>Statistics\<close>

record pass_stats =
  ps_iterations :: nat
  ps_propagated_values :: nat
  ps_propagated_copies :: nat
  ps_folded_rvalues :: nat
  ps_simplified_branches :: nat
  ps_removed_unreachable_statements :: nat
  ps_removed_dead_assignments :: nat
  ps_removed_locals :: nat
  ps_promoted_state_slots :: nat
  ps_eliminated_common_subexpressions :: nat
  ps_algebraic_simplifications :: nat
  ps_eliminated_bounds_checks :: nat
  ps_removed_function_parameters :: nat
  ps_removed_functions :: nat
  ps_distributed_loops :: nat

definition stats_default :: pass_stats where
  "stats_default = \<lparr>ps_iterations = 0, ps_propagated_values = 0, ps_propagated_copies = 0,
     ps_folded_rvalues = 0, ps_simplified_branches = 0, ps_removed_unreachable_statements = 0,
     ps_removed_dead_assignments = 0, ps_removed_locals = 0, ps_promoted_state_slots = 0,
     ps_eliminated_common_subexpressions = 0, ps_algebraic_simplifications = 0,
     ps_eliminated_bounds_checks = 0, ps_removed_function_parameters = 0,
     ps_removed_functions = 0, ps_distributed_loops = 0\<rparr>"

abbreviation u32_max :: nat where "u32_max \<equiv> 4294967295"

text \<open>The two counters of whole functions and loops are added without saturation; the sum of two
  counts of items of one program stays far below the width.\<close>

definition stats_merge :: "pass_stats \<Rightarrow> pass_stats \<Rightarrow> pass_stats" where
  "stats_merge s t = \<lparr>
     ps_iterations = sat_add u32_max (ps_iterations s) (ps_iterations t),
     ps_propagated_values = sat_add_u64 (ps_propagated_values s) (ps_propagated_values t),
     ps_propagated_copies = sat_add_u64 (ps_propagated_copies s) (ps_propagated_copies t),
     ps_folded_rvalues = sat_add_u64 (ps_folded_rvalues s) (ps_folded_rvalues t),
     ps_simplified_branches = sat_add_u64 (ps_simplified_branches s) (ps_simplified_branches t),
     ps_removed_unreachable_statements =
       sat_add_u64 (ps_removed_unreachable_statements s) (ps_removed_unreachable_statements t),
     ps_removed_dead_assignments =
       sat_add_u64 (ps_removed_dead_assignments s) (ps_removed_dead_assignments t),
     ps_removed_locals = sat_add_u64 (ps_removed_locals s) (ps_removed_locals t),
     ps_promoted_state_slots = sat_add_u64 (ps_promoted_state_slots s) (ps_promoted_state_slots t),
     ps_eliminated_common_subexpressions =
       sat_add_u64 (ps_eliminated_common_subexpressions s) (ps_eliminated_common_subexpressions t),
     ps_algebraic_simplifications =
       sat_add_u64 (ps_algebraic_simplifications s) (ps_algebraic_simplifications t),
     ps_eliminated_bounds_checks =
       sat_add_u64 (ps_eliminated_bounds_checks s) (ps_eliminated_bounds_checks t),
     ps_removed_function_parameters =
       sat_add_u64 (ps_removed_function_parameters s) (ps_removed_function_parameters t),
     ps_removed_functions = ps_removed_functions s + ps_removed_functions t,
     ps_distributed_loops = ps_distributed_loops s + ps_distributed_loops t\<rparr>"

definition stats_changed :: "pass_stats \<Rightarrow> bool" where
  "stats_changed s \<longleftrightarrow>
     ps_propagated_values s \<noteq> 0 \<or> ps_propagated_copies s \<noteq> 0 \<or> ps_folded_rvalues s \<noteq> 0
   \<or> ps_simplified_branches s \<noteq> 0 \<or> ps_removed_unreachable_statements s \<noteq> 0
   \<or> ps_removed_dead_assignments s \<noteq> 0 \<or> ps_removed_locals s \<noteq> 0
   \<or> ps_promoted_state_slots s \<noteq> 0 \<or> ps_eliminated_common_subexpressions s \<noteq> 0
   \<or> ps_algebraic_simplifications s \<noteq> 0 \<or> ps_eliminated_bounds_checks s \<noteq> 0
   \<or> ps_removed_function_parameters s \<noteq> 0 \<or> ps_removed_functions s \<noteq> 0"

definition bump :: "nat \<Rightarrow> nat" where
  "bump n = sat_add_u64 n 1"

lemma bump_nonzero [simp]: "bump n \<noteq> 0"
  by (simp add: bump_def sat_add_def)

subsection \<open>Constant folding\<close>

fun constant_of :: "mir_value \<Rightarrow> scalar_value option" where
  "constant_of (V_Constant c) = Some c"
| "constant_of (V_Local _) = None"

fun scalar_finite :: "scalar_value \<Rightarrow> bool" where
  "scalar_finite (F32 v) = fnum_finite (fdecode fmt32 (unat v))"
| "scalar_finite (F64 v) = f64_is_finite v"
| "scalar_finite _ = True"

definition fold_intrinsic :: "libm \<Rightarrow> intrinsic \<Rightarrow> scalar_value list \<Rightarrow> scalar_value option" where
  "fold_intrinsic m op args =
     (if op \<notin> {Abs, Floor, Ceil, Round, Trunc, Min, Max} \<or> list_ex (\<lambda>v. \<not> scalar_finite v) args
      then None else eval_intrinsic m op args)"

definition fold_rvalue :: "libm \<Rightarrow> rvalue \<Rightarrow> scalar_value option" where
  "fold_rvalue m r =
     (case r of
        R_Unary op v \<Rightarrow> Option.bind (constant_of v) (eval_unary op)
      | R_Binary op a b \<Rightarrow>
          Option.bind (constant_of a) (\<lambda>x. Option.bind (constant_of b) (eval_binary op x))
      | R_Compare op a b \<Rightarrow>
          Option.bind (constant_of a) (\<lambda>x. Option.bind (constant_of b) (\<lambda>y.
            map_option Bool (eval_compare op x y)))
      | R_Cast v to \<Rightarrow> Option.bind (constant_of v) (\<lambda>x. eval_cast x to)
      | R_Intrinsic op args \<Rightarrow> Option.bind (those (map constant_of args)) (fold_intrinsic m op)
      | _ \<Rightarrow> None)"

subsection \<open>Control-flow summaries\<close>

fun statement_falls_through :: "statement_kind \<Rightarrow> bool"
  and block_falls_through :: "block \<Rightarrow> bool"
  and statements_fall_through :: "statement list \<Rightarrow> bool"
  and block_contains_reachable_break :: "block \<Rightarrow> bool"
  and statements_contain_reachable_break :: "statement list \<Rightarrow> bool" where
  "statement_falls_through (S_Return _) = False"
| "statement_falls_through S_Break = False"
| "statement_falls_through S_Continue = False"
| "statement_falls_through (S_If _ t f) = (block_falls_through t \<or> block_falls_through f)"
| "statement_falls_through (S_Loop body) = block_contains_reachable_break body"
| "statement_falls_through _ = True"
| "block_falls_through (Block ss) = statements_fall_through ss"
| "statements_fall_through [] = True"
| "statements_fall_through (Statement k src # ss) =
     (if statement_falls_through k then statements_fall_through ss else False)"
| "block_contains_reachable_break (Block ss) = statements_contain_reachable_break ss"
| "statements_contain_reachable_break [] = False"
| "statements_contain_reachable_break (Statement k src # ss) =
     (if k = S_Break then True
      else if (case k of
                 S_If _ t f \<Rightarrow> block_contains_reachable_break t \<or> block_contains_reachable_break f
               | _ \<Rightarrow> False) then True
      else if statement_falls_through k then statements_contain_reachable_break ss
      else False)"

subsection \<open>The cleanup\<close>

text \<open>Inlining the selected branch of a constant conditional stops after the first statement that
  does not fall through.\<close>

fun push_selected :: "statement list \<Rightarrow> statement list \<times> bool" where
  "push_selected [] = ([], True)"
| "push_selected (s # ss) =
     (if statement_falls_through (stmt_kind s)
      then let (kept, reachable) = push_selected ss in (s # kept, reachable)
      else ([s], False))"

text \<open>
  One reachable statement gives the statements that replace it and whether control can pass beyond
  them.
\<close>

fun canonicalize_block :: "libm \<Rightarrow> block \<Rightarrow> pass_stats \<Rightarrow> block \<times> pass_stats"
  and canonicalize_statements ::
    "libm \<Rightarrow> statement list \<Rightarrow> bool \<Rightarrow> pass_stats \<Rightarrow> statement list \<times> pass_stats"
  and canonicalize_statement ::
    "libm \<Rightarrow> statement \<Rightarrow> pass_stats \<Rightarrow> (statement list \<times> bool) \<times> pass_stats" where
  "canonicalize_block m (Block ss) st =
     (let (ss', st) = canonicalize_statements m ss True st in (Block ss', st))"
| "canonicalize_statements m [] reachable st = ([], st)"
| "canonicalize_statements m (s # ss) reachable st =
     (if \<not> reachable
      then canonicalize_statements m ss False
             (st\<lparr>ps_removed_unreachable_statements :=
                   bump (ps_removed_unreachable_statements st)\<rparr>)
      else let ((emitted, reachable), st) = canonicalize_statement m s st;
               (rest, st) = canonicalize_statements m ss reachable st
           in (emitted @ rest, st))"
| "canonicalize_statement m (Statement k src) st =
     (case k of
        S_Assign p v \<Rightarrow>
          (case fold_rvalue m v of
             Some c \<Rightarrow> (([Statement (S_Assign p (R_Use (V_Constant c))) src], True),
                        st\<lparr>ps_folded_rvalues := bump (ps_folded_rvalues st)\<rparr>)
           | None \<Rightarrow> (([Statement k src], True), st))
      | S_If c t f \<Rightarrow>
          (let (t', st) = canonicalize_block m t st;
               (f', st) = canonicalize_block m f st
           in case c of
                V_Constant (Bool b) \<Rightarrow>
                  (push_selected (block_statements (if b then t' else f')),
                   st\<lparr>ps_simplified_branches := bump (ps_simplified_branches st)\<rparr>)
              | _ \<Rightarrow> (([Statement (S_If c t' f') src], statement_falls_through (S_If c t' f')), st))
      | S_Loop body \<Rightarrow>
          (let (body', st) = canonicalize_block m body st
           in (([Statement (S_Loop body') src], statement_falls_through (S_Loop body')), st))
      | _ \<Rightarrow> (([Statement k src], statement_falls_through k), st))"


subsection \<open>Folding computes what evaluation computes\<close>

lemma constant_of_eval: "constant_of v = Some c \<Longrightarrow> eval_scalar e v = Some c"
  by (cases v) (simp_all add: eval_scalar_def)

lemma constants_of_eval:
  "those (map constant_of vs) = Some cs \<Longrightarrow> those (map (eval_scalar e) vs) = Some cs"
proof (induction vs arbitrary: cs)
  case (Cons v vs)
  then show ?case by (auto simp: constant_of_eval split: option.splits)
qed simp

lemma eval_intrinsic_libm:
  assumes "op \<in> {Abs, Floor, Ceil, Round, Trunc, Min, Max}"
  shows "eval_intrinsic m op args = eval_intrinsic m' op args"
proof -
  have e: "float_intrinsic f lib op as = float_intrinsic f lib' op as" for f lib lib' as
    using assms unfolding float_intrinsic_def by (elim insertE emptyE) (simp_all split: list.splits)
  show ?thesis
    unfolding eval_intrinsic_def e [of _ "libm_f32 m" _ "libm_f32 m'"]
      e [of _ "libm_f64 m" _ "libm_f64 m'"] ..
qed

lemma fold_rvalue_sound:
  assumes "fold_rvalue m r = Some c"
  shows "eval_rvalue M r e w = Some (Sc c)"
proof (cases r)
  case (R_Intrinsic op vs)
  then obtain cs where cs: "those (map constant_of vs) = Some cs" "fold_intrinsic m op cs = Some c"
    using assms by (auto simp: fold_rvalue_def bind_eq_Some_conv)
  then have "op \<in> {Abs, Floor, Ceil, Round, Trunc, Min, Max}" "eval_intrinsic m op cs = Some c"
    by (auto simp: fold_intrinsic_def split: if_splits)
  then have "eval_intrinsic (op_libm M) op cs = Some c"
    using eval_intrinsic_libm by metis
  then show ?thesis
    using R_Intrinsic constants_of_eval [OF cs(1), of e] by (simp add: eval_rvalue_def)
qed (use assms in \<open>auto simp: fold_rvalue_def eval_rvalue_def bind_eq_Some_conv dest!: constant_of_eval\<close>)

subsection \<open>Control-flow summaries are sound\<close>

lemma iterate_no_break:
  assumes "\<And>e w e' w'. f e w \<noteq> Some (Broke, e', w')"
  shows "iterate n f e w \<noteq> Some (Normal, e', w')"
proof (induction n arbitrary: e w)
  case (Suc n)
  then show ?case using assms by (auto split: option.splits prod.splits outcome.splits)
qed simp

lemma iterate_not_broke: "iterate n f e w \<noteq> Some (Broke, e', w')"
proof (induction n arbitrary: e w)
  case (Suc n)
  then show ?case by (auto split: option.splits prod.splits outcome.splits)
qed simp

lemma exec_simple_finish: "fst (finish r e w) \<in> {Normal, Trapped}"
  by (auto simp: finish_def split: option.splits)

lemma seq_Normal:
  "seq r k = Some (Normal, e', w') \<longleftrightarrow> (\<exists>e1 w1. r = Some (Normal, e1, w1) \<and> k e1 w1 = Some (Normal, e', w'))"
  by (auto simp: seq_def split: option.splits prod.splits outcome.splits)

lemma seq_other:
  assumes "out \<noteq> Normal"
  shows "seq r k = Some (out, e', w') \<longleftrightarrow> r = Some (out, e', w')
    \<or> (\<exists>e1 w1. r = Some (Normal, e1, w1) \<and> k e1 w1 = Some (out, e', w'))"
  using assms by (auto simp: seq_def split: option.splits prod.splits outcome.splits)

definition never :: "'x outcome \<Rightarrow> ('x env \<Rightarrow> 'w \<Rightarrow> ('x, 'w) result option) \<Rightarrow> bool" where
  "never out f \<longleftrightarrow> (\<forall>e w e' w'. f e w \<noteq> Some (out, e', w'))"

lemma summaries_sound:
  fixes M :: "('x, 'w) ops"
  shows "(\<not> statement_falls_through (stmt_kind s) \<longrightarrow> never Normal (run_statement s M n))
      \<and> (\<not> statements_contain_reachable_break [s] \<longrightarrow> never Broke (run_statement s M n))"
    and "(\<not> statement_falls_through k \<longrightarrow> never Normal (run_kind k M n))
      \<and> (\<not> statements_contain_reachable_break [Statement k src] \<longrightarrow> never Broke (run_kind k M n))"
    and "(\<not> block_falls_through b \<longrightarrow> never Normal (run_block b M n))
      \<and> (\<not> block_contains_reachable_break b \<longrightarrow> never Broke (run_block b M n))"
    and "(\<not> statements_fall_through ss \<longrightarrow> never Normal (run_statements ss M n))
      \<and> (\<not> statements_contain_reachable_break ss \<longrightarrow> never Broke (run_statements ss M n))"
proof (induction s and k and b and ss arbitrary: and src and and rule: mir_induct)
  case (Statement k src)
  then show ?case by simp
next
  case (Simple k)
  then show ?case
    by (cases k) (auto simp: never_def finish_def run_return_def split: option.splits)
next
  case (If c t f)
  then show ?case
    by (auto simp: never_def run_if_def split: option.splits scalar_value.splits if_splits)
next
  case (Loop body)
  then show ?case
    by (auto simp: never_def iterate_no_break iterate_not_broke)
next
  case (Block ss)
  then show ?case by simp
next
  case Nil
  then show ?case by (simp add: never_def)
next
  case (Cons s ss)
  obtain k src where s: "s = Statement k src" by (cases s)
  have "never Broke (run_statements (s # ss) M n)"
    if "\<not> statements_contain_reachable_break (s # ss)"
  proof (cases "statement_falls_through k")
    case True
    then have "\<not> statements_contain_reachable_break [s]" "\<not> statements_contain_reachable_break ss"
      using that by (auto simp: s split: if_splits)
    then show ?thesis using Cons.IH by (simp add: never_def run_statements_Cons seq_other)
  next
    case False
    then have "\<not> statements_contain_reachable_break [s]"
      using that by (auto simp: s split: if_splits)
    then show ?thesis
      using Cons.IH False by (simp add: never_def run_statements_Cons seq_other s)
  qed
  moreover have "never Normal (run_statements (s # ss) M n)"
    if "\<not> statements_fall_through (s # ss)"
    using that Cons.IH by (auto simp: never_def run_statements_Cons seq_Normal s split: if_splits)
  ultimately show ?case by blast
qed

text \<open>The reachability summary that decides what is unreachable is sound: a statement, block or
  statement list that is reported not to fall through never ends normally, and a body reported
  free of reachable breaks never leaves its loop by a break, at any fuel, in any state and for
  any behaviour of the outside world.\<close>

theorem falls_through_sound:
  "(run_statement s M n e w = Some (Normal, e', w') \<longrightarrow> statement_falls_through (stmt_kind s))
   \<and> (run_block b M n e w = Some (Normal, e', w') \<longrightarrow> block_falls_through b)
   \<and> (run_block b M n e w = Some (Broke, e', w') \<longrightarrow> block_contains_reachable_break b)"
  using summaries_sound(1) [of s M n] summaries_sound(3) [of b M n] by (auto simp: never_def)

theorem falls_through_sound_witness:
  "block_falls_through (Block [Statement (S_Loop (Block [Statement S_Break span_unknown])) span_unknown])"
  using falls_through_sound [of "Statement S_Break span_unknown" bare_ops 1 "\<lambda>_. None" "()" "\<lambda>_. None" "()"
      "Block [Statement (S_Loop (Block [Statement S_Break span_unknown])) span_unknown]"]
  by (simp add: run_statements_Cons seq_def)

subsection \<open>Canonicalization preserves behaviour\<close>

lemma seq_stop: "never Normal (\<lambda>_ _. r) \<Longrightarrow> seq (r :: ('x, 'w) result option) k = r"
  by (auto simp: seq_def never_def split: option.splits prod.splits outcome.splits)

lemma run_push_selected:
  fixes M :: "('x, 'w) ops"
  assumes "push_selected ss = (kept, reachable)"
  shows "run_statements kept M n e w = run_statements ss M n e w
    \<and> (\<not> reachable \<longrightarrow> never Normal (run_statements kept M n))"
  using assms
proof (induction ss arbitrary: kept reachable e w)
  case (Cons s ss)
  show ?case
  proof (cases "statement_falls_through (stmt_kind s)")
    case True
    obtain k r where p: "push_selected ss = (k, r)" by fastforce
    with True Cons.prems have kr: "kept = s # k" "reachable = r" by auto
    have "run_statements k M n = run_statements ss M n"
      using Cons.IH [OF p] by (intro ext) simp
    moreover have "\<not> r \<longrightarrow> never Normal (run_statements k M n)" using Cons.IH [OF p] by simp
    ultimately show ?thesis
      unfolding kr by (auto simp: run_statements_Cons never_def seq_Normal)
  next
    case False
    then have "never Normal (run_statement s M n)" using summaries_sound(1) by blast
    then show ?thesis
      using False Cons.prems
      by (auto simp: run_statements_Cons never_def seq_Normal seq_def
          split: option.splits prod.splits outcome.splits)
  qed
qed simp

lemma run_Assign_fold:
  assumes "fold_rvalue m r = Some c"
  shows "run_kind (S_Assign p (R_Use (V_Constant c))) M n e w = run_kind (S_Assign p r) M n e w"
  using fold_rvalue_sound [OF assms, of M e w]
  by (simp add: exec_simple_def eval_rvalue_def [of M "R_Use v" for v])

lemma canonicalize_unreachable: "fst (canonicalize_statements m ss False st) = []"
  by (induction ss arbitrary: st) simp_all

text \<open>What the replacement of one statement must satisfy.\<close>

definition replaces ::
  "('x, 'w) ops \<Rightarrow> nat \<Rightarrow> statement list \<times> bool \<Rightarrow> statement \<Rightarrow> bool" where
  "replaces M n r s \<longleftrightarrow> run_statements (fst r) M n = run_statement s M n
     \<and> (\<not> snd r \<longrightarrow> never Normal (run_statement s M n))"

lemma run_statements_single [simp]: "run_statements [s] M n e w = run_statement s M n e w"
  by (simp add: run_statements_Cons seq_def split: option.splits prod.splits outcome.splits)

lemma replaces_single:
  assumes "run_statement s' M n = run_statement s M n"
    and "reachable = statement_falls_through (stmt_kind s')"
  shows "replaces M n ([s'], reachable) s"
proof -
  have "run_statements [s'] M n = run_statement s' M n" by (intro ext) simp
  moreover have "\<not> reachable \<longrightarrow> never Normal (run_statement s' M n)"
    using summaries_sound(1) [of s' M n] assms(2) by simp
  ultimately show ?thesis using assms(1) by (simp add: replaces_def)
qed

lemma replaces_seq:
  assumes "replaces M n (emitted, reachable) s"
    and "reachable \<Longrightarrow> run_statements rest M n = run_statements ss M n"
    and "\<not> reachable \<Longrightarrow> rest = []"
  shows "run_statements (emitted @ rest) M n e w = run_statements (s # ss) M n e w"
proof (cases reachable)
  case True
  then show ?thesis
    using assms by (simp add: run_statements_append run_statements_Cons replaces_def)
next
  case False
  then have "\<nexists>e' w'. run_statement s M n e w = Some (Normal, e', w')"
    using assms(1) by (simp add: replaces_def never_def)
  then have "seq (run_statement s M n e w) f = run_statement s M n e w" for f
    by (auto simp: seq_def split: option.splits prod.splits outcome.splits)
  then show ?thesis
    using assms False by (simp add: run_statements_Cons replaces_def)
qed

lemma run_if_constant [simp]: "run_if e w (V_Constant (Bool b)) rt rf = (if b then rt else rf)"
  by (simp add: run_if_def eval_scalar_def)

lemma replaces_push:
  fixes M :: "('x, 'w) ops"
  assumes "run_statements ss M n = run_statement s M n"
  shows "replaces M n (push_selected ss) s"
proof -
  obtain kept reachable where p: "push_selected ss = (kept, reachable)" by fastforce
  have "run_statements kept M n = run_statements ss M n"
    using run_push_selected [OF p, of M n] by (intro ext) simp
  with run_push_selected [OF p, of M n] show ?thesis
    unfolding p replaces_def by (simp add: assms)
qed

lemma canonicalize_run:
  fixes M :: "('x, 'w) ops"
  shows "\<And>st. replaces M n (fst (canonicalize_statement m s st)) s"
    and "\<And>st src. replaces M n (fst (canonicalize_statement m (Statement k src) st)) (Statement k src)"
    and "\<And>st. run_block (fst (canonicalize_block m b st)) M n = run_block b M n"
    and "\<And>st. run_statements (fst (canonicalize_statements m ss True st)) M n = run_statements ss M n"
proof (induction s and k and b and ss rule: mir_induct)
  case (Simple k)
  show ?case
  proof (cases k)
    case (S_Assign p r)
    have "run_statement (Statement (S_Assign p (R_Use (V_Constant c))) src) M n
        = run_statement (Statement (S_Assign p r) src) M n" if "fold_rvalue m r = Some c" for c
      using run_Assign_fold [OF that, of p M n] by (intro ext) simp
    with S_Assign show ?thesis
      by (auto intro!: replaces_single split: option.splits)
  qed (use Simple in \<open>auto intro!: replaces_single\<close>)
next
  case (If c t f)
  obtain t' st1 where t': "canonicalize_block m t st = (t', st1)" by fastforce
  obtain f' st2 where f': "canonicalize_block m f st1 = (f', st2)" by fastforce
  have runs: "run_block t' M n = run_block t M n" "run_block f' M n = run_block f M n"
    using If.IH(1) [of st] If.IH(2) [of st1] t' f' by simp_all
  have same: "run_statement (Statement (S_If c t' f') src) M n = run_statement (Statement (S_If c t f) src) M n"
    using runs by (intro ext) simp
  have pick: "run_statements (block_statements (if b then t' else f')) M n
      = run_statement (Statement (S_If (V_Constant (Bool b)) t f) src) M n" for b
    using runs by (intro ext) (simp add: run_block_statements [symmetric])
  show ?case
  proof (cases "\<exists>b. c = V_Constant (Bool b)")
    case True
    then obtain b where "c = V_Constant (Bool b)" by blast
    with replaces_push [OF pick] t' f' show ?thesis by simp
  next
    case False
    then have "fst (canonicalize_statement m (Statement (S_If c t f) src) st)
        = ([Statement (S_If c t' f') src], statement_falls_through (S_If c t' f'))"
      using t' f' by (auto split: mir_value.splits scalar_value.splits)
    with replaces_single [OF same] show ?thesis by simp
  qed
next
  case (Loop body)
  obtain b' st1 where b': "canonicalize_block m body st = (b', st1)" by fastforce
  have "run_block b' M n = run_block body M n" using Loop.IH [of st] b' by simp
  then have "run_statement (Statement (S_Loop b') src) M n = run_statement (Statement (S_Loop body) src) M n"
    by (intro ext) simp
  from replaces_single [OF this] b' show ?case by simp
next
  case (Block ss)
  show ?case using Block.IH [of st] by (intro ext) (simp add: split_def Let_def)
next
  case (Cons s ss)
  obtain emitted reachable st1 where h: "canonicalize_statement m s st = ((emitted, reachable), st1)"
    by (metis prod.collapse)
  obtain rest st2 where r: "canonicalize_statements m ss reachable st1 = (rest, st2)" by fastforce
  have "replaces M n (emitted, reachable) s" using Cons.IH(1) [of st] h by simp
  moreover have "reachable \<Longrightarrow> run_statements rest M n = run_statements ss M n"
    using Cons.IH(2) [of st1] r by simp
  moreover have "\<not> reachable \<Longrightarrow> rest = []"
    using canonicalize_unreachable [of m ss st1] r by simp
  ultimately show ?case
    using h r by (intro ext) (simp add: replaces_seq)
qed simp_all

text \<open>C6: canonicalization preserves behaviour: folding constants, replacing a conditional on a
  constant by its selected branch and dropping unreachable statements leave the result of running
  a block unchanged, in every state, for every behaviour of the outside world and at every bound
  on loop iterations; in particular the pass neither adds nor removes termination or traps.\<close>

theorem canonicalize_preserves:
  "run_block (fst (canonicalize_block m b st)) M n e w = run_block b M n e w"
  by (simp add: canonicalize_run(3))

subsection \<open>Canonical form\<close>

text \<open>Nothing is left to fold, select or drop.\<close>

fun canonical_kind :: "libm \<Rightarrow> statement_kind \<Rightarrow> bool"
  and canonical_block :: "libm \<Rightarrow> block \<Rightarrow> bool"
  and canonical_statements :: "libm \<Rightarrow> statement list \<Rightarrow> bool" where
  "canonical_kind m (S_Assign p r) = (fold_rvalue m r = None)"
| "canonical_kind m (S_If c t f) =
     (canonical_block m t \<and> canonical_block m f \<and> (\<forall>b \<in> {True, False}. c \<noteq> V_Constant (Bool b)))"
| "canonical_kind m (S_Loop body) = canonical_block m body"
| "canonical_kind m _ = True"
| "canonical_block m (Block ss) = canonical_statements m ss"
| "canonical_statements m [] = True"
| "canonical_statements m (Statement k src # ss) =
     (canonical_kind m k \<and> canonical_statements m ss \<and> (statement_falls_through k \<or> ss = []))"

lemma canonical_Cons:
  "canonical_statements m (s # ss) \<longleftrightarrow> canonical_kind m (stmt_kind s) \<and> canonical_statements m ss
     \<and> (statement_falls_through (stmt_kind s) \<or> ss = [])"
  by (cases s) simp

lemma canonical_append:
  "canonical_statements m (xs @ ys) \<longleftrightarrow>
     canonical_statements m xs \<and> canonical_statements m ys \<and> (statements_fall_through xs \<or> ys = [])"
proof (induction xs)
  case (Cons x xs)
  then show ?case by (cases x) (auto simp: canonical_Cons)
qed simp

lemma push_selected_canonical:
  assumes "canonical_statements m ss" and "push_selected ss = (kept, reachable)"
  shows "kept = ss \<and> reachable = statements_fall_through ss"
  using assms
proof (induction ss arbitrary: kept reachable)
  case (Cons s ss)
  then show ?case
    by (cases s) (auto simp: canonical_Cons split: if_splits prod.splits)
qed simp

lemma fold_rvalue_Use [simp]: "fold_rvalue m (R_Use v) = None"
  by (simp add: fold_rvalue_def)

lemma canonicalize_canonical:
  shows "\<And>st em reach st'. canonicalize_statement m s st = ((em, reach), st') \<Longrightarrow>
      canonical_statements m em \<and> (reach \<longrightarrow> statements_fall_through em)"
    and "\<And>src st em reach st'. canonicalize_statement m (Statement k src) st = ((em, reach), st') \<Longrightarrow>
      canonical_statements m em \<and> (reach \<longrightarrow> statements_fall_through em)"
    and "\<And>st. canonical_block m (fst (canonicalize_block m b st))"
    and "\<And>st. canonical_statements m (fst (canonicalize_statements m ss True st))"
proof (induction s and k and b and ss rule: mir_induct)
  case (Simple k)
  then show ?case by (cases k) (auto split: option.splits)
next
  case (If c t f)
  obtain t' st1 where t': "canonicalize_block m t st = (t', st1)" by fastforce
  obtain f' st2 where f': "canonicalize_block m f st1 = (f', st2)" by fastforce
  have canon: "canonical_block m t'" "canonical_block m f'"
    using If.IH(1) [of st] If.IH(2) [of st1] t' f' by simp_all
  then have sub: "canonical_statements m (block_statements (if b then t' else f'))" for b
    by (cases t'; cases f') simp
  show ?case
  proof (cases "\<exists>b. c = V_Constant (Bool b)")
    case True
    then obtain b where "c = V_Constant (Bool b)" by blast
    then have "push_selected (block_statements (if b then t' else f')) = (em, reach)"
      using If.prems t' f' by simp
    with push_selected_canonical [OF sub this] sub [of b] show ?thesis by simp
  next
    case False
    then have "em = [Statement (S_If c t' f') src]" "reach = statement_falls_through (S_If c t' f')"
      using If.prems t' f' by (auto split: mir_value.splits scalar_value.splits)
    then show ?thesis using canon False by auto
  qed
next
  case (Loop body)
  obtain b' st1 where b': "canonicalize_block m body st = (b', st1)" by fastforce
  have "canonical_block m b'" using Loop.IH [of st] b' by simp
  then show ?case using Loop.prems b' by auto
next
  case (Block ss)
  show ?case using Block.IH [of st] by (simp add: split_def Let_def)
next
  case (Cons s ss)
  obtain em reach st1 where h: "canonicalize_statement m s st = ((em, reach), st1)"
    by (metis prod.collapse)
  show ?case
    using h Cons.IH(1) [OF h] Cons.IH(2) [of st1] canonicalize_unreachable [of m ss st1]
    by (cases reach) (simp_all add: canonical_append split_def Let_def)
qed simp_all

lemma canonicalize_fixed:
  shows "\<And>st. canonical_kind m (stmt_kind s) \<Longrightarrow>
      canonicalize_statement m s st = (([s], statement_falls_through (stmt_kind s)), st)"
    and "\<And>src st. canonical_kind m k \<Longrightarrow>
      canonicalize_statement m (Statement k src) st
        = (([Statement k src], statement_falls_through k), st)"
    and "\<And>st. canonical_block m b \<Longrightarrow> canonicalize_block m b st = (b, st)"
    and "\<And>st. canonical_statements m ss \<Longrightarrow> canonicalize_statements m ss True st = (ss, st)"
proof (induction s and k and b and ss rule: mir_induct)
  case (Simple k)
  then show ?case by (cases k) simp_all
next
  case (If c t f)
  then show ?case by (auto split: mir_value.splits scalar_value.splits)
next
  case (Cons s ss)
  then show ?case by (cases "statement_falls_through (stmt_kind s)") (auto simp: canonical_Cons)
qed simp_all

text \<open>One canonicalization reaches a fixed point: the result contains no foldable assignment, no
  conditional on a constant and no statement after one that does not fall through, and
  canonicalizing it again changes neither the block nor a single statistic.\<close>

theorem canonicalize_idempotent:
  "canonical_block m (fst (canonicalize_block m b st))
   \<and> canonicalize_block m (fst (canonicalize_block m b st)) st' = (fst (canonicalize_block m b st), st')"
  using canonicalize_canonical(3) [of m b st] canonicalize_fixed(3) by blast

subsection \<open>Statistics\<close>

lemma bump_id_iff: "bump n = n \<longleftrightarrow> u64_max \<le> n \<and> n = u64_max"
  by (auto simp: bump_def sat_add_def min_def)

text \<open>The change test of the fixed-point loop is exact under merging: a merged report says that
  something changed exactly when one of the two reports does, also where the counters saturate.\<close>

theorem stats_merge_changed:
  "stats_changed (stats_merge s t) \<longleftrightarrow> stats_changed s \<or> stats_changed t"
  by (auto simp: stats_changed_def stats_merge_def sat_add_zero_iff)

subsection \<open>Algebraic identities\<close>

fun scalar_value_is_zero :: "mir_value \<Rightarrow> bool" where
  "scalar_value_is_zero (V_Constant (I32 v)) = (v = 0)"
| "scalar_value_is_zero (V_Constant (I64 v)) = (v = 0)"
| "scalar_value_is_zero _ = False"

fun scalar_value_is_one :: "mir_value \<Rightarrow> bool" where
  "scalar_value_is_one (V_Constant (I32 v)) = (v = 1)"
| "scalar_value_is_one (V_Constant (I64 v)) = (v = 1)"
| "scalar_value_is_one _ = False"

fun scalar_value_is_all_ones :: "mir_value \<Rightarrow> bool" where
  "scalar_value_is_all_ones (V_Constant (I32 v)) = (v = - 1)"
| "scalar_value_is_all_ones (V_Constant (I64 v)) = (v = - 1)"
| "scalar_value_is_all_ones _ = False"

text \<open>The zero of an integer type; other types are unreachable.\<close>

fun integer_zero :: "scalar_type \<Rightarrow> mir_value" where
  "integer_zero TI32 = V_Constant (I32 0)"
| "integer_zero TI64 = V_Constant (I64 0)"
| "integer_zero _ = undefined"

fun scalar_constants_identical :: "scalar_value \<Rightarrow> scalar_value \<Rightarrow> bool" where
  "scalar_constants_identical (F32 a) (F32 b) = (a = b)"
| "scalar_constants_identical (F64 a) (F64 b) = (a = b)"
| "scalar_constants_identical (I32 a) (I32 b) = (a = b)"
| "scalar_constants_identical (I64 a) (I64 b) = (a = b)"
| "scalar_constants_identical (Bool a) (Bool b) = (a = b)"
| "scalar_constants_identical _ _ = False"

fun values_identical :: "mir_value \<Rightarrow> mir_value \<Rightarrow> bool" where
  "values_identical (V_Local a) (V_Local b) = (a = b)"
| "values_identical (V_Constant a) (V_Constant b) = scalar_constants_identical a b"
| "values_identical _ _ = False"

fun scalar_type_of_value :: "type_id list \<Rightarrow> mir_type list \<Rightarrow> mir_value \<Rightarrow> scalar_type option" where
  "scalar_type_of_value local_types types (V_Constant c) = Some (scalar_ty c)"
| "scalar_type_of_value local_types types (V_Local l) =
     (case nth_opt types (local_types ! l) of Some (T_Scalar s) \<Rightarrow> Some s | _ \<Rightarrow> None)"

definition simplify_integer_binary ::
  "scalar_type \<Rightarrow> binary_op \<Rightarrow> mir_value \<Rightarrow> mir_value \<Rightarrow> mir_value option" where
  "simplify_integer_binary scalar op lhs rhs =
     (case op of
        Add \<Rightarrow>
          if scalar_value_is_zero rhs then Some lhs
          else if scalar_value_is_zero lhs then Some rhs else None
      | Subtract \<Rightarrow>
          if scalar_value_is_zero rhs then Some lhs
          else if values_identical lhs rhs then Some (integer_zero scalar) else None
      | Multiply \<Rightarrow>
          if scalar_value_is_one rhs then Some lhs
          else if scalar_value_is_one lhs then Some rhs
          else if scalar_value_is_zero lhs \<or> scalar_value_is_zero rhs
          then Some (integer_zero scalar) else None
      | Divide \<Rightarrow> if scalar_value_is_one rhs then Some lhs else None
      | Remainder \<Rightarrow> if scalar_value_is_one rhs then Some (integer_zero scalar) else None
      | BitAnd \<Rightarrow>
          if scalar_value_is_zero lhs \<or> scalar_value_is_zero rhs then Some (integer_zero scalar)
          else if scalar_value_is_all_ones rhs then Some lhs
          else if scalar_value_is_all_ones lhs then Some rhs else None
      | BitOr \<Rightarrow>
          if scalar_value_is_zero rhs then Some lhs
          else if scalar_value_is_zero lhs then Some rhs else None
      | BitXor \<Rightarrow>
          if scalar_value_is_zero rhs then Some lhs
          else if scalar_value_is_zero lhs then Some rhs
          else if values_identical lhs rhs then Some (integer_zero scalar) else None
      | ShiftLeft \<Rightarrow> if scalar_value_is_zero rhs then Some lhs else None
      | ShiftRight \<Rightarrow> if scalar_value_is_zero rhs then Some lhs else None)"

definition simplify_rvalue_algebra ::
  "type_id list \<Rightarrow> mir_type list \<Rightarrow> rvalue \<Rightarrow> mir_value option" where
  "simplify_rvalue_algebra local_types types r =
     (case r of
        R_Binary op lhs rhs \<Rightarrow>
          (case scalar_type_of_value local_types types lhs of
             None \<Rightarrow> None
           | Some scalar \<Rightarrow>
               if scalar \<notin> {TI32, TI64} then None
               else simplify_integer_binary scalar op lhs rhs)
      | R_Compare op lhs rhs \<Rightarrow>
          if \<not> values_identical lhs rhs then None
          else (case scalar_type_of_value local_types types lhs of
                  None \<Rightarrow> None
                | Some scalar \<Rightarrow>
                    if scalar \<in> {TF32, TF64} then None
                    else Some (V_Constant (Bool (op \<in> {Equal, LessEqual, GreaterEqual}))))
      | _ \<Rightarrow> None)"

fun simplify_block_algebra ::
    "type_id list \<Rightarrow> mir_type list \<Rightarrow> block \<Rightarrow> pass_stats \<Rightarrow> block \<times> pass_stats"
  and simplify_statement_algebra ::
    "type_id list \<Rightarrow> mir_type list \<Rightarrow> statement \<Rightarrow> pass_stats \<Rightarrow> statement \<times> pass_stats" where
  "simplify_block_algebra lt tys (Block ss) st =
     (let (ss', st) = map_st (simplify_statement_algebra lt tys) ss st in (Block ss', st))"
| "simplify_statement_algebra lt tys (Statement k src) st =
     (case k of
        S_Assign p v \<Rightarrow>
          (case simplify_rvalue_algebra lt tys v of
             Some replacement \<Rightarrow>
               (Statement (S_Assign p (R_Use replacement)) src,
                st\<lparr>ps_algebraic_simplifications := bump (ps_algebraic_simplifications st)\<rparr>)
           | None \<Rightarrow> (Statement k src, st))
      | S_If c t f \<Rightarrow>
          (let (t', st) = simplify_block_algebra lt tys t st;
               (f', st) = simplify_block_algebra lt tys f st
           in (Statement (S_If c t' f') src, st))
      | S_Loop body \<Rightarrow>
          (let (body', st) = simplify_block_algebra lt tys body st
           in (Statement (S_Loop body') src, st))
      | _ \<Rightarrow> (Statement k src, st))"

definition simplify_algebraic_identities ::
  "mir_type list \<Rightarrow> mir_function \<Rightarrow> pass_stats \<Rightarrow> mir_function \<times> pass_stats" where
  "simplify_algebraic_identities types f st =
     (let (body, st) = simplify_block_algebra (map lc_ty (fn_locals f)) types (fn_body f) st
      in (f\<lparr>fn_body := body\<rparr>, st))"

text \<open>A state respects the declared types where it holds scalars.\<close>

definition env_typed :: "type_id list \<Rightarrow> mir_type list \<Rightarrow> 'x env \<Rightarrow> bool" where
  "env_typed lt tys e \<longleftrightarrow>
     (\<forall>l c s. e l = Some (Sc c) \<longrightarrow> scalar_type_of_value lt tys (V_Local l) = Some s \<longrightarrow> scalar_ty c = s)"

lemma scalar_type_of_value_sound:
  assumes "env_typed lt tys e" and "scalar_type_of_value lt tys v = Some s"
    and "eval_scalar e v = Some c"
  shows "scalar_ty c = s"
proof (cases v)
  case (V_Local l)
  with assms(3) have "e l = Some (Sc c)"
    by (auto simp: eval_scalar_def bind_eq_Some_conv elim: scalar_of.elims)
  with V_Local assms(1,2) show ?thesis unfolding env_typed_def by blast
qed (use assms in \<open>simp add: eval_scalar_def\<close>)

lemma scalar_constants_identical_iff [simp]: "scalar_constants_identical a b \<longleftrightarrow> a = b"
  by (cases a; cases b) simp_all

lemma values_identical_iff [simp]: "values_identical a b \<longleftrightarrow> a = b"
  by (cases a; cases b) simp_all

lemma eval_scalar_value: "eval_scalar e v = Some c \<Longrightarrow> eval_value e v = Some (Sc c)"
  by (cases "eval_value e v") (auto simp: eval_scalar_def elim: scalar_of.elims)

lemma scalar_value_is_zeroD:
  "scalar_value_is_zero v \<Longrightarrow> v = V_Constant (I32 0) \<or> v = V_Constant (I64 0)"
  by (cases v rule: scalar_value_is_zero.cases) auto

lemma scalar_value_is_oneD:
  "scalar_value_is_one v \<Longrightarrow> v = V_Constant (I32 1) \<or> v = V_Constant (I64 1)"
  by (cases v rule: scalar_value_is_one.cases) auto

lemma scalar_value_is_all_onesD:
  "scalar_value_is_all_ones v \<Longrightarrow> v = V_Constant (I32 (- 1)) \<or> v = V_Constant (I64 (- 1))"
  by (cases v rule: scalar_value_is_all_ones.cases) auto

lemmas scalar_value_tests = scalar_value_is_zeroD scalar_value_is_oneD scalar_value_is_all_onesD

lemma sdiv_smod_one:
  "(x::int) sdiv 1 = x" "(x::int) smod 1 = 0"
  by (simp_all add: signed_divide_int_def signed_modulo_int_def sgn_if)

lemma shift_count_zero [simp]: "shift_count (0 :: 'a::len word) = 0"
  by (simp add: shift_count_def)

lemma integer_identities:
  fixes a :: "'a::len word"
  assumes "1 < LENGTH('a)"
  shows "fold_integer_binary Divide a 1 = Some a" and "fold_integer_binary Remainder a 1 = Some 0"
    and "fold_integer_binary ShiftLeft a 0 = Some a" and "fold_integer_binary ShiftRight a 0 = Some a"
  using assms by (simp_all add: sdiv_smod_one signed_1)

lemma simplify_integer_binary_sound:
  assumes "simplify_integer_binary s op lhs rhs = Some v"
    and "eval_scalar e lhs = Some a" and "eval_scalar e rhs = Some b"
    and "scalar_ty a = s" and "s \<in> {TI32, TI64}" and "eval_binary op a b = Some r"
  shows "eval_scalar e v = Some r"
proof -
  have c: "eval_scalar e (V_Constant k) = Some k" for k by (simp add: eval_scalar_def)
  from assms(4,5) consider (32) x where "a = I32 x" "s = TI32" | (64) x where "a = I64 x" "s = TI64"
    by (cases a) auto
  then show ?thesis
  proof cases
    case 32
    then obtain y where y: "b = I32 y" using assms(6) by (cases b) auto
    show ?thesis
      using assms(1,2,3,6) 32 y unfolding simplify_integer_binary_def
      by (cases op)
        (auto simp: c integer_identities sdiv_smod_one dest!: scalar_value_tests split: if_splits)
  next
    case 64
    then obtain y where y: "b = I64 y" using assms(6) by (cases b) auto
    show ?thesis
      using assms(1,2,3,6) 64 y unfolding simplify_integer_binary_def
      by (cases op)
        (auto simp: c integer_identities sdiv_smod_one dest!: scalar_value_tests split: if_splits)
  qed
qed

text \<open>C35: every algebraic identity is sound: when the state respects the declared types and the
  original operation has a result, the value it is replaced by has exactly that result, bit for
  bit, on both integer widths and for reflexive comparisons; floats are left alone.\<close>

theorem simplify_rvalue_algebra_sound:
  assumes "simplify_rvalue_algebra lt tys r = Some v" and "env_typed lt tys e"
    and "eval_rvalue M r e w = Some x"
  shows "eval_value e v = Some x"
proof (cases r)
  case (R_Binary op lhs rhs)
  then obtain s where s: "scalar_type_of_value lt tys lhs = Some s" "s \<in> {TI32, TI64}"
      "simplify_integer_binary s op lhs rhs = Some v"
    using assms(1) by (auto simp: simplify_rvalue_algebra_def split: option.splits if_splits)
  obtain a b k where ab: "eval_scalar e lhs = Some a" "eval_scalar e rhs = Some b"
      "eval_binary op a b = Some k" "x = Sc k"
    using assms(3) R_Binary by (auto simp: eval_rvalue_def bind_eq_Some_conv)
  have "scalar_ty a = s" using scalar_type_of_value_sound [OF assms(2) s(1) ab(1)] .
  from simplify_integer_binary_sound [OF s(3) ab(1,2) this s(2) ab(3)] ab(4)
  show ?thesis by (simp add: eval_scalar_value)
next
  case (R_Compare op lhs rhs)
  then obtain s where s: "rhs = lhs" "scalar_type_of_value lt tys lhs = Some s" "s \<notin> {TF32, TF64}"
      "v = V_Constant (Bool (op \<in> {Equal, LessEqual, GreaterEqual}))"
    using assms(1) by (auto simp: simplify_rvalue_algebra_def split: option.splits if_splits)
  obtain a k where a: "eval_scalar e lhs = Some a" "eval_compare op a a = Some k" "x = Sc (Bool k)"
    using assms(3) R_Compare s(1) by (auto simp: eval_rvalue_def bind_eq_Some_conv)
  have "scalar_ty a = s" using scalar_type_of_value_sound [OF assms(2) s(2) a(1)] .
  then have "k = (op \<in> {Equal, LessEqual, GreaterEqual})"
    using s(3) a(2) by (cases a; cases op) auto
  then show ?thesis using a s by simp
qed (use assms in \<open>simp_all add: simplify_rvalue_algebra_def\<close>)

theorem simplify_rvalue_algebra_sound_witness:
  "eval_value [0 \<mapsto> Sc (I32 7)] (V_Local 0) = Some (Sc (I32 7))"
  by (rule simplify_rvalue_algebra_sound [of "[0]" "[T_Scalar TI32]"
        "R_Binary BitXor (V_Local 0) (V_Constant (I32 0))" _ _ bare_ops "()"])
    (simp_all add: simplify_rvalue_algebra_def simplify_integer_binary_def env_typed_def
      nth_opt_def eval_rvalue_def eval_scalar_def split: if_splits)

end
