(* ===== verification/Operand_Rewriting.thy ===== *)
theory Operand_Rewriting
  imports Mir_Semantics
begin

section \<open>Rewriting operands\<close>

text \<open>
  The interface between a pass that rewrites operands and the semantics: a rewriting that keeps
  the value of every operand in a state keeps the meaning of everything built from operands.
\<close>

locale operand_rewriting =
  fixes f :: "mir_value \<Rightarrow> mir_value" and e :: "'x env"
  assumes same: "eval_value e (f v) = eval_value e v"
begin

lemma scalar: "eval_scalar e (f v) = eval_scalar e v"
  by (simp add: eval_scalar_def same)

lemma scalars: "map (eval_scalar e) (map f vs) = map (eval_scalar e) vs"
  by (simp add: scalar)

lemma operands: "eval_values e (map f vs) = eval_values e vs"
  by (simp add: eval_values_def comp_def same)

lemma rvalue: "eval_rvalue M (map_rvalue f r) e w = eval_rvalue M r e w"
proof -
  have c: "rvalue_content e (map_rvalue f r) = rvalue_content e r" for r
    by (cases r) (simp_all add: rvalue_content_def map_rvalue_def place_content_def operand_simps)
  have g: "Option.bind (eval_values e (rvalue_operands (map_rvalue f r)))
      (\<lambda>vs. op_rvalue M (rvalue_shape (map_rvalue f r)) vs (rvalue_content e (map_rvalue f r))
        (sliced_part M e) w)
    = Option.bind (eval_values e (rvalue_operands r))
      (\<lambda>vs. op_rvalue M (rvalue_shape r) vs (rvalue_content e r) (sliced_part M e) w)"
    by (simp add: operands c operand_simps(8) rvalue_shape_map)
  show ?thesis
    using g
    by (cases r)
      (simp_all add: eval_rvalue_def map_rvalue_def scalar scalars [simplified] comp_def same)
qed

lemma content: "argument_content e (map_argument f a) = argument_content e a"
  by (cases a) (simp_all add: map_argument_def place_content_def operand_simps)

lemma assign: "assign_place M (map_place f p) v e w = assign_place M p v e w"
proof -
  have "place_projections (map_place f p) = [] \<longleftrightarrow> place_projections p = []"
    by (simp add: map_place_def)
  then show ?thesis
    by (cases "place_base p") (simp_all add: assign_place_def operands operand_simps cong: if_cong)
qed

lemma target: "argument_local (map_argument f a) = argument_local a"
  by (cases a) (simp_all add: argument_local_def map_argument_def operand_simps)

lemma written: "written_arguments modes g (map (map_argument f) as) = written_arguments modes g as"
proof -
  have "enumerate n (map (map_argument f) as) = map (\<lambda>(i, a). (i, map_argument f a)) (enumerate n as)"
    for n by (induction as arbitrary: n) simp_all
  then show ?thesis
    by (simp add: written_arguments_def comp_def split_def target cong: if_cong option.case_cong)
qed

lemma call: "exec_call M rs g (map (map_argument f) as) e w = exec_call M rs g as e w"
proof -
  have "concat (map argument_operands (map (map_argument f) as))
      = map f (concat (map argument_operands as))"
    by (simp add: comp_def operand_simps map_concat)
  moreover have "map argument_shape (map (map_argument f) as) = map argument_shape as"
    by (simp add: operand_simps)
  moreover have "map (argument_content e) (map (map_argument f) as) = map (argument_content e) as"
    by (simp add: content)
  ultimately show ?thesis
    unfolding exec_call_def operands written by (simp only: operands)
qed

lemma simple: "exec_simple M (map_kind f k) e w = exec_simple M k e w"
proof -
  have c: "kind_contents e (map_kind f k) = kind_contents e k"
    by (cases k) (simp_all add: map_kind_def comp_def content)
  have g: "Option.bind (eval_values e (kind_operands (map_kind f k))) (\<lambda>vs.
      map_option (\<lambda>(sl, w'). (set_sliced M e sl, w'))
        (op_effect M (kind_shape (map_kind f k)) vs (kind_contents e (map_kind f k)) (sliced_part M e) w))
    = Option.bind (eval_values e (kind_operands k)) (\<lambda>vs.
      map_option (\<lambda>(sl, w'). (set_sliced M e sl, w'))
        (op_effect M (kind_shape k) vs (kind_contents e k) (sliced_part M e) w))"
    by (simp add: operands c kind_operands_map kind_shape_map)
  show ?thesis
    using g
    by (cases k) (simp_all add: exec_simple_def map_kind_def rvalue assign call)
qed

lemma return: "run_return (map f vs) e w = run_return vs e w"
  by (simp add: run_return_def operands)

lemma cond: "run_if e w (f c) rt rf = run_if e w c rt rf"
  by (simp add: run_if_def scalar)

end

end
