(* ===== verification/Pass_Propagate.thy ===== *)
theory Pass_Propagate
  imports Pass_Canonicalize Operand_Rewriting
begin

section \<open>Value propagation\<close>

text \<open>
  Forward propagation of constants and copies (\<open>propagate_local_values\<close> and its helpers in
  \<open>onda_mir/src/passes.rs\<close>). A fact about a local is the constant or the stable local it is known
  to equal; facts flow through structured control and are dropped at writes.
\<close>

type_synonym facts = "mir_value option list"

subsection \<open>Stable locals\<close>

text \<open>Counts of writes and instability flags, one per local. Identifiers of validated functions
  are in range.\<close>

type_synonym stability = "nat list \<times> bool list"

definition record_local_stability_write ::
  "local_id \<Rightarrow> bool \<Rightarrow> bool \<Rightarrow> stability \<Rightarrow> stability" where
  "record_local_stability_write l inside_loop through_reference s =
     (let (writes, unstable) = s
      in (writes[l := sat_add u32_max (writes ! l) 1],
          unstable[l := unstable ! l \<or> inside_loop \<or> through_reference]))"

abbreviation mutated_argument_local :: "call_argument \<Rightarrow> local_id option" where
  "mutated_argument_local \<equiv> argument_local"

definition collect_call_stability ::
  "bool \<Rightarrow> passing_mode list list \<Rightarrow> local_id list \<Rightarrow> function_id \<Rightarrow> call_argument list
     \<Rightarrow> stability \<Rightarrow> stability" where
  "collect_call_stability inside_loop modes results f args s =
     fold (\<lambda>(i, a) s.
         if argument_is_written modes f i
         then (case mutated_argument_local a of
                 Some l \<Rightarrow> record_local_stability_write l inside_loop True s
               | None \<Rightarrow> s)
         else s) (enumerate 0 args)
       (fold (\<lambda>l. record_local_stability_write l inside_loop False) results s)"

fun collect_local_stability ::
    "block \<Rightarrow> bool \<Rightarrow> passing_mode list list \<Rightarrow> stability \<Rightarrow> stability"
  and collect_statements_stability ::
    "statement list \<Rightarrow> bool \<Rightarrow> passing_mode list list \<Rightarrow> stability \<Rightarrow> stability" where
  "collect_local_stability (Block ss) inside_loop modes s =
     collect_statements_stability ss inside_loop modes s"
| "collect_statements_stability [] inside_loop modes s = s"
| "collect_statements_stability (Statement k src # ss) inside_loop modes s =
     collect_statements_stability ss inside_loop modes
       (case k of
          S_Assign p v \<Rightarrow>
            (case place_base p of
               PB_Local l \<Rightarrow>
                 record_local_stability_write l inside_loop (place_projections p \<noteq> []) s
             | _ \<Rightarrow> s)
        | S_Call results f args \<Rightarrow> collect_call_stability inside_loop modes results f args s
        | S_If c t e \<Rightarrow>
            collect_local_stability e inside_loop modes (collect_local_stability t inside_loop modes s)
        | S_Loop body \<Rightarrow> collect_local_stability body True modes s
        | _ \<Rightarrow> s)"

definition stable_local_values :: "mir_function \<Rightarrow> passing_mode list list \<Rightarrow> bool list" where
  "stable_local_values f modes =
     (let n = length (fn_locals f);
          (writes, unstable) =
            collect_local_stability (fn_body f) False modes (replicate n 0, replicate n False)
      in map (\<lambda>(w, u). w = 1 \<and> \<not> u) (zip writes unstable))"

subsection \<open>Mutated locals\<close>

definition call_mutated_locals ::
  "passing_mode list list \<Rightarrow> local_id list \<Rightarrow> function_id \<Rightarrow> call_argument list \<Rightarrow> local_id set" where
  "call_mutated_locals modes results f args =
     set results \<union> fst ` set (written_arguments modes f args)"

fun collect_mutated_locals :: "block \<Rightarrow> passing_mode list list \<Rightarrow> local_id set"
  and collect_statements_mutated :: "statement list \<Rightarrow> passing_mode list list \<Rightarrow> local_id set" where
  "collect_mutated_locals (Block ss) modes = collect_statements_mutated ss modes"
| "collect_statements_mutated [] modes = {}"
| "collect_statements_mutated (Statement k src # ss) modes =
     (case k of
        S_Assign p v \<Rightarrow> (case place_base p of PB_Local l \<Rightarrow> {l} | _ \<Rightarrow> {})
      | S_Call results f args \<Rightarrow> call_mutated_locals modes results f args
      | S_If c t e \<Rightarrow> collect_mutated_locals t modes \<union> collect_mutated_locals e modes
      | S_Loop body \<Rightarrow> collect_mutated_locals body modes
      | _ \<Rightarrow> {}) \<union> collect_statements_mutated ss modes"

definition invalidate_fact :: "local_id \<Rightarrow> facts \<Rightarrow> facts" where
  "invalidate_fact l facts = facts[l := None]"

definition invalidate_facts :: "local_id set \<Rightarrow> facts \<Rightarrow> facts" where
  "invalidate_facts ls facts = map (\<lambda>(i, f). if i \<in> ls then None else f) (enumerate 0 facts)"

definition merge_value_facts :: "facts \<Rightarrow> facts \<Rightarrow> facts \<Rightarrow> facts" where
  "merge_value_facts destination lhs rhs =
     map (\<lambda>i. case (get_flat lhs i, get_flat rhs i) of
                (Some a, Some b) \<Rightarrow> if values_identical a b then Some a else None
              | _ \<Rightarrow> None) [0..<length destination]"

subsection \<open>Operands\<close>

fun resolve_value :: "nat \<Rightarrow> facts \<Rightarrow> mir_value \<Rightarrow> mir_value" where
  "resolve_value 0 facts v = v"
| "resolve_value (Suc n) facts v =
     (case v of
        V_Constant c \<Rightarrow> v
      | V_Local l \<Rightarrow>
          (case get_flat facts l of
             None \<Rightarrow> v
           | Some nxt \<Rightarrow> if values_identical nxt v then v else resolve_value n facts nxt))"

definition resolved :: "facts \<Rightarrow> mir_value \<Rightarrow> mir_value" where
  "resolved facts v = resolve_value (length facts) facts v"

definition propagate_value :: "facts \<Rightarrow> mir_value \<Rightarrow> pass_stats \<Rightarrow> mir_value \<times> pass_stats" where
  "propagate_value facts v st =
     (let r = resolved facts v
      in if values_identical v r then (v, st)
         else (let st = st\<lparr>ps_propagated_values := bump (ps_propagated_values st)\<rparr>
               in (r, case r of
                        V_Local _ \<Rightarrow> st\<lparr>ps_propagated_copies := bump (ps_propagated_copies st)\<rparr>
                      | V_Constant _ \<Rightarrow> st)))"

abbreviation propagate_optional_value ::
  "facts \<Rightarrow> mir_value option \<Rightarrow> pass_stats \<Rightarrow> mir_value option \<times> pass_stats" where
  "propagate_optional_value facts \<equiv> opt_st (propagate_value facts)"

definition propagate_buffer_ref :: "facts \<Rightarrow> buffer_ref \<Rightarrow> pass_stats \<Rightarrow> buffer_ref \<times> pass_stats" where
  "propagate_buffer_ref facts b st =
     (case b of
        BR_ArrayElement i n selector bounds \<Rightarrow>
          (let (selector, st) = propagate_value facts selector st
           in (BR_ArrayElement i n selector bounds, st))
      | BR_Direct _ \<Rightarrow> (b, st))"

definition propagate_buffer_param_ref ::
  "facts \<Rightarrow> buffer_param_ref \<Rightarrow> pass_stats \<Rightarrow> buffer_param_ref \<times> pass_stats" where
  "propagate_buffer_param_ref facts b st =
     (case b of
        BP_ArrayElement i selector bounds \<Rightarrow>
          (let (selector, st) = propagate_value facts selector st
           in (BP_ArrayElement i selector bounds, st))
      | BP_Direct _ \<Rightarrow> (b, st))"

definition propagate_projection :: "facts \<Rightarrow> projection \<Rightarrow> pass_stats \<Rightarrow> projection \<times> pass_stats" where
  "propagate_projection facts p st =
     (case p of
        P_Index index bounds \<Rightarrow>
          (let (index, st) = propagate_value facts index st in (P_Index index bounds, st))
      | P_Field _ \<Rightarrow> (p, st))"

definition propagate_place_indices :: "facts \<Rightarrow> place \<Rightarrow> pass_stats \<Rightarrow> place \<times> pass_stats" where
  "propagate_place_indices facts p st =
     (let (projections, st) = map_st (propagate_projection facts) (place_projections p) st
      in (p\<lparr>place_projections := projections\<rparr>, st))"

definition propagate_slice_source ::
  "facts \<Rightarrow> slice_source \<Rightarrow> pass_stats \<Rightarrow> slice_source \<times> pass_stats" where
  "propagate_slice_source facts s st =
     (case s of
        SS_Place p \<Rightarrow> (let (p, st) = propagate_place_indices facts p st in (SS_Place p, st))
      | SS_Buffer b ch \<Rightarrow>
          (let (b, st) = propagate_buffer_ref facts b st;
               (ch, st) = propagate_optional_value facts ch st in (SS_Buffer b ch, st))
      | SS_BufferParam b ch \<Rightarrow>
          (let (b, st) = propagate_buffer_param_ref facts b st;
               (ch, st) = propagate_optional_value facts ch st in (SS_BufferParam b ch, st))
      | SS_ConstData _ \<Rightarrow> (s, st))"

definition propagate_rvalue_values :: "facts \<Rightarrow> rvalue \<Rightarrow> pass_stats \<Rightarrow> rvalue \<times> pass_stats" where
  "propagate_rvalue_values facts r st =
     (case r of
        R_InitAll \<Rightarrow> (r, st)
      | R_Use v \<Rightarrow> (let (v, st) = propagate_value facts v st in (R_Use v, st))
      | R_SliceLen v \<Rightarrow> (let (v, st) = propagate_value facts v st in (R_SliceLen v, st))
      | R_Load p \<Rightarrow> (let (p, st) = propagate_place_indices facts p st in (R_Load p, st))
      | R_Unary op v \<Rightarrow> (let (v, st) = propagate_value facts v st in (R_Unary op v, st))
      | R_Binary op a b \<Rightarrow>
          (let (a, st) = propagate_value facts a st; (b, st) = propagate_value facts b st
           in (R_Binary op a b, st))
      | R_Compare op a b \<Rightarrow>
          (let (a, st) = propagate_value facts a st; (b, st) = propagate_value facts b st
           in (R_Compare op a b, st))
      | R_Cast v to \<Rightarrow> (let (v, st) = propagate_value facts v st in (R_Cast v to, st))
      | R_Intrinsic op args \<Rightarrow>
          (let (args, st) = map_st (propagate_value facts) args st in (R_Intrinsic op args, st))
      | R_ProcessFrame v \<Rightarrow> (let (v, st) = propagate_value facts v st in (R_ProcessFrame v, st))
      | R_NormalizeIndex i n bounds \<Rightarrow>
          (let (i, st) = propagate_value facts i st; (n, st) = propagate_value facts n st
           in (R_NormalizeIndex i n bounds, st))
      | R_InputLoad i el bounds fr \<Rightarrow>
          (let (el, st) = propagate_optional_value facts el st; (fr, st) = propagate_value facts fr st
           in (R_InputLoad i el bounds fr, st))
      | R_OutputLoad i el bounds fr \<Rightarrow>
          (let (el, st) = propagate_optional_value facts el st; (fr, st) = propagate_value facts fr st
           in (R_OutputLoad i el bounds fr, st))
      | R_BufferLoad b ch i bounds \<Rightarrow>
          (let (b, st) = propagate_buffer_ref facts b st;
               (ch, st) = propagate_optional_value facts ch st;
               (i, st) = propagate_value facts i st
           in (R_BufferLoad b ch i bounds, st))
      | R_BufferParamLoad b ch i bounds \<Rightarrow>
          (let (b, st) = propagate_buffer_param_ref facts b st;
               (ch, st) = propagate_optional_value facts ch st;
               (i, st) = propagate_value facts i st
           in (R_BufferParamLoad b ch i bounds, st))
      | R_ConstDataLoad d i bounds \<Rightarrow>
          (let (i, st) = propagate_value facts i st in (R_ConstDataLoad d i bounds, st))
      | R_MakeSlice s start len bounds acc \<Rightarrow>
          (let (s, st) = propagate_slice_source facts s st;
               (start, st) = propagate_value facts start st;
               (len, st) = propagate_value facts len st
           in (R_MakeSlice s start len bounds acc, st))
      | R_SliceLoad s i bounds \<Rightarrow>
          (let (s, st) = propagate_value facts s st; (i, st) = propagate_value facts i st
           in (R_SliceLoad s i bounds, st))
      | R_BufferLen b \<Rightarrow> (let (b, st) = propagate_buffer_ref facts b st in (R_BufferLen b, st))
      | R_BufferChannels b \<Rightarrow>
          (let (b, st) = propagate_buffer_ref facts b st in (R_BufferChannels b, st))
      | R_BufferSampleRate b \<Rightarrow>
          (let (b, st) = propagate_buffer_ref facts b st in (R_BufferSampleRate b, st))
      | R_BufferIsBound b \<Rightarrow>
          (let (b, st) = propagate_buffer_ref facts b st in (R_BufferIsBound b, st))
      | R_BufferParamLen b \<Rightarrow>
          (let (b, st) = propagate_buffer_param_ref facts b st in (R_BufferParamLen b, st))
      | R_BufferParamChannels b \<Rightarrow>
          (let (b, st) = propagate_buffer_param_ref facts b st in (R_BufferParamChannels b, st))
      | R_BufferParamSampleRate b \<Rightarrow>
          (let (b, st) = propagate_buffer_param_ref facts b st in (R_BufferParamSampleRate b, st))
      | R_BufferParamIsBound b \<Rightarrow>
          (let (b, st) = propagate_buffer_param_ref facts b st in (R_BufferParamIsBound b, st)))"

definition propagate_call_argument ::
  "facts \<Rightarrow> call_argument \<Rightarrow> pass_stats \<Rightarrow> call_argument \<times> pass_stats" where
  "propagate_call_argument facts a st =
     (case a of
        A_Value v \<Rightarrow> (let (v, st) = propagate_value facts v st in (A_Value v, st))
      | A_Place p \<Rightarrow> (let (p, st) = propagate_place_indices facts p st in (A_Place p, st))
      | A_SliceElement s i bounds \<Rightarrow>
          (let (s, st) = propagate_value facts s st; (i, st) = propagate_value facts i st
           in (A_SliceElement s i bounds, st))
      | A_ArrayWindow p start bounds \<Rightarrow>
          (let (p, st) = propagate_place_indices facts p st;
               (start, st) = propagate_value facts start st
           in (A_ArrayWindow p start bounds, st))
      | A_SliceWindow s start bounds \<Rightarrow>
          (let (s, st) = propagate_value facts s st; (start, st) = propagate_value facts start st
           in (A_SliceWindow s start bounds, st))
      | A_Buffer b \<Rightarrow> (let (b, st) = propagate_buffer_ref facts b st in (A_Buffer b, st))
      | A_BufferParam b \<Rightarrow>
          (let (b, st) = propagate_buffer_param_ref facts b st in (A_BufferParam b, st))
      | A_BufferSpan _ \<Rightarrow> (a, st))"

definition propagate_copy :: "facts \<Rightarrow> slice_copy \<Rightarrow> pass_stats \<Rightarrow> slice_copy \<times> pass_stats" where
  "propagate_copy facts c st =
     (let (d, st) = propagate_value facts (copy_destination c) st;
          (s, st) = propagate_value facts (copy_source c) st
      in (\<lparr>copy_destination = d, copy_source = s\<rparr>, st))"

text \<open>The operands of a statement without nested blocks.\<close>

definition propagate_simple_operands ::
  "facts \<Rightarrow> statement_kind \<Rightarrow> pass_stats \<Rightarrow> statement_kind \<times> pass_stats" where
  "propagate_simple_operands facts k st =
     (case k of
        S_Assign p r \<Rightarrow>
          (let (p, st) = propagate_place_indices facts p st;
               (r, st) = propagate_rvalue_values facts r st in (S_Assign p r, st))
      | S_Call results f args \<Rightarrow>
          (let (args, st) = map_st (propagate_call_argument facts) args st
           in (S_Call results f args, st))
      | S_PublishDelegate d args \<Rightarrow>
          (let (args, st) = map_st (propagate_call_argument facts) args st
           in (S_PublishDelegate d args, st))
      | S_PublishLog l args \<Rightarrow>
          (let (args, st) = map_st (propagate_value facts) args st in (S_PublishLog l args, st))
      | S_OutputStore i el bounds fr v \<Rightarrow>
          (let (el, st) = propagate_optional_value facts el st;
               (fr, st) = propagate_value facts fr st;
               (v, st) = propagate_value facts v st
           in (S_OutputStore i el bounds fr v, st))
      | S_ControlOutputStore i el bounds v \<Rightarrow>
          (let (el, st) = propagate_optional_value facts el st;
               (v, st) = propagate_value facts v st
           in (S_ControlOutputStore i el bounds v, st))
      | S_BufferStore b ch i v bounds \<Rightarrow>
          (let (b, st) = propagate_buffer_ref facts b st;
               (ch, st) = propagate_optional_value facts ch st;
               (i, st) = propagate_value facts i st;
               (v, st) = propagate_value facts v st
           in (S_BufferStore b ch i v bounds, st))
      | S_BufferParamStore b ch i v bounds \<Rightarrow>
          (let (b, st) = propagate_buffer_param_ref facts b st;
               (ch, st) = propagate_optional_value facts ch st;
               (i, st) = propagate_value facts i st;
               (v, st) = propagate_value facts v st
           in (S_BufferParamStore b ch i v bounds, st))
      | S_SliceStore s i v bounds \<Rightarrow>
          (let (s, st) = propagate_value facts s st;
               (i, st) = propagate_value facts i st;
               (v, st) = propagate_value facts v st
           in (S_SliceStore s i v bounds, st))
      | S_SliceFill d v \<Rightarrow>
          (let (d, st) = propagate_value facts d st; (v, st) = propagate_value facts v st
           in (S_SliceFill d v, st))
      | S_SliceCopy cs pre \<Rightarrow>
          (let (cs, st) = map_st (propagate_copy facts) cs st in (S_SliceCopy cs pre, st))
      | S_Return vs \<Rightarrow>
          (let (vs, st) = map_st (propagate_value facts) vs st in (S_Return vs, st))
      | _ \<Rightarrow> (k, st))"

subsection \<open>Statements and blocks\<close>

text \<open>The fact an assignment leaves about its destination; \<open>r\<close> is already propagated.\<close>

definition assigned_fact :: "libm \<Rightarrow> bool list \<Rightarrow> place \<Rightarrow> rvalue \<Rightarrow> mir_value option" where
  "assigned_fact m stab p r =
     (if place_projections p = []
      then (case r of
              R_Use (V_Constant c) \<Rightarrow> Some (V_Constant c)
            | R_Use (V_Local l) \<Rightarrow>
                if stab ! l then Some (V_Local l)
                else map_option V_Constant (fold_rvalue m r)
            | _ \<Rightarrow> map_option V_Constant (fold_rvalue m r))
      else None)"

text \<open>The facts after a simple statement, from its propagated form.\<close>

definition simple_facts ::
  "libm \<Rightarrow> bool list \<Rightarrow> passing_mode list list \<Rightarrow> statement_kind \<Rightarrow> facts \<Rightarrow> facts" where
  "simple_facts m stab modes k facts =
     (case k of
        S_Assign p r \<Rightarrow>
          (case place_base p of
             PB_Local l \<Rightarrow> facts[l := assigned_fact m stab p r]
           | _ \<Rightarrow> facts)
      | S_Call results f args \<Rightarrow>
          fold invalidate_fact results
            (fold (\<lambda>(i, a) facts.
                if argument_is_written modes f i
                then (case mutated_argument_local a of
                        Some l \<Rightarrow> invalidate_fact l facts
                      | None \<Rightarrow> facts)
                else facts) (enumerate 0 args) facts)
      | _ \<Rightarrow> facts)"

definition no_facts :: "facts \<Rightarrow> facts" where
  "no_facts facts = map (\<lambda>_. None) facts"

text \<open>The facts after a conditional and whether control passes beyond it.\<close>

definition join_facts ::
  "mir_value \<Rightarrow> facts \<Rightarrow> facts \<times> bool \<Rightarrow> facts \<times> bool \<Rightarrow> facts \<times> bool" where
  "join_facts condition facts t e =
     (let (then_facts, then_falls) = t; (else_facts, else_falls) = e
      in case condition of
           V_Constant (Bool b) \<Rightarrow>
             if b then (if then_falls then then_facts else no_facts facts, then_falls)
             else (if else_falls then else_facts else no_facts facts, else_falls)
         | _ \<Rightarrow>
             if then_falls \<and> else_falls then (merge_value_facts facts then_facts else_facts, True)
             else if then_falls then (then_facts, True)
             else if else_falls then (else_facts, True)
             else (no_facts facts, False))"

fun propagate_block_values ::
    "libm \<Rightarrow> bool list \<Rightarrow> passing_mode list list \<Rightarrow> block \<Rightarrow> facts \<Rightarrow> pass_stats
       \<Rightarrow> block \<times> (facts \<times> bool) \<times> pass_stats"
  and propagate_statements_values ::
    "libm \<Rightarrow> bool list \<Rightarrow> passing_mode list list \<Rightarrow> statement list \<Rightarrow> facts \<Rightarrow> pass_stats
       \<Rightarrow> statement list \<times> (facts \<times> bool) \<times> pass_stats"
  and propagate_statement_values ::
    "libm \<Rightarrow> bool list \<Rightarrow> passing_mode list list \<Rightarrow> statement \<Rightarrow> facts \<Rightarrow> pass_stats
       \<Rightarrow> statement \<times> (facts \<times> bool) \<times> pass_stats" where
  "propagate_block_values m stab modes (Block ss) facts st =
     (let (ss, r) = propagate_statements_values m stab modes ss facts st in (Block ss, r))"
| "propagate_statements_values m stab modes [] facts st = ([], (facts, True), st)"
| "propagate_statements_values m stab modes (s # ss) facts st =
     (let (s, (facts, falls), st) = propagate_statement_values m stab modes s facts st
      in if falls
         then (let (ss, r) = propagate_statements_values m stab modes ss facts st in (s # ss, r))
         else (s # ss, (facts, False), st))"
| "propagate_statement_values m stab modes (Statement k src) facts st =
     (case k of
        S_If c t e \<Rightarrow>
          (let (c, st) = propagate_value facts c st;
               (t, tr, st) = propagate_block_values m stab modes t facts st;
               (e, er, st) = propagate_block_values m stab modes e facts st
           in (Statement (S_If c t e) src, join_facts c facts tr er, st))
      | S_Loop body \<Rightarrow>
          (let facts = invalidate_facts (collect_mutated_locals body modes) facts;
               (body, _, st) = propagate_block_values m stab modes body facts st
           in (Statement (S_Loop body) src, (facts, block_contains_reachable_break body), st))
      | _ \<Rightarrow>
          (let (k, st) = propagate_simple_operands facts k st
           in (Statement k src,
               (simple_facts m stab modes k facts, statement_falls_through k), st)))"

definition propagate_local_values ::
  "libm \<Rightarrow> passing_mode list list \<Rightarrow> mir_function \<Rightarrow> pass_stats \<Rightarrow> mir_function \<times> pass_stats" where
  "propagate_local_values m modes f st =
     (let (body, _, st) = propagate_block_values m (stable_local_values f modes) modes (fn_body f)
            (replicate (length (fn_locals f)) None) st
      in (f\<lparr>fn_body := body\<rparr>, st))"

subsection \<open>Propagation is a rewriting of operands\<close>

lemma fst_propagate_value [onda_state]: "fst (propagate_value facts v st) = resolved facts v"
  by (simp add: propagate_value_def Let_def)

lemma fst_propagate_buffer_ref [onda_state]:
  "fst (propagate_buffer_ref facts b st) = map_buffer_ref (resolved facts) b"
  by (cases b) (simp_all add: propagate_buffer_ref_def map_buffer_ref_def split_def onda_state)

lemma fst_propagate_buffer_param_ref [onda_state]:
  "fst (propagate_buffer_param_ref facts b st) = map_buffer_param_ref (resolved facts) b"
  by (cases b)
    (simp_all add: propagate_buffer_param_ref_def map_buffer_param_ref_def split_def onda_state)

lemma fst_propagate_projection [onda_state]:
  "fst (propagate_projection facts p st) = map_index (resolved facts) p"
  by (cases p) (simp_all add: propagate_projection_def map_index_def split_def onda_state)

lemma fst_propagate_place [onda_state]:
  "fst (propagate_place_indices facts p st) = map_place (resolved facts) p"
  by (simp add: propagate_place_indices_def map_place_def split_def
      fst_map_st [where g = "map_index (resolved facts)"] onda_state)

lemma fst_propagate_optional [onda_state]:
  "fst (propagate_optional_value facts v st) = map_option (resolved facts) v"
  by (rule fst_opt_st) (simp add: onda_state)

lemma fst_propagate_values [onda_state]:
  "fst (map_st (propagate_value facts) vs st) = map (resolved facts) vs"
  by (rule fst_map_st) (simp add: onda_state)

lemma fst_propagate_slice_source [onda_state]:
  "fst (propagate_slice_source facts s st) = map_slice_source (resolved facts) s"
  by (cases s) (simp_all add: propagate_slice_source_def map_slice_source_def split_def Let_def
      fst_propagate_place fst_propagate_buffer_ref fst_propagate_buffer_param_ref
      fst_propagate_optional)

lemma fst_propagate_rvalue [onda_state]:
  "fst (propagate_rvalue_values facts r st) = map_rvalue (resolved facts) r"
  by (cases r) (simp_all add: propagate_rvalue_values_def map_rvalue_def split_def Let_def
      fst_propagate_place fst_propagate_buffer_ref fst_propagate_buffer_param_ref
      fst_propagate_optional fst_propagate_values fst_propagate_slice_source fst_propagate_value)

lemma fst_propagate_argument [onda_state]:
  "fst (propagate_call_argument facts a st) = map_argument (resolved facts) a"
  by (cases a) (simp_all add: propagate_call_argument_def map_argument_def split_def Let_def
      fst_propagate_place fst_propagate_buffer_ref fst_propagate_buffer_param_ref
      fst_propagate_value)

lemma fst_propagate_arguments [onda_state]:
  "fst (map_st (propagate_call_argument facts) as st) = map (map_argument (resolved facts)) as"
  by (rule fst_map_st) (simp add: fst_propagate_argument)

lemma fst_propagate_copies [onda_state]:
  "fst (map_st (propagate_copy facts) cs st) = map (map_copy (resolved facts)) cs"
  by (rule fst_map_st)
    (simp add: propagate_copy_def map_copy_def split_def Let_def fst_propagate_value)

lemma fst_propagate_simple:
  "\<not> has_blocks k \<Longrightarrow>
     fst (propagate_simple_operands facts k st) = map_kind (resolved facts) k"
  by (cases k) (simp_all add: propagate_simple_operands_def map_kind_def split_def Let_def
      fst_propagate_place fst_propagate_buffer_ref fst_propagate_buffer_param_ref
      fst_propagate_optional fst_propagate_values fst_propagate_rvalue fst_propagate_value
      fst_propagate_arguments fst_propagate_copies)

end
