(* ===== verification/Propagate_Sound.thy ===== *)
theory Propagate_Sound
  imports Pass_Propagate
begin

section \<open>Value propagation preserves behaviour\<close>

text \<open>
  The soundness of \<open>Pass_Propagate\<close>: what the stability scan computes, which facts hold where, and
  that running the rewritten body equals running the original. The invariant behind copies is
  that a stable local which already has a value is not written by the code ahead.
\<close>

subsection \<open>Writes\<close>

text \<open>The write occurrences of a piece of code, and those that make a local unstable.\<close>

definition kind_writes :: "passing_mode list list \<Rightarrow> statement_kind \<Rightarrow> local_id list" where
  "kind_writes modes k =
     (case k of
        S_Assign p v \<Rightarrow> (case place_base p of PB_Local l \<Rightarrow> [l] | _ \<Rightarrow> [])
      | S_Call rs f as \<Rightarrow> rs @ map fst (written_arguments modes f as)
      | _ \<Rightarrow> [])"

definition kind_unstable :: "passing_mode list list \<Rightarrow> statement_kind \<Rightarrow> local_id list" where
  "kind_unstable modes k =
     (case k of
        S_Assign p v \<Rightarrow>
          (case place_base p of PB_Local l \<Rightarrow> if place_projections p \<noteq> [] then [l] else [] | _ \<Rightarrow> [])
      | S_Call rs f as \<Rightarrow> map fst (written_arguments modes f as)
      | _ \<Rightarrow> [])"

fun block_writes :: "passing_mode list list \<Rightarrow> block \<Rightarrow> local_id list"
  and statements_writes :: "passing_mode list list \<Rightarrow> statement list \<Rightarrow> local_id list"
  and statement_writes :: "passing_mode list list \<Rightarrow> statement \<Rightarrow> local_id list" where
  "block_writes modes (Block ss) = statements_writes modes ss"
| "statements_writes modes [] = []"
| "statements_writes modes (s # ss) = statement_writes modes s @ statements_writes modes ss"
| "statement_writes modes (Statement k src) =
     (case k of
        S_If c t e \<Rightarrow> block_writes modes t @ block_writes modes e
      | S_Loop body \<Rightarrow> block_writes modes body
      | _ \<Rightarrow> kind_writes modes k)"

fun block_unstable :: "passing_mode list list \<Rightarrow> block \<Rightarrow> local_id list"
  and statements_unstable :: "passing_mode list list \<Rightarrow> statement list \<Rightarrow> local_id list"
  and statement_unstable :: "passing_mode list list \<Rightarrow> statement \<Rightarrow> local_id list" where
  "block_unstable modes (Block ss) = statements_unstable modes ss"
| "statements_unstable modes [] = []"
| "statements_unstable modes (s # ss) = statement_unstable modes s @ statements_unstable modes ss"
| "statement_unstable modes (Statement k src) =
     (case k of
        S_If c t e \<Rightarrow> block_unstable modes t @ block_unstable modes e
      | S_Loop body \<Rightarrow> block_writes modes body
      | _ \<Rightarrow> kind_unstable modes k)"

lemma statement_writes_simple: "\<not> has_blocks k \<Longrightarrow> statement_writes modes (Statement k src) = kind_writes modes k"
  by (cases k) (simp_all add: has_blocks_def)

lemma statement_unstable_simple:
  "\<not> has_blocks k \<Longrightarrow> statement_unstable modes (Statement k src) = kind_unstable modes k"
  by (cases k) (simp_all add: has_blocks_def)

lemma unstable_writes:
  shows "set (statement_unstable modes s) \<subseteq> set (statement_writes modes s)"
    and "set (statement_unstable modes (Statement k src)) \<subseteq> set (statement_writes modes (Statement k src))"
    and "set (block_unstable modes b) \<subseteq> set (block_writes modes b)"
    and "set (statements_unstable modes ss) \<subseteq> set (statements_writes modes ss)"
proof (induction s and k and b and ss arbitrary: and src and and rule: mir_induct)
  case (Simple k)
  then show ?case
    unfolding statement_writes_simple [OF Simple] statement_unstable_simple [OF Simple]
    by (auto simp: kind_writes_def kind_unstable_def split: statement_kind.splits place_base.splits)
qed auto

lemma mutated_writes:
  shows "collect_statements_mutated [s] modes = set (statement_writes modes s)"
    and "collect_statements_mutated [Statement k src] modes = set (statement_writes modes (Statement k src))"
    and "collect_mutated_locals b modes = set (block_writes modes b)"
    and "collect_statements_mutated ss modes = set (statements_writes modes ss)"
proof (induction s and k and b and ss arbitrary: and src and and rule: mir_induct)
  case (Simple k)
  then show ?case
    by (cases k) (auto simp: kind_writes_def call_mutated_locals_def split: place_base.splits)
next
  case (Cons s ss)
  then show ?case by (cases s) simp
qed auto

subsection \<open>What the stability scan computes\<close>

abbreviation scan_ok :: "stability \<Rightarrow> bool" where
  "scan_ok s \<equiv> length (fst s) = length (snd s) \<and> (\<forall>i < length (fst s). fst s ! i \<le> u32_max)"

text \<open>A scan adds the write occurrences \<open>W\<close> and marks the locals \<open>U\<close>.\<close>

definition scanned :: "stability \<Rightarrow> stability \<Rightarrow> local_id list \<Rightarrow> local_id set \<Rightarrow> bool" where
  "scanned s s' W U \<longleftrightarrow> length (fst s') = length (fst s) \<and> length (snd s') = length (fst s)
     \<and> (\<forall>l < length (fst s). fst s' ! l = min u32_max (fst s ! l + count_list W l)
          \<and> (snd s' ! l \<longleftrightarrow> snd s ! l \<or> l \<in> U))"

lemma scanned_ok: "scanned s s' W U \<Longrightarrow> scan_ok s'"
  by (auto simp: scanned_def)

lemma scanned_refl: "scan_ok s \<Longrightarrow> scanned s s [] {}"
  by (simp add: scanned_def min_absorb2)

lemma scanned_trans:
  assumes "scanned s1 s2 W1 U1" and "scanned s2 s3 W2 U2"
  shows "scanned s1 s3 (W1 @ W2) (U1 \<union> U2)"
  using assms by (auto simp: scanned_def min_def)

lemma record_scanned:
  assumes "scan_ok s"
  shows "scanned s (record_local_stability_write l inside ref s) [l] (if inside \<or> ref then {l} else {})"
  using assms
  by (auto simp: scanned_def record_local_stability_write_def split_def Let_def nth_list_update
      sat_add_def min_def)

lemma fold_scanned:
  assumes "scan_ok s" and "\<And>x s. x \<in> set xs \<Longrightarrow> scan_ok s \<Longrightarrow> scanned s (g x s) (W x) (U x)"
  shows "scanned s (fold g xs s) (concat (map W xs)) (\<Union>x \<in> set xs. U x)"
  using assms
proof (induction xs arbitrary: s)
  case Nil
  then show ?case by (simp add: scanned_refl)
next
  case (Cons x xs)
  have 1: "scanned s (g x s) (W x) (U x)" using Cons.prems by simp
  have "scanned (g x s) (fold g xs (g x s)) (concat (map W xs)) (\<Union>x \<in> set xs. U x)"
    using Cons.prems(2) by (intro Cons.IH scanned_ok [OF 1]) simp
  from scanned_trans [OF 1 this] show ?case by simp
qed

lemma call_scanned:
  assumes "scan_ok s"
  shows "scanned s (collect_call_stability inside modes rs f as s)
    (rs @ map fst (written_arguments modes f as))
    ((if inside then set rs else {}) \<union> fst ` set (written_arguments modes f as))"
proof -
  let ?g = "\<lambda>(i, a) s. if argument_is_written modes f i
         then (case mutated_argument_local a of
                 Some l \<Rightarrow> record_local_stability_write l inside True s | None \<Rightarrow> s) else s"
  let ?h = "\<lambda>(i, a). if argument_is_written modes f i
       then (case mutated_argument_local a of Some l \<Rightarrow> [(l, i)] | None \<Rightarrow> []) else []"
  let ?mid = "fold (\<lambda>l. record_local_stability_write l inside False) rs s"
  have 1: "scanned s ?mid rs (if inside then set rs else {})"
    using fold_scanned [OF assms, of rs "\<lambda>l. record_local_stability_write l inside False" "\<lambda>l. [l]"
        "\<lambda>l. if inside then {l} else {}"] record_scanned [of _ _ inside False] by auto
  have "scanned ?mid (fold ?g (enumerate 0 as) ?mid)
      (concat (map (map fst \<circ> ?h) (enumerate 0 as))) (\<Union>x \<in> set (enumerate 0 as). fst ` set (?h x))"
  proof (rule fold_scanned)
    show "scan_ok ?mid" using scanned_ok [OF 1] .
    show "scanned s' (?g x s') ((map fst \<circ> ?h) x) (fst ` set (?h x))" if ok: "scan_ok s'" for x s'
    proof -
      obtain i a where x: "x = (i, a)" by fastforce
      show ?thesis
        using record_scanned [OF ok, of _ inside True] scanned_refl [OF ok]
        by (cases "argument_is_written modes f i"; cases "mutated_argument_local a") (simp_all add: x)
    qed
  qed
  moreover have "concat (map (map fst \<circ> ?h) (enumerate 0 as)) = map fst (written_arguments modes f as)"
    by (simp add: written_arguments_def map_concat comp_def)
  moreover have "(\<Union>x \<in> set (enumerate 0 as). fst ` set (?h x)) = fst ` set (written_arguments modes f as)"
    unfolding written_arguments_def by (simp only: set_concat set_map image_Union image_image)
  ultimately have "scanned ?mid (fold ?g (enumerate 0 as) ?mid)
      (map fst (written_arguments modes f as)) (fst ` set (written_arguments modes f as))"
    by (simp only:)
  from scanned_trans [OF 1 this] show ?thesis
    unfolding collect_call_stability_def .
qed

definition marked :: "bool \<Rightarrow> local_id list \<Rightarrow> local_id list \<Rightarrow> local_id set" where
  "marked inside W U = (if inside then set W else set U)"

lemma marked_append: "marked i (W1 @ W2) (U1 @ U2) = marked i W1 U1 \<union> marked i W2 U2"
  by (simp add: marked_def)

lemma collect_single:
  "collect_statements_stability (s # ss) inside modes s0 =
     collect_statements_stability ss inside modes (collect_statements_stability [s] inside modes s0)"
  by (cases s) simp

lemma simple_scanned:
  assumes "\<not> has_blocks k" and "scan_ok s0"
  shows "scanned s0 (collect_statements_stability [Statement k src] inside modes s0)
      (kind_writes modes k) (marked inside (kind_writes modes k) (kind_unstable modes k))"
proof (cases k)
  case (S_Assign p v)
  show ?thesis
  proof (cases "place_base p")
    case (PB_Local l)
    then show ?thesis
      using S_Assign record_scanned [OF assms(2), of l inside "place_projections p \<noteq> []"]
      by (cases inside; cases "place_projections p = []")
        (simp_all add: kind_writes_def kind_unstable_def marked_def)
  qed (use assms S_Assign in \<open>simp_all add: kind_writes_def kind_unstable_def marked_def scanned_refl\<close>)
next
  case (S_Call rs f as)
  have "(if inside then set rs else {}) \<union> fst ` set (written_arguments modes f as)
      = marked inside (kind_writes modes k) (kind_unstable modes k)"
    by (simp add: S_Call kind_writes_def kind_unstable_def marked_def)
  then show ?thesis
    using call_scanned [OF assms(2), of inside modes rs f as]
    by (simp add: S_Call kind_writes_def)
qed (use assms in \<open>simp_all add: kind_writes_def kind_unstable_def marked_def scanned_refl\<close>)

lemma collect_scanned:
  shows "\<And>inside s0. scan_ok s0 \<Longrightarrow> scanned s0 (collect_statements_stability [s] inside modes s0)
      (statement_writes modes s) (marked inside (statement_writes modes s) (statement_unstable modes s))"
    and "\<And>inside src s0. scan_ok s0 \<Longrightarrow>
      scanned s0 (collect_statements_stability [Statement k src] inside modes s0)
      (statement_writes modes (Statement k src))
      (marked inside (statement_writes modes (Statement k src)) (statement_unstable modes (Statement k src)))"
    and "\<And>inside s0. scan_ok s0 \<Longrightarrow> scanned s0 (collect_local_stability b inside modes s0)
      (block_writes modes b) (marked inside (block_writes modes b) (block_unstable modes b))"
    and "\<And>inside s0. scan_ok s0 \<Longrightarrow> scanned s0 (collect_statements_stability ss inside modes s0)
      (statements_writes modes ss) (marked inside (statements_writes modes ss) (statements_unstable modes ss))"
proof (induction s and k and b and ss rule: mir_induct)
  case (Statement k src)
  then show ?case by blast
next
  case (Simple k)
  show ?case
    using simple_scanned [OF Simple(1) Simple(2)]
    unfolding statement_writes_simple [OF Simple(1)] statement_unstable_simple [OF Simple(1)] .
next
  case (If c t e)
  note 1 = If.IH(1) [OF If.prems, of inside]
  note 2 = If.IH(2) [OF scanned_ok [OF 1], of inside]
  from scanned_trans [OF 1 2] show ?case by (simp add: marked_append)
next
  case (Loop body)
  show ?case using Loop.IH [OF Loop.prems, of True] by (simp add: marked_def)
next
  case (Block ss)
  then show ?case by simp
next
  case Nil
  then show ?case using scanned_refl by (simp add: marked_def)
next
  case (Cons s ss)
  note 1 = Cons.IH(1) [OF Cons.prems, of inside]
  note 2 = Cons.IH(2) [OF scanned_ok [OF 1], of inside]
  from scanned_trans [OF 1 2] show ?case
    unfolding collect_single [of s ss] by (simp add: marked_append)
qed

text \<open>A local is stable when its only write occurrence is a whole assignment or a call result
  outside every loop.\<close>

lemma stable_local_values_iff:
  assumes "l < length (fn_locals f)"
  shows "stable_local_values f modes ! l \<longleftrightarrow>
    count_list (block_writes modes (fn_body f)) l = 1 \<and> l \<notin> set (block_unstable modes (fn_body f))"
proof -
  let ?n = "length (fn_locals f)"
  let ?init = "(replicate ?n 0, replicate ?n False)"
  let ?s = "collect_local_stability (fn_body f) False modes ?init"
  have s: "scanned ?init ?s (block_writes modes (fn_body f))
      (marked False (block_writes modes (fn_body f)) (block_unstable modes (fn_body f)))"
    by (rule collect_scanned(3)) simp
  obtain w u where wu: "?s = (w, u)" by fastforce
  show ?thesis
    using s assms wu by (auto simp: stable_local_values_def scanned_def marked_def min_def)
qed

lemma length_stable_local_values [simp]: "length (stable_local_values f modes) = length (fn_locals f)"
proof -
  let ?n = "length (fn_locals f)"
  let ?init = "(replicate ?n 0, replicate ?n False)"
  have "scanned ?init (collect_local_stability (fn_body f) False modes ?init) (block_writes modes (fn_body f))
      (marked False (block_writes modes (fn_body f)) (block_unstable modes (fn_body f)))"
    by (rule collect_scanned(3)) simp
  then show ?thesis
    by (simp add: stable_local_values_def scanned_def split_def Let_def)
qed

subsection \<open>Execution changes written and sliced locals only\<close>

lemma write_back_frame: "x \<notin> fst ` set ws \<Longrightarrow> write_back ws news e x = e x"
  by (induction ws arbitrary: e) (auto split: option.splits)

lemma bind_results_frame: "bind_results ls vs e = Some e' \<Longrightarrow> x \<notin> set ls \<Longrightarrow> e' x = e x"
  by (induction ls vs e rule: bind_results.induct) auto

lemma set_sliced_frame: "\<not> op_sliced M x \<Longrightarrow> set_sliced M e new x = e x"
  by (simp add: set_sliced_def)

lemma exec_simple_frame:
  assumes "exec_simple M k e w = Some (e', w')" and "x \<notin> set (kind_writes (op_modes M) k)"
    and "\<not> op_sliced M x"
  shows "e' x = e x"
proof (cases k)
  case (S_Assign p r)
  then show ?thesis
    using assms by (cases "place_base p")
      (auto simp: exec_simple_def assign_place_def kind_writes_def bind_eq_Some_conv split: if_splits)
next
  case (S_Call rs f as)
  with assms(1) obtain res news sl where
    "bind_results rs res (write_back (written_arguments (op_modes M) f as) news (set_sliced M e sl)) = Some e'"
    by (auto simp: exec_simple_def exec_call_def bind_eq_Some_conv)
  from bind_results_frame [OF this, of x] show ?thesis
    using assms(2,3) S_Call by (simp add: kind_writes_def write_back_frame set_sliced_frame)
qed (use assms in \<open>auto simp: exec_simple_def bind_eq_Some_conv set_sliced_frame\<close>)

lemma iterate_frame:
  assumes "iterate n f e w = Some (out, e', w')"
    and "\<And>e w out e' w'. f e w = Some (out, e', w') \<Longrightarrow> e' x = e x"
  shows "e' x = e x"
  using assms(1)
proof (induction n arbitrary: e w)
  case (Suc n)
  obtain o1 e1 w1 where b: "f e w = Some (o1, e1, w1)"
    using Suc.prems by (auto split: option.splits)
  have "e1 x = e x" by (rule assms(2) [OF b])
  with Suc b show ?case by (cases o1) auto
qed simp

lemma run_frame:
  fixes M :: "('x, 'w) ops"
  assumes "\<not> op_sliced M x"
  shows "\<And>e w out e' w'. run_statement s M n e w = Some (out, e', w') \<Longrightarrow>
      x \<notin> set (statement_writes (op_modes M) s) \<Longrightarrow> e' x = e x"
    and "\<And>src e w out e' w'. run_kind k M n e w = Some (out, e', w') \<Longrightarrow>
      x \<notin> set (statement_writes (op_modes M) (Statement k src)) \<Longrightarrow> e' x = e x"
    and "\<And>e w out e' w'. run_block b M n e w = Some (out, e', w') \<Longrightarrow>
      x \<notin> set (block_writes (op_modes M) b) \<Longrightarrow> e' x = e x"
    and "\<And>e w out e' w'. run_statements ss M n e w = Some (out, e', w') \<Longrightarrow>
      x \<notin> set (statements_writes (op_modes M) ss) \<Longrightarrow> e' x = e x"
proof (induction s and k and b and ss rule: mir_induct)
  case (Statement k src)
  then show ?case by simp
next
  case (Simple k)
  note w = Simple(3) [unfolded statement_writes_simple [OF Simple(1)]]
  show ?case
  proof (cases "is_control k")
    case True
    then show ?thesis
      using Simple(1,2) by (cases k) (auto simp: is_control_def run_return_def split: option.splits)
  next
    case False
    then show ?thesis
      using Simple(2) exec_simple_frame [OF _ w assms]
      by (auto simp: run_kind_simple finish_def split: option.splits)
  qed
next
  case (If c t f)
  then show ?case
    by (auto simp: run_if_def split: option.splits scalar_value.splits if_splits)
next
  case (Loop body)
  then show ?case by (auto intro: iterate_frame)
next
  case (Cons s ss)
  obtain o1 e1 w1 where s: "run_statement s M n e w = Some (o1, e1, w1)"
    using Cons.prems(1) by (cases "run_statement s M n e w") (auto simp: run_statements_Cons seq_def)
  have 1: "e1 x = e x" using Cons.IH(1) [OF s] Cons.prems(2) by simp
  show ?case
    using Cons.prems Cons.IH(2) [of e1 w1 out e' w'] s 1
    by (cases o1) (auto simp: run_statements_Cons seq_def)
qed auto

subsection \<open>Facts that hold\<close>

text \<open>\<open>good sl sb l\<close>: \<open>l\<close> is a stable local of the function whose storage no slice reaches.\<close>

definition good :: "(local_id \<Rightarrow> bool) \<Rightarrow> bool list \<Rightarrow> local_id \<Rightarrow> bool" where
  "good sl sb l \<longleftrightarrow> l < length sb \<and> sb ! l \<and> \<not> sl l"

definition facts_hold :: "(local_id \<Rightarrow> bool) \<Rightarrow> bool list \<Rightarrow> facts \<Rightarrow> 'x env \<Rightarrow> bool" where
  "facts_hold sl sb facts e \<longleftrightarrow> (\<forall>x v. get_flat facts x = Some v \<longrightarrow>
     \<not> sl x \<and> e x \<noteq> None \<and> eval_value e v = e x \<and> (\<forall>y. v = V_Local y \<longrightarrow> good sl sb y))"

lemma facts_holdD:
  assumes "facts_hold sl sb facts e" and "get_flat facts x = Some v"
  shows "\<not> sl x" and "e x \<noteq> None" and "eval_value e v = e x" and "v = V_Local y \<Longrightarrow> good sl sb y"
  using assms unfolding facts_hold_def by blast+

lemma resolve_value_same:
  assumes "facts_hold sl sb facts e"
  shows "eval_value e (resolve_value n facts v) = eval_value e v"
proof (induction n arbitrary: v)
  case (Suc n)
  show ?case
  proof (cases v)
    case (V_Local l)
    then show ?thesis
      using Suc facts_holdD(3) [OF assms, of l] by (auto split: option.splits)
  qed simp
qed simp

lemma resolve_value_good:
  assumes "facts_hold sl sb facts e"
  shows "resolve_value n facts v = v \<or> (\<forall>y. resolve_value n facts v = V_Local y \<longrightarrow> good sl sb y)"
proof (induction n arbitrary: v)
  case (Suc n)
  show ?case
  proof (cases v)
    case (V_Local l)
    show ?thesis
    proof (cases "get_flat facts l")
      case (Some nxt)
      have "\<forall>y. nxt = V_Local y \<longrightarrow> good sl sb y" using facts_holdD(4) [OF assms Some] by blast
      with Some Suc [of nxt] V_Local show ?thesis by auto
    qed (use V_Local in simp)
  qed simp
qed simp

text \<open>Propagated operands keep their values; outside the states the facts describe the rewriting is
  the identity.\<close>

definition propagated :: "(local_id \<Rightarrow> bool) \<Rightarrow> bool list \<Rightarrow> facts \<Rightarrow> 'x env \<Rightarrow> mir_value \<Rightarrow> mir_value" where
  "propagated sl sb facts e v = (if facts_hold sl sb facts e then resolved facts v else v)"

interpretation propagation: operand_rewriting "propagated sl sb facts e" e for sl sb facts e
  by unfold_locales (simp add: propagated_def resolved_def resolve_value_same)

lemma propagated_eq: "facts_hold sl sb facts e \<Longrightarrow> propagated sl sb facts e = resolved facts"
  by (simp add: propagated_def fun_eq_iff)

lemma facts_hold_frame:
  assumes "facts_hold sl sb facts e"
    and "\<And>x v. get_flat facts' x = Some v \<Longrightarrow> get_flat facts x = Some v \<and> e' x = e x"
    and "\<And>y. good sl sb y \<Longrightarrow> e y \<noteq> None \<Longrightarrow> e' y = e y"
  shows "facts_hold sl sb facts' e'"
  unfolding facts_hold_def
proof (intro allI impI)
  fix x v assume "get_flat facts' x = Some v"
  then have x: "get_flat facts x = Some v" "e' x = e x" using assms(2) by blast+
  note h = facts_holdD [OF assms(1) x(1)]
  have "eval_value e' v = eval_value e v"
  proof (cases v)
    case (V_Local y)
    then have "good sl sb y" "e y \<noteq> None" using h by auto
    then show ?thesis using V_Local assms(3) by simp
  qed simp
  with h x(2) show "\<not> sl x \<and> e' x \<noteq> None \<and> eval_value e' v = e' x
      \<and> (\<forall>y. v = V_Local y \<longrightarrow> good sl sb y)" by auto
qed

subsection \<open>Facts after a simple statement\<close>

text \<open>Whole-local copies must not involve storage a slice reaches: the pass does not see writes
  through slices.\<close>

definition copy_ok :: "(local_id \<Rightarrow> bool) \<Rightarrow> nat \<Rightarrow> statement_kind \<Rightarrow> bool" where
  "copy_ok sl n k =
     (case k of
        S_Assign p r \<Rightarrow>
          (case place_base p of
             PB_Local x \<Rightarrow>
               (case r of
                  R_Use (V_Local y) \<Rightarrow> \<not> sl x \<and> \<not> sl y \<and> y < n
                | R_Use _ \<Rightarrow> \<not> sl x | R_Unary _ _ \<Rightarrow> \<not> sl x | R_Binary _ _ _ \<Rightarrow> \<not> sl x
                | R_Compare _ _ _ \<Rightarrow> \<not> sl x | R_Cast _ _ \<Rightarrow> \<not> sl x | R_Intrinsic _ _ \<Rightarrow> \<not> sl x
                | _ \<Rightarrow> True)
           | _ \<Rightarrow> True)
      | _ \<Rightarrow> True)"

fun all_kinds_block :: "(statement_kind \<Rightarrow> bool) \<Rightarrow> block \<Rightarrow> bool"
  and all_kinds_statements :: "(statement_kind \<Rightarrow> bool) \<Rightarrow> statement list \<Rightarrow> bool"
  and all_kinds :: "(statement_kind \<Rightarrow> bool) \<Rightarrow> statement \<Rightarrow> bool" where
  "all_kinds_block P (Block ss) = all_kinds_statements P ss"
| "all_kinds_statements P [] = True"
| "all_kinds_statements P (s # ss) = (all_kinds P s \<and> all_kinds_statements P ss)"
| "all_kinds P (Statement k src) =
     (P k \<and> (case k of
        S_If c t e \<Rightarrow> all_kinds_block P t \<and> all_kinds_block P e
      | S_Loop body \<Rightarrow> all_kinds_block P body
      | _ \<Rightarrow> True))"

text \<open>No good local that already has a value is written by the code ahead.\<close>

definition settled :: "(local_id \<Rightarrow> bool) \<Rightarrow> bool list \<Rightarrow> local_id list \<Rightarrow> 'x env \<Rightarrow> bool" where
  "settled sl sb W e \<longleftrightarrow> (\<forall>y. good sl sb y \<longrightarrow> e y \<noteq> None \<longrightarrow> y \<notin> set W)"

definition once :: "(local_id \<Rightarrow> bool) \<Rightarrow> bool list \<Rightarrow> local_id list \<Rightarrow> local_id list \<Rightarrow> bool" where
  "once sl sb W U \<longleftrightarrow> (\<forall>y. good sl sb y \<longrightarrow> count_list W y \<le> 1 \<and> y \<notin> set U)"

lemma get_flat_invalidate: "get_flat (invalidate_fact l F) x = (if x = l then None else get_flat F x)"
  by (auto simp: invalidate_fact_def get_flat_def)

lemma get_flat_invalidates:
  "get_flat (invalidate_facts S F) x = (if x \<in> S then None else get_flat F x)"
  by (auto simp: invalidate_facts_def get_flat_def nth_enumerate_eq)

lemma get_flat_no_facts [simp]: "get_flat (no_facts F) x = None"
  by (simp add: no_facts_def get_flat_def)

lemma get_flat_fold_invalidate:
  "get_flat (fold invalidate_fact ls F) x = (if x \<in> set ls then None else get_flat F x)"
  by (induction ls arbitrary: F) (auto simp: get_flat_invalidate)

lemma fold_invalidate_arguments:
  "fold (\<lambda>(i, a) facts. if argument_is_written modes f i
           then (case mutated_argument_local a of Some l \<Rightarrow> invalidate_fact l facts | None \<Rightarrow> facts)
           else facts) (enumerate 0 as) F
   = fold invalidate_fact (map fst (written_arguments modes f as)) F"
proof -
  have "fold (\<lambda>(i, a) facts. if argument_is_written modes f i
           then (case mutated_argument_local a of Some l \<Rightarrow> invalidate_fact l facts | None \<Rightarrow> facts)
           else facts) ias F
   = fold invalidate_fact (map fst (concat (map (\<lambda>(i, a). if argument_is_written modes f i
       then (case argument_local a of Some l \<Rightarrow> [(l, i)] | None \<Rightarrow> []) else []) ias))) F" for ias
    by (induction ias arbitrary: F) (auto split: option.splits)
  then show ?thesis unfolding written_arguments_def .
qed

lemma assigned_fact_cases:
  assumes "assigned_fact m sb p r = Some v"
  shows "place_projections p = [] \<and>
    ((\<exists>c. v = V_Constant c \<and> (r = R_Use v \<or> fold_rvalue m r = Some c))
     \<or> (\<exists>l. v = V_Local l \<and> r = R_Use v \<and> sb ! l))"
  using assms
  by (cases r) (auto simp: assigned_fact_def split: if_splits mir_value.splits)

lemma fold_rvalue_scalar:
  "fold_rvalue m (map_rvalue g r) = Some c \<Longrightarrow> place_base p = PB_Local x \<Longrightarrow>
     copy_ok sl n (S_Assign p r) \<Longrightarrow> \<not> sl x"
  by (cases r) (auto simp: fold_rvalue_def map_rvalue_def copy_ok_def split: mir_value.splits)

lemma assign_facts:
  assumes k: "k = S_Assign p r" and hold: "facts_hold (op_sliced M) sb F e"
    and ok: "copy_ok (op_sliced M) (length sb) k"
    and settled: "settled (op_sliced M) sb (kind_writes (op_modes M) k) e"
    and once: "once (op_sliced M) sb (kind_writes (op_modes M) k) (kind_unstable (op_modes M) k)"
    and run: "exec_simple M k e w = Some (e', w')"
  shows "facts_hold (op_sliced M) sb (simple_facts m sb modes (map_kind (resolved F) k) F) e'"
proof (cases "place_base p")
  case (PB_Local x)
  let ?r = "map_rvalue (resolved F) r"
  let ?fact = "assigned_fact m sb (map_place (resolved F) p) ?r"
  have facts': "simple_facts m sb modes (map_kind (resolved F) k) F = F[x := ?fact]"
    using k PB_Local by (simp add: simple_facts_def map_kind_def operand_simps)
  obtain v where v: "eval_rvalue M r e w = Some v" "assign_place M p v e w = Some (e', w')"
    using run k by (auto simp: exec_simple_def bind_eq_Some_conv)
  have rv: "eval_rvalue M ?r e w = Some v"
    using propagation.rvalue [of M "op_sliced M" sb F e r w] v(1) by (simp add: propagated_eq [OF hold])
  have others: "e' z = e z" if "z \<noteq> x" for z
    using v(2) that PB_Local by (auto simp: assign_place_def bind_eq_Some_conv split: if_splits)
  have good_kept: "good (op_sliced M) sb y \<Longrightarrow> e y \<noteq> None \<Longrightarrow> y \<noteq> x" for y
    using settled PB_Local k by (auto simp: settled_def kind_writes_def)
  have old: "facts_hold (op_sliced M) sb (F[x := None]) e'"
    using hold others good_kept
    by (intro facts_hold_frame [OF hold])
      (auto simp: get_flat_invalidate [unfolded invalidate_fact_def] split: if_splits)
  show ?thesis
  proof (cases "?fact")
    case None
    with old facts' show ?thesis by simp
  next
    case (Some f)
    note cases = assigned_fact_cases [OF Some]
    have "place_projections p = []" using cases by (simp add: map_place_def)
    then have ex: "e' x = Some v" using v(2) PB_Local by (auto simp: assign_place_def bind_eq_Some_conv)
    have "\<not> op_sliced M x \<and> eval_value e' f = Some v \<and> (\<forall>y. f = V_Local y \<longrightarrow> good (op_sliced M) sb y)"
    proof (cases f)
      case (V_Constant c)
      then consider "?r = R_Use f" | "fold_rvalue m ?r = Some c" using cases by auto
      then show ?thesis
      proof cases
        case 1
        then obtain u where "r = R_Use u" by (cases r) (simp_all add: map_rvalue_def)
        then have "\<not> op_sliced M x" using ok PB_Local k by (cases u) (simp_all add: copy_ok_def)
        then show ?thesis using 1 rv V_Constant by (simp add: eval_rvalue_def)
      next
        case 2
        then show ?thesis
          using fold_rvalue_sound [OF 2, of M e w] rv V_Constant fold_rvalue_scalar [OF 2 PB_Local] ok k
          by simp
      qed
    next
      case (V_Local l)
      then have l: "?r = R_Use (V_Local l)" "sb ! l" using cases by auto
      then obtain u where u: "r = R_Use u" "resolved F u = V_Local l"
        by (cases r) (simp_all add: map_rvalue_def)
      have x: "\<not> op_sliced M x" using u ok PB_Local k by (cases u) (simp_all add: copy_ok_def)
      have "good (op_sliced M) sb l"
      proof (cases "resolved F u = u")
        case True
        then have "u = V_Local l" using u(2) by simp
        then show ?thesis using u(1) l(2) ok PB_Local k by (simp add: copy_ok_def good_def)
      next
        case False
        then show ?thesis
          using u(2) resolve_value_good [OF hold, of "length F" u] by (auto simp: resolved_def)
      qed
      moreover have el: "e l = Some v" using rv l(1) by (simp add: eval_rvalue_def)
      ultimately have "l \<noteq> x" using good_kept by auto
      with el others x \<open>good (op_sliced M) sb l\<close> V_Local show ?thesis by simp
    qed
    then show ?thesis
      using old ex unfolding facts' facts_hold_def
      by (auto simp: get_flat_update Some split: if_splits)
  qed
next
qed (use assms in \<open>auto simp: simple_facts_def map_kind_def operand_simps exec_simple_def
       assign_place_def bind_eq_Some_conv\<close>)

lemma simple_facts_step:
  assumes "\<not> is_control k" and hold: "facts_hold (op_sliced M) sb F e"
    and ok: "copy_ok (op_sliced M) (length sb) k"
    and settled: "settled (op_sliced M) sb (kind_writes (op_modes M) k) e"
    and once: "once (op_sliced M) sb (kind_writes (op_modes M) k) (kind_unstable (op_modes M) k)"
    and run: "exec_simple M k e w = Some (e', w')"
  shows "facts_hold (op_sliced M) sb
    (simple_facts m sb (op_modes M) (map_kind (resolved F) k) F) e'"
proof -
  have frame: "e' y = e y" if "y \<notin> set (kind_writes (op_modes M) k)" "\<not> op_sliced M y" for y
    using exec_simple_frame [OF run that] .
  have good: "e' y = e y" if "good (op_sliced M) sb y" "e y \<noteq> None" for y
    using that settled by (intro frame) (auto simp: settled_def good_def)
  have facts: "\<not> op_sliced M x" if "get_flat F x = Some v" for x v
    using facts_holdD(1) [OF hold that] .
  show ?thesis
  proof (cases k)
    case (S_Assign p r)
    show ?thesis by (rule assign_facts [OF S_Assign hold ok settled once run])
  next
    case (S_Call rs f as)
    have w: "written_arguments (op_modes M) f (map (map_argument (resolved F)) as)
        = written_arguments (op_modes M) f as"
      using propagation.written [of "op_modes M" f "op_sliced M" sb F e as]
      by (simp add: propagated_eq [OF hold])
    have facts': "get_flat (simple_facts m sb (op_modes M) (map_kind (resolved F) k) F) x
        = (if x \<in> set (kind_writes (op_modes M) k) then None else get_flat F x)" for x
      unfolding S_Call map_kind_def simple_facts_def statement_kind.case fold_invalidate_arguments w
        get_flat_fold_invalidate by (auto simp: kind_writes_def)
    show ?thesis
      using good facts frame
      by (intro facts_hold_frame [OF hold]) (auto simp: facts' split: if_splits)
  qed (use assms facts_hold_frame [OF hold] good frame facts in
    \<open>auto simp: simple_facts_def map_kind_def kind_writes_def is_control_def\<close>)
qed

subsection \<open>The propagated program behaves the same\<close>

text \<open>What a propagated piece of code must satisfy in a state.\<close>

definition propagates ::
  "('x env \<Rightarrow> 'w \<Rightarrow> ('x, 'w) result option) \<Rightarrow> ('x env \<Rightarrow> 'w \<Rightarrow> ('x, 'w) result option)
     \<Rightarrow> (local_id \<Rightarrow> bool) \<Rightarrow> bool list \<Rightarrow> facts \<times> bool \<Rightarrow> 'x env \<Rightarrow> 'w \<Rightarrow> bool" where
  "propagates new old sl sb r e w \<longleftrightarrow> new e w = old e w
     \<and> (\<forall>e' w'. old e w = Some (Normal, e', w') \<longrightarrow> snd r \<and> facts_hold sl sb (fst r) e')"

lemma settled_append:
  "settled sl sb (W1 @ W2) e \<longleftrightarrow> settled sl sb W1 e \<and> settled sl sb W2 e"
  by (auto simp: settled_def)

lemma once_append: "once sl sb (W1 @ W2) (U1 @ U2) \<Longrightarrow> once sl sb W1 U1 \<and> once sl sb W2 U2"
  by (force simp: once_def)

lemma settled_after:
  assumes "settled sl sb (W1 @ W2) e" and "once sl sb (W1 @ W2) U"
    and "\<And>x. x \<notin> set W1 \<Longrightarrow> \<not> sl x \<Longrightarrow> e' x = e x"
  shows "settled sl sb W2 e'"
  unfolding settled_def
proof (intro allI impI)
  fix y assume y: "good sl sb y" "e' y \<noteq> None"
  show "y \<notin> set W2"
  proof (cases "y \<in> set W1")
    case True
    then have "0 < count_list W1 y" using count_list_0_iff [of W1 y] by simp
    moreover have "count_list W1 y + count_list W2 y \<le> 1" using assms(2) y by (simp add: once_def)
    ultimately show ?thesis using count_list_0_iff [of W2 y] by simp
  next
    case False
    then have "e y \<noteq> None" using assms(3) y by (auto simp: good_def)
    then show ?thesis using assms(1) y by (auto simp: settled_def)
  qed
qed

lemma iterate_same:
  assumes "P e"
    and "\<And>e w. P e \<Longrightarrow> f e w = g e w"
    and "\<And>e w out e' w'. P e \<Longrightarrow> f e w = Some (out, e', w') \<Longrightarrow> P e'"
  shows "iterate n f e w = iterate n g e w"
    and "iterate n f e w = Some (out, e', w') \<Longrightarrow> P e'"
proof -
  have "iterate n f e w = iterate n g e w
      \<and> (\<forall>out e' w'. iterate n f e w = Some (out, e', w') \<longrightarrow> P e')"
    using assms(1)
  proof (induction n arbitrary: e w)
    case (Suc n)
    show ?case
    proof (cases "f e w")
      case (Some r)
      obtain o1 e1 w1 where r: "r = (o1, e1, w1)" by (cases r)
      have "P e1" using assms(3) Suc.prems Some r by blast
      from Suc.IH [OF this, of w1] Some r assms(2) [OF Suc.prems, of w] \<open>P e1\<close> show ?thesis
        by (cases o1) auto
    qed (use assms(2) [OF Suc.prems, of w] in simp)
  qed simp
  then show "iterate n f e w = iterate n g e w"
    and "iterate n f e w = Some (out, e', w') \<Longrightarrow> P e'" by blast+
qed

lemma get_flat_merge:
  "get_flat (merge_value_facts F A B) x = Some v \<Longrightarrow> get_flat A x = Some v \<and> get_flat B x = Some v"
  by (auto simp: merge_value_facts_def get_flat_Some_iff split: option.splits if_splits)

lemma facts_hold_sub:
  assumes "facts_hold sl sb F e" and "\<And>x v. get_flat G x = Some v \<Longrightarrow> get_flat F x = Some v"
  shows "facts_hold sl sb G e"
  using assms unfolding facts_hold_def by blast

lemma facts_hold_no_facts [simp]: "facts_hold sl sb (no_facts F) e"
  by (simp add: facts_hold_def)

lemma join_facts_unknown:
  assumes "\<And>b. c \<noteq> V_Constant (Bool b)"
  shows "join_facts c F (tf, tb) (ef, eb) =
    (if tb \<and> eb then (merge_value_facts F tf ef, True) else if tb then (tf, True)
     else if eb then (ef, True) else (no_facts F, False))"
  using assms by (auto simp: join_facts_def split: mir_value.splits scalar_value.splits)

lemma join_facts_constant:
  "join_facts (V_Constant (Bool b)) F (tf, tb) (ef, eb) =
    (if b then (if tb then tf else no_facts F, tb) else (if eb then ef else no_facts F, eb))"
  by (simp add: join_facts_def)

lemma join_facts_then:
  assumes "facts_hold sl sb (fst tr) e" and "snd tr" and "c \<noteq> V_Constant (Bool False)"
  shows "snd (join_facts c F tr er) \<and> facts_hold sl sb (fst (join_facts c F tr er)) e"
proof -
  obtain tf ef eb where r: "tr = (tf, True)" "er = (ef, eb)" using assms(2) by (cases tr; cases er) auto
  have m: "facts_hold sl sb (merge_value_facts F tf ef) e"
    by (rule facts_hold_sub [OF assms(1)]) (auto simp: r dest: get_flat_merge)
  show ?thesis
  proof (cases "\<exists>b. c = V_Constant (Bool b)")
    case True
    then obtain b where b: "c = V_Constant (Bool b)" by blast
    with assms(3) have "b" by (cases b) simp_all
    with assms(1) show ?thesis by (simp add: r b join_facts_constant)
  next
    case False
    then have "join_facts c F tr er = (if eb then (merge_value_facts F tf ef, True) else (tf, True))"
      unfolding r by (subst join_facts_unknown) auto
    then show ?thesis using assms(1) m by (simp add: r)
  qed
qed

lemma join_facts_else:
  assumes "facts_hold sl sb (fst er) e" and "snd er" and "c \<noteq> V_Constant (Bool True)"
  shows "snd (join_facts c F tr er) \<and> facts_hold sl sb (fst (join_facts c F tr er)) e"
proof -
  obtain tf tb ef where r: "tr = (tf, tb)" "er = (ef, True)" using assms(2) by (cases tr; cases er) auto
  have m: "facts_hold sl sb (merge_value_facts F tf ef) e"
    by (rule facts_hold_sub [OF assms(1)]) (auto simp: r dest: get_flat_merge)
  show ?thesis
  proof (cases "\<exists>b. c = V_Constant (Bool b)")
    case True
    then obtain b where b: "c = V_Constant (Bool b)" by blast
    with assms(3) have "\<not> b" by (cases b) simp_all
    with assms(1) show ?thesis by (simp add: r b join_facts_constant)
  next
    case False
    then have "join_facts c F tr er = (if tb then (merge_value_facts F tf ef, True) else (ef, True))"
      unfolding r by (subst join_facts_unknown) auto
    then show ?thesis using assms(1) m by (simp add: r)
  qed
qed

lemma run_return_not_normal: "run_return vs e w \<noteq> (Normal, e', w')"
  by (simp add: run_return_def split: option.splits)

lemma propagate_run:
  fixes M :: "('x, 'w) ops"
  defines "sl \<equiv> op_sliced M" and "modes \<equiv> op_modes M"
  shows "\<And>F st e w s' r st'. propagate_statement_values m sb modes s F st = (s', r, st') \<Longrightarrow>
      facts_hold sl sb F e \<Longrightarrow> all_kinds (copy_ok sl (length sb)) s \<Longrightarrow>
      settled sl sb (statement_writes modes s) e \<Longrightarrow>
      once sl sb (statement_writes modes s) (statement_unstable modes s) \<Longrightarrow>
      propagates (run_statement s' M n) (run_statement s M n) sl sb r e w"
    and "\<And>src F st e w s' r st'. propagate_statement_values m sb modes (Statement k src) F st = (s', r, st') \<Longrightarrow>
      facts_hold sl sb F e \<Longrightarrow> all_kinds (copy_ok sl (length sb)) (Statement k src) \<Longrightarrow>
      settled sl sb (statement_writes modes (Statement k src)) e \<Longrightarrow>
      once sl sb (statement_writes modes (Statement k src)) (statement_unstable modes (Statement k src)) \<Longrightarrow>
      propagates (run_statement s' M n) (run_kind k M n) sl sb r e w"
    and "\<And>F st e w b' r st'. propagate_block_values m sb modes b F st = (b', r, st') \<Longrightarrow>
      facts_hold sl sb F e \<Longrightarrow> all_kinds_block (copy_ok sl (length sb)) b \<Longrightarrow>
      settled sl sb (block_writes modes b) e \<Longrightarrow>
      once sl sb (block_writes modes b) (block_unstable modes b) \<Longrightarrow>
      propagates (run_block b' M n) (run_block b M n) sl sb r e w"
    and "\<And>F st e w ss' r st'. propagate_statements_values m sb modes ss F st = (ss', r, st') \<Longrightarrow>
      facts_hold sl sb F e \<Longrightarrow> all_kinds_statements (copy_ok sl (length sb)) ss \<Longrightarrow>
      settled sl sb (statements_writes modes ss) e \<Longrightarrow>
      once sl sb (statements_writes modes ss) (statements_unstable modes ss) \<Longrightarrow>
      propagates (run_statements ss' M n) (run_statements ss M n) sl sb r e w"
proof (induction s and k and b and ss rule: mir_induct)
  case (Statement k src)
  from Statement.IH [OF Statement.prems] show ?case by (simp add: propagates_def)
next
  case (Simple k)
  obtain k' st1 where k': "propagate_simple_operands F k st = (k', st1)" by fastforce
  have km: "k' = map_kind (resolved F) k"
    using fst_propagate_simple [OF Simple(1), of F st] k' by simp
  have step: "s' = Statement k' src" "r = (simple_facts m sb modes k' F, statement_falls_through k')"
    using Simple(1,2) k' by (cases k; simp)+
  note w = Simple(5) [unfolded statement_writes_simple [OF Simple(1)]]
  note u = Simple(6) [unfolded statement_writes_simple [OF Simple(1)]
      statement_unstable_simple [OF Simple(1)]]
  have ok: "copy_ok sl (length sb) k" using Simple(4) by simp
  note hold = Simple(3)
  show ?case
  proof (cases "is_control k")
    case True
    have ret: "run_return (map (resolved F) vs) e w = run_return vs e w" for vs
      using propagation.return [of sl sb F e vs w] by (simp add: propagated_eq [OF hold])
    show ?thesis
      using True Simple(1)
      by (cases k)
        (auto simp: is_control_def step km map_kind_def propagates_def ret run_return_not_normal)
  next
    case False
    then have "\<not> is_control k'" by (cases k) (simp_all add: km map_kind_def is_control_def)
    moreover have "exec_simple M k' e w = exec_simple M k e w"
      using propagation.simple [of M sl sb F e k w] by (simp add: km propagated_eq [OF hold])
    moreover have "statement_falls_through k'"
      using False Simple(1) by (cases k) (simp_all add: km map_kind_def is_control_def)
    moreover have "facts_hold sl sb (simple_facts m sb modes k' F) e'"
      if "exec_simple M k e w = Some (e', w')" for e' w'
      using simple_facts_step [OF False hold [unfolded sl_def] ok [unfolded sl_def]
          w [unfolded sl_def modes_def] u [unfolded sl_def modes_def] that]
      by (simp add: km sl_def modes_def)
    ultimately show ?thesis
      using False by (auto simp: propagates_def step run_kind_simple finish_def split: option.splits)
  qed
next
  case (If c t f)
  obtain c' st1 where c': "propagate_value F c st = (c', st1)" by fastforce
  obtain t' tr st2 where t': "propagate_block_values m sb modes t F st1 = (t', tr, st2)"
    by (metis prod.collapse)
  obtain f' er st3 where f': "propagate_block_values m sb modes f F st2 = (f', er, st3)"
    by (metis prod.collapse)
  have step: "s' = Statement (S_If c' t' f') src" "r = join_facts c' F tr er"
    using If.prems(1) c' t' f' by simp_all
  have c: "c' = resolved F c" using fst_propagate_value [of F c st] c' by simp
  have same: "eval_value e c' = eval_value e c"
    using resolve_value_same [OF If.prems(2)] by (simp add: c resolved_def)
  note W = If.prems(4) [simplified, unfolded settled_append]
  note U = once_append [OF If.prems(5) [simplified]]
  have T: "propagates (run_block t' M n) (run_block t M n) sl sb tr e w"
    using If.IH(1) [OF t' If.prems(2)] If.prems(3) W U by simp
  have E: "propagates (run_block f' M n) (run_block f M n) sl sb er e w"
    using If.IH(2) [OF f' If.prems(2)] If.prems(3) W U by simp
  have scalar: "eval_scalar e c' = eval_scalar e c" by (simp add: eval_scalar_def same)
  show ?case
  proof (cases "\<exists>b. eval_scalar e c = Some (Bool b)")
    case True
    then obtain b where b: "eval_scalar e c = Some (Bool b)" by blast
    then have "c' \<noteq> V_Constant (Bool (\<not> b))"
      using scalar by (auto simp: eval_scalar_def)
    moreover have "facts_hold sl sb (fst tr) e2 \<Longrightarrow> snd tr \<Longrightarrow> c' \<noteq> V_Constant (Bool False) \<Longrightarrow>
        snd r \<and> facts_hold sl sb (fst r) e2" for e2 :: "'x env"
      unfolding step by (rule join_facts_then)
    moreover have "facts_hold sl sb (fst er) e2 \<Longrightarrow> snd er \<Longrightarrow> c' \<noteq> V_Constant (Bool True) \<Longrightarrow>
        snd r \<and> facts_hold sl sb (fst r) e2" for e2 :: "'x env"
      unfolding step by (rule join_facts_else)
    ultimately show ?thesis
      using b T E by (cases b) (auto simp: propagates_def step(1) run_if_def scalar)
  next
    case False
    then have "run_if e w c rt rf = Some (Trapped, e, w)" "run_if e w c' rt rf = Some (Trapped, e, w)"
      for rt rf :: "('x, 'w) result option"
      by (auto simp: run_if_def scalar split: option.splits scalar_value.splits)
    then show ?thesis by (simp add: propagates_def step)
  qed
next
  case (Loop body)
  let ?F = "invalidate_facts (collect_mutated_locals body modes) F"
  obtain b' br st1 where b': "propagate_block_values m sb modes body ?F st = (b', br, st1)"
    by (metis prod.collapse)
  have step: "s' = Statement (S_Loop b') src" "r = (?F, block_contains_reachable_break b')"
    using Loop.prems(1) b' by (simp_all add: Let_def)
  have free: "good sl sb y \<Longrightarrow> y \<notin> set (block_writes modes body)" for y
    using Loop.prems(5) by (auto simp: once_def)
  have settled: "settled sl sb (block_writes modes body) e1" for e1 :: "'x env"
    using free by (auto simp: settled_def)
  have once: "once sl sb (block_writes modes body) (block_unstable modes body)"
    using free unstable_writes(3) [of modes body] by (auto simp: once_def)
  have ok: "all_kinds_block (copy_ok sl (length sb)) body" using Loop.prems(3) by simp
  have body: "propagates (run_block b' M n) (run_block body M n) sl sb br e1 w1"
    if "facts_hold sl sb ?F e1" for e1 w1
    using Loop.IH [OF b' that ok settled once] .
  have inv: "facts_hold sl sb ?F e2"
    if h: "facts_hold sl sb ?F e1" and run: "run_block body M n e1 w1 = Some (out, e2, w2)"
    for e1 w1 out e2 w2
  proof (rule facts_hold_frame [OF h])
    have frame: "e2 x = e1 x" if "x \<notin> set (block_writes modes body)" "\<not> sl x" for x
      using run_frame(3) [OF _ run] that by (simp add: sl_def modes_def)
    show "get_flat ?F x = Some v \<Longrightarrow> get_flat ?F x = Some v \<and> e2 x = e1 x" for x v
      using frame facts_holdD(1) [OF h, of x v] mutated_writes(3) [of body modes]
      by (auto simp: get_flat_invalidates split: if_splits)
    show "good sl sb y \<Longrightarrow> e1 y \<noteq> None \<Longrightarrow> e2 y = e1 y" for y
      using frame free by (auto simp: good_def)
  qed
  have start: "facts_hold sl sb ?F e"
    by (rule facts_hold_sub [OF Loop.prems(2)]) (simp add: get_flat_invalidates split: if_splits)
  have eq: "run_block b' M n e1 w1 = run_block body M n e1 w1" if "facts_hold sl sb ?F e1" for e1 w1
    using body [OF that] by (simp add: propagates_def)
  have inv': "facts_hold sl sb ?F e2"
    if h: "facts_hold sl sb ?F e1" and run: "run_block b' M n e1 w1 = Some (out, e2, w2)"
    for e1 w1 out e2 w2
    using inv [OF h, of w1 out e2 w2] run eq [OF h, of w1] by simp
  have same: "iterate n (run_block b' M n) e w = iterate n (run_block body M n) e w"
    by (rule iterate_same(1) [where P = "facts_hold sl sb ?F", OF start eq inv'])
  have post: "facts_hold sl sb ?F e'" if "iterate n (run_block b' M n) e w = Some (out, e', w')"
    for out e' w'
    by (rule iterate_same(2) [where P = "facts_hold sl sb ?F", OF start eq inv' that])
  have "block_contains_reachable_break b'" if "iterate n (run_block b' M n) e w = Some (Normal, e', w')"
    for e' w'
    using summaries_sound(2) [of "S_Loop b'" M n] that by (auto simp: never_def)
  with same post show ?case by (auto simp: propagates_def step)
next
  case (Block ss)
  obtain ss' r1 st1 where ss': "propagate_statements_values m sb modes ss F st = (ss', r1, st1)"
    by (metis prod.collapse)
  have "b' = Block ss'" "r = r1" using Block.prems(1) ss' by auto
  with Block.IH [OF ss'] Block.prems show ?case by (simp add: propagates_def)
next
  case Nil
  then show ?case by (auto simp: propagates_def)
next
  case (Cons s ss)
  obtain s1 F1 falls st1 where s1: "propagate_statement_values m sb modes s F st = (s1, (F1, falls), st1)"
    by (metis prod.collapse)
  note W = Cons.prems(4) [simplified]
  note U = once_append [OF Cons.prems(5) [simplified]]
  have head: "propagates (run_statement s1 M n) (run_statement s M n) sl sb (F1, falls) e w"
    using Cons.IH(1) [OF s1 Cons.prems(2)] Cons.prems(3) W [unfolded settled_append] U by simp
  show ?case
  proof (cases falls)
    case False
    then have step: "ss' = s1 # ss" "r = (F1, False)" using Cons.prems(1) s1 by auto
    have never: "run_statement s M n e w \<noteq> Some (Normal, e', w')" for e' w'
      using head False by (auto simp: propagates_def)
    then show ?thesis
      using head by (auto simp: propagates_def step run_statements_Cons seq_def
          split: option.splits prod.splits outcome.splits)
  next
    case True
    obtain ss1 r1 st2 where ss1: "propagate_statements_values m sb modes ss F1 st1 = (ss1, r1, st2)"
      by (metis prod.collapse)
    then have step: "ss' = s1 # ss1" "r = r1" using Cons.prems(1) s1 True by auto
    have tail: "propagates (run_statements ss1 M n) (run_statements ss M n) sl sb r1 e1 w1"
      if run: "run_statement s M n e w = Some (Normal, e1, w1)" for e1 w1
    proof (rule Cons.IH(2) [OF ss1])
      show "facts_hold sl sb F1 e1" using head run by (auto simp: propagates_def)
      show "all_kinds_statements (copy_ok sl (length sb)) ss" using Cons.prems(3) by simp
      have "e1 x = e x" if "x \<notin> set (statement_writes modes s)" "\<not> sl x" for x
        using run_frame(1) [OF _ run] that by (simp add: sl_def modes_def)
      from settled_after [OF W Cons.prems(5) [simplified] this]
      show "settled sl sb (statements_writes modes ss) e1" .
      show "once sl sb (statements_writes modes ss) (statements_unstable modes ss)" using U by simp
    qed
    show ?thesis
    proof (cases "run_statement s M n e w")
      case None
      then show ?thesis using head by (simp add: propagates_def step run_statements_Cons seq_def)
    next
      case (Some q)
      obtain o1 e1 w1 where q: "q = (o1, e1, w1)" by (cases q)
      show ?thesis
      proof (cases "o1 = Normal")
        case True
        with Some q have run: "run_statement s M n e w = Some (Normal, e1, w1)" by simp
        show ?thesis
          using head tail [OF run] run by (simp add: propagates_def step run_statements_Cons seq_def)
      next
        case False
        then have "seq (run_statement s M n e w) g = run_statement s M n e w" for g
          by (cases o1) (simp_all add: Some q seq_def)
        then show ?thesis
          using head False Some q by (simp add: propagates_def step run_statements_Cons)
      qed
    qed
  qed
qed


text \<open>A two-assignment function and its propagated form.\<close>

definition demo_function :: "statement_kind list \<Rightarrow> nat \<Rightarrow> mir_function" where
  "demo_function ks n = \<lparr>fn_name = ''demo'', fn_kind = FK_User, fn_attributes = default_attributes,
     fn_params = [], fn_results = [],
     fn_locals = replicate n \<lparr>lc_name = None, lc_ty = 0, lc_integer_range = None\<rparr>,
     fn_body = Block (map (\<lambda>k. Statement k span_unknown) ks), fn_source = span_unknown\<rparr>"


text \<open>
  The copy condition is needed: the pass forwards a whole-array copy although a store through a
  slice changes the copied array in between. In the demo machine local 1 is the sliced array.
\<close>

definition sliced_ops :: "(nat, unit) ops" where
  "sliced_ops = bare_ops \<lparr>op_sliced := \<lambda>l. l = 1,
     op_rvalue := \<lambda>r _ _ _ _. (case r of
         R_Load _ \<Rightarrow> Some (Opaque 0) | R_MakeSlice _ _ _ _ _ \<Rightarrow> Some (Opaque 9) | _ \<Rightarrow> None),
     op_effect := \<lambda>k _ _ s w. (case k of
         S_SliceStore _ _ _ _ \<Rightarrow> Some (s(1 \<mapsto> Opaque 7), w) | _ \<Rightarrow> None)\<rparr>"

definition sliced_demo :: mir_function where
  "sliced_demo = demo_function
     [S_Assign (place_local 0) (R_Load \<lparr>place_base = PB_State 0, place_projections = []\<rparr>),
      S_Assign (place_local 1) (R_Use (V_Local 0)),
      S_Assign (place_local 2) (R_MakeSlice (SS_Place (place_local 1)) (V_Constant (I32 0))
         (V_Constant (I32 4)) Checked ReadWrite),
      S_SliceStore (V_Local 2) (V_Constant (I32 0)) (V_Constant (I32 5)) Checked,
      S_Return [V_Local 1]] 3"

text \<open>C38: the copy condition of the previous property is needed, and the pass does not check it: a
  function that copies a whole array, stores into the copied array through a slice and returns the
  copy gives the stored contents before the pass and the original contents after it.\<close>

theorem propagate_misses_slice_writes:
  "map_option fst (run_block (fn_body sliced_demo) sliced_ops 0 (\<lambda>_. None) ())
     = Some (Returned [Opaque 7])
   \<and> map_option fst (run_block (fn_body (fst (propagate_local_values m [] sliced_demo st)))
       sliced_ops 0 (\<lambda>_. None) ()) = Some (Returned [Opaque 0])"
proof
  show "map_option fst (run_block (fn_body sliced_demo) sliced_ops 0 (\<lambda>_. None) ())
     = Some (Returned [Opaque 7])"
    by (simp add: sliced_demo_def demo_function_def sliced_ops_def bare_ops_def place_local_def
        run_statements_Cons seq_def exec_simple_def eval_rvalue_def assign_place_def
        eval_values_def operand_lists operand_maps finish_def run_return_def
        rvalue_content_def place_content_def set_sliced_def sliced_part_def)
  have st: "stable_local_values sliced_demo [] = [True, True, True]"
    by (simp add: stable_local_values_def sliced_demo_def demo_function_def place_local_def
        record_local_stability_write_def sat_add_def numeral_3_eq_3 numeral_2_eq_2 Let_def)
  have "fn_body (fst (propagate_local_values m [] sliced_demo st)) = Block (map (\<lambda>k. Statement k span_unknown)
     [S_Assign (place_local 0) (R_Load \<lparr>place_base = PB_State 0, place_projections = []\<rparr>),
      S_Assign (place_local 1) (R_Use (V_Local 0)),
      S_Assign (place_local 2) (R_MakeSlice (SS_Place (place_local 1)) (V_Constant (I32 0))
         (V_Constant (I32 4)) Checked ReadWrite),
      S_SliceStore (V_Local 2) (V_Constant (I32 0)) (V_Constant (I32 5)) Checked,
      S_Return [V_Local 0]])"
    unfolding propagate_local_values_def st
    by (simp add: sliced_demo_def demo_function_def
        propagate_simple_operands_def simple_facts_def assigned_fact_def place_local_def
        propagate_rvalue_values_def propagate_place_indices_def propagate_value_def
        propagate_slice_source_def resolved_def get_flat_def Let_def fold_rvalue_def
        numeral_3_eq_3 numeral_2_eq_2 split_def)
  then show "map_option fst (run_block (fn_body (fst (propagate_local_values m [] sliced_demo st)))
       sliced_ops 0 (\<lambda>_. None) ()) = Some (Returned [Opaque 0])"
    by (simp add: sliced_ops_def bare_ops_def place_local_def
        run_statements_Cons seq_def exec_simple_def eval_rvalue_def assign_place_def
        eval_values_def operand_lists operand_maps finish_def run_return_def
        rvalue_content_def place_content_def set_sliced_def sliced_part_def)
qed

end
