(* ===== verification/Pass_Cse.thy ===== *)
theory Pass_Cse
  imports Propagate_Sound
begin

section \<open>Common subexpressions\<close>

text \<open>
  Local value numbering of \<open>onda_mir/src/passes/cse.rs\<close>: a scalar operation on constants and stable
  locals whose result a stable local already holds is replaced by that local. Constants are
  compared by their bits.
\<close>

datatype value_key_t =
    VK_Local nat | VK_F32 "32 word" | VK_F64 "64 word" | VK_I32 i32 | VK_I64 i64 | VK_Bool bool

datatype expression_key_t =
    EK_Unary unary_op value_key_t
  | EK_Binary binary_op value_key_t value_key_t
  | EK_Compare compare_op value_key_t value_key_t
  | EK_Cast value_key_t scalar_type
  | EK_Intrinsic intrinsic "value_key_t list"

fun value_key_of :: "mir_value \<Rightarrow> value_key_t" where
  "value_key_of (V_Local l) = VK_Local l"
| "value_key_of (V_Constant (F32 v)) = VK_F32 v"
| "value_key_of (V_Constant (F64 v)) = VK_F64 v"
| "value_key_of (V_Constant (I32 v)) = VK_I32 v"
| "value_key_of (V_Constant (I64 v)) = VK_I64 v"
| "value_key_of (V_Constant (Bool v)) = VK_Bool v"

fun value_key :: "mir_value \<Rightarrow> bool list \<Rightarrow> value_key_t option" where
  "value_key (V_Local l) sb = (if \<not> sb ! l then None else Some (value_key_of (V_Local l)))"
| "value_key v sb = Some (value_key_of v)"

definition expression_key :: "rvalue \<Rightarrow> bool list \<Rightarrow> expression_key_t option" where
  "expression_key r sb =
     (case r of
        R_Unary op v \<Rightarrow> map_option (EK_Unary op) (value_key v sb)
      | R_Binary op a b \<Rightarrow>
          Option.bind (value_key a sb) (\<lambda>x. map_option (EK_Binary op x) (value_key b sb))
      | R_Compare op a b \<Rightarrow>
          Option.bind (value_key a sb) (\<lambda>x. map_option (EK_Compare op x) (value_key b sb))
      | R_Cast v to \<Rightarrow> map_option (\<lambda>x. EK_Cast x to) (value_key v sb)
      | R_Intrinsic op args \<Rightarrow>
          map_option (EK_Intrinsic op) (those (map (\<lambda>v. value_key v sb) args))
      | _ \<Rightarrow> None)"

type_synonym available = "expression_key_t \<rightharpoonup> local_id"

fun eliminate_block ::
    "bool list \<Rightarrow> block \<Rightarrow> available \<Rightarrow> pass_stats \<Rightarrow> block \<times> available \<times> pass_stats"
  and eliminate_statements ::
    "bool list \<Rightarrow> statement list \<Rightarrow> available \<Rightarrow> pass_stats \<Rightarrow> statement list \<times> available \<times> pass_stats"
  and eliminate_statement ::
    "bool list \<Rightarrow> statement \<Rightarrow> available \<Rightarrow> pass_stats \<Rightarrow> statement \<times> available \<times> pass_stats" where
  "eliminate_block sb (Block ss) av st =
     (let (ss, av, st) = eliminate_statements sb ss av st in (Block ss, av, st))"
| "eliminate_statements sb [] av st = ([], av, st)"
| "eliminate_statements sb (s # ss) av st =
     (let (s, av, st) = eliminate_statement sb s av st;
          (ss, av, st) = eliminate_statements sb ss av st
      in (s # ss, av, st))"
| "eliminate_statement sb (Statement k src) av st =
     (case k of
        S_Assign p r \<Rightarrow>
          (case (place_projections p, place_base p, expression_key r sb) of
             ([], PB_Local destination, Some key) \<Rightarrow>
               (case av key of
                  Some existing \<Rightarrow>
                    (Statement (S_Assign p (R_Use (V_Local existing))) src, av,
                     st\<lparr>ps_eliminated_common_subexpressions :=
                          bump (ps_eliminated_common_subexpressions st)\<rparr>)
                | None \<Rightarrow>
                    (Statement k src, if sb ! destination then av(key \<mapsto> destination) else av, st))
           | _ \<Rightarrow> (Statement k src, av, st))
      | S_If c t e \<Rightarrow>
          (let (t, _, st) = eliminate_block sb t av st;
               (e, _, st) = eliminate_block sb e av st
           in (Statement (S_If c t e) src, av, st))
      | S_Loop body \<Rightarrow>
          (let (body, _, st) = eliminate_block sb body av st
           in (Statement (S_Loop body) src, av, st))
      | _ \<Rightarrow> (Statement k src, av, st))"

definition eliminate_common_subexpressions ::
  "passing_mode list list \<Rightarrow> mir_function \<Rightarrow> pass_stats \<Rightarrow> mir_function \<times> pass_stats" where
  "eliminate_common_subexpressions modes f st =
     (let (body, _, st) = eliminate_block (stable_local_values f modes) (fn_body f) Map.empty st
      in (f\<lparr>fn_body := body\<rparr>, st))"

subsection \<open>The meaning of a key\<close>

fun key_value :: "value_key_t \<Rightarrow> mir_value" where
  "key_value (VK_Local l) = V_Local l"
| "key_value (VK_F32 v) = V_Constant (F32 v)"
| "key_value (VK_F64 v) = V_Constant (F64 v)"
| "key_value (VK_I32 v) = V_Constant (I32 v)"
| "key_value (VK_I64 v) = V_Constant (I64 v)"
| "key_value (VK_Bool v) = V_Constant (Bool v)"

fun key_rvalue :: "expression_key_t \<Rightarrow> rvalue" where
  "key_rvalue (EK_Unary op a) = R_Unary op (key_value a)"
| "key_rvalue (EK_Binary op a b) = R_Binary op (key_value a) (key_value b)"
| "key_rvalue (EK_Compare op a b) = R_Compare op (key_value a) (key_value b)"
| "key_rvalue (EK_Cast a to) = R_Cast (key_value a) to"
| "key_rvalue (EK_Intrinsic op as) = R_Intrinsic op (map key_value as)"

lemma key_value_of: "key_value (value_key_of v) = v"
  by (cases v rule: value_key_of.cases) simp_all

lemma value_key_key: "value_key v sb = Some k \<Longrightarrow> key_value k = v"
  by (cases v) (auto simp: key_value_of split: if_splits)

lemma value_keys_key: "those (map (\<lambda>v. value_key v sb) vs) = Some ks \<Longrightarrow> map key_value ks = vs"
proof (induction vs arbitrary: ks)
  case (Cons v vs)
  then show ?case by (auto simp: value_key_key split: option.splits)
qed simp

lemma expression_key_rvalue: "expression_key r sb = Some key \<Longrightarrow> key_rvalue key = r"
  by (cases r) (auto simp: expression_key_def bind_eq_Some_conv value_key_key value_keys_key)

lemma value_keys_stable:
  "those (map (\<lambda>v. value_key v sb) vs) = Some ks \<Longrightarrow> V_Local l \<in> set vs \<Longrightarrow> sb ! l"
proof (induction vs arbitrary: ks)
  case (Cons v vs)
  then show ?case by (auto split: option.splits if_splits)
qed simp

lemma expression_key_stable:
  "expression_key r sb = Some key \<Longrightarrow> V_Local l \<in> set (rvalue_operands r) \<Longrightarrow> sb ! l"
  by (cases r)
    (auto simp: expression_key_def rvalue_operands_def bind_eq_Some_conv value_keys_stable
      split: if_splits)

text \<open>A scalar operation depends on its operands only.\<close>

lemma scalar_operation_same:
  assumes "\<And>v. v \<in> set (rvalue_operands (key_rvalue key)) \<Longrightarrow> eval_value e' v = eval_value e v"
  shows "eval_rvalue M (key_rvalue key) e' w' = eval_rvalue M (key_rvalue key) e w"
proof -
  have s: "eval_scalar e' v = eval_scalar e v" if "v \<in> set (rvalue_operands (key_rvalue key))" for v
    using assms [OF that] by (simp add: eval_scalar_def)
  show ?thesis
  proof (cases key)
    case (EK_Intrinsic op as)
    then have "map (eval_scalar e') (map key_value as) = map (eval_scalar e) (map key_value as)"
      using s by (intro map_cong) (auto simp: rvalue_operands_def)
    then show ?thesis by (simp only: EK_Intrinsic key_rvalue.simps eval_rvalue_def rvalue.case)
  qed (use s in \<open>simp_all add: eval_rvalue_def rvalue_operands_def\<close>)
qed

lemma those_mem: "those (map f xs) = Some ys \<Longrightarrow> x \<in> set xs \<Longrightarrow> f x \<noteq> None"
proof (induction xs arbitrary: ys)
  case (Cons a xs)
  then show ?case by (auto split: option.splits)
qed simp

lemma scalar_operation_defined:
  assumes "eval_rvalue M (key_rvalue key) e w = Some v" and "x \<in> set (rvalue_operands (key_rvalue key))"
  shows "eval_value e x \<noteq> None"
proof -
  have "eval_scalar e x \<noteq> None"
    using assms
    by (cases key) (auto simp: eval_rvalue_def rvalue_operands_def bind_eq_Some_conv
        dest: those_mem)
  then show ?thesis by (cases "eval_value e x") (simp_all add: eval_scalar_def)
qed

subsection \<open>Available expressions\<close>

text \<open>Scalar operations work on registers: neither their operands nor their destination is storage
  that a slice reaches.\<close>

definition register_ok :: "(local_id \<Rightarrow> bool) \<Rightarrow> nat \<Rightarrow> statement_kind \<Rightarrow> bool" where
  "register_ok sl n k =
     (case k of
        S_Assign p r \<Rightarrow>
          (case place_base p of
             PB_Local x \<Rightarrow>
               x < n \<and> (r \<in> range key_rvalue \<longrightarrow>
                 \<not> sl x \<and> (\<forall>l. V_Local l \<in> set (rvalue_operands r) \<longrightarrow> l < n \<and> \<not> sl l))
           | _ \<Rightarrow> True)
      | _ \<Rightarrow> True)"

definition available_hold ::
  "('x, 'w) ops \<Rightarrow> bool list \<Rightarrow> available \<Rightarrow> 'x env \<Rightarrow> bool" where
  "available_hold M sb av e \<longleftrightarrow> (\<forall>key d. av key = Some d \<longrightarrow>
     good (op_sliced M) sb d \<and> e d \<noteq> None \<and> (\<forall>w. eval_rvalue M (key_rvalue key) e w = e d)
     \<and> (\<forall>l. V_Local l \<in> set (rvalue_operands (key_rvalue key)) \<longrightarrow> good (op_sliced M) sb l \<and> e l \<noteq> None))"

lemma available_hold_frame:
  assumes "available_hold M sb av e"
    and "\<And>y. good (op_sliced M) sb y \<Longrightarrow> e y \<noteq> None \<Longrightarrow> e' y = e y"
  shows "available_hold M sb av e'"
  unfolding available_hold_def
proof (intro allI impI)
  fix key d assume "av key = Some d"
  then have d: "good (op_sliced M) sb d" "e d \<noteq> None" "\<And>w. eval_rvalue M (key_rvalue key) e w = e d"
    and ops: "\<And>l. V_Local l \<in> set (rvalue_operands (key_rvalue key)) \<Longrightarrow>
      good (op_sliced M) sb l \<and> e l \<noteq> None"
    using assms(1) unfolding available_hold_def by blast+
  have same: "e' d = e d" using assms(2) d by blast
  have "eval_value e' v = eval_value e v" if "v \<in> set (rvalue_operands (key_rvalue key))" for v
  proof (cases v)
    case (V_Local l)
    then show ?thesis using ops [of l] that assms(2) [of l] by simp
  qed simp
  then have "eval_rvalue M (key_rvalue key) e' w = eval_rvalue M (key_rvalue key) e w" for w
    by (rule scalar_operation_same)
  with d same ops assms(2) show "good (op_sliced M) sb d \<and> e' d \<noteq> None
      \<and> (\<forall>w. eval_rvalue M (key_rvalue key) e' w = e' d)
      \<and> (\<forall>l. V_Local l \<in> set (rvalue_operands (key_rvalue key)) \<longrightarrow> good (op_sliced M) sb l \<and> e' l \<noteq> None)"
    by simp
qed

definition eliminates ::
  "('x env \<Rightarrow> 'w \<Rightarrow> ('x, 'w) result option) \<Rightarrow> ('x env \<Rightarrow> 'w \<Rightarrow> ('x, 'w) result option)
     \<Rightarrow> ('x, 'w) ops \<Rightarrow> bool list \<Rightarrow> available \<Rightarrow> 'x env \<Rightarrow> 'w \<Rightarrow> bool" where
  "eliminates new old M sb av e w \<longleftrightarrow> new e w = old e w
     \<and> (\<forall>e' w'. old e w = Some (Normal, e', w') \<longrightarrow> available_hold M sb av e')"

lemma eliminate_assign:
  fixes M :: "('x, 'w) ops"
  assumes hold: "available_hold M sb av e" and ok: "register_ok (op_sliced M) (length sb) (S_Assign p r)"
    and settled: "settled (op_sliced M) sb (kind_writes (op_modes M) (S_Assign p r)) e"
    and key: "expression_key r sb = Some key" and p: "place_projections p = []" "place_base p = PB_Local x"
  shows "av key = Some d \<Longrightarrow> eval_rvalue M (R_Use (V_Local d)) e w = eval_rvalue M r e w"
    and "exec_simple M (S_Assign p r) e w = Some (e', w') \<Longrightarrow> sb ! x \<Longrightarrow>
      available_hold M sb (av(key \<mapsto> x)) e'"
proof -
  have r: "key_rvalue key = r" using expression_key_rvalue [OF key] .
  then have reg: "\<not> op_sliced M x" "x < length sb"
      "\<And>l. V_Local l \<in> set (rvalue_operands r) \<Longrightarrow> l < length sb \<and> \<not> op_sliced M l"
    using ok p(2) by (auto simp: register_ok_def)
  show "eval_rvalue M (R_Use (V_Local d)) e w = eval_rvalue M r e w" if "av key = Some d"
  proof -
    have "eval_rvalue M (key_rvalue key) e w = e d"
      using hold that unfolding available_hold_def by blast
    then show ?thesis by (simp add: r eval_rvalue_def [of M "R_Use v" for v])
  qed
  assume run: "exec_simple M (S_Assign p r) e w = Some (e', w')" and x: "sb ! x"
  obtain v where v: "eval_rvalue M r e w = Some v" "e' = e(x \<mapsto> v)"
    using run p by (auto simp: exec_simple_def assign_place_def bind_eq_Some_conv)
  have kept: "e' y = e y" if "good (op_sliced M) sb y" "e y \<noteq> None" for y
  proof -
    have "y \<noteq> x" using settled that p(2) by (auto simp: settled_def kind_writes_def)
    then show ?thesis by (simp add: v)
  qed
  have ops: "good (op_sliced M) sb l \<and> e l \<noteq> None" if "V_Local l \<in> set (rvalue_operands r)" for l
    using reg(3) [OF that] expression_key_stable [OF key that]
      scalar_operation_defined [of M key e w v "V_Local l"] v(1) that r by (simp add: good_def)
  have "eval_value e' u = eval_value e u" if "u \<in> set (rvalue_operands (key_rvalue key))" for u
  proof (cases u)
    case (V_Local l)
    then show ?thesis using ops [of l] that kept [of l] r by simp
  qed simp
  then have same: "eval_rvalue M (key_rvalue key) e' w1 = eval_rvalue M (key_rvalue key) e w" for w1
    by (rule scalar_operation_same)
  show "available_hold M sb (av(key \<mapsto> x)) e'"
    unfolding available_hold_def
  proof (intro allI impI)
    fix key' d assume d: "(av(key \<mapsto> x)) key' = Some d"
    show "good (op_sliced M) sb d \<and> e' d \<noteq> None \<and> (\<forall>w. eval_rvalue M (key_rvalue key') e' w = e' d)
        \<and> (\<forall>l. V_Local l \<in> set (rvalue_operands (key_rvalue key')) \<longrightarrow>
             good (op_sliced M) sb l \<and> e' l \<noteq> None)"
    proof (cases "key' = key")
      case True
      with d have "d = x" by simp
      with True show ?thesis
        using same v r ops kept reg x by (auto simp: good_def)
    next
      case False
      with d have "av key' = Some d" by simp
      with available_hold_frame [OF hold kept] show ?thesis unfolding available_hold_def by blast
    qed
  qed
qed

lemma register_simple:
  assumes "\<not> is_control k" and "available_hold M sb av e"
    and "settled (op_sliced M) sb (kind_writes (op_modes M) k) e"
    and "exec_simple M k e w = Some (e', w')"
  shows "available_hold M sb av e'"
proof (rule available_hold_frame [OF assms(2)])
  fix y assume "good (op_sliced M) sb y" "e y \<noteq> None"
  then show "e' y = e y"
    using assms(3) exec_simple_frame [OF assms(4), of y] by (auto simp: settled_def good_def)
qed

lemma eliminate_assign_step:
  fixes M :: "('x, 'w) ops"
  assumes step: "eliminate_statement sb (Statement (S_Assign p r) src) av st = (s', av', st')"
    and hold: "available_hold M sb av e"
    and ok: "register_ok (op_sliced M) (length sb) (S_Assign p r)"
    and settled: "settled (op_sliced M) sb (kind_writes (op_modes M) (S_Assign p r)) e"
  shows "eliminates (run_statement s' M n) (run_kind (S_Assign p r) M n) M sb av' e w"
proof -
  have post: "available_hold M sb av e'" if "exec_simple M (S_Assign p r) e w = Some (e', w')" for e' w'
    by (rule register_simple [OF _ hold settled that]) (simp add: is_control_def)
  show ?thesis
  proof (cases "\<exists>x key. place_projections p = [] \<and> place_base p = PB_Local x
      \<and> expression_key r sb = Some key")
    case False
    then have "s' = Statement (S_Assign p r) src" "av' = av"
      using step by (auto split: list.splits place_base.splits option.splits)
    then show ?thesis using post by (auto simp: eliminates_def finish_def split: option.splits)
  next
    case True
    then obtain x key where x: "place_projections p = []" "place_base p = PB_Local x"
        and key: "expression_key r sb = Some key" by blast
    show ?thesis
    proof (cases "av key")
      case (Some d)
      then have "s' = Statement (S_Assign p (R_Use (V_Local d))) src" "av' = av"
        using step x key by auto
      moreover have "eval_rvalue M (R_Use (V_Local d)) e w = eval_rvalue M r e w"
        by (rule eliminate_assign(1) [OF hold ok settled key x Some])
      ultimately show ?thesis
        using post by (auto simp: eliminates_def finish_def exec_simple_def split: option.splits)
    next
      case None
      then have "s' = Statement (S_Assign p r) src" "av' = (if sb ! x then av(key \<mapsto> x) else av)"
        using step x key by auto
      then show ?thesis
        using post eliminate_assign(2) [OF hold ok settled key x]
        by (auto simp: eliminates_def finish_def split: option.splits)
    qed
  qed
qed

lemma eliminate_run:
  fixes M :: "('x, 'w) ops"
  defines "sl \<equiv> op_sliced M" and "modes \<equiv> op_modes M"
  shows "\<And>av st e w s' av' st'. eliminate_statement sb s av st = (s', av', st') \<Longrightarrow>
      available_hold M sb av e \<Longrightarrow> all_kinds (register_ok sl (length sb)) s \<Longrightarrow>
      settled sl sb (statement_writes modes s) e \<Longrightarrow>
      once sl sb (statement_writes modes s) (statement_unstable modes s) \<Longrightarrow>
      eliminates (run_statement s' M n) (run_statement s M n) M sb av' e w"
    and "\<And>src av st e w s' av' st'. eliminate_statement sb (Statement k src) av st = (s', av', st') \<Longrightarrow>
      available_hold M sb av e \<Longrightarrow> all_kinds (register_ok sl (length sb)) (Statement k src) \<Longrightarrow>
      settled sl sb (statement_writes modes (Statement k src)) e \<Longrightarrow>
      once sl sb (statement_writes modes (Statement k src)) (statement_unstable modes (Statement k src)) \<Longrightarrow>
      eliminates (run_statement s' M n) (run_kind k M n) M sb av' e w"
    and "\<And>av st e w b' av' st'. eliminate_block sb b av st = (b', av', st') \<Longrightarrow>
      available_hold M sb av e \<Longrightarrow> all_kinds_block (register_ok sl (length sb)) b \<Longrightarrow>
      settled sl sb (block_writes modes b) e \<Longrightarrow>
      once sl sb (block_writes modes b) (block_unstable modes b) \<Longrightarrow>
      eliminates (run_block b' M n) (run_block b M n) M sb av' e w"
    and "\<And>av st e w ss' av' st'. eliminate_statements sb ss av st = (ss', av', st') \<Longrightarrow>
      available_hold M sb av e \<Longrightarrow> all_kinds_statements (register_ok sl (length sb)) ss \<Longrightarrow>
      settled sl sb (statements_writes modes ss) e \<Longrightarrow>
      once sl sb (statements_writes modes ss) (statements_unstable modes ss) \<Longrightarrow>
      eliminates (run_statements ss' M n) (run_statements ss M n) M sb av' e w"
proof (induction s and k and b and ss rule: mir_induct)
  case (Statement k src)
  from Statement.IH [OF Statement.prems] show ?case by (simp add: eliminates_def)
next
  case (Simple k)
  note w = Simple(5) [unfolded statement_writes_simple [OF Simple(1)], unfolded sl_def modes_def]
  show ?case
  proof (cases "\<exists>p r. k = S_Assign p r")
    case True
    then show ?thesis
      using eliminate_assign_step [OF _ Simple(3), of _ _ src st s' av' st'] Simple(2,4) w
      by (auto simp: sl_def)
  next
    case False
    then have "s' = Statement k src" "av' = av"
      using Simple(1,2) by (cases k; simp)+
    then show ?thesis
      using register_simple [OF _ Simple(3) w] Simple(1)
      by (cases "is_control k"; cases k)
        (auto simp: eliminates_def is_control_def finish_def run_return_not_normal split: option.splits)
  qed
next
  case (If c t f)
  obtain t' at st1 where t': "eliminate_block sb t av st = (t', at, st1)" by (metis prod.collapse)
  obtain f' af st2 where f': "eliminate_block sb f av st1 = (f', af, st2)" by (metis prod.collapse)
  have step: "s' = Statement (S_If c t' f') src" "av' = av"
    using If.prems(1) t' f' by simp_all
  note W = If.prems(4) [simplified, unfolded settled_append]
  note U = once_append [OF If.prems(5) [simplified]]
  have T: "run_block t' M n e w = run_block t M n e w"
    using If.IH(1) [OF t' If.prems(2)] If.prems(3) W U by (simp add: eliminates_def)
  have E: "run_block f' M n e w = run_block f M n e w"
    using If.IH(2) [OF f' If.prems(2)] If.prems(3) W U by (simp add: eliminates_def)
  have "available_hold M sb av e'" if run: "run_kind (S_If c t f) M n e w = Some (Normal, e', w')" for e' w'
  proof (rule available_hold_frame [OF If.prems(2)])
    fix y assume "good (op_sliced M) sb y" "e y \<noteq> None"
    then show "e' y = e y"
      using If.prems(4) run_frame(2) [OF _ run, of y src] by (auto simp: settled_def good_def sl_def modes_def)
  qed
  with T E show ?case by (simp add: eliminates_def step run_if_def split: option.splits scalar_value.splits)
next
  case (Loop body)
  obtain b' ab st1 where b': "eliminate_block sb body av st = (b', ab, st1)" by (metis prod.collapse)
  have step: "s' = Statement (S_Loop b') src" "av' = av"
    using Loop.prems(1) b' by simp_all
  have free: "good sl sb y \<Longrightarrow> y \<notin> set (block_writes modes body)" for y
    using Loop.prems(5) by (auto simp: once_def)
  have settled: "settled sl sb (block_writes modes body) e1" for e1 :: "'x env"
    using free by (auto simp: settled_def)
  have once: "once sl sb (block_writes modes body) (block_unstable modes body)"
    using free unstable_writes(3) [of modes body] by (auto simp: once_def)
  have ok: "all_kinds_block (register_ok sl (length sb)) body" using Loop.prems(3) by simp
  have eq: "run_block b' M n e1 w1 = run_block body M n e1 w1" if "available_hold M sb av e1" for e1 w1
    using Loop.IH [OF b' that ok settled once] by (simp add: eliminates_def)
  have inv: "available_hold M sb av e2"
    if h: "available_hold M sb av e1" and run: "run_block b' M n e1 w1 = Some (out, e2, w2)"
    for e1 w1 out e2 w2
  proof (rule available_hold_frame [OF h])
    fix y assume "good (op_sliced M) sb y" "e1 y \<noteq> None"
    then show "e2 y = e1 y"
      using free run_frame(3) [OF _ run [unfolded eq [OF h]], of y]
      by (auto simp: good_def sl_def modes_def)
  qed
  have same: "iterate n (run_block b' M n) e w = iterate n (run_block body M n) e w"
    by (rule iterate_same(1) [where P = "available_hold M sb av", OF Loop.prems(2) eq inv])
  have post: "available_hold M sb av e'" if "iterate n (run_block b' M n) e w = Some (out, e', w')"
    for out e' w'
    by (rule iterate_same(2) [where P = "available_hold M sb av", OF Loop.prems(2) eq inv that])
  show ?case using same post by (auto simp: eliminates_def step)
next
  case (Block ss)
  obtain ss' a1 st1 where ss': "eliminate_statements sb ss av st = (ss', a1, st1)"
    by (metis prod.collapse)
  have "b' = Block ss'" "av' = a1" using Block.prems(1) ss' by auto
  with Block.IH [OF ss'] Block.prems show ?case by (simp add: eliminates_def)
next
  case Nil
  then show ?case by (auto simp: eliminates_def)
next
  case (Cons s ss)
  obtain s1 a1 st1 where s1: "eliminate_statement sb s av st = (s1, a1, st1)"
    by (metis prod.collapse)
  obtain ss1 a2 st2 where ss1: "eliminate_statements sb ss a1 st1 = (ss1, a2, st2)"
    by (metis prod.collapse)
  have step: "ss' = s1 # ss1" "av' = a2" using Cons.prems(1) s1 ss1 by auto
  note W = Cons.prems(4) [simplified]
  note U = once_append [OF Cons.prems(5) [simplified]]
  have head: "eliminates (run_statement s1 M n) (run_statement s M n) M sb a1 e w"
    using Cons.IH(1) [OF s1 Cons.prems(2)] Cons.prems(3) W [unfolded settled_append] U by simp
  show ?case
  proof (cases "\<exists>e1 w1. run_statement s M n e w = Some (Normal, e1, w1)")
    case True
    then obtain e1 w1 where run: "run_statement s M n e w = Some (Normal, e1, w1)" by blast
    have "eliminates (run_statements ss1 M n) (run_statements ss M n) M sb a2 e1 w1"
    proof (rule Cons.IH(2) [OF ss1])
      show "available_hold M sb a1 e1" using head run by (auto simp: eliminates_def)
      show "all_kinds_statements (register_ok sl (length sb)) ss" using Cons.prems(3) by simp
      have "e1 x = e x" if "x \<notin> set (statement_writes modes s)" "\<not> sl x" for x
        using run_frame(1) [OF _ run] that by (simp add: sl_def modes_def)
      from settled_after [OF W Cons.prems(5) [simplified] this]
      show "settled sl sb (statements_writes modes ss) e1" .
      show "once sl sb (statements_writes modes ss) (statements_unstable modes ss)" using U by simp
    qed
    then show ?thesis
      using head run by (simp add: eliminates_def step run_statements_Cons seq_def)
  next
    case False
    then have stop: "seq (run_statement s M n e w) g = run_statement s M n e w" for g
      by (auto simp: seq_def split: option.splits prod.splits outcome.splits)
    show ?thesis
      using head False by (simp add: eliminates_def step run_statements_Cons stop)
  qed
qed

text \<open>C3: common subexpression elimination preserves behaviour: in a function whose scalar
  operations work on registers, reusing the stable local that already holds the value of the same
  operation on the same operands leaves the result of running the body unchanged, traps
  included, for every outside world and every bound on loop iterations.\<close>

theorem cse_preserves:
  assumes "all_kinds_block (register_ok (op_sliced M) (length (fn_locals f))) (fn_body f)"
  shows "run_block (fn_body (fst (eliminate_common_subexpressions (op_modes M) f st))) M n (\<lambda>_. None) w
    = run_block (fn_body f) M n (\<lambda>_. None) w"
proof -
  let ?sb = "stable_local_values f (op_modes M)"
  obtain b' av st' where b': "eliminate_block ?sb (fn_body f) Map.empty st = (b', av, st')"
    by (metis prod.collapse)
  have "eliminates (run_block b' M n) (run_block (fn_body f) M n) M ?sb av (\<lambda>_. None) w"
  proof (rule eliminate_run(3) [OF b'])
    show "available_hold M ?sb Map.empty (\<lambda>_. None)"
      by (simp add: available_hold_def)
    show "all_kinds_block (register_ok (op_sliced M) (length ?sb)) (fn_body f)"
      using assms by simp
    show "settled (op_sliced M) ?sb (block_writes (op_modes M) (fn_body f)) (\<lambda>_. None)"
      by (simp add: settled_def)
    show "once (op_sliced M) ?sb (block_writes (op_modes M) (fn_body f))
        (block_unstable (op_modes M) (fn_body f))"
      by (auto simp: once_def good_def stable_local_values_iff)
  qed
  then show ?thesis by (simp add: eliminates_def eliminate_common_subexpressions_def b')
qed

theorem cse_preserves_witness:
  "\<exists>e. run_block (fn_body (fst (eliminate_common_subexpressions (op_modes (bare_ops :: (nat, unit) ops))
      (demo_function [S_Assign (place_local 0) (R_Use (V_Constant (I32 3))),
         S_Assign (place_local 1) (R_Binary Multiply (V_Local 0) (V_Local 0)),
         S_Assign (place_local 2) (R_Binary Multiply (V_Local 0) (V_Local 0)),
         S_Return [V_Local 2]] 3) stats_default))) (bare_ops :: (nat, unit) ops) 0 (\<lambda>_. None) ()
    = Some (Returned [Sc (I32 9)], e, ())"
proof -
  let ?f = "demo_function [S_Assign (place_local 0) (R_Use (V_Constant (I32 3))),
         S_Assign (place_local 1) (R_Binary Multiply (V_Local 0) (V_Local 0)),
         S_Assign (place_local 2) (R_Binary Multiply (V_Local 0) (V_Local 0)),
         S_Return [V_Local 2]] 3"
  have "all_kinds_block (register_ok (op_sliced (bare_ops :: (nat, unit) ops)) (length (fn_locals ?f)))
      (fn_body ?f)"
    by (simp add: demo_function_def register_ok_def place_local_def bare_ops_def rvalue_operands_def)
  then show ?thesis
    unfolding cse_preserves [OF \<open>all_kinds_block _ _\<close>]
    by (simp add: demo_function_def place_local_def run_statements_Cons seq_def
      exec_simple_def eval_rvalue_def eval_scalar_def assign_place_def eval_values_def
      place_operands_def finish_def run_return_def)
qed

end
