(* ===== verification/Payload_Shape.thy ===== *)
theory Payload_Shape
  imports Payload_Types Mir_Types
begin

section \<open>Payload schemas: leaves and values\<close>

text \<open>
  The recursive shape planner (\<open>onda_processor_abi/src/payload/shape.rs\<close>) and the traversal of host values
  (\<open>payload/value.rs\<close>), with the default values of a schema as an instance. A fallible operation
  returns \<open>payload_error + 'a\<close>. An operation that also mutates captured state is a \<open>run\<close>: it returns its
  result with the state it leaves, and \<open>None\<close> where the code panics.
\<close>

type_synonym bytes = "8 word list"

type_synonym ('s, 'a) run = "'s \<Rightarrow> ((payload_error + 'a) \<times> 's) option"

definition try_bind :: "payload_error + 'a \<Rightarrow> ('a \<Rightarrow> payload_error + 'b) \<Rightarrow> payload_error + 'b" where
  "try_bind r f = (case r of Inl e \<Rightarrow> Inl e | Inr x \<Rightarrow> f x)"

lemma try_bind_simps [simp]: "try_bind (Inl e) f = Inl e" "try_bind (Inr x) f = f x"
  by (simp_all add: try_bind_def)

lemma try_bind_Inr_iff: "try_bind r f = Inr y \<longleftrightarrow> (\<exists>x. r = Inr x \<and> f x = Inr y)"
  by (cases r) simp_all

lemma try_bind_cong [fundef_cong]: "r = r' \<Longrightarrow> (\<And>x. r' = Inr x \<Longrightarrow> f x = g x) \<Longrightarrow> try_bind r f = try_bind r' g"
  by (cases r') simp_all

definition require :: "payload_error \<Rightarrow> bool \<Rightarrow> payload_error + unit" where
  "require e ok = (if ok then Inr () else Inl e)"

lemma require_Inr_iff [simp]: "require e ok = Inr u \<longleftrightarrow> ok"
  by (simp add: require_def)

fun try_all :: "('a \<Rightarrow> payload_error + 'b) \<Rightarrow> 'a list \<Rightarrow> payload_error + 'b list" where
  "try_all f [] = Inr []"
| "try_all f (x # xs) = try_bind (f x) (\<lambda>y. try_bind (try_all f xs) (\<lambda>ys. Inr (y # ys)))"

definition run_return :: "'a \<Rightarrow> ('s, 'a) run" where
  "run_return x s = Some (Inr x, s)"

definition run_throw :: "payload_error \<Rightarrow> ('s, 'a) run" where
  "run_throw e s = Some (Inl e, s)"

definition run_panic :: "('s, 'a) run" where
  "run_panic s = None"

definition run_lift :: "payload_error + 'a \<Rightarrow> ('s, 'a) run" where
  "run_lift r s = Some (r, s)"

definition run_bind :: "('s, 'a) run \<Rightarrow> ('a \<Rightarrow> ('s, 'b) run) \<Rightarrow> ('s, 'b) run" where
  "run_bind m f s =
     (case m s of None \<Rightarrow> None | Some (Inl e, t) \<Rightarrow> Some (Inl e, t) | Some (Inr x, t) \<Rightarrow> f x t)"

lemma run_simps [simp]:
  "run_bind (run_return x) f = f x" "run_bind (run_throw e) f = run_throw e" "run_bind run_panic f = run_panic"
  "run_bind (run_lift (Inr x)) f = f x" "run_bind (run_lift (Inl e)) f = run_throw e"
  by (auto simp: run_bind_def run_return_def run_throw_def run_panic_def run_lift_def fun_eq_iff)

lemma run_bind_Some_iff:
  "run_bind m f s = Some (Inr y, u) \<longleftrightarrow> (\<exists>x t. m s = Some (Inr x, t) \<and> f x t = Some (Inr y, u))"
  by (auto simp: run_bind_def split: option.splits sum.splits)

subsection \<open>Leaves\<close>

record payload_leaf =
  leaf_path :: string
  leaf_encoding :: scalar_encoding
  leaf_shape :: "nat list"
  leaf_range :: "integer_range_metadata option"

definition child_path :: "string \<Rightarrow> string \<Rightarrow> string" where
  "child_path parent child = (if parent = [] then child else parent @ ''.'' @ child)"

definition is_scalar_type :: "payload_type \<Rightarrow> bool" where
  "is_scalar_type ty = (case ty of PT_Scalar _ _ \<Rightarrow> True | _ \<Rightarrow> False)"

definition array_element :: "payload_type \<Rightarrow> bool" where
  "array_element ty = (case ty of PT_Scalar _ _ \<Rightarrow> True | PT_Struct _ _ \<Rightarrow> True | _ \<Rightarrow> False)"

definition unique_fields :: "payload_field list \<Rightarrow> payload_error + unit" where
  "unique_fields fs = require InvalidSchema ([] \<notin> set (map pf_name fs) \<and> distinct (map pf_name fs))"

text \<open>The code keeps its pending nodes on a stack and pushes children in reverse, so it visits a type
  depth first, left to right. A failure stops the traversal.\<close>

lemma size_elements: "(\<Sum>x \<leftarrow> enumerate n xs. Suc (size (snd x))) = size_list size xs"
  by (induction xs arbitrary: n) simp_all

lemma size_fields: "(\<Sum>field \<leftarrow> fs. Suc (size (pf_ty field))) \<le> size_list size fs"
proof (induction fs)
  case (Cons x xs)
  then show ?case by (cases x) simp
qed simp

lemma size_tys: "(\<Sum>ty \<leftarrow> tys. Suc (size ty)) = size_list size tys"
  by (induction tys) simp_all

function leaves_from :: "(payload_type \<times> string \<times> nat list) list \<Rightarrow> payload_leaf list \<Rightarrow> payload_error + payload_leaf list" where
  "leaves_from [] leaves = Inr leaves"
| "leaves_from ((PT_Scalar encoding domain, path, shape) # pending) leaves =
     leaves_from pending
       (leaves @ [\<lparr>leaf_path = path, leaf_encoding = encoding, leaf_shape = shape, leaf_range = domain\<rparr>])"
| "leaves_from ((PT_Tuple elements, path, shape) # pending) leaves =
     (if elements = [] \<or> list_ex (\<lambda>ty. \<not> is_scalar_type ty) elements then Inl InvalidSchema
      else leaves_from
        (map (\<lambda>(index, element). (element, child_path path (''__'' @ show_nat index), shape)) (enumerate 0 elements) @ pending)
        leaves)"
| "leaves_from ((PT_Struct name fs, path, shape) # pending) leaves =
     (if name = [] \<or> fs = [] then Inl InvalidSchema
      else try_bind (unique_fields fs) (\<lambda>_.
        leaves_from (map (\<lambda>field. (pf_ty field, child_path path (pf_name field), shape)) fs @ pending) leaves))"
| "leaves_from ((PT_Array element len, path, shape) # pending) leaves =
     (if len = 0 \<or> \<not> array_element element then Inl InvalidSchema
      else leaves_from ((element, path, shape @ [len]) # pending) leaves)"
| "leaves_from ((PT_Slice element, path, shape) # pending) leaves = Inl InvalidSchema"
  by pat_completeness auto
termination
  by (relation "measure (\<lambda>(pending, _). \<Sum>(ty, _) \<leftarrow> pending. Suc (size ty))")
    (auto simp: comp_def split_def size_elements intro: le_imp_less_Suc [OF le_SucI [OF size_fields]])


definition leaves :: "payload_type \<Rightarrow> payload_error + payload_leaf list" where
  "leaves ty = leaves_from [(ty, [], [])] []"

text \<open>The same by recursion on the type.\<close>

fun type_leaves :: "payload_type \<Rightarrow> string \<Rightarrow> nat list \<Rightarrow> payload_error + payload_leaf list"
  and fields_leaves :: "payload_field list \<Rightarrow> string \<Rightarrow> nat list \<Rightarrow> payload_error + payload_leaf list"
  and elements_leaves :: "payload_type list \<Rightarrow> nat \<Rightarrow> string \<Rightarrow> nat list \<Rightarrow> payload_error + payload_leaf list" where
  "type_leaves (PT_Scalar encoding domain) path shape =
     Inr [\<lparr>leaf_path = path, leaf_encoding = encoding, leaf_shape = shape, leaf_range = domain\<rparr>]"
| "type_leaves (PT_Tuple elements) path shape =
     (if elements = [] \<or> list_ex (\<lambda>ty. \<not> is_scalar_type ty) elements then Inl InvalidSchema
      else elements_leaves elements 0 path shape)"
| "type_leaves (PT_Struct name fs) path shape =
     (if name = [] \<or> fs = [] then Inl InvalidSchema
      else try_bind (unique_fields fs) (\<lambda>_. fields_leaves fs path shape))"
| "type_leaves (PT_Array element len) path shape =
     (if len = 0 \<or> \<not> array_element element then Inl InvalidSchema else type_leaves element path (shape @ [len]))"
| "type_leaves (PT_Slice element) path shape = Inl InvalidSchema"
| "fields_leaves [] path shape = Inr []"
| "fields_leaves (PayloadField name ty d # fs) path shape =
     try_bind (type_leaves ty (child_path path name) shape) (\<lambda>xs.
       try_bind (fields_leaves fs path shape) (\<lambda>ys. Inr (xs @ ys)))"
| "elements_leaves [] index path shape = Inr []"
| "elements_leaves (ty # tys) index path shape =
     try_bind (type_leaves ty (child_path path (''__'' @ show_nat index)) shape) (\<lambda>xs.
       try_bind (elements_leaves tys (Suc index) path shape) (\<lambda>ys. Inr (xs @ ys)))"

lemma leaves_from_type:
  "leaves_from ((ty, path, shape) # pending) acc =
     try_bind (type_leaves ty path shape) (\<lambda>ls. leaves_from pending (acc @ ls))"
  "leaves_from (map (\<lambda>field. (pf_ty field, child_path path (pf_name field), shape)) fs @ pending) acc =
     try_bind (fields_leaves fs path shape) (\<lambda>ls. leaves_from pending (acc @ ls))"
  "leaves_from (map (\<lambda>(index, element). (element, child_path path (''__'' @ show_nat index), shape)) (enumerate n tys) @ pending) acc =
     try_bind (elements_leaves tys n path shape) (\<lambda>ls. leaves_from pending (acc @ ls))"
proof (induction ty path shape and fs path shape and tys n path shape arbitrary: pending acc and pending acc and pending acc
    rule: type_leaves_fields_leaves_elements_leaves.induct)
  case (3 name fs path shape)
  then show ?case by (auto simp: try_bind_def unique_fields_def require_def split: sum.splits)
next
  case (7 name ty d fs path shape)
  then show ?case by (cases "type_leaves ty (child_path path name) shape") (auto simp: try_bind_def split: sum.splits)
next
  case (9 ty tys index path shape)
  then show ?case
    by (cases "type_leaves ty (child_path path (''__'' @ show_nat index)) shape") (auto simp: try_bind_def split: sum.splits)
qed auto

lemma leaves_type: "leaves ty = type_leaves ty [] []"
  by (simp add: leaves_def leaves_from_type(1) try_bind_def split: sum.splits)

subsection \<open>Values\<close>

text \<open>The methods of the trait \<open>PayloadSource\<close>. \<open>write_scalar\<close> gets the bytes of one scalar to overwrite.\<close>

record 'v payload_source =
  sequence_len :: "'v \<Rightarrow> nat option"
  struct_len :: "'v \<Rightarrow> nat option"
  member_at :: "'v \<Rightarrow> nat \<Rightarrow> string option \<Rightarrow> 'v option"
  write_scalar :: "'v \<Rightarrow> scalar_encoding \<Rightarrow> bytes \<Rightarrow> (payload_error + unit) \<times> bytes"

lemma size_field_less [termination_simp]: "x \<in> set fs \<Longrightarrow> size (pf_ty x) < Suc (size_list size fs)"
proof (induction fs)
  case (Cons y fs)
  then show ?case by (cases y) auto
qed simp

fun leaf_count :: "payload_type \<Rightarrow> nat" where
  "leaf_count (PT_Scalar _ _) = 1"
| "leaf_count (PT_Tuple elements) = length elements"
| "leaf_count (PT_Struct _ fs) = sum_list (map (\<lambda>field. leaf_count (pf_ty field)) fs)"
| "leaf_count (PT_Array element _) = leaf_count element"
| "leaf_count (PT_Slice element) = leaf_count element"

fun run_fold :: "('x \<Rightarrow> 'a \<Rightarrow> ('s, 'a) run) \<Rightarrow> 'x list \<Rightarrow> 'a \<Rightarrow> ('s, 'a) run" where
  "run_fold f [] a = run_return a"
| "run_fold f (x # xs) a = run_bind (f x a) (\<lambda>b. run_fold f xs b)"

lemma run_fold_cong [fundef_cong]:
  assumes "xs = ys" and "a = b" and "\<And>x c. x \<in> set ys \<Longrightarrow> f x c = g x c"
  shows "run_fold f xs a = run_fold g ys b"
proof -
  have "(\<And>x c. x \<in> set ys \<Longrightarrow> f x c = g x c) \<Longrightarrow> run_fold f ys = run_fold g ys"
  proof (induction ys)
    case (Cons y ys)
    then have "run_fold f ys = run_fold g ys" "\<And>c. f y c = g y c" by simp_all
    then show ?case by (intro ext) simp
  qed (auto intro!: ext)
  with assms show ?thesis by simp
qed

definition try_member :: "'v payload_source \<Rightarrow> 'v \<Rightarrow> nat \<Rightarrow> string option \<Rightarrow> payload_error + 'v" where
  "try_member S v index name = (case member_at S v index name of None \<Rightarrow> Inl InvalidValue | Some m \<Rightarrow> Inr m)"

text \<open>\<open>visit\<close> is the callback with the leaf, the encoding and the scalar; the result is the next leaf.\<close>

fun visit_type :: "'v payload_source \<Rightarrow> (nat \<Rightarrow> scalar_encoding \<Rightarrow> 'v \<Rightarrow> ('s, unit) run) \<Rightarrow> payload_type \<Rightarrow> 'v \<Rightarrow> nat \<Rightarrow> ('s, nat) run"
  and visit_fields :: "'v payload_source \<Rightarrow> (nat \<Rightarrow> scalar_encoding \<Rightarrow> 'v \<Rightarrow> ('s, unit) run) \<Rightarrow> payload_field list \<Rightarrow> nat \<Rightarrow> 'v \<Rightarrow> nat \<Rightarrow> ('s, nat) run"
  and visit_elements :: "'v payload_source \<Rightarrow> (nat \<Rightarrow> scalar_encoding \<Rightarrow> 'v \<Rightarrow> ('s, unit) run) \<Rightarrow> payload_type list \<Rightarrow> nat \<Rightarrow> 'v \<Rightarrow> nat \<Rightarrow> ('s, nat) run" where
  "visit_type S visit (PT_Scalar encoding _) v start =
     run_bind (visit start encoding v) (\<lambda>_. run_return (start + 1))"
| "visit_type S visit (PT_Struct _ fs) v start =
     (if struct_len S v \<noteq> Some (length fs) then run_throw InvalidValue else visit_fields S visit fs 0 v start)"
| "visit_type S visit (PT_Tuple elements) v start =
     (if sequence_len S v \<noteq> Some (length elements) then run_throw InvalidValue
      else visit_elements S visit elements 0 v start)"
| "visit_type S visit (PT_Array element expected) v start =
     (case sequence_len S v of
        None \<Rightarrow> run_throw InvalidValue
      | Some len \<Rightarrow>
          if len \<noteq> expected then run_throw InvalidValue
          else run_fold (\<lambda>index _. run_bind (run_lift (try_member S v index None)) (\<lambda>m. visit_type S visit element m start))
                 [0..<len] (start + leaf_count element))"
| "visit_type S visit (PT_Slice element) v start =
     (case sequence_len S v of
        None \<Rightarrow> run_throw InvalidValue
      | Some len \<Rightarrow>
          run_fold (\<lambda>index _. run_bind (run_lift (try_member S v index None)) (\<lambda>m. visit_type S visit element m start))
            [0..<len] (start + leaf_count element))"
| "visit_fields S visit [] index v next = run_return next"
| "visit_fields S visit (PayloadField name ty d # fs) index v next =
     run_bind (run_lift (try_member S v index (Some name))) (\<lambda>m.
       run_bind (visit_type S visit ty m next) (\<lambda>next. visit_fields S visit fs (Suc index) v next))"
| "visit_elements S visit [] index v next = run_return next"
| "visit_elements S visit (ty # tys) index v next =
     run_bind (run_lift (try_member S v index None)) (\<lambda>m.
       run_bind (visit_type S visit ty m next) (\<lambda>next. visit_elements S visit tys (Suc index) v next))"

definition visit_values ::
  "'v payload_source \<Rightarrow> payload_type \<Rightarrow> 'v \<Rightarrow> (nat \<Rightarrow> scalar_encoding \<Rightarrow> 'v \<Rightarrow> ('s, unit) run) \<Rightarrow> ('s, unit) run" where
  "visit_values S ty v visit = run_bind (visit_type S visit ty v 0) (\<lambda>_. run_return ())"

subsection \<open>Scalars in bytes\<close>

fun le_bytes :: "nat \<Rightarrow> nat \<Rightarrow> bytes" where
  "le_bytes 0 v = []"
| "le_bytes (Suc n) v = of_nat v # le_bytes n (v div 256)"

fun le_value :: "bytes \<Rightarrow> nat" where
  "le_value [] = 0"
| "le_value (b # bs) = unat b + 256 * le_value bs"

definition le_i32 :: "int \<Rightarrow> bytes" where
  "le_i32 v = le_bytes 4 (unat (word_of_int v :: i32))"

definition le_i64 :: "int \<Rightarrow> bytes" where
  "le_i64 v = le_bytes 8 (unat (word_of_int v :: i64))"

definition i32_from_le :: "bytes \<Rightarrow> int" where
  "i32_from_le bs = sint (of_nat (le_value bs) :: i32)"

definition i64_from_le :: "bytes \<Rightarrow> int" where
  "i64_from_le bs = sint (of_nat (le_value bs) :: i64)"

lemma length_le_bytes [simp]: "length (le_bytes n v) = n"
  by (induction n arbitrary: v) simp_all

lemma le_value_bytes: "le_value (le_bytes n v) = v mod 256 ^ n"
proof (induction n arbitrary: v)
  case (Suc n)
  have "unat (of_nat v :: 8 word) = v mod 256" by (simp add: unat_of_nat)
  with Suc show ?case by (simp add: mod_mult2_eq)
qed simp

lemma le_bytes_value: "length bs = n \<Longrightarrow> le_bytes n (le_value bs) = bs"
proof (induction bs arbitrary: n)
  case (Cons b bs)
  have b: "unat b < 256" using unsigned_less [of b, where ?'a = nat] by simp
  moreover have "(of_nat (unat b + 256 * le_value bs) :: 8 word) = b"
  proof -
    have "unat (of_nat (unat b + 256 * le_value bs) :: 8 word) = unat b" 
      using b by (simp only: unat_of_nat) simp
    then show ?thesis by (rule word_unat_eq_iff [THEN iffD2])
  qed
  ultimately show ?case using Cons by auto
qed simp

lemma le_value_less: "le_value bs < 256 ^ length bs"
proof (induction bs)
  case (Cons b bs)
  have "unat b < 256" using unsigned_less [of b, where ?'a = nat] by simp
  moreover have "le_value bs + 1 \<le> 256 ^ length bs" using Cons by simp
  ultimately show ?case by simp
qed simp

lemma unat_mod_256: "unat (w :: i32) mod 4294967296 = unat w" "unat (v :: i64) mod 18446744073709551616 = unat v"
  using unsigned_less [of w, where ?'a = nat] unsigned_less [of v, where ?'a = nat] by simp_all

lemma i32_from_le_bytes: "i32_min \<le> v \<Longrightarrow> v \<le> i32_max \<Longrightarrow> i32_from_le (le_i32 v) = v"
  by (simp add: i32_from_le_def le_i32_def le_value_bytes unat_mod_256 sint_word_of_int_i32)

lemma i64_from_le_bytes: "i64_min \<le> v \<Longrightarrow> v \<le> i64_max \<Longrightarrow> i64_from_le (le_i64 v) = v"
  by (simp add: i64_from_le_def le_i64_def le_value_bytes unat_mod_256 sint_word_of_int_i64)

lemma le_i32_from: "length bs = 4 \<Longrightarrow> le_i32 (i32_from_le bs) = bs"
  using le_value_less [of bs] by (simp add: i32_from_le_def le_i32_def le_bytes_value unat_of_nat)

lemma le_i64_from: "length bs = 8 \<Longrightarrow> le_i64 (i64_from_le bs) = bs"
  using le_value_less [of bs] by (simp add: i64_from_le_def le_i64_def le_bytes_value unat_of_nat)

subsection \<open>Default values\<close>

text \<open>Rust's \<open>parse\<close> of a decimal floating point number: an optional sign, then \<open>inf\<close>, \<open>infinity\<close> or \<open>nan\<close> in any
  case, or digits with an optional point and exponent, rounded once to the format.\<close>

definition is_digit :: "char \<Rightarrow> bool" where
  "is_digit c \<longleftrightarrow> 48 \<le> (of_char c :: nat) \<and> (of_char c :: nat) \<le> 57"

definition lower_char :: "char \<Rightarrow> char" where
  "lower_char c = (let k = of_char c :: nat in if 65 \<le> k \<and> k \<le> 90 then char_of (k + 32) else c)"

definition digits_value :: "string \<Rightarrow> nat" where
  "digits_value ds = foldl (\<lambda>acc c. 10 * acc + (of_char c - 48)) 0 ds"

fun strip_sign :: "string \<Rightarrow> bool \<times> string" where
  "strip_sign [] = (False, [])"
| "strip_sign (c # cs) =
     (if c = CHR ''-'' then (True, cs) else if c = CHR ''+'' then (False, cs) else (False, c # cs))"

definition parse_exponent :: "string \<Rightarrow> int option" where
  "parse_exponent s =
     (case s of
        [] \<Rightarrow> Some 0
      | c # cs \<Rightarrow>
          if lower_char c \<noteq> CHR ''e'' then None
          else let (neg, ds) = strip_sign cs
               in if ds = [] \<or> \<not> list_all is_digit ds then None
                  else Some (if neg then - int (digits_value ds) else int (digits_value ds)))"

definition decimal_bits :: "float_format \<Rightarrow> bool \<Rightarrow> nat \<Rightarrow> int \<Rightarrow> nat" where
  "decimal_bits f neg m e =
     fencode f (if 0 \<le> e then Fin neg (m * 10 ^ nat e) 0 else fnum_div f (Fin neg m 0) (Fin False (10 ^ nat (- e)) 0))"

definition parse_float :: "float_format \<Rightarrow> string \<Rightarrow> nat option" where
  "parse_float f s =
     (let (neg, body) = strip_sign s; word = map lower_char body
      in if word = ''nan'' then Some (fsign_bit f neg + fnan_bits f)
         else if word = ''inf'' \<or> word = ''infinity'' then Some (fencode f (Infty neg))
         else
           (let whole = takeWhile is_digit body;
                rest = dropWhile is_digit body;
                (fraction, rest) =
                  (case rest of
                     [] \<Rightarrow> ([], rest)
                   | c # cs \<Rightarrow> if c = CHR ''.'' then (takeWhile is_digit cs, dropWhile is_digit cs) else ([], rest))
            in if whole = [] \<and> fraction = [] then None
               else map_option (\<lambda>e. decimal_bits f neg (digits_value (whole @ fraction)) (e - int (length fraction)))
                      (parse_exponent rest)))"

definition parse_int :: "int \<Rightarrow> int \<Rightarrow> string \<Rightarrow> int option" where
  "parse_int lo hi s =
     (let (neg, ds) = strip_sign s
      in if ds = [] \<or> \<not> list_all is_digit ds then None
         else let v = (if neg then - int (digits_value ds) else int (digits_value ds))
              in if lo \<le> v \<and> v \<le> hi then Some v else None)"

definition parse_bool :: "string \<Rightarrow> bool option" where
  "parse_bool s = (if s = ''true'' then Some True else if s = ''false'' then Some False else None)"

fun default_bytes :: "scalar_encoding \<Rightarrow> string \<Rightarrow> bytes option" where
  "default_bytes Enc_Bool s = map_option (\<lambda>b. [if b then 1 else 0]) (parse_bool s)"
| "default_bytes Enc_I32 s = map_option le_i32 (parse_int i32_min i32_max s)"
| "default_bytes Enc_I64 s = map_option le_i64 (parse_int i64_min i64_max s)"
| "default_bytes Enc_F32 s = map_option (le_bytes 4) (parse_float fmt32 s)"
| "default_bytes Enc_F64 s = map_option (le_bytes 8) (parse_float fmt64 s)"

definition default_len :: "payload_default \<Rightarrow> nat option" where
  "default_len d = (case d of PD_Aggregate ds \<Rightarrow> Some (length ds) | PD_Scalar _ \<Rightarrow> None)"

definition default_member :: "payload_default \<Rightarrow> nat \<Rightarrow> string option \<Rightarrow> payload_default option" where
  "default_member d index name = (case d of PD_Aggregate ds \<Rightarrow> nth_opt ds index | PD_Scalar _ \<Rightarrow> None)"

definition default_write :: "payload_default \<Rightarrow> scalar_encoding \<Rightarrow> bytes \<Rightarrow> (payload_error + unit) \<times> bytes" where
  "default_write d encoding out =
     (case d of
        PD_Aggregate _ \<Rightarrow> (Inl InvalidValue, out)
      | PD_Scalar text \<Rightarrow>
          (case default_bytes encoding text of None \<Rightarrow> (Inl InvalidValue, out) | Some bs \<Rightarrow> (Inr (), bs)))"

definition default_source :: "payload_default payload_source" where
  "default_source =
     \<lparr>sequence_len = default_len, struct_len = default_len, member_at = default_member, write_scalar = default_write\<rparr>"

end
