(* ===== verification/Payload_Layout.thy ===== *)
theory Payload_Layout
  imports Payload_Shape
begin

section \<open>Payload layout\<close>

text \<open>
  The prepared plan of a message (\<open>onda_processor_abi/src/payload/layout.rs\<close>): one tensor per leaf, and the walk that
  assigns every length prefix and tensor its place on the wire, packed, and in the workspace, aligned.
\<close>

subsection \<open>Checked arithmetic\<close>

text \<open>Sizes are \<open>usize\<close> in the code and bounded by \<open>i32::MAX\<close> here; a \<open>usize\<close> overflow is an overflow of
  that bound too.\<close>

definition checked_add :: "nat \<Rightarrow> nat \<Rightarrow> payload_error + nat" where
  "checked_add a b = (if a + b \<le> 2147483647 then Inr (a + b) else Inl Overflow)"

definition checked_mul :: "nat \<Rightarrow> nat \<Rightarrow> payload_error + nat" where
  "checked_mul a b = (if a * b \<le> 2147483647 then Inr (a * b) else Inl Overflow)"

lemma checked_add_iff [simp]: "checked_add a b = Inr c \<longleftrightarrow> c = a + b \<and> c \<le> 2147483647"
  by (auto simp: checked_add_def)

lemma checked_mul_iff [simp]: "checked_mul a b = Inr c \<longleftrightarrow> c = a * b \<and> c \<le> 2147483647"
  by (auto simp: checked_mul_def)

unbundle bit_operations_syntax

definition aligned :: "nat \<Rightarrow> nat \<Rightarrow> payload_error + nat" where
  "aligned offset alignment =
     try_bind (checked_add offset (alignment - 1)) (\<lambda>n. Inr (nat (int n AND NOT (int (alignment - 1)))))"

lemma round_down: "int n AND NOT (int (2 ^ k - 1)) = int (n div 2 ^ k * 2 ^ k)"
proof -
  have "int n AND NOT (mask k) = push_bit k (drop_bit k (int n))"
    by (rule bit_eqI) (auto simp: bit_simps)
  also have "\<dots> = int (n div 2 ^ k * 2 ^ k)"
    by (simp add: push_bit_eq_mult drop_bit_eq_div zdiv_int)
  finally show ?thesis by (simp add: mask_eq_exp_minus_1 of_nat_diff)
qed

text \<open>Scalars are one, four or eight bytes wide; the result is the least multiple that is not below.\<close>

lemma aligned_iff:
  assumes "a \<in> {1, 4, 8}"
  shows "aligned offset a = Inr n \<longleftrightarrow> n = (offset + (a - 1)) div a * a \<and> offset + (a - 1) \<le> 2147483647"
proof -
  obtain k where "a = 2 ^ k" using assms by (auto intro: that [of 0] that [of 2] that [of 3])
  then show ?thesis unfolding aligned_def try_bind_Inr_iff by (auto simp only: round_down nat_int checked_add_iff sum.inject)
qed

lemma aligned_bounds:
  assumes "a \<in> {1, 4, 8}" and "aligned offset a = Inr n"
  shows "offset \<le> n" and "n \<le> offset + (a - 1)" and "a dvd n"
  using assms aligned_iff [OF assms(1), of offset n] by auto

subsection \<open>Plans\<close>

record integer_domain =
  dom_min :: int
  dom_max :: int
  dom_wrap :: bool

record payload_tensor =
  pt_path :: string
  pt_parameter :: nat
  pt_length_prefix :: bool
  pt_encoding :: scalar_encoding
  pt_shape :: "nat list"
  pt_elements :: nat
  pt_domain :: "integer_domain option"

text \<open>\<open>pp_tensors\<close> is the half-open range of the parameter's tensors.\<close>

record parameter_plan =
  pp_dynamic :: bool
  pp_length_parameter :: "nat option"
  pp_tensors :: "nat \<times> nat"

record payload_plan =
  plan_schema :: payload_schema
  plan_params :: "parameter_plan list"
  plan_tensors :: "payload_tensor list"

record tensor_region =
  tr_tensor :: nat
  tr_logical_len :: nat
  tr_elements :: nat
  tr_wire :: "nat \<times> nat"
  tr_workspace :: "nat \<times> nat"

datatype region = Region_Length "nat \<times> nat" "nat \<times> nat" | Region_Tensor tensor_region

definition indices :: "nat \<times> nat \<Rightarrow> nat list" where
  "indices r = [fst r..<snd r]"

definition dynamic_parameters :: "payload_plan \<Rightarrow> nat" where
  "dynamic_parameters plan = length (filter pp_dynamic (plan_params plan))"

definition abi_parameter_count :: "payload_plan \<Rightarrow> nat" where
  "abi_parameter_count plan =
     length (plan_tensors plan) + length (filter (\<lambda>p. pp_length_parameter p \<noteq> None) (plan_params plan))"

subsection \<open>The walk\<close>

text \<open>\<open>length_at\<close> is the callback that supplies the length of a dynamic parameter from its places on the
  wire and in the workspace; \<open>visit\<close> gets every region in order.\<close>

definition place_tensor :: "payload_tensor \<Rightarrow> nat \<Rightarrow> nat \<Rightarrow> nat \<Rightarrow> nat \<Rightarrow> payload_error + tensor_region" where
  "place_tensor leaf index len wire workspace =
     try_bind (checked_mul (pt_elements leaf) len) (\<lambda>elements.
     try_bind (checked_mul elements (byte_size (pt_encoding leaf))) (\<lambda>bytes.
     try_bind (aligned workspace (byte_size (pt_encoding leaf))) (\<lambda>prepared.
     try_bind (checked_add wire bytes) (\<lambda>wire_end.
     try_bind (checked_add prepared bytes) (\<lambda>workspace_end.
       Inr \<lparr>tr_tensor = index, tr_logical_len = len, tr_elements = elements,
            tr_wire = (wire, wire_end), tr_workspace = (prepared, workspace_end)\<rparr>)))))"

fun walk_tensors ::
  "payload_tensor list \<Rightarrow> (region \<Rightarrow> ('s, unit) run) \<Rightarrow> nat \<Rightarrow> nat list \<Rightarrow> nat \<times> nat \<Rightarrow> ('s, nat \<times> nat) run" where
  "walk_tensors tensors visit len [] at = run_return at"
| "walk_tensors tensors visit len (index # rest) at =
     (case nth_opt tensors index of
        None \<Rightarrow> run_panic
      | Some leaf \<Rightarrow>
          run_bind (run_lift (place_tensor leaf index len (fst at) (snd at))) (\<lambda>r.
            run_bind (visit (Region_Tensor r)) (\<lambda>_.
              walk_tensors tensors visit len rest (snd (tr_wire r), snd (tr_workspace r)))))"

definition walk_length ::
  "(nat \<Rightarrow> nat \<Rightarrow> ('s, nat) run) \<Rightarrow> (region \<Rightarrow> ('s, unit) run) \<Rightarrow> nat \<times> nat \<Rightarrow> ('s, nat \<times> nat \<times> nat) run" where
  "walk_length length_at visit at =
     run_bind (run_lift (aligned (snd at) 4)) (\<lambda>prepared.
     run_bind (length_at (fst at) prepared) (\<lambda>len.
     run_bind (run_lift (checked_add (fst at) 4)) (\<lambda>wire_end.
     run_bind (run_lift (checked_add prepared 4)) (\<lambda>workspace_end.
     run_bind (visit (Region_Length (fst at, wire_end) (prepared, workspace_end))) (\<lambda>_.
       run_return (len, wire_end, workspace_end))))))"

fun walk_params ::
  "payload_tensor list \<Rightarrow> (nat \<Rightarrow> nat \<Rightarrow> ('s, nat) run) \<Rightarrow> (region \<Rightarrow> ('s, unit) run) \<Rightarrow> parameter_plan list \<Rightarrow> nat \<times> nat
     \<Rightarrow> ('s, nat \<times> nat) run" where
  "walk_params tensors length_at visit [] at = run_return at"
| "walk_params tensors length_at visit (param # rest) at =
     run_bind (if pp_dynamic param then walk_length length_at visit at else run_return (1, at)) (\<lambda>(len, at).
       run_bind (walk_tensors tensors visit len (indices (pp_tensors param)) at) (\<lambda>at.
         walk_params tensors length_at visit rest at))"

definition walk ::
  "payload_plan \<Rightarrow> (nat \<Rightarrow> nat \<Rightarrow> ('s, nat) run) \<Rightarrow> (region \<Rightarrow> ('s, unit) run) \<Rightarrow> ('s, nat \<times> nat) run" where
  "walk plan length_at visit = walk_params (plan_tensors plan) length_at visit (plan_params plan) (0, 0)"

subsection \<open>Sizes\<close>

definition no_visit :: "region \<Rightarrow> ('s, unit) run" where
  "no_visit r = run_return ()"

text \<open>Supplied lengths are \<open>i32\<close> values; the iterator over them is the state.\<close>

definition next_length :: "nat \<Rightarrow> nat \<Rightarrow> (int list, nat) run" where
  "next_length wire prepared lengths =
     (case lengths of
        [] \<Rightarrow> run_throw InvalidLengths lengths
      | len # rest \<Rightarrow> if len < 0 then run_throw NegativeLength rest else run_return (nat len) rest)"

definition plan_sizes :: "payload_plan \<Rightarrow> int list \<Rightarrow> (payload_error + nat \<times> nat) option" where
  "plan_sizes plan lengths =
     map_option (\<lambda>(r, rest). try_bind r (\<lambda>sizes. if rest = [] then Inr sizes else Inl InvalidLengths))
       (walk plan next_length no_visit lengths)"

definition read_length :: "bytes \<Rightarrow> nat \<Rightarrow> payload_error + nat" where
  "read_length bs offset =
     try_bind (checked_add offset 4) (\<lambda>end_at.
       if length bs < end_at then Inl Truncated
       else let len = i32_from_le (take 4 (drop offset bs)) in if len < 0 then Inl NegativeLength else Inr (nat len))"

definition read_from :: "bytes \<Rightarrow> nat \<Rightarrow> nat \<Rightarrow> ('s, nat) run" where
  "read_from input wire prepared = run_lift (read_length input wire)"

definition required_workspace :: "payload_plan \<Rightarrow> bytes \<Rightarrow> (payload_error + nat) option" where
  "required_workspace plan input =
     map_option (\<lambda>(r, _). try_bind r (\<lambda>(wire, workspace).
         if length input < wire then Inl Truncated
         else if wire < length input then Inl TrailingBytes
         else Inr workspace))
       (walk plan (read_from input) no_visit ())"

text \<open>Wire and workspace sizes with every slice empty; the code expects them to exist.\<close>

definition minimum_sizes :: "payload_plan \<Rightarrow> (nat \<times> nat) option" where
  "minimum_sizes plan =
     (case plan_sizes plan (replicate (dynamic_parameters plan) 0) of Some (Inr sizes) \<Rightarrow> Some sizes | _ \<Rightarrow> None)"

definition fixed_wire_size :: "payload_plan \<Rightarrow> nat option option" where
  "fixed_wire_size plan =
     (if dynamic_parameters plan = 0 then map_option (Some \<circ> fst) (minimum_sizes plan) else Some None)"

definition wire_capacity :: "payload_plan \<Rightarrow> nat \<Rightarrow> nat option" where
  "wire_capacity plan dynamic_capacity =
     Option.bind (fixed_wire_size plan) (\<lambda>size.
       case size of
         Some n \<Rightarrow> Some n
       | None \<Rightarrow> map_option (\<lambda>sizes. max (fst sizes) dynamic_capacity) (minimum_sizes plan))"

fun add_padding :: "payload_tensor list \<Rightarrow> nat \<Rightarrow> payload_error + nat" where
  "add_padding [] capacity = Inr capacity"
| "add_padding (tensor # rest) capacity =
     try_bind (checked_add capacity (byte_size (pt_encoding tensor) - 1)) (add_padding rest)"

definition workspace_capacity_for_wire_capacity :: "payload_plan \<Rightarrow> nat \<Rightarrow> payload_error + nat" where
  "workspace_capacity_for_wire_capacity plan capacity =
     try_bind (checked_add capacity (dynamic_parameters plan * 3)) (add_padding (plan_tensors plan))"

subsection \<open>Preparing a plan\<close>

definition prepare_domain :: "scalar_encoding \<Rightarrow> integer_range_metadata \<Rightarrow> payload_error + integer_domain" where
  "prepare_domain encoding meta =
     (case (case encoding of Enc_I32 \<Rightarrow> Some (''i32'', i32_min, i32_max) | Enc_I64 \<Rightarrow> Some (''i64'', i64_min, i64_max) | _ \<Rightarrow> None) of
        None \<Rightarrow> Inl InvalidRange
      | Some (scalar, lower, upper) \<Rightarrow>
          (case (parse_int i64_min i64_max (endpoint_value (meta_min meta)), parse_int i64_min i64_max (endpoint_value (meta_max meta))) of
             (Some lo, Some hi) \<Rightarrow>
               if endpoint_scalar (meta_min meta) \<noteq> scalar \<or> endpoint_scalar (meta_max meta) \<noteq> scalar
                 \<or> lo < lower \<or> upper < hi \<or> hi < lo
               then Inl InvalidRange
               else if meta_mode meta = ''clamp'' then Inr \<lparr>dom_min = lo, dom_max = hi, dom_wrap = False\<rparr>
               else if meta_mode meta = ''wrap'' then Inr \<lparr>dom_min = lo, dom_max = hi, dom_wrap = True\<rparr>
               else Inl InvalidRange
           | _ \<Rightarrow> Inl InvalidRange))"

definition plain_names :: "payload_field list \<Rightarrow> payload_error + unit" where
  "plain_names fs =
     require InvalidSchema (\<not> list_ex (\<lambda>field. list_ex (\<lambda>c. c \<in> {CHR ''.'', CHR ''['', CHR '']''}) (pf_name field)) fs)"

definition is_slice_type :: "payload_type \<Rightarrow> bool" where
  "is_slice_type ty = (case ty of PT_Slice _ \<Rightarrow> True | _ \<Rightarrow> False)"

text \<open>Every scalar of a default value must have a spelling of its type.\<close>

definition check_default :: "payload_type \<Rightarrow> payload_default \<Rightarrow> payload_error + unit" where
  "check_default ty d =
     (if is_slice_type ty then Inl InvalidValue
      else case visit_values default_source ty d
             (\<lambda>_ encoding v. run_lift (fst (default_write v encoding (replicate (byte_size encoding) 0)))) () of
           Some (r, _) \<Rightarrow> r
         | None \<Rightarrow> Inl InvalidValue)"

text \<open>The pending nodes are a stack; its top is the head of the list.\<close>

function validate_pending :: "(payload_type \<times> payload_default option \<times> nat) list \<Rightarrow> payload_error + unit" where
  "validate_pending [] = Inr ()"
| "validate_pending ((ty, d, outer) # pending) =
     try_bind (case d of None \<Rightarrow> Inr () | Some d \<Rightarrow> check_default ty d) (\<lambda>_.
       case ty of
         PT_Array element len \<Rightarrow> try_bind (checked_mul outer len) (\<lambda>n. validate_pending ((element, None, n) # pending))
       | PT_Slice element \<Rightarrow> validate_pending ((element, None, outer) # pending)
       | PT_Struct _ fs \<Rightarrow>
           try_bind (plain_names fs) (\<lambda>_.
             validate_pending (rev (map (\<lambda>field. (pf_ty field, pf_default field, outer)) fs) @ pending))
       | PT_Tuple elements \<Rightarrow> validate_pending (rev (map (\<lambda>element. (element, None, outer)) elements) @ pending)
       | PT_Scalar _ _ \<Rightarrow> validate_pending pending)"
  by pat_completeness auto
termination
  by (relation "measure (\<lambda>pending. \<Sum>(ty, _) \<leftarrow> pending. Suc (size ty))")
    (auto simp: comp_def split_def rev_map [symmetric] sum_list_rev size_tys intro: le_imp_less_Suc [OF le_SucI [OF size_fields]])

definition validate_defaults_and_extents :: "payload_field list \<Rightarrow> payload_error + unit" where
  "validate_defaults_and_extents fs =
     try_bind (plain_names fs) (\<lambda>_. validate_pending (rev (map (\<lambda>field. (pf_ty field, pf_default field, 1)) fs)))"

fun shape_elements :: "nat list \<Rightarrow> nat \<Rightarrow> payload_error + nat" where
  "shape_elements [] n = Inr n"
| "shape_elements (extent # shape) n = try_bind (checked_mul n extent) (shape_elements shape)"

definition plan_tensor :: "string \<Rightarrow> bool \<Rightarrow> payload_leaf \<Rightarrow> nat \<Rightarrow> payload_error + payload_tensor" where
  "plan_tensor field prefix leaf parameter =
     try_bind (shape_elements (leaf_shape leaf) 1) (\<lambda>elements.
     try_bind (case leaf_range leaf of
                 None \<Rightarrow> Inr None
               | Some meta \<Rightarrow> map_sum id Some (prepare_domain (leaf_encoding leaf) meta)) (\<lambda>domain.
       Inr \<lparr>pt_path = (if leaf_path leaf = [] then field else field @ ''.'' @ leaf_path leaf),
            pt_parameter = parameter, pt_length_prefix = prefix, pt_encoding = leaf_encoding leaf,
            pt_shape = leaf_shape leaf, pt_elements = elements, pt_domain = domain\<rparr>))"

fun plan_leaves :: "string \<Rightarrow> bool \<Rightarrow> payload_leaf list \<Rightarrow> nat \<Rightarrow> payload_error + payload_tensor list" where
  "plan_leaves field prefix [] abi = Inr []"
| "plan_leaves field prefix (leaf # rest) abi =
     try_bind (plan_tensor field prefix leaf abi) (\<lambda>tensor.
       try_bind (plan_leaves field prefix rest (abi + 1)) (\<lambda>tensors. Inr (tensor # tensors)))"

definition is_struct_type :: "payload_type \<Rightarrow> bool" where
  "is_struct_type ty = (case ty of PT_Struct _ _ \<Rightarrow> True | _ \<Rightarrow> False)"

definition outer_type :: "payload_type \<Rightarrow> payload_type \<times> bool" where
  "outer_type ty = (case ty of PT_Slice element \<Rightarrow> (element, True) | _ \<Rightarrow> (ty, False))"

fun plan_fields ::
  "payload_field list \<Rightarrow> nat \<Rightarrow> parameter_plan list \<Rightarrow> payload_tensor list \<Rightarrow> payload_error + parameter_plan list \<times> payload_tensor list" where
  "plan_fields [] abi params tensors = Inr (params, tensors)"
| "plan_fields (field # fs) abi params tensors =
     (let (ty, dynamic) = outer_type (pf_ty field) in
      if dynamic \<and> \<not> array_element ty then Inl InvalidSchema
      else
        let has_length = dynamic \<and> is_struct_type ty;
            first = (if has_length then abi + 1 else abi)
        in try_bind (leaves ty) (\<lambda>ls.
             if ls = [] then Inl InvalidSchema
             else try_bind (plan_leaves (pf_name field) (dynamic \<and> \<not> has_length) ls first) (\<lambda>new.
               plan_fields fs (first + length ls)
                 (params @ [\<lparr>pp_dynamic = dynamic, pp_length_parameter = (if has_length then Some abi else None),
                             pp_tensors = (length tensors, length tensors + length ls)\<rparr>])
                 (tensors @ new))))"

definition payload_plan_new :: "payload_schema \<Rightarrow> (payload_error + payload_plan) option" where
  "payload_plan_new schema =
     (case try_bind (unique_fields (schema_params schema)) (\<lambda>_.
             try_bind (validate_defaults_and_extents (schema_params schema)) (\<lambda>_.
               plan_fields (schema_params schema) 0 [] [])) of
        Inl e \<Rightarrow> Some (Inl e)
      | Inr (params, tensors) \<Rightarrow>
          (let plan = \<lparr>plan_schema = schema, plan_params = params, plan_tensors = tensors\<rparr>
           in map_option (\<lambda>r. try_bind r (\<lambda>_. Inr plan)) (plan_sizes plan (replicate (dynamic_parameters plan) 0))))"

subsection \<open>The layout that a walk follows\<close>

text \<open>The regions a walk visits for given lengths, each with the length of its parameter, without callbacks.\<close>

fun layout_tensors ::
  "payload_tensor list \<Rightarrow> nat \<Rightarrow> nat list \<Rightarrow> nat \<times> nat \<Rightarrow> payload_error + (region \<times> nat) list \<times> nat \<times> nat" where
  "layout_tensors tensors len [] at = Inr ([], at)"
| "layout_tensors tensors len (index # rest) at =
     try_bind (place_tensor (tensors ! index) index len (fst at) (snd at)) (\<lambda>r.
       try_bind (layout_tensors tensors len rest (snd (tr_wire r), snd (tr_workspace r))) (\<lambda>(rs, at).
         Inr ((Region_Tensor r, len) # rs, at)))"

definition layout_length :: "nat \<Rightarrow> nat \<times> nat \<Rightarrow> payload_error + (region \<times> nat) \<times> nat \<times> nat" where
  "layout_length len at =
     try_bind (aligned (snd at) 4) (\<lambda>prepared.
     try_bind (checked_add (fst at) 4) (\<lambda>wire_end.
     try_bind (checked_add prepared 4) (\<lambda>workspace_end.
       Inr ((Region_Length (fst at, wire_end) (prepared, workspace_end), len), wire_end, workspace_end))))"

fun layout_params ::
  "payload_tensor list \<Rightarrow> parameter_plan list \<Rightarrow> nat list \<Rightarrow> nat \<times> nat \<Rightarrow> payload_error + (region \<times> nat) list \<times> nat \<times> nat" where
  "layout_params tensors [] lens at = (if lens = [] then Inr ([], at) else Inl InvalidLengths)"
| "layout_params tensors (param # rest) lens at =
     (if pp_dynamic param
      then (case lens of
              [] \<Rightarrow> Inl InvalidLengths
            | len # lens \<Rightarrow>
                try_bind (layout_length len at) (\<lambda>(e, at).
                try_bind (layout_tensors tensors len (indices (pp_tensors param)) at) (\<lambda>(es, at).
                try_bind (layout_params tensors rest lens at) (\<lambda>(es', at). Inr (e # es @ es', at)))))
      else try_bind (layout_tensors tensors 1 (indices (pp_tensors param)) at) (\<lambda>(es, at).
           try_bind (layout_params tensors rest lens at) (\<lambda>(es', at). Inr (es @ es', at))))"

definition layout :: "payload_plan \<Rightarrow> nat list \<Rightarrow> payload_error + (region \<times> nat) list \<times> nat \<times> nat" where
  "layout plan lens = layout_params (plan_tensors plan) (plan_params plan) lens (0, 0)"

text \<open>The callbacks along a layout. A length callback has to answer with the length of the layout.\<close>

fun run_events ::
  "(nat \<Rightarrow> nat \<Rightarrow> ('s, nat) run) \<Rightarrow> (region \<Rightarrow> ('s, unit) run) \<Rightarrow> (region \<times> nat) list \<Rightarrow> 's \<Rightarrow> 's option" where
  "run_events length_at visit [] s = Some s"
| "run_events length_at visit ((r, len) # es) s =
     (case (case r of
              Region_Length wire workspace \<Rightarrow>
                run_bind (length_at (fst wire) (fst workspace)) (\<lambda>n. if n = len then visit r else run_panic) s
            | Region_Tensor _ \<Rightarrow> visit r s) of
        Some (Inr _, t) \<Rightarrow> run_events length_at visit es t
      | _ \<Rightarrow> None)"

lemma run_events_append:
  "run_events length_at visit (xs @ ys) s = Option.bind (run_events length_at visit xs s) (run_events length_at visit ys)"
  by (induction length_at visit xs s rule: run_events.induct) (auto split: option.splits sum.splits region.splits)

definition tensors_in_range :: "payload_tensor list \<Rightarrow> parameter_plan list \<Rightarrow> bool" where
  "tensors_in_range tensors params \<longleftrightarrow> (\<forall>param \<in> set params. snd (pp_tensors param) \<le> length tensors)"

lemma walk_tensors_layout:
  assumes "\<forall>index \<in> set is. index < length tensors"
  shows "walk_tensors tensors visit len is at s = Some (Inr at', t) \<longleftrightarrow>
    (\<exists>es. layout_tensors tensors len is at = Inr (es, at') \<and> run_events length_at visit es s = Some t)"
  using assms
proof (induction tensors visit len "is" at arbitrary: s rule: walk_tensors.induct)
  case (1 tensors visit len at)
  then show ?case by (auto simp: run_return_def)
next
  case (2 tensors visit len index rest at)
  then have leaf: "nth_opt tensors index = Some (tensors ! index)" by (simp add: nth_opt_def)
  show ?case
  proof (cases "place_tensor (tensors ! index) index len (fst at) (snd at)")
    case (Inl e)
    then show ?thesis by (simp add: leaf run_throw_def)
  next
    case (Inr r)
    note IH = 2(1) [OF leaf, of r]
    show ?thesis
    proof (cases "visit (Region_Tensor r) s")
      case None
      with Inr show ?thesis by (auto simp: leaf run_bind_def try_bind_Inr_iff)
    next
      case (Some res)
      then show ?thesis
      proof (cases res)
        case (Pair a u)
        with Inr Some IH [of u] 2(2) show ?thesis
          by (cases a; cases at') (auto simp: leaf run_bind_def [of "visit _"] try_bind_Inr_iff)
      qed
    qed
  qed
qed

lemma walk_length_layout:
  "walk_length length_at visit at s = Some (Inr (len, at'), t) \<longleftrightarrow>
    (\<exists>e. layout_length len at = Inr (e, at') \<and> run_events length_at visit [e] s = Some t)"
proof (cases "aligned (snd at) 4")
  case (Inr prepared)
  then show ?thesis
    unfolding walk_length_def layout_length_def
    by (auto simp: run_bind_def run_lift_def run_return_def run_throw_def run_panic_def checked_add_def
        split: option.splits sum.splits if_splits)
qed (simp add: walk_length_def layout_length_def run_throw_def)

lemma layout_params_dynamic:
  "pp_dynamic param \<Longrightarrow> layout_params tensors (param # rest) lens at = Inr (es0, at') \<longleftrightarrow>
     (\<exists>len lens' e at1 es at2 es'. lens = len # lens' \<and> layout_length len at = Inr (e, at1)
        \<and> layout_tensors tensors len (indices (pp_tensors param)) at1 = Inr (es, at2)
        \<and> layout_params tensors rest lens' at2 = Inr (es', at') \<and> es0 = [e] @ es @ es')"
  by (cases lens; cases at') (auto simp: try_bind_Inr_iff)

lemma layout_params_fixed:
  "\<not> pp_dynamic param \<Longrightarrow> layout_params tensors (param # rest) lens at = Inr (es0, at') \<longleftrightarrow>
     (\<exists>es at2 es'. layout_tensors tensors 1 (indices (pp_tensors param)) at = Inr (es, at2)
        \<and> layout_params tensors rest lens at2 = Inr (es', at') \<and> es0 = es @ es')"
  by (cases at') (auto simp: try_bind_Inr_iff)

lemma layout_params_ex:
  "pp_dynamic param \<Longrightarrow> (\<exists>lens es. layout_params tensors (param # rest) lens at = Inr (es, at') \<and> Q es) \<longleftrightarrow>
     (\<exists>len e at1 es at2 lens es'. layout_length len at = Inr (e, at1)
        \<and> layout_tensors tensors len (indices (pp_tensors param)) at1 = Inr (es, at2)
        \<and> layout_params tensors rest lens at2 = Inr (es', at') \<and> Q ([e] @ es @ es'))"
  "\<not> pp_dynamic param \<Longrightarrow> (\<exists>lens es. layout_params tensors (param # rest) lens at = Inr (es, at') \<and> Q es) \<longleftrightarrow>
     (\<exists>es at2 lens es'. layout_tensors tensors 1 (indices (pp_tensors param)) at = Inr (es, at2)
        \<and> layout_params tensors rest lens at2 = Inr (es', at') \<and> Q (es @ es'))"
  unfolding layout_params_dynamic layout_params_fixed by blast+

lemma walk_params_layout:
  assumes "tensors_in_range tensors params"
  shows "walk_params tensors length_at visit params at s = Some (Inr at', t) \<longleftrightarrow>
    (\<exists>lens es. layout_params tensors params lens at = Inr (es, at') \<and> run_events length_at visit es s = Some t)"
  using assms
proof (induction tensors length_at visit params at arbitrary: s rule: walk_params.induct)
  case (1 tensors length_at visit at)
  then show ?case by (auto simp: run_return_def)
next
  case (2 tensors length_at visit param rest at)
  have range: "\<forall>index \<in> set (indices (pp_tensors param)). index < length tensors"
    and rest: "tensors_in_range tensors rest"
    using 2(2) by (auto simp: tensors_in_range_def indices_def)
  note tail = 2(1) [OF rest]
  show ?case
  proof (cases "pp_dynamic param")
    case True
    have step: "walk_params tensors length_at visit (param # rest) at s = Some (Inr at', t) \<longleftrightarrow>
        (\<exists>len at1 s1 at2 s2. walk_length length_at visit at s = Some (Inr (len, at1), s1)
          \<and> walk_tensors tensors visit len (indices (pp_tensors param)) at1 s1 = Some (Inr at2, s2)
          \<and> walk_params tensors length_at visit rest at2 s2 = Some (Inr at', t))"
      using True by (auto simp: run_bind_Some_iff)
    show ?thesis
      unfolding step walk_length_layout walk_tensors_layout [OF range, where length_at = length_at] tail layout_params_ex(1) [OF True]
      unfolding run_events_append bind_eq_Some_conv by blast
  next
    case False
    have step: "walk_params tensors length_at visit (param # rest) at s = Some (Inr at', t) \<longleftrightarrow>
        (\<exists>at2 s2. walk_tensors tensors visit 1 (indices (pp_tensors param)) at s = Some (Inr at2, s2)
          \<and> walk_params tensors length_at visit rest at2 s2 = Some (Inr at', t))"
      using False by (auto simp: run_bind_Some_iff run_return_def)
    show ?thesis
      unfolding step walk_tensors_layout [OF range, where length_at = length_at] tail layout_params_ex(2) [OF False]
      unfolding run_events_append bind_eq_Some_conv by blast
  qed
qed

subsection \<open>Geometry of a layout\<close>

fun region_wire :: "region \<Rightarrow> nat \<times> nat" where
  "region_wire (Region_Length wire _) = wire"
| "region_wire (Region_Tensor r) = tr_wire r"

fun region_workspace :: "region \<Rightarrow> nat \<times> nat" where
  "region_workspace (Region_Length _ workspace) = workspace"
| "region_workspace (Region_Tensor r) = tr_workspace r"

text \<open>Consecutive ranges without a gap, and ranges in order that may leave gaps.\<close>

fun tiles :: "(nat \<times> nat) list \<Rightarrow> nat \<Rightarrow> nat \<Rightarrow> bool" where
  "tiles [] a b \<longleftrightarrow> a = b"
| "tiles (r # rs) a b \<longleftrightarrow> fst r = a \<and> fst r \<le> snd r \<and> tiles rs (snd r) b"

fun spread :: "(nat \<times> nat) list \<Rightarrow> nat \<Rightarrow> nat \<Rightarrow> bool" where
  "spread [] a b \<longleftrightarrow> a = b"
| "spread (r # rs) a b \<longleftrightarrow> a \<le> fst r \<and> fst r \<le> snd r \<and> spread rs (snd r) b"

lemma tiles_append: "tiles (xs @ ys) a c \<longleftrightarrow> (\<exists>b. tiles xs a b \<and> tiles ys b c)"
  by (induction xs a c rule: tiles.induct) auto

lemma spread_append: "spread (xs @ ys) a c \<longleftrightarrow> (\<exists>b. spread xs a b \<and> spread ys b c)"
  by (induction xs a c rule: spread.induct) auto

lemma tiles_le: "tiles rs a b \<Longrightarrow> a \<le> b"
  by (induction rs a b rule: tiles.induct) auto

lemma spread_le: "spread rs a b \<Longrightarrow> a \<le> b"
  by (induction rs a b rule: spread.induct) auto

lemma tiles_bounds: "tiles rs a b \<Longrightarrow> r \<in> set rs \<Longrightarrow> a \<le> fst r \<and> fst r \<le> snd r \<and> snd r \<le> b"
  using tiles_le by (induction rs a b rule: tiles.induct) fastforce+

lemma spread_bounds: "spread rs a b \<Longrightarrow> r \<in> set rs \<Longrightarrow> a \<le> fst r \<and> fst r \<le> snd r \<and> snd r \<le> b"
  using spread_le by (induction rs a b rule: spread.induct) fastforce+

definition tensor_size :: "payload_tensor \<Rightarrow> nat" where
  "tensor_size t = byte_size (pt_encoding t)"

lemma tensor_size_cases: "tensor_size t \<in> {1, 4, 8}"
  using byte_size_cases [of "pt_encoding t"] by (simp add: tensor_size_def)

lemma tensor_size_pos [simp]: "0 < tensor_size t"
  by (simp add: tensor_size_def)

text \<open>A length prefix has four bytes; a tensor has its elements on the wire and, aligned to their size, in
  the workspace.\<close>

fun region_fits :: "payload_tensor list \<Rightarrow> region \<times> nat \<Rightarrow> bool" where
  "region_fits tensors (Region_Length wire workspace, len) \<longleftrightarrow>
     snd wire = fst wire + 4 \<and> snd workspace = fst workspace + 4 \<and> 4 dvd fst workspace"
| "region_fits tensors (Region_Tensor r, len) \<longleftrightarrow>
     (let leaf = tensors ! tr_tensor r in
      tr_tensor r < length tensors \<and> tr_logical_len r = len \<and> tr_elements r = pt_elements leaf * len
      \<and> snd (tr_wire r) = fst (tr_wire r) + tr_elements r * tensor_size leaf
      \<and> snd (tr_workspace r) = fst (tr_workspace r) + tr_elements r * tensor_size leaf
      \<and> tensor_size leaf dvd fst (tr_workspace r))"

text \<open>The regions \<open>es\<close> lead from \<open>at\<close> to \<open>at'\<close>, and alignment costs at most \<open>pad\<close> bytes.\<close>

definition placed :: "payload_tensor list \<Rightarrow> (region \<times> nat) list \<Rightarrow> nat \<times> nat \<Rightarrow> nat \<times> nat \<Rightarrow> nat \<Rightarrow> bool" where
  "placed tensors es at at' pad \<longleftrightarrow> tiles (map (region_wire \<circ> fst) es) (fst at) (fst at')
     \<and> spread (map (region_workspace \<circ> fst) es) (snd at) (snd at') \<and> list_all (region_fits tensors) es
     \<and> (es \<noteq> [] \<longrightarrow> fst at' \<le> 2147483647 \<and> snd at' \<le> 2147483647)
     \<and> snd at' + fst at \<le> fst at' + snd at + pad"

lemma placed_Nil [simp]: "placed tensors [] at at 0"
  by (simp add: placed_def)

lemma placed_append: "placed tensors xs at at1 p \<Longrightarrow> placed tensors ys at1 at2 q \<Longrightarrow> placed tensors (xs @ ys) at at2 (p + q)"
  using tiles_le spread_le by (fastforce simp: placed_def tiles_append spread_append)

lemma tensor_region_placed:
  assumes "place_tensor (tensors ! index) index len (fst at) (snd at) = Inr r" and "index < length tensors"
  shows "placed tensors [(Region_Tensor r, len)] at (snd (tr_wire r), snd (tr_workspace r)) (tensor_size (tensors ! index) - 1)"
proof -
  have size: "byte_size (pt_encoding (tensors ! index)) = tensor_size (tensors ! index)" by (simp add: tensor_size_def)
  obtain prepared where prepared: "aligned (snd at) (tensor_size (tensors ! index)) = Inr prepared"
    and r: "r = \<lparr>tr_tensor = index, tr_logical_len = len, tr_elements = pt_elements (tensors ! index) * len,
        tr_wire = (fst at, fst at + pt_elements (tensors ! index) * len * tensor_size (tensors ! index)),
        tr_workspace = (prepared, prepared + pt_elements (tensors ! index) * len * tensor_size (tensors ! index))\<rparr>"
    and bounds: "fst at + pt_elements (tensors ! index) * len * tensor_size (tensors ! index) \<le> 2147483647"
      "prepared + pt_elements (tensors ! index) * len * tensor_size (tensors ! index) \<le> 2147483647"
    using assms(1) by (auto simp: place_tensor_def try_bind_Inr_iff size)
  note align = aligned_bounds [OF tensor_size_cases prepared]
  show ?thesis using align bounds assms(2) by (simp add: placed_def r Let_def)
qed

lemma layout_length_placed:
  assumes "layout_length len at = Inr (e, at')"
  shows "placed tensors [e] at at' 3" and "snd e = len"
proof -
  obtain prepared where prepared: "aligned (snd at) 4 = Inr prepared"
    and e: "e = (Region_Length (fst at, fst at + 4) (prepared, prepared + 4), len)" "at' = (fst at + 4, prepared + 4)"
    and bounds: "fst at + 4 \<le> 2147483647" "prepared + 4 \<le> 2147483647"
    using assms by (auto simp: layout_length_def try_bind_Inr_iff)
  note align = aligned_bounds [OF _ prepared, simplified]
  show "placed tensors [e] at at' 3" using align bounds by (simp add: placed_def e)
  show "snd e = len" by (simp add: e)
qed

definition padding :: "payload_tensor list \<Rightarrow> nat list \<Rightarrow> nat" where
  "padding tensors is = (\<Sum>index \<leftarrow> is. tensor_size (tensors ! index) - 1)"

lemma layout_tensors_placed:
  "layout_tensors tensors len is at = Inr (es, at') \<Longrightarrow> \<forall>index \<in> set is. index < length tensors \<Longrightarrow>
     placed tensors es at at' (padding tensors is)"
proof (induction tensors len "is" at arbitrary: es rule: layout_tensors.induct)
  case (2 tensors len index rest at)
  obtain r es' where r: "place_tensor (tensors ! index) index len (fst at) (snd at) = Inr r"
    and tail: "layout_tensors tensors len rest (snd (tr_wire r), snd (tr_workspace r)) = Inr (es', at')"
    and es: "es = (Region_Tensor r, len) # es'"
    using 2(2) by (cases at') (auto simp: try_bind_Inr_iff)
  have range: "index < length tensors" "\<forall>index \<in> set rest. index < length tensors" using 2(3) by auto
  show ?case
    using placed_append [OF tensor_region_placed [OF r range(1)] 2(1) [OF r tail range(2)]] by (simp add: es padding_def)
qed (simp add: padding_def)

lemma layout_params_placed:
  "layout_params tensors params lens at = Inr (es, at') \<Longrightarrow> tensors_in_range tensors params \<Longrightarrow>
     placed tensors es at at'
       (3 * length (filter pp_dynamic params) + padding tensors (concat (map (indices \<circ> pp_tensors) params)))"
proof (induction params arbitrary: lens at es)
  case (Cons param rest)
  have range: "\<forall>index \<in> set (indices (pp_tensors param)). index < length tensors" and rest: "tensors_in_range tensors rest"
    using Cons(3) by (auto simp: tensors_in_range_def indices_def)
  show ?case
  proof (cases "pp_dynamic param")
    case True
    then obtain len lens' e at1 es1 at2 es2 where e: "layout_length len at = Inr (e, at1)"
      and t: "layout_tensors tensors len (indices (pp_tensors param)) at1 = Inr (es1, at2)"
      and p: "layout_params tensors rest lens' at2 = Inr (es2, at')" and es: "es = [e] @ es1 @ es2"
      using Cons(2) layout_params_dynamic [OF True] by blast
    show ?thesis
      using placed_append [OF layout_length_placed(1) [OF e] placed_append [OF layout_tensors_placed [OF t range] Cons(1) [OF p rest]]] True
      by (simp add: es padding_def algebra_simps)
  next
    case False
    then obtain es1 at2 es2 where t: "layout_tensors tensors 1 (indices (pp_tensors param)) at = Inr (es1, at2)"
      and p: "layout_params tensors rest lens at2 = Inr (es2, at')" and es: "es = es1 @ es2"
      using Cons(2) layout_params_fixed [OF False] by blast
    show ?thesis
      using placed_append [OF layout_tensors_placed [OF t range] Cons(1) [OF p rest]] False
      by (simp add: es padding_def algebra_simps)
  qed
qed (simp add: padding_def split: if_splits)

subsection \<open>Prepared plans\<close>

definition domain_ok :: "scalar_encoding \<Rightarrow> integer_domain \<Rightarrow> bool" where
  "domain_ok encoding d \<longleftrightarrow> dom_min d \<le> dom_max d \<and>
     (case encoding of
        Enc_I32 \<Rightarrow> i32_min \<le> dom_min d \<and> dom_max d \<le> i32_max
      | Enc_I64 \<Rightarrow> i64_min \<le> dom_min d \<and> dom_max d \<le> i64_max
      | _ \<Rightarrow> False)"

definition tensor_ok :: "payload_tensor \<Rightarrow> bool" where
  "tensor_ok t \<longleftrightarrow> 0 < pt_elements t \<and> pt_elements t = prod_list (pt_shape t)
     \<and> (case pt_domain t of None \<Rightarrow> True | Some d \<Rightarrow> domain_ok (pt_encoding t) d)"

text \<open>The message parameters of a plan: the shared length of a slice of structs, then its tensors.\<close>

definition abi_parameters :: "payload_tensor list \<Rightarrow> parameter_plan list \<Rightarrow> nat list" where
  "abi_parameters tensors params =
     concat (map (\<lambda>p. (case pp_length_parameter p of Some i \<Rightarrow> [i] | None \<Rightarrow> [])
       @ map (\<lambda>index. pt_parameter (tensors ! index)) (indices (pp_tensors p))) params)"

definition plan_ok :: "payload_plan \<Rightarrow> bool" where
  "plan_ok plan \<longleftrightarrow>
     concat (map (indices \<circ> pp_tensors) (plan_params plan)) = [0..<length (plan_tensors plan)]
     \<and> tensors_in_range (plan_tensors plan) (plan_params plan)
     \<and> list_all tensor_ok (plan_tensors plan)
     \<and> abi_parameters (plan_tensors plan) (plan_params plan) = [0..<abi_parameter_count plan]"

lemma parse_int_bounds: "parse_int lo hi s = Some v \<Longrightarrow> lo \<le> v \<and> v \<le> hi"
  by (auto simp: parse_int_def Let_def split: prod.splits if_splits)

lemma prepare_domain_ok: "prepare_domain encoding meta = Inr d \<Longrightarrow> domain_ok encoding d"
  by (cases encoding) (auto simp: prepare_domain_def domain_ok_def split: option.splits if_splits)

lemma shape_elements_prod: "shape_elements shape n = Inr m \<Longrightarrow> m = n * prod_list shape"
  by (induction shape n rule: shape_elements.induct) (auto simp: try_bind_Inr_iff)

lemma plan_tensor_ok:
  assumes "plan_tensor field prefix leaf parameter = Inr t" and "0 \<notin> set (leaf_shape leaf)"
  shows "tensor_ok t" and "pt_parameter t = parameter" and "pt_encoding t = leaf_encoding leaf" and "pt_shape t = leaf_shape leaf"
  using assms shape_elements_prod [of "leaf_shape leaf" 1] prepare_domain_ok
  by (auto simp: plan_tensor_def try_bind_Inr_iff tensor_ok_def prod_list_zero_iff map_sum_def
      split: option.splits sum.splits intro: gr0I)

lemma plan_leaves_ok:
  "plan_leaves field prefix ls abi = Inr ts \<Longrightarrow> \<forall>leaf \<in> set ls. 0 \<notin> set (leaf_shape leaf) \<Longrightarrow>
     list_all tensor_ok ts \<and> map pt_parameter ts = [abi..<abi + length ls]
     \<and> map pt_encoding ts = map leaf_encoding ls \<and> map pt_shape ts = map leaf_shape ls"
proof (induction field prefix ls abi arbitrary: ts rule: plan_leaves.induct)
  case (2 field prefix leaf rest abi)
  then obtain t ts' where t: "plan_tensor field prefix leaf abi = Inr t"
    and ts': "plan_leaves field prefix rest (abi + 1) = Inr ts'" and ts: "ts = t # ts'"
    by (auto simp: try_bind_Inr_iff)
  have "abi # [abi + 1..<abi + 1 + length rest] = [abi..<abi + length (leaf # rest)]" by (simp add: upt_conv_Cons del: upt_Suc)
  then show ?case using plan_tensor_ok [OF t] 2(1) [OF t ts'] 2(3) by (simp add: ts del: upt_Suc add_Suc_right)
qed simp

lemma type_leaves_shape:
  "type_leaves ty path shape = Inr ls \<Longrightarrow> 0 \<notin> set shape \<Longrightarrow> \<forall>leaf \<in> set ls. 0 \<notin> set (leaf_shape leaf)"
  "fields_leaves fs path shape = Inr ls \<Longrightarrow> 0 \<notin> set shape \<Longrightarrow> \<forall>leaf \<in> set ls. 0 \<notin> set (leaf_shape leaf)"
  "elements_leaves tys index path shape = Inr ls \<Longrightarrow> 0 \<notin> set shape \<Longrightarrow> \<forall>leaf \<in> set ls. 0 \<notin> set (leaf_shape leaf)"
  by (induction ty path shape and fs path shape and tys index path shape arbitrary: ls and ls and ls
      rule: type_leaves_fields_leaves_elements_leaves.induct)
    (auto simp: try_bind_Inr_iff split: if_splits)

lemma plan_leaves_length: "plan_leaves field prefix ls abi = Inr ts \<Longrightarrow> length ts = length ls"
  by (induction field prefix ls abi arbitrary: ts rule: plan_leaves.induct) (auto simp: try_bind_Inr_iff)

text \<open>The parameters and tensors gathered so far.\<close>

definition gathered :: "nat \<Rightarrow> parameter_plan list \<Rightarrow> payload_tensor list \<Rightarrow> bool" where
  "gathered abi params tensors \<longleftrightarrow>
     concat (map (indices \<circ> pp_tensors) params) = [0..<length tensors] \<and> tensors_in_range tensors params
     \<and> list_all tensor_ok tensors \<and> abi_parameters tensors params = [0..<abi]
     \<and> abi = length tensors + length (filter (\<lambda>p. pp_length_parameter p \<noteq> None) params)"

lemma abi_parameters_extend:
  assumes "tensors_in_range tensors params"
  shows "abi_parameters (tensors @ new) params = abi_parameters tensors params"
  using assms by (fastforce simp: abi_parameters_def tensors_in_range_def indices_def nth_append intro!: arg_cong [of _ _ concat])

lemma gathered_step:
  assumes "gathered abi params tensors" and "leaves ty = Inr ls"
    and "plan_leaves name prefix ls (if has_length then abi + 1 else abi) = Inr new"
  shows "gathered ((if has_length then abi + 1 else abi) + length ls)
    (params @ [\<lparr>pp_dynamic = dynamic, pp_length_parameter = (if has_length then Some abi else None),
                pp_tensors = (length tensors, length tensors + length ls)\<rparr>]) (tensors @ new)"
proof -
  have shapes: "\<forall>leaf \<in> set ls. 0 \<notin> set (leaf_shape leaf)"
    using type_leaves_shape(1) [of ty "[]" "[]" ls] assms(2) by (simp add: leaves_type)
  note new = plan_leaves_ok [OF assms(3) shapes]
  have len: "length new = length ls" by (rule plan_leaves_length [OF assms(3)])
  have "map (\<lambda>index. pt_parameter ((tensors @ new) ! index)) [length tensors..<length tensors + length ls] = map pt_parameter new"
    by (rule nth_equalityI) (simp_all add: len nth_append)
  then have "abi_parameters (tensors @ new) (params @ [\<lparr>pp_dynamic = dynamic, pp_length_parameter = (if has_length then Some abi else None),
      pp_tensors = (length tensors, length tensors + length ls)\<rparr>])
    = [0..<abi] @ (if has_length then [abi] else []) @ map pt_parameter new"
    using abi_parameters_extend [of tensors params new] assms(1)
    by (simp add: abi_parameters_def gathered_def indices_def)
  also have "\<dots> = [0..<(if has_length then abi + 1 else abi) + length ls]"
    using new upt_add_eq_append [of 0 "if has_length then abi + 1 else abi" "length ls"] by (simp split: if_splits)
  finally have abi: "abi_parameters (tensors @ new) (params @ [\<lparr>pp_dynamic = dynamic, pp_length_parameter = (if has_length then Some abi else None),
      pp_tensors = (length tensors, length tensors + length ls)\<rparr>]) = [0..<(if has_length then abi + 1 else abi) + length ls]" .
  have "[0..<length tensors] @ [length tensors..<length tensors + length ls] = [0..<length tensors + length ls]"
    using upt_add_eq_append [of 0 "length tensors" "length ls"] by simp
  with assms(1) new len abi show ?thesis
    by (auto simp: gathered_def tensors_in_range_def indices_def)
qed

lemma plan_fields_gathered:
  "plan_fields fs abi params tensors = Inr (params', tensors') \<Longrightarrow> gathered abi params tensors \<Longrightarrow> \<exists>abi'. gathered abi' params' tensors'"
proof (induction fs arbitrary: abi params tensors)
  case (Cons field fs)
  obtain ty dynamic where outer: "outer_type (pf_ty field) = (ty, dynamic)" by (cases "outer_type (pf_ty field)")
  let ?h = "dynamic \<and> is_struct_type ty"
  obtain ls new where "\<not> (dynamic \<and> \<not> array_element ty)" and ls: "leaves ty = Inr ls" "ls \<noteq> []"
    and new: "plan_leaves (pf_name field) (dynamic \<and> \<not> ?h) ls (if ?h then abi + 1 else abi) = Inr new"
    and rest: "plan_fields fs ((if ?h then abi + 1 else abi) + length ls)
        (params @ [\<lparr>pp_dynamic = dynamic, pp_length_parameter = (if ?h then Some abi else None),
                    pp_tensors = (length tensors, length tensors + length ls)\<rparr>]) (tensors @ new) = Inr (params', tensors')"
    using Cons(2) outer by (auto simp: Let_def try_bind_Inr_iff split: if_splits)
  show ?case by (rule Cons(1) [OF rest gathered_step [OF Cons(3) ls(1) new]])
qed auto

lemma plan_new_ok: "payload_plan_new schema = Some (Inr plan) \<Longrightarrow> plan_ok plan \<and> plan_schema plan = schema"
proof -
  assume new: "payload_plan_new schema = Some (Inr plan)"
  then obtain params tensors where fields: "plan_fields (schema_params schema) 0 [] [] = Inr (params, tensors)"
    and plan: "plan = \<lparr>plan_schema = schema, plan_params = params, plan_tensors = tensors\<rparr>"
    by (auto simp: payload_plan_new_def Let_def try_bind_Inr_iff split: sum.splits)
  have "gathered 0 [] []" by (simp add: gathered_def tensors_in_range_def abi_parameters_def)
  then obtain abi where "gathered abi params tensors" using plan_fields_gathered [OF fields] by blast
  then show ?thesis by (simp add: plan gathered_def plan_ok_def abi_parameter_count_def)
qed

text \<open>A walk panics only where a callback does.\<close>

lemma run_bind_total: "m s \<noteq> None \<Longrightarrow> (\<And>x t. f x t \<noteq> None) \<Longrightarrow> run_bind m f s \<noteq> None"
  by (auto simp: run_bind_def split: option.splits sum.splits)

lemma run_basic_total [simp]: "run_return x s \<noteq> None" "run_lift r s \<noteq> None" "run_throw e s \<noteq> None"
  by (simp_all add: run_return_def run_lift_def run_throw_def)

lemma walk_tensors_total:
  assumes "\<And>r s. visit r s \<noteq> None" and "\<forall>index \<in> set is. index < length tensors"
  shows "walk_tensors tensors visit len is at s \<noteq> None"
  using assms(2)
proof (induction "is" arbitrary: at s)
  case (Cons index rest)
  then have "walk_tensors tensors visit len rest at s \<noteq> None" for at s by simp
  then show ?case using Cons(2) unfolding walk_tensors.simps
    by (simp add: nth_opt_def del: not_None_eq) (intro run_bind_total assms(1) run_basic_total)
qed (simp add: run_return_def)

lemma walk_length_total:
  assumes "\<And>r s. visit r s \<noteq> None" and "\<And>w p s. length_at w p s \<noteq> None"
  shows "walk_length length_at visit at s \<noteq> None"
  unfolding walk_length_def by (intro run_bind_total assms run_basic_total)

lemma walk_params_total:
  assumes "\<And>r s. visit r s \<noteq> None" and "\<And>w p s. length_at w p s \<noteq> None" and "tensors_in_range tensors params"
  shows "walk_params tensors length_at visit params at s \<noteq> None"
  using assms(3)
proof (induction params arbitrary: at s)
  case (Cons param rest)
  then have range: "\<forall>index \<in> set (indices (pp_tensors param)). index < length tensors" and rest: "tensors_in_range tensors rest"
    by (auto simp: tensors_in_range_def indices_def)
  have "(if pp_dynamic param then walk_length length_at visit at else run_return (1, at)) s \<noteq> None" for at s
    using walk_length_total [where visit = visit and length_at = length_at, OF assms(1,2)] by (simp del: not_None_eq)
  then show ?case unfolding walk_params.simps split_def
    by (intro run_bind_total walk_tensors_total [where visit = visit, OF assms(1) range] Cons.IH [OF rest]) simp
qed (simp add: run_return_def)

lemma next_length_total: "next_length w p s \<noteq> None"
  by (simp add: next_length_def run_throw_def run_return_def split: list.splits)

lemma read_from_total: "read_from input w p s \<noteq> None"
  by (simp add: read_from_def run_lift_def)

lemma no_visit_total: "no_visit r s \<noteq> None"
  by (simp add: no_visit_def run_return_def)

lemma plan_sizes_total: "plan_ok plan \<Longrightarrow> plan_sizes plan lens \<noteq> None"
  using walk_params_total [where visit = no_visit and length_at = next_length, OF no_visit_total next_length_total]
  by (auto simp: plan_sizes_def plan_ok_def walk_def)

lemma required_workspace_total: "plan_ok plan \<Longrightarrow> required_workspace plan input \<noteq> None"
  using walk_params_total [where visit = no_visit and length_at = "read_from input", OF no_visit_total read_from_total,
    of "plan_tensors plan" "plan_params plan" "(0, 0)" "()"]
  by (auto simp: required_workspace_def plan_ok_def walk_def)

lemma plan_new_total: "payload_plan_new schema \<noteq> None"
proof -
  have "gathered 0 [] []" by (simp add: gathered_def tensors_in_range_def abi_parameters_def)
  then have "plan_ok \<lparr>plan_schema = schema, plan_params = params, plan_tensors = tensors\<rparr>"
    if "plan_fields (schema_params schema) 0 [] [] = Inr (params, tensors)" for params tensors
    using plan_fields_gathered [OF that] by (auto simp: gathered_def plan_ok_def abi_parameter_count_def)
  then show ?thesis
    using plan_sizes_total by (auto simp: payload_plan_new_def Let_def try_bind_Inr_iff split: sum.splits)
qed

text \<open>The preflight of an input follows a layout that ends where the input does.\<close>

lemma required_workspace_layout:
  assumes "plan_ok plan" and "required_workspace plan input = Some (Inr n)"
  obtains lens es where "layout plan lens = Inr (es, length input, n)"
    and "run_events (read_from input) (no_visit :: region \<Rightarrow> (unit, unit) run) es () = Some ()"
proof -
  obtain r where "walk plan (read_from input) no_visit () = Some (Inr r, ())" and r: "r = (length input, n)"
    using assms(2) by (auto simp: required_workspace_def try_bind_Inr_iff split: if_splits)
  then show ?thesis
    using that walk_params_layout [of "plan_tensors plan" "plan_params plan"] assms(1)
    unfolding walk_def layout_def plan_ok_def by (metis (mono_tags, lifting))
qed

text \<open>The lengths of a layout are those that the input has at their places.\<close>

definition lengths_read :: "(nat \<Rightarrow> nat \<Rightarrow> payload_error + nat) \<Rightarrow> (region \<times> nat) list \<Rightarrow> bool" where
  "lengths_read read_at es \<longleftrightarrow>
     (\<forall>wire workspace len. (Region_Length wire workspace, len) \<in> set es \<longrightarrow> read_at (fst wire) (fst workspace) = Inr len)"

lemma lengths_read_simps [simp]:
  "lengths_read read_at []"
  "lengths_read read_at ((Region_Length wire workspace, len) # es) \<longleftrightarrow>
     read_at (fst wire) (fst workspace) = Inr len \<and> lengths_read read_at es"
  "lengths_read read_at ((Region_Tensor x, len) # es) \<longleftrightarrow> lengths_read read_at es"
  unfolding lengths_read_def by (simp, fastforce, fastforce)

lemma run_events_read:
  assumes "\<And>w p s. length_at w p s = Some (read_at w p, s)"
  shows "run_events length_at visit es s = Some t \<longleftrightarrow>
    lengths_read read_at es \<and> run_fold (\<lambda>e _. visit (fst e)) es () s = Some (Inr (), t)"
proof (induction es arbitrary: s)
  case (Cons e es)
  obtain r len where e: "e = (r, len)" by (cases e)
  show ?case
  proof (cases r)
    case (Region_Length wire workspace)
    show ?thesis
    proof (cases "read_at (fst wire) (fst workspace)")
      case (Inr n)
      then show ?thesis
        using Cons by (auto simp: e Region_Length assms run_bind_def run_panic_def split: option.splits sum.splits)
    qed (auto simp: e Region_Length assms run_bind_def)
  next
    case (Region_Tensor x)
    then show ?thesis
      using Cons by (auto simp: e run_bind_def split: option.splits sum.splits)
  qed
qed (simp add: run_return_def)

lemma read_from_events:
  "run_events (read_from input) visit es s = Some t \<longleftrightarrow>
     lengths_read (\<lambda>w _. read_length input w) es \<and> run_fold (\<lambda>e _. visit (fst e)) es () s = Some (Inr (), t)"
  by (rule run_events_read) (simp add: read_from_def run_lift_def)

definition collect_region :: "region \<Rightarrow> (region list, unit) run" where
  "collect_region r rs = run_return () (rs @ [r])"

lemma collect_events: "run_fold (\<lambda>e _. collect_region (fst e)) es () rs = Some (Inr (), rs @ map fst es)"
  by (induction es arbitrary: rs) (simp_all add: run_bind_def collect_region_def run_return_def)

lemma no_visit_events: "run_fold (\<lambda>e _. no_visit (fst e)) es () s = Some (Inr (), s)"
  by (induction es) (simp_all add: no_visit_def run_return_def run_bind_def)

lemma preflight_layout:
  assumes "plan_ok plan" and "required_workspace plan input = Some (Inr n)"
  obtains lens es where "layout plan lens = Inr (es, length input, n)" and "lengths_read (\<lambda>w _. read_length input w) es"
proof (rule required_workspace_layout [OF assms])
  fix lens es
  assume "layout plan lens = Inr (es, length input, n)"
    and "run_events (read_from input) (no_visit :: region \<Rightarrow> (unit, unit) run) es () = Some ()"
  then show ?thesis
    using that by (simp add: read_from_events)
qed

text \<open>C20: the layout of a payload is sound: when the preflight accepts an input, the walk visits regions
  that tile the input on the wire without gap or overlap, lie in order inside the workspace it asks for, and
  have the bytes of their elements, aligned to the element in the workspace; no size exceeds \<open>i32::MAX\<close>.\<close>

theorem payload_layout_sound:
  assumes "payload_plan_new schema = Some (Inr plan)" and "required_workspace plan input = Some (Inr n)"
  shows "\<exists>rs. walk plan (read_from input) collect_region [] = Some (Inr (length input, n), rs)
    \<and> tiles (map region_wire rs) 0 (length input) \<and> spread (map region_workspace rs) 0 n
    \<and> (\<forall>r \<in> set rs. \<exists>len. region_fits (plan_tensors plan) (r, len))
    \<and> length input \<le> 2147483647 \<and> n \<le> 2147483647"
proof -
  have ok: "plan_ok plan" using plan_new_ok [OF assms(1)] ..
  obtain lens es where layout: "layout plan lens = Inr (es, length input, n)"
    and read: "lengths_read (\<lambda>w _. read_length input w) es"
    using preflight_layout [OF ok assms(2)] .
  have "placed (plan_tensors plan) es (0, 0) (length input, n)
      (3 * dynamic_parameters plan + padding (plan_tensors plan) [0..<length (plan_tensors plan)])"
    using layout_params_placed [of "plan_tensors plan" "plan_params plan" lens "(0, 0)" es "(length input, n)"] layout ok
    by (simp add: layout_def plan_ok_def dynamic_parameters_def)
  then have geometry: "tiles (map (region_wire \<circ> fst) es) 0 (length input)" "spread (map (region_workspace \<circ> fst) es) 0 n"
      "list_all (region_fits (plan_tensors plan)) es" "es \<noteq> [] \<longrightarrow> length input \<le> 2147483647 \<and> n \<le> 2147483647"
    by (simp_all add: placed_def)
  have "run_events (read_from input) collect_region es [] = Some (map fst es)"
    by (simp add: read_from_events read collect_events)
  then have "walk plan (read_from input) collect_region [] = Some (Inr (length input, n), map fst es)"
    unfolding walk_def using layout ok by (subst walk_params_layout) (auto simp: plan_ok_def layout_def)
  moreover have "\<forall>r \<in> set (map fst es). \<exists>len. region_fits (plan_tensors plan) (r, len)"
    using geometry(3) by (auto simp: list_all_iff)
  moreover have "length input \<le> 2147483647 \<and> n \<le> 2147483647"
    using geometry by (cases "es = []") auto
  ultimately show ?thesis using geometry(1,2) by auto
qed

text \<open>C22: a workspace of the capacity that the plan computes for a wire capacity holds every payload up to
  that capacity.\<close>

theorem workspace_capacity_sufficient:
  assumes "payload_plan_new schema = Some (Inr plan)" and "required_workspace plan input = Some (Inr n)"
    and "length input \<le> wire" and "workspace_capacity_for_wire_capacity plan wire = Inr capacity"
  shows "n \<le> capacity"
proof -
  have ok: "plan_ok plan" using plan_new_ok [OF assms(1)] ..
  obtain lens es where layout: "layout plan lens = Inr (es, length input, n)"
    using preflight_layout [OF ok assms(2)] .
  have "placed (plan_tensors plan) es (0, 0) (length input, n)
      (3 * dynamic_parameters plan + padding (plan_tensors plan) [0..<length (plan_tensors plan)])"
    using layout_params_placed [of "plan_tensors plan" "plan_params plan" lens "(0, 0)" es "(length input, n)"] layout ok
    by (simp add: layout_def plan_ok_def dynamic_parameters_def)
  then have "n \<le> length input + (3 * dynamic_parameters plan + padding (plan_tensors plan) [0..<length (plan_tensors plan)])"
    by (simp add: placed_def)
  moreover have "capacity = wire + 3 * dynamic_parameters plan + padding (plan_tensors plan) [0..<length (plan_tensors plan)]"
  proof -
    have "add_padding ts c = Inr m \<Longrightarrow> m = c + (\<Sum>t \<leftarrow> ts. tensor_size t - 1)" for ts c m
      by (induction ts arbitrary: c) (fastforce simp: try_bind_Inr_iff tensor_size_def)+
    moreover have "map (\<lambda>index. tensor_size (ts ! index) - 1) [0..<length ts] = map (\<lambda>t. tensor_size t - 1) ts" for ts
      by (rule nth_equalityI) simp_all
    then have "padding ts [0..<length ts] = (\<Sum>t \<leftarrow> ts. tensor_size t - 1)" for ts
      by (simp only: padding_def)
    ultimately show ?thesis
      using assms(4) by (fastforce simp: workspace_capacity_for_wire_capacity_def try_bind_Inr_iff)
  qed
  ultimately show ?thesis using assms(3) by simp
qed

subsection \<open>A concrete schema\<close>

text \<open>A flag, and a slice of structs with an integer in a range.\<close>

definition demo_schema :: payload_schema where
  "demo_schema =
     \<lparr>schema_params =
        [PayloadField ''on'' (payload_scalar Enc_Bool) (Some (PD_Scalar ''true'')),
         PayloadField ''notes''
           (PT_Slice (PT_Struct ''Note''
              [PayloadField ''gain'' (payload_scalar Enc_F64) None,
               PayloadField ''bins'' (PT_Array (PT_Scalar Enc_I32
                  (Some \<lparr>meta_min = \<lparr>endpoint_scalar = ''i32'', endpoint_value = ''-3''\<rparr>,
                         meta_max = \<lparr>endpoint_scalar = ''i32'', endpoint_value = ''4''\<rparr>, meta_mode = ''wrap''\<rparr>)) 2) None]))
           None]\<rparr>"

definition demo_plan :: payload_plan where
  "demo_plan =
     \<lparr>plan_schema = demo_schema,
      plan_params =
        [\<lparr>pp_dynamic = False, pp_length_parameter = None, pp_tensors = (0, 1)\<rparr>,
         \<lparr>pp_dynamic = True, pp_length_parameter = Some 1, pp_tensors = (1, 3)\<rparr>],
      plan_tensors =
        [\<lparr>pt_path = ''on'', pt_parameter = 0, pt_length_prefix = False, pt_encoding = Enc_Bool, pt_shape = [],
           pt_elements = 1, pt_domain = None\<rparr>,
         \<lparr>pt_path = ''notes.gain'', pt_parameter = 2, pt_length_prefix = False, pt_encoding = Enc_F64, pt_shape = [],
           pt_elements = 1, pt_domain = None\<rparr>,
         \<lparr>pt_path = ''notes.bins'', pt_parameter = 3, pt_length_prefix = False, pt_encoding = Enc_I32, pt_shape = [2],
           pt_elements = 2, pt_domain = Some \<lparr>dom_min = -3, dom_max = 4, dom_wrap = True\<rparr>\<rparr>]\<rparr>"

text \<open>One note with a gain of 1.5 and the bins 4 and 5; the 5 is outside the range.\<close>

definition demo_input :: bytes where
  "demo_input = [7, 1, 0, 0, 0, 0, 0, 0, 0, 0, 0, 0xF8, 0x3F, 4, 0, 0, 0, 5, 0, 0, 0]"

lemma demo_plan_new: "payload_plan_new demo_schema = Some (Inr demo_plan)"
  by code_simp

lemma demo_workspace: "required_workspace demo_plan demo_input = Some (Inr 24)"
  by code_simp

lemma payload_layout_sound_witness:
  "\<exists>rs. walk demo_plan (read_from demo_input) collect_region [] = Some (Inr (21, 24), rs)
     \<and> tiles (map region_wire rs) 0 21 \<and> spread (map region_workspace rs) 0 24"
proof -
  have "length demo_input = 21" by (simp add: demo_input_def)
  then show ?thesis using payload_layout_sound [OF demo_plan_new demo_workspace] by auto
qed

lemma workspace_capacity_sufficient_witness:
  "workspace_capacity_for_wire_capacity demo_plan 32 = Inr 45 \<and> (24 :: nat) \<le> 45"
proof -
  have "workspace_capacity_for_wire_capacity demo_plan 32 = Inr 45" by code_simp
  with workspace_capacity_sufficient [OF demo_plan_new demo_workspace _ this] show ?thesis by (simp add: demo_input_def)
qed

end
