(* ===== verification/Payload_Transfer.thy ===== *)
theory Payload_Transfer
  imports Payload_Layout
begin

section \<open>Payload transfer\<close>

text \<open>
  Moving a payload between the wire and a workspace (\<open>onda_processor_abi/src/payload/transfer.rs\<close>). The wire is little-endian and
  packed; the workspace is native, aligned and normalized. \<open>big\<close> says that the target is big-endian.
\<close>

subsection \<open>Ranges of bytes\<close>

definition slice_of :: "nat \<times> nat \<Rightarrow> bytes \<Rightarrow> bytes" where
  "slice_of r bs = take (snd r - fst r) (drop (fst r) bs)"

text \<open>\<open>&bs[r]\<close>, which panics out of range.\<close>

definition get_range :: "nat \<times> nat \<Rightarrow> bytes \<Rightarrow> bytes option" where
  "get_range r bs = (if fst r \<le> snd r \<and> snd r \<le> length bs then Some (slice_of r bs) else None)"

definition overwrite :: "nat \<Rightarrow> bytes \<Rightarrow> bytes \<Rightarrow> bytes" where
  "overwrite offset data bs = take offset bs @ data @ drop (offset + length data) bs"

text \<open>\<open>bs[r].copy_from_slice(data)\<close>\<close>

definition copy_into :: "nat \<times> nat \<Rightarrow> bytes \<Rightarrow> (bytes, unit) run" where
  "copy_into r data bs =
     (if fst r \<le> snd r \<and> snd r \<le> length bs \<and> length data = snd r - fst r
      then Some (Inr (), overwrite (fst r) data bs) else None)"

definition chunks_exact :: "nat \<Rightarrow> bytes \<Rightarrow> bytes list" where
  "chunks_exact n bs = map (\<lambda>k. slice_of (k * n, k * n + n) bs) [0..<length bs div n]"

text \<open>Chunk by chunk, what \<open>f\<close> makes of the source replaces the target.\<close>

definition zip_chunks :: "(bytes \<Rightarrow> bytes) \<Rightarrow> nat \<Rightarrow> bytes \<Rightarrow> bytes \<Rightarrow> bytes" where
  "zip_chunks f n source target =
     (let pairs = zip (chunks_exact n source) (chunks_exact n target)
      in concat (map (\<lambda>(s, t). f s) pairs) @ drop (n * length pairs) target)"

subsection \<open>Normalization\<close>

definition native :: "bool \<Rightarrow> bytes \<Rightarrow> bytes" where
  "native big bs = (if big then rev bs else bs)"

definition normalize_integer :: "int \<Rightarrow> integer_domain option \<Rightarrow> int" where
  "normalize_integer v domain =
     (case domain of
        None \<Rightarrow> v
      | Some d \<Rightarrow>
          if dom_wrap d
          then sint (word_of_int (dom_min d + (v - dom_min d) mod (dom_max d - dom_min d + 1)) :: i64)
          else if v < dom_min d then dom_min d else if dom_max d < v then dom_max d else v)"

fun normalize_scalar :: "bool \<Rightarrow> scalar_encoding \<Rightarrow> integer_domain option \<Rightarrow> bytes \<Rightarrow> bytes" where
  "normalize_scalar big Enc_I32 domain source = native big (le_i32 (normalize_integer (i32_from_le source) domain))"
| "normalize_scalar big Enc_I64 domain source = native big (le_i64 (normalize_integer (i64_from_le source) domain))"
| "normalize_scalar big Enc_Bool domain source = [if hd source \<noteq> 0 then 1 else 0]"
| "normalize_scalar big _ domain source = native big source"

subsection \<open>Preparing and encoding\<close>

definition prepare_region :: "bool \<Rightarrow> payload_plan \<Rightarrow> bytes \<Rightarrow> region \<Rightarrow> (bytes, unit) run" where
  "prepare_region big plan input r =
     (case r of
        Region_Length wire workspace \<Rightarrow>
          (case get_range wire input of
             Some bs \<Rightarrow> if length bs = 4 then copy_into workspace (native big (le_i32 (i32_from_le bs))) else run_panic
           | None \<Rightarrow> run_panic)
      | Region_Tensor t \<Rightarrow>
          (\<lambda>storage.
            case (nth_opt (plan_tensors plan) (tr_tensor t), get_range (tr_wire t) input, get_range (tr_workspace t) storage) of
              (Some leaf, Some source, Some target) \<Rightarrow>
                copy_into (tr_workspace t)
                  (zip_chunks (normalize_scalar big (pt_encoding leaf) (pt_domain leaf)) (byte_size (pt_encoding leaf)) source target)
                  storage
            | _ \<Rightarrow> None))"

record prepared_payload =
  prep_storage :: bytes
  prep_wire_size :: nat

text \<open>\<open>addr\<close> is the address of the workspace. The result comes with the workspace afterwards.\<close>

definition prepare ::
  "bool \<Rightarrow> payload_plan \<Rightarrow> bytes \<Rightarrow> bytes \<Rightarrow> nat \<Rightarrow> ((payload_error + prepared_payload) \<times> bytes) option" where
  "prepare big plan input workspace addr =
     Option.bind (required_workspace plan input) (\<lambda>r.
       case r of
         Inl e \<Rightarrow> Some (Inl e, workspace)
       | Inr required \<Rightarrow>
           if length workspace < required then Some (Inl InsufficientCapacity, workspace)
           else if required \<noteq> 0 \<and> addr mod 8 \<noteq> 0 then Some (Inl MisalignedWorkspace, workspace)
           else
             (case walk plan (read_from input) (prepare_region big plan input) (take required workspace) of
                Some (Inr _, storage) \<Rightarrow>
                  Some (Inr \<lparr>prep_storage = storage, prep_wire_size = length input\<rparr>, storage @ drop required workspace)
              | _ \<Rightarrow> None))"

definition read_prepared_length :: "bool \<Rightarrow> bytes \<Rightarrow> nat \<Rightarrow> payload_error + nat" where
  "read_prepared_length big bs offset =
     (if 2 ^ 64 \<le> offset + 4 then Inl Overflow
      else case get_range (offset, offset + 4) bs of
        None \<Rightarrow> Inl Truncated
      | Some prefix \<Rightarrow> (let len = i32_from_le (native big prefix) in if len < 0 then Inl NegativeLength else Inr (nat len)))"

definition read_prepared :: "bool \<Rightarrow> bytes \<Rightarrow> nat \<Rightarrow> nat \<Rightarrow> ('s, nat) run" where
  "read_prepared big storage wire workspace = run_lift (read_prepared_length big storage workspace)"

definition visit_tensors ::
  "bool \<Rightarrow> payload_plan \<Rightarrow> prepared_payload \<Rightarrow> (payload_tensor \<Rightarrow> tensor_region \<Rightarrow> bytes \<Rightarrow> 's \<Rightarrow> 's) \<Rightarrow> 's \<Rightarrow> 's option" where
  "visit_tensors big plan p visit s =
     (case walk plan (read_prepared big (prep_storage p))
             (\<lambda>r. case r of
                Region_Length _ _ \<Rightarrow> run_return ()
              | Region_Tensor t \<Rightarrow>
                  (case (get_range (tr_workspace t) (prep_storage p), nth_opt (plan_tensors plan) (tr_tensor t)) of
                     (Some bs, Some leaf) \<Rightarrow> (\<lambda>s. run_return () (visit leaf t bs s))
                   | _ \<Rightarrow> run_panic)) s of
        Some (Inr _, s) \<Rightarrow> Some s
      | _ \<Rightarrow> None)"

definition encode_region :: "bool \<Rightarrow> payload_plan \<Rightarrow> bytes \<Rightarrow> region \<Rightarrow> (bytes, unit) run" where
  "encode_region big plan storage r =
     (case r of
        Region_Length wire workspace \<Rightarrow>
          (case get_range workspace storage of
             Some bs \<Rightarrow> if length bs = 4 then copy_into wire (le_i32 (i32_from_le (native big bs))) else run_panic
           | None \<Rightarrow> run_panic)
      | Region_Tensor t \<Rightarrow>
          (\<lambda>output.
            case (nth_opt (plan_tensors plan) (tr_tensor t), get_range (tr_workspace t) storage, get_range (tr_wire t) output) of
              (Some leaf, Some source, Some target) \<Rightarrow>
                copy_into (tr_wire t) (zip_chunks (native big) (byte_size (pt_encoding leaf)) source target) output
            | _ \<Rightarrow> None))"

definition encode_prepared ::
  "bool \<Rightarrow> payload_plan \<Rightarrow> prepared_payload \<Rightarrow> bytes \<Rightarrow> ((payload_error + nat) \<times> bytes) option" where
  "encode_prepared big plan p output =
     (if length output < prep_wire_size p then Some (Inl InsufficientCapacity, output)
      else case walk plan (read_prepared big (prep_storage p)) (encode_region big plan (prep_storage p)) output of
             Some (Inr _, output) \<Rightarrow> Some (Inr (prep_wire_size p), output)
           | _ \<Rightarrow> None)"

subsection \<open>Native views\<close>

text \<open>A view is an address and a count of scalars; \<open>mem\<close> is the memory and \<open>align\<close> the alignment of a scalar on the
  target.\<close>

record tensor_view =
  view_data :: nat
  view_count :: int

definition view_element_ok :: "bool \<Rightarrow> (nat \<Rightarrow> 8 word) \<Rightarrow> payload_tensor \<Rightarrow> nat \<Rightarrow> bool" where
  "view_element_ok big mem tensor addr \<longleftrightarrow>
     (let bs = map mem [addr..<addr + byte_size (pt_encoding tensor)];
          inside = (\<lambda>v. case pt_domain tensor of None \<Rightarrow> True | Some d \<Rightarrow> dom_min d \<le> v \<and> v \<le> dom_max d)
      in case pt_encoding tensor of
           Enc_Bool \<Rightarrow> mem addr \<le> 1
         | Enc_I32 \<Rightarrow> inside (i32_from_le (native big bs))
         | Enc_I64 \<Rightarrow> inside (i64_from_le (native big bs))
         | _ \<Rightarrow> True)"

definition validate_view ::
  "bool \<Rightarrow> (scalar_encoding \<Rightarrow> nat) \<Rightarrow> (nat \<Rightarrow> 8 word) \<Rightarrow> bool \<Rightarrow> payload_tensor \<Rightarrow> tensor_view \<Rightarrow> nat option \<Rightarrow> payload_error + nat option" where
  "validate_view big align mem dynamic tensor view logical_len =
     (let size = byte_size (pt_encoding tensor); count = nat (view_count view) in
      if view_count view < 0 then Inl NegativeLength
      else if count \<noteq> 0 \<and> view_data view = 0 then Inl InvalidValue
      else if count \<noteq> 0 \<and> view_data view mod align (pt_encoding tensor) \<noteq> 0 then Inl InvalidValue
      else if 2 ^ 64 \<le> count * size then Inl Overflow
      else if 2147483647 < count * size \<or> 2 ^ 64 \<le> view_data view + count * size then Inl Overflow
      else if (if dynamic
               then count mod pt_elements tensor \<noteq> 0
                 \<or> (case logical_len of None \<Rightarrow> False | Some len \<Rightarrow> len \<noteq> count div pt_elements tensor)
               else count \<noteq> pt_elements tensor)
      then Inl InvalidLengths
      else if (pt_encoding tensor = Enc_Bool \<or> pt_domain tensor \<noteq> None)
        \<and> \<not> list_all (\<lambda>k. view_element_ok big mem tensor (view_data view + k * size)) [0..<count]
      then Inl InvalidValue
      else Inr (if dynamic then Some (count div pt_elements tensor) else logical_len))"

fun validate_views ::
  "bool \<Rightarrow> (scalar_encoding \<Rightarrow> nat) \<Rightarrow> (nat \<Rightarrow> 8 word) \<Rightarrow> bool \<Rightarrow> payload_tensor list \<Rightarrow> tensor_view list \<Rightarrow> nat list \<Rightarrow> nat option
     \<Rightarrow> (payload_error + unit) option" where
  "validate_views big align mem dynamic tensors views [] logical_len = Some (Inr ())"
| "validate_views big align mem dynamic tensors views (index # rest) logical_len =
     (case (nth_opt tensors index, nth_opt views index) of
        (Some tensor, Some view) \<Rightarrow>
          (case validate_view big align mem dynamic tensor view logical_len of
             Inl e \<Rightarrow> Some (Inl e)
           | Inr len \<Rightarrow> validate_views big align mem dynamic tensors views rest len)
      | _ \<Rightarrow> None)"

fun validate_parameter_views ::
  "bool \<Rightarrow> (scalar_encoding \<Rightarrow> nat) \<Rightarrow> (nat \<Rightarrow> 8 word) \<Rightarrow> payload_tensor list \<Rightarrow> tensor_view list \<Rightarrow> parameter_plan list
     \<Rightarrow> (payload_error + unit) option" where
  "validate_parameter_views big align mem tensors views [] = Some (Inr ())"
| "validate_parameter_views big align mem tensors views (param # rest) =
     (case validate_views big align mem (pp_dynamic param) tensors views (indices (pp_tensors param)) None of
        Some (Inr _) \<Rightarrow> validate_parameter_views big align mem tensors views rest
      | r \<Rightarrow> r)"

definition validate_tensor_views ::
  "bool \<Rightarrow> (scalar_encoding \<Rightarrow> nat) \<Rightarrow> (nat \<Rightarrow> 8 word) \<Rightarrow> payload_plan \<Rightarrow> tensor_view list \<Rightarrow> (payload_error + unit) option" where
  "validate_tensor_views big align mem plan views =
     (if length views \<noteq> length (plan_tensors plan) then Some (Inl InvalidLengths)
      else validate_parameter_views big align mem (plan_tensors plan) views (plan_params plan))"

subsection \<open>Writes in order\<close>

fun apply_writes :: "((nat \<times> nat) \<times> bytes) list \<Rightarrow> bytes \<Rightarrow> bytes" where
  "apply_writes [] bs = bs"
| "apply_writes ((r, d) # ws) bs = apply_writes ws (overwrite (fst r) d bs)"

definition writes_fit :: "((nat \<times> nat) \<times> bytes) list \<Rightarrow> bool" where
  "writes_fit ws \<longleftrightarrow> list_all (\<lambda>(r, d). snd r = fst r + length d) ws"

lemma length_overwrite: "offset + length d \<le> length bs \<Longrightarrow> length (overwrite offset d bs) = length bs"
  by (simp add: overwrite_def)

lemma take_overwrite: "n \<le> offset \<Longrightarrow> offset \<le> length bs \<Longrightarrow> take n (overwrite offset d bs) = take n bs"
  by (simp add: overwrite_def min_absorb1)

lemma drop_overwrite: "offset + length d \<le> n \<Longrightarrow> n \<le> length bs \<Longrightarrow> drop n (overwrite offset d bs) = drop n bs"
  by (simp add: overwrite_def drop_drop min_absorb2)

lemma slice_take: "snd r \<le> n \<Longrightarrow> slice_of r (take n bs) = slice_of r bs"
  by (simp add: slice_of_def drop_take min_absorb1)

lemma apply_writes_spread:
  "spread (map fst ws) a b \<Longrightarrow> writes_fit ws \<Longrightarrow> b \<le> length bs \<Longrightarrow>
     length (apply_writes ws bs) = length bs \<and> take a (apply_writes ws bs) = take a bs
     \<and> (\<forall>(r, d) \<in> set ws. slice_of r (apply_writes ws bs) = d)"
proof (induction ws arbitrary: a bs)
  case (Cons w ws)
  obtain r d where w: "w = (r, d)" by (cases w)
  let ?bs = "overwrite (fst r) d bs"
  have r: "a \<le> fst r" "snd r = fst r + length d" and later: "spread (map fst ws) (snd r) b" and fit: "writes_fit ws"
    using Cons(2,3) by (auto simp: w writes_fit_def)
  have b: "snd r \<le> b" using spread_le [OF later] .
  have len: "length ?bs = length bs" using r b Cons(4) by (intro length_overwrite) simp
  note IH = Cons(1) [OF later fit, of ?bs]
  have take: "take (snd r) (apply_writes ws ?bs) = take (snd r) ?bs" using IH Cons(4) len by simp
  have "slice_of r (apply_writes ws ?bs) = slice_of r (take (snd r) (apply_writes ws ?bs))"
    by (simp add: slice_take)
  also have "\<dots> = slice_of r ?bs" by (simp add: take slice_take)
  also have "\<dots> = d" using r b Cons(4) by (simp add: slice_of_def overwrite_def min_absorb2)
  finally have "slice_of r (apply_writes ws ?bs) = d" .
  moreover have "take a (apply_writes ws ?bs) = take a bs"
  proof -
    have "take a xs = take a (take (snd r) xs)" for xs :: bytes using r by (simp add: min_absorb1)
    then have "take a (apply_writes ws ?bs) = take a ?bs" using take by metis
    then show ?thesis using r b Cons(4) by (simp add: take_overwrite)
  qed
  ultimately show ?case using IH Cons(4) len by (simp add: w)
qed simp

lemma apply_writes_tiles:
  "tiles (map fst ws) a b \<Longrightarrow> writes_fit ws \<Longrightarrow> b \<le> length bs \<Longrightarrow>
     apply_writes ws bs = take a bs @ concat (map snd ws) @ drop b bs"
proof (induction ws arbitrary: a bs)
  case (Cons w ws)
  obtain r d where w: "w = (r, d)" by (cases w)
  let ?bs = "overwrite (fst r) d bs"
  have r: "fst r = a" "snd r = a + length d" and later: "tiles (map fst ws) (snd r) b" and fit: "writes_fit ws"
    using Cons(2,3) by (auto simp: w writes_fit_def)
  have b: "snd r \<le> b" using tiles_le [OF later] .
  have len: "length ?bs = length bs" using r b Cons(4) by (intro length_overwrite) simp
  have "apply_writes ws ?bs = take (snd r) ?bs @ concat (map snd ws) @ drop b ?bs"
    using Cons(1) [OF later fit, of ?bs] len Cons(4) by simp
  moreover have "take (snd r) ?bs = take a bs @ d" using r b Cons(4) by (simp add: overwrite_def min_absorb2)
  moreover have "drop b ?bs = drop b bs" using r b Cons(4) by (intro drop_overwrite) auto
  ultimately show ?case by (simp add: w)
qed simp

subsection \<open>Chunks\<close>

lemma length_slice_of: "snd r \<le> length bs \<Longrightarrow> length (slice_of r bs) = snd r - fst r"
  by (simp add: slice_of_def)

lemma length_chunk: "c \<in> set (chunks_exact n bs) \<Longrightarrow> length c = n"
proof -
  assume "c \<in> set (chunks_exact n bs)"
  then obtain k where k: "k < length bs div n" and c: "c = slice_of (k * n, k * n + n) bs"
    by (auto simp: chunks_exact_def)
  have "Suc k * n \<le> length bs div n * n" using k by (intro mult_right_mono) simp_all
  also have "\<dots> \<le> length bs" by simp
  finally show ?thesis by (simp add: c length_slice_of add.commute)
qed

lemma chunks_Cons:
  assumes "0 < n" and "n \<le> length bs"
  shows "chunks_exact n bs = take n bs # chunks_exact n (drop n bs)"
proof -
  have "length bs div n = Suc ((length bs - n) div n)" using assms by (simp add: div_if)
  then have "[0..<length bs div n] = 0 # map Suc [0..<(length bs - n) div n]" by (simp add: upt_conv_Cons map_Suc_upt del: upt_Suc)
  then show ?thesis by (simp add: chunks_exact_def slice_of_def drop_drop comp_def add.commute)
qed

lemma chunks_none: "length bs < n \<Longrightarrow> chunks_exact n bs = []"
  by (simp add: chunks_exact_def)

lemma chunks_induct [consumes 2, case_names Nil Cons]:
  assumes "0 < n" and "n dvd length bs"
    and "P []" and "\<And>bs. n \<le> length bs \<Longrightarrow> n dvd length (drop n bs) \<Longrightarrow> P (drop n bs) \<Longrightarrow> P bs"
  shows "P bs"
  using assms(2)
proof (induction "length bs" arbitrary: bs rule: less_induct)
  case less
  show ?case
  proof (cases "bs = []")
    case False
    then have "n \<le> length bs" using less(2) by (simp add: dvd_imp_le)
    moreover have "n dvd length (drop n bs)" using less(2) by (simp add: dvd_diff_nat)
    moreover have "P (drop n bs)" using less(1) [of "drop n bs"] calculation assms(1) by auto
    ultimately show ?thesis by (rule assms(4))
  qed (simp add: assms(3))
qed

lemma concat_chunks:
  assumes "0 < n" and "n dvd length bs"
  shows "concat (chunks_exact n bs) = bs"
  using assms
proof (induction bs rule: chunks_induct)
  case (Cons bs)
  with assms(1) show ?case by (simp add: chunks_Cons)
qed (simp add: chunks_exact_def)

definition map_chunks :: "(bytes \<Rightarrow> bytes) \<Rightarrow> nat \<Rightarrow> bytes \<Rightarrow> bytes" where
  "map_chunks f n bs = concat (map f (chunks_exact n bs))"

lemma length_chunks: "length (chunks_exact n bs) = length bs div n"
  by (simp add: chunks_exact_def)

lemma length_concat_const: "(\<And>x. x \<in> set xs \<Longrightarrow> length (f x) = n) \<Longrightarrow> length (concat (map f xs)) = length xs * n"
  by (induction xs) auto

lemma length_map_chunks:
  assumes "\<And>c. length c = n \<Longrightarrow> length (f c) = n" and "n dvd length bs"
  shows "length (map_chunks f n bs) = length bs"
  using assms length_concat_const [of "chunks_exact n bs" f n] by (simp add: map_chunks_def length_chunks length_chunk)

lemma zip_chunks_eq:
  assumes "0 < n" and "n dvd length source" and "length target = length source"
  shows "zip_chunks f n source target = map_chunks f n source"
proof -
  have "map (\<lambda>(s, t). f s) (zip xs ys) = map f xs" if "length xs = length ys" for xs ys :: "bytes list"
    using that by (induction xs ys rule: list_induct2) simp_all
  moreover have "n * (length source div n) = length target" using assms by simp
  ultimately show ?thesis
    by (simp add: zip_chunks_def map_chunks_def Let_def length_chunks assms)
qed

lemma chunks_append: "0 < n \<Longrightarrow> length c = n \<Longrightarrow> chunks_exact n (c @ bs) = c # chunks_exact n bs"
  by (subst chunks_Cons) simp_all

lemma chunks_concat: "0 < n \<Longrightarrow> (\<And>x. x \<in> set xs \<Longrightarrow> length x = n) \<Longrightarrow> chunks_exact n (concat xs) = xs"
  by (induction xs) (simp_all add: chunks_append chunks_none)

lemma map_chunks_map:
  assumes "0 < n" and "\<And>c. length c = n \<Longrightarrow> length (f c) = n"
  shows "map_chunks g n (map_chunks f n bs) = map_chunks (\<lambda>c. g (f c)) n bs"
proof -
  have "chunks_exact n (concat (map f (chunks_exact n bs))) = map f (chunks_exact n bs)"
    using assms length_chunk by (intro chunks_concat) auto
  then show ?thesis by (simp add: map_chunks_def comp_def)
qed

lemma map_chunks_id: "0 < n \<Longrightarrow> n dvd length bs \<Longrightarrow> (\<And>c. c \<in> set (chunks_exact n bs) \<Longrightarrow> f c = c) \<Longrightarrow> map_chunks f n bs = bs"
  by (simp add: map_chunks_def concat_chunks map_idI)

subsection \<open>What a prepared payload holds\<close>

lemma native_native [simp]: "native big (native big bs) = bs"
  by (simp add: native_def)

lemma length_native [simp]: "length (native big bs) = length bs"
  by (simp add: native_def)

lemma length_le_i32 [simp]: "length (le_i32 v) = 4" and length_le_i64 [simp]: "length (le_i64 v) = 8"
  by (simp_all add: le_i32_def le_i64_def)

lemma length_normalize_scalar: "length c = byte_size e \<Longrightarrow> length (normalize_scalar big e d c) = byte_size e"
  by (cases e) simp_all

lemma native_normalize_scalar: "native big (normalize_scalar big e d c) = normalize_scalar False e d c"
  by (cases e) (simp_all, simp_all add: native_def)

definition stored_bytes :: "bool \<Rightarrow> payload_plan \<Rightarrow> bytes \<Rightarrow> region \<Rightarrow> bytes" where
  "stored_bytes big plan input r =
     (case r of
        Region_Length wire _ \<Rightarrow> native big (slice_of wire input)
      | Region_Tensor t \<Rightarrow>
          (let leaf = plan_tensors plan ! tr_tensor t
           in map_chunks (normalize_scalar big (pt_encoding leaf) (pt_domain leaf)) (tensor_size leaf) (slice_of (tr_wire t) input)))"

definition written_bytes :: "bool \<Rightarrow> payload_plan \<Rightarrow> bytes \<Rightarrow> region \<Rightarrow> bytes" where
  "written_bytes big plan storage r =
     (case r of
        Region_Length _ workspace \<Rightarrow> native big (slice_of workspace storage)
      | Region_Tensor t \<Rightarrow>
          map_chunks (native big) (tensor_size (plan_tensors plan ! tr_tensor t)) (slice_of (tr_workspace t) storage))"

text \<open>The canonical form of a region of the wire: lengths as they are, scalars normalized.\<close>

definition canonical_region :: "payload_plan \<Rightarrow> bytes \<Rightarrow> region \<Rightarrow> bytes" where
  "canonical_region plan input r = stored_bytes False plan input r"

definition within :: "nat \<Rightarrow> nat \<Rightarrow> region \<Rightarrow> bool" where
  "within wire workspace r \<longleftrightarrow> fst (region_wire r) \<le> snd (region_wire r) \<and> snd (region_wire r) \<le> wire
     \<and> fst (region_workspace r) \<le> snd (region_workspace r) \<and> snd (region_workspace r) \<le> workspace"

lemma region_fits_widths:
  assumes "region_fits tensors (r, len)"
  shows "snd (region_wire r) - fst (region_wire r) = snd (region_workspace r) - fst (region_workspace r)"
    and "\<And>t. r = Region_Tensor t \<Longrightarrow> tr_tensor t < length tensors
       \<and> tensor_size (tensors ! tr_tensor t) dvd snd (tr_wire t) - fst (tr_wire t)
       \<and> tensor_size (tensors ! tr_tensor t) dvd snd (tr_workspace t) - fst (tr_workspace t)"
    and "\<And>wire workspace. r = Region_Length wire workspace \<Longrightarrow> snd wire = fst wire + 4 \<and> snd workspace = fst workspace + 4"
  using assms by (cases r; auto simp: Let_def)+

lemma length_stored:
  assumes "region_fits (plan_tensors plan) (r, len)" and "within (length input) n r"
  shows "length (stored_bytes big plan input r) = snd (region_workspace r) - fst (region_workspace r)"
proof (cases r)
  case (Region_Length wire workspace)
  then show ?thesis using assms region_fits_widths(3) [OF assms(1)]
    by (simp add: stored_bytes_def within_def length_slice_of)
next
  case (Region_Tensor t)
  let ?leaf = "plan_tensors plan ! tr_tensor t"
  note t = region_fits_widths(2) [OF assms(1) Region_Tensor]
  have "tensor_size ?leaf dvd length (slice_of (tr_wire t) input)"
    using t assms(2) by (simp add: Region_Tensor within_def length_slice_of)
  then have "length (stored_bytes big plan input r) = length (slice_of (tr_wire t) input)"
    by (simp add: stored_bytes_def Region_Tensor Let_def)
      (rule length_map_chunks, simp_all add: tensor_size_def length_normalize_scalar)
  then show ?thesis using assms(2) region_fits_widths(1) [OF assms(1)]
    by (simp add: Region_Tensor within_def length_slice_of)
qed

lemma copy_into_ok:
  "fst r \<le> snd r \<Longrightarrow> snd r \<le> length bs \<Longrightarrow> length data = snd r - fst r \<Longrightarrow>
     copy_into r data bs = Some (Inr (), overwrite (fst r) data bs)"
  by (simp add: copy_into_def)

lemma prepare_region_ok:
  assumes "region_fits (plan_tensors plan) (r, len)" and "within (length input) (length s) r"
  shows "prepare_region big plan input r s = Some (Inr (), overwrite (fst (region_workspace r)) (stored_bytes big plan input r) s)"
proof (cases r)
  case (Region_Length wire workspace)
  have w: "snd wire = fst wire + 4" "snd workspace = fst workspace + 4" "snd wire \<le> length input" "snd workspace \<le> length s"
    using region_fits_widths(3) [OF assms(1) Region_Length] assms(2) by (simp_all add: within_def Region_Length)
  then have len: "length (slice_of wire input) = 4" by (simp add: length_slice_of)
  then show ?thesis using w
    by (simp add: prepare_region_def Region_Length get_range_def stored_bytes_def le_i32_from copy_into_ok)
next
  case (Region_Tensor t)
  let ?leaf = "plan_tensors plan ! tr_tensor t"
  have t: "tr_tensor t < length (plan_tensors plan)" "tensor_size ?leaf dvd snd (tr_wire t) - fst (tr_wire t)"
    using region_fits_widths(2) [OF assms(1) Region_Tensor] by simp_all
  have w: "fst (tr_wire t) \<le> snd (tr_wire t)" "snd (tr_wire t) \<le> length input"
      "fst (tr_workspace t) \<le> snd (tr_workspace t)" "snd (tr_workspace t) \<le> length s"
    using assms(2) by (simp_all add: within_def Region_Tensor)
  have "zip_chunks (normalize_scalar big (pt_encoding ?leaf) (pt_domain ?leaf)) (tensor_size ?leaf)
      (slice_of (tr_wire t) input) (slice_of (tr_workspace t) s) = stored_bytes big plan input r"
    using zip_chunks_eq t w region_fits_widths(1) [OF assms(1)]
    by (simp add: stored_bytes_def Region_Tensor Let_def length_slice_of)
  then show ?thesis using t w length_stored [OF assms]
    by (simp add: prepare_region_def Region_Tensor get_range_def nth_opt_def copy_into_ok flip: tensor_size_def)
qed

lemma encode_region_ok:
  assumes "region_fits (plan_tensors plan) (r, len)" and "within (length s) (length storage) r"
  shows "encode_region big plan storage r s = Some (Inr (), overwrite (fst (region_wire r)) (written_bytes big plan storage r) s)"
    and "length (written_bytes big plan storage r) = snd (region_wire r) - fst (region_wire r)"
proof -
  have both: "encode_region big plan storage r s = Some (Inr (), overwrite (fst (region_wire r)) (written_bytes big plan storage r) s)
      \<and> length (written_bytes big plan storage r) = snd (region_wire r) - fst (region_wire r)"
  proof (cases r)
    case (Region_Length wire workspace)
    have w: "snd wire = fst wire + 4" "snd workspace = fst workspace + 4" "snd wire \<le> length s" "snd workspace \<le> length storage"
      using region_fits_widths(3) [OF assms(1) Region_Length] assms(2) by (simp_all add: within_def Region_Length)
    then have len: "length (slice_of workspace storage) = 4" by (simp add: length_slice_of)
    then show ?thesis using w
      by (simp add: encode_region_def Region_Length get_range_def written_bytes_def le_i32_from copy_into_ok)
  next
    case (Region_Tensor t)
    let ?leaf = "plan_tensors plan ! tr_tensor t"
    have t: "tr_tensor t < length (plan_tensors plan)" "tensor_size ?leaf dvd snd (tr_workspace t) - fst (tr_workspace t)"
      using region_fits_widths(2) [OF assms(1) Region_Tensor] by simp_all
    have w: "fst (tr_wire t) \<le> snd (tr_wire t)" "snd (tr_wire t) \<le> length s"
        "fst (tr_workspace t) \<le> snd (tr_workspace t)" "snd (tr_workspace t) \<le> length storage"
      using assms(2) by (simp_all add: within_def Region_Tensor)
    have "zip_chunks (native big) (tensor_size ?leaf) (slice_of (tr_workspace t) storage) (slice_of (tr_wire t) s)
        = written_bytes big plan storage r"
      using zip_chunks_eq t w region_fits_widths(1) [OF assms(1)]
      by (simp add: written_bytes_def Region_Tensor length_slice_of)
    moreover have "length (written_bytes big plan storage r) = snd (tr_wire t) - fst (tr_wire t)"
      using length_map_chunks [of "tensor_size ?leaf" "native big" "slice_of (tr_workspace t) storage"] t w
        region_fits_widths(1) [OF assms(1)]
      by (simp add: written_bytes_def Region_Tensor length_slice_of)
    ultimately show ?thesis using t w
      by (simp add: encode_region_def Region_Tensor get_range_def nth_opt_def copy_into_ok flip: tensor_size_def)
  qed
  show "encode_region big plan storage r s = Some (Inr (), overwrite (fst (region_wire r)) (written_bytes big plan storage r) s)"
    and "length (written_bytes big plan storage r) = snd (region_wire r) - fst (region_wire r)"
    using both by simp_all
qed

text \<open>Both directions are writes in the order of the layout.\<close>

lemma run_fold_writes:
  assumes "\<And>e s. e \<in> set es \<Longrightarrow> length s = n \<Longrightarrow> visit (fst e) s = Some (Inr (), overwrite (fst (place (fst e))) (data (fst e)) s)"
    and "\<And>e. e \<in> set es \<Longrightarrow> fst (place (fst e)) + length (data (fst e)) \<le> n" and "length s = n"
  shows "run_fold (\<lambda>e _. visit (fst e)) es () s =
    Some (Inr (), apply_writes (map (\<lambda>e. (place (fst e), data (fst e))) es) s)"
  using assms
proof (induction es arbitrary: s)
  case (Cons e es)
  have "length (overwrite (fst (place (fst e))) (data (fst e)) s) = n"
    using Cons(3) [of e] Cons(4) by (simp add: length_overwrite)
  moreover have "visit (fst e) s = Some (Inr (), overwrite (fst (place (fst e))) (data (fst e)) s)"
    using Cons(2) [of e s] Cons(4) by simp
  ultimately show ?case using Cons by (simp add: run_bind_def)
qed (simp add: run_return_def)

subsection \<open>The round trip\<close>

definition canonical_payload :: "payload_plan \<Rightarrow> bytes \<Rightarrow> bytes" where
  "canonical_payload plan input =
     (case walk plan (read_from input) collect_region [] of
        Some (Inr _, rs) \<Rightarrow> concat (map (canonical_region plan input) rs)
      | _ \<Rightarrow> input)"

lemma tiles_spread: "tiles rs a b \<Longrightarrow> spread rs a b"
  by (induction rs a b rule: tiles.induct) auto

lemma plan_placed:
  assumes "plan_ok plan" and "layout plan lens = Inr (es, wire, workspace)"
  shows "tiles (map (\<lambda>e. region_wire (fst e)) es) 0 wire" and "spread (map (\<lambda>e. region_workspace (fst e)) es) 0 workspace"
    and "e \<in> set es \<Longrightarrow> region_fits (plan_tensors plan) (fst e, snd e)"
    and "e \<in> set es \<Longrightarrow> within wire workspace (fst e)"
    and "e \<in> set es \<Longrightarrow> wire \<le> 2147483647 \<and> workspace \<le> 2147483647"
proof -
  have placed: "placed (plan_tensors plan) es (0, 0) (wire, workspace)
      (3 * dynamic_parameters plan + padding (plan_tensors plan) [0..<length (plan_tensors plan)])"
    using layout_params_placed [of "plan_tensors plan" "plan_params plan" lens "(0, 0)" es "(wire, workspace)"] assms
    by (simp add: layout_def plan_ok_def dynamic_parameters_def)
  then show tiles: "tiles (map (\<lambda>e. region_wire (fst e)) es) 0 wire" and spread: "spread (map (\<lambda>e. region_workspace (fst e)) es) 0 workspace"
    by (simp_all add: placed_def comp_def)
  show "e \<in> set es \<Longrightarrow> region_fits (plan_tensors plan) (fst e, snd e)"
    using placed by (auto simp: placed_def list_all_iff)
  show "within wire workspace (fst e)" if "e \<in> set es"
    using tiles_bounds [OF tiles, of "region_wire (fst e)"] spread_bounds [OF spread, of "region_workspace (fst e)"] that
    by (simp add: within_def)
  show "e \<in> set es \<Longrightarrow> wire \<le> 2147483647 \<and> workspace \<le> 2147483647"
    using placed by (auto simp: placed_def)
qed

lemma walk_along_layout:
  assumes "plan_ok plan" and "layout plan lens = Inr (es, at)" and "run_events length_at visit es s = Some t"
  shows "walk plan length_at visit s = Some (Inr at, t)"
  using assms walk_params_layout [of "plan_tensors plan" "plan_params plan" length_at visit "(0, 0)" s at t]
  by (auto simp: walk_def layout_def plan_ok_def)

lemma canonical_payload_layout:
  assumes "plan_ok plan" and "layout plan lens = Inr (es, at)" and "lengths_read (\<lambda>w _. read_length input w) es"
  shows "canonical_payload plan input = concat (map (\<lambda>e. canonical_region plan input (fst e)) es)"
proof -
  have "walk plan (read_from input) collect_region [] = Some (Inr at, map fst es)"
    by (rule walk_along_layout [OF assms(1,2)]) (simp add: read_from_events assms(3) collect_events)
  then show ?thesis by (simp add: canonical_payload_def comp_def)
qed

text \<open>The storage after preparing: what was stored at every region.\<close>

lemma prepare_parts:
  assumes "prepare big plan input workspace addr = Some (Inr p, workspace')"
  obtains n r where "required_workspace plan input = Some (Inr n)" and "n \<le> length workspace"
    and "walk plan (read_from input) (prepare_region big plan input) (take n workspace) = Some (Inr r, prep_storage p)"
    and "prep_wire_size p = length input" and "workspace' = prep_storage p @ drop n workspace"
proof (cases "required_workspace plan input")
  case None
  then show ?thesis using assms by (simp add: prepare_def)
next
  case (Some res)
  show ?thesis
  proof (cases res)
    case (Inl e)
    then show ?thesis using assms Some by (simp add: prepare_def)
  next
    case (Inr n)
    show ?thesis
    proof (cases "n > length workspace \<or> (n > 0 \<and> addr mod 8 \<noteq> 0)")
      case True
      then show ?thesis using assms Some Inr by (auto simp: prepare_def split: if_splits)
    next
      case False
      then show ?thesis using assms Some Inr that [of n]
        by (auto simp: prepare_def split: option.splits sum.splits prod.splits if_splits)
    qed
  qed
qed

lemma prepare_walk:
  assumes "plan_ok plan" and layout: "layout plan lens = Inr (es, length input, n)" and read: "lengths_read (\<lambda>w _. read_length input w) es"
    and n: "n \<le> length workspace"
  obtains storage where "walk plan (read_from input) (prepare_region big plan input) (take n workspace) = Some (Inr (length input, n), storage)"
    and "length storage = n" and "\<forall>e \<in> set es. slice_of (region_workspace (fst e)) storage = stored_bytes big plan input (fst e)"
proof -
  note placed = plan_placed [OF assms(1) layout]
  let ?writes = "map (\<lambda>e. (region_workspace (fst e), stored_bytes big plan input (fst e))) es"
  have fit: "length (stored_bytes big plan input (fst e)) = snd (region_workspace (fst e)) - fst (region_workspace (fst e))"
    if "e \<in> set es" for e using length_stored [OF placed(3,4)] that by simp
  have run: "run_fold (\<lambda>e _. prepare_region big plan input (fst e)) es () (take n workspace)
      = Some (Inr (), apply_writes ?writes (take n workspace))"
  proof (rule run_fold_writes)
    fix e and s :: bytes assume "e \<in> set es" and "length s = n"
    then show "prepare_region big plan input (fst e) s
        = Some (Inr (), overwrite (fst (region_workspace (fst e))) (stored_bytes big plan input (fst e)) s)"
      using prepare_region_ok [OF placed(3)] placed(4) by simp
  next
    fix e assume "e \<in> set es"
    then show "fst (region_workspace (fst e)) + length (stored_bytes big plan input (fst e)) \<le> n"
      using fit placed(4) by (simp add: within_def)
  qed (simp add: n)
  have walk: "walk plan (read_from input) (prepare_region big plan input) (take n workspace)
      = Some (Inr (length input, n), apply_writes ?writes (take n workspace))"
    by (rule walk_along_layout [OF assms(1) layout]) (simp add: read_from_events read run)
  have "writes_fit ?writes" using fit placed(4) by (auto simp: writes_fit_def list_all_iff within_def)
  moreover have "spread (map fst ?writes) 0 n" using placed(2) by (simp add: comp_def)
  ultimately show ?thesis
    using apply_writes_spread [of ?writes 0 n "take n workspace"] n by (intro that [OF walk]) (simp_all add: min_absorb2)
qed

lemma prepare_layout:
  assumes "plan_ok plan" and "prepare big plan input workspace addr = Some (Inr p, workspace')"
  obtains lens es n where "layout plan lens = Inr (es, length input, n)" and "lengths_read (\<lambda>w _. read_length input w) es"
    and "length (prep_storage p) = n" and "prep_wire_size p = length input"
    and "\<forall>e \<in> set es. slice_of (region_workspace (fst e)) (prep_storage p) = stored_bytes big plan input (fst e)"
proof -
  obtain n r where required: "required_workspace plan input = Some (Inr n)" and n: "n \<le> length workspace"
    and walk: "walk plan (read_from input) (prepare_region big plan input) (take n workspace) = Some (Inr r, prep_storage p)"
    and wire: "prep_wire_size p = length input"
    using assms(2) by (rule prepare_parts)
  obtain lens es where layout: "layout plan lens = Inr (es, length input, n)" and read: "lengths_read (\<lambda>w _. read_length input w) es"
    using preflight_layout [OF assms(1) required] .
  show ?thesis
    by (rule prepare_walk [OF assms(1) layout read n, of big]) (use walk in \<open>simp add: that [OF layout read _ wire]\<close>)
qed


lemma written_stored:
  assumes "plan_ok plan" and "layout plan lens = Inr (es, length input, n)" and e: "e \<in> set es"
    and "slice_of (region_workspace (fst e)) storage = stored_bytes big plan input (fst e)"
  shows "written_bytes big plan storage (fst e) = canonical_region plan input (fst e)"
proof (cases "fst e")
  case (Region_Length wire workspace)
  then show ?thesis using assms(4) by (simp add: written_bytes_def canonical_region_def stored_bytes_def native_def)
next
  case (Region_Tensor t)
  let ?leaf = "plan_tensors plan ! tr_tensor t"
  have "map_chunks (native big) (tensor_size ?leaf)
      (map_chunks (normalize_scalar big (pt_encoding ?leaf) (pt_domain ?leaf)) (tensor_size ?leaf) (slice_of (tr_wire t) input))
    = map_chunks (normalize_scalar False (pt_encoding ?leaf) (pt_domain ?leaf)) (tensor_size ?leaf) (slice_of (tr_wire t) input)"
    by (subst map_chunks_map) (simp_all add: tensor_size_def length_normalize_scalar native_normalize_scalar)
  then show ?thesis using assms(4)
    by (simp add: Region_Tensor written_bytes_def canonical_region_def stored_bytes_def Let_def)
qed

lemma read_prepared_length_stored:
  assumes "read_length input (fst wire) = Inr len" and "snd wire = fst wire + 4" and "snd workspace = fst workspace + 4"
    and "slice_of workspace storage = native big (slice_of wire input)" and "snd workspace \<le> length storage" and "length storage < 2 ^ 64"
  shows "read_prepared_length big storage (fst workspace) = Inr len"
proof -
  have ws: "(fst workspace, fst workspace + 4) = workspace" using assms(3) by (metis prod.collapse)
  have "slice_of wire input = take 4 (drop (fst wire) input)" using assms(2) by (simp add: slice_of_def)
  then show ?thesis using assms(1,4,5,6) assms(3)
    by (auto simp: read_prepared_length_def get_range_def ws read_length_def try_bind_Inr_iff Let_def split: if_splits)
qed

text \<open>C19: payloads survive the workspace: whatever the endianness of the target, encoding a prepared payload
  succeeds, fills the output with the canonical form of the input, and leaves the bytes after it alone.\<close>

theorem prepared_payload_round_trip:
  assumes "payload_plan_new schema = Some (Inr plan)"
    and "prepare big plan input workspace addr = Some (Inr p, workspace')" and "length input \<le> length output"
  shows "encode_prepared big plan p output = Some (Inr (length input), canonical_payload plan input @ drop (length input) output)"
proof -
  have ok: "plan_ok plan" using plan_new_ok [OF assms(1)] ..
  obtain lens es n where layout: "layout plan lens = Inr (es, length input, n)"
    and read: "lengths_read (\<lambda>w _. read_length input w) es" and storage: "length (prep_storage p) = n"
    and wire: "prep_wire_size p = length input"
    and all: "\<forall>e \<in> set es. slice_of (region_workspace (fst e)) (prep_storage p) = stored_bytes big plan input (fst e)"
    by (rule prepare_layout [OF ok assms(2)])
  note stored = all [THEN bspec]
  note placed = plan_placed [OF ok layout]
  let ?writes = "map (\<lambda>e. (region_wire (fst e), written_bytes big plan (prep_storage p) (fst e))) es"
  have inside: "within (length output) (length (prep_storage p)) (fst e)" if "e \<in> set es" for e
    using placed(4) [OF that] assms(3) by (simp add: within_def storage)
  note encoded = encode_region_ok [OF placed(3)]
  have run: "run_fold (\<lambda>e _. encode_region big plan (prep_storage p) (fst e)) es () output = Some (Inr (), apply_writes ?writes output)"
  proof (rule run_fold_writes)
    fix e and s :: bytes assume "e \<in> set es" and "length s = length output"
    then show "encode_region big plan (prep_storage p) (fst e) s
        = Some (Inr (), overwrite (fst (region_wire (fst e))) (written_bytes big plan (prep_storage p) (fst e)) s)"
      using encoded(1) inside by simp
  next
    fix e assume e: "e \<in> set es"
    then show "fst (region_wire (fst e)) + length (written_bytes big plan (prep_storage p) (fst e)) \<le> length output"
      using encoded(2) [OF e inside] inside by (simp add: within_def)
  qed simp
  have "lengths_read (\<lambda>w s. read_prepared_length big (prep_storage p) s) es"
    unfolding lengths_read_def
  proof (intro allI impI)
    fix w s len assume e: "(Region_Length w s, len) \<in> set es"
    show "read_prepared_length big (prep_storage p) (fst s) = Inr len"
      using read e stored [OF e] placed(3,4) [OF e] placed(5) [OF e]
      by (cases w, cases s) (intro read_prepared_length_stored [of input w]; auto simp: lengths_read_def stored_bytes_def within_def storage)
  qed
  then have "run_events (read_prepared big (prep_storage p)) (encode_region big plan (prep_storage p)) es output
      = Some (apply_writes ?writes output)"
    using run by (subst run_events_read [of _ "\<lambda>w s. read_prepared_length big (prep_storage p) s"])
      (simp_all add: read_prepared_def run_lift_def)
  then have walk: "walk plan (read_prepared big (prep_storage p)) (encode_region big plan (prep_storage p)) output
      = Some (Inr (length input, n), apply_writes ?writes output)"
    by (rule walk_along_layout [OF ok layout])
  have "writes_fit ?writes"
    using encoded(2) [OF _ inside] inside by (fastforce simp: writes_fit_def list_all_iff within_def)
  moreover have "tiles (map fst ?writes) 0 (length input)" using placed(1) by (simp add: comp_def)
  ultimately have "apply_writes ?writes output = concat (map snd ?writes) @ drop (length input) output"
    using apply_writes_tiles [of ?writes 0 "length input" "output"] assms(3) by simp
  moreover have "map snd ?writes = map (\<lambda>e. canonical_region plan input (fst e)) es"
    using written_stored [OF ok layout _ stored] by simp
  ultimately show ?thesis
    using walk assms(3) canonical_payload_layout [OF ok layout read] by (simp add: encode_prepared_def wire del: map_map)
qed

subsection \<open>An example\<close>

text \<open>The payload of the example on a big-endian target: \<open>true\<close> becomes 1, the integers come out in its byte order and in
  their domain, and the bytes between the regions keep what the workspace held.\<close>

definition demo_prepared :: prepared_payload where
  "demo_prepared =
     \<lparr>prep_storage = [1, 9, 9, 9, 0, 0, 0, 1, 63, 248, 0, 0, 0, 0, 0, 0, 0, 0, 0, 4, 255, 255, 255, 253], prep_wire_size = 21\<rparr>"

lemma demo_prepare:
  "prepare True demo_plan demo_input (replicate 32 9) 0
     = Some (Inr demo_prepared, prep_storage demo_prepared @ replicate 8 9)"
  by code_simp

lemma prepared_payload_round_trip_witness:
  "encode_prepared True demo_plan demo_prepared (replicate 24 7)
     = Some (Inr 21, canonical_payload demo_plan demo_input @ [7, 7, 7])"
proof -
  have length: "length demo_input = 21" by (simp add: demo_input_def)
  have "drop 21 (replicate 24 7) = [7, 7, 7 :: 8 word]" by (simp add: numeral_eq_Suc)
  then show ?thesis using prepared_payload_round_trip [OF demo_plan_new demo_prepare, of "replicate 24 7"] by (simp add: length)
qed


end
