(* ===== verification/Call_Graph.thy ===== *)
theory Call_Graph
  imports Propagate_Sound
begin

section \<open>Call graph and worklist\<close>

text \<open>
  The dependency order shared by the interprocedural analyses (\<open>onda_mir/src/call_graph.rs\<close>). The
  graph is built from the statements of every function; the postorder is computed with an explicit
  stack of nodes and finish marks. An out-of-range callee is a panic of the code and \<open>None\<close> here.
\<close>

record call_graph =
  cg_callees :: "nat list list"
  cg_callers :: "nat list list"
  cg_postorder :: "nat list"

subsection \<open>Construction\<close>

text \<open>The callees named in a block. The code walks the nested blocks with a stack; the order of the
  walk is erased by the sort that follows.\<close>

fun block_callees :: "block \<Rightarrow> nat list" and statements_callees :: "statement list \<Rightarrow> nat list" where
  "block_callees (Block ss) = statements_callees ss"
| "statements_callees [] = []"
| "statements_callees (Statement k src # ss) =
     (case k of
        S_Call _ f _ \<Rightarrow> [f]
      | S_If _ t e \<Rightarrow> block_callees t @ block_callees e
      | S_Loop body \<Rightarrow> block_callees body
      | _ \<Rightarrow> []) @ statements_callees ss"

definition function_callees :: "mir_function \<Rightarrow> nat list" where
  "function_callees f = remdups_adj (sort (block_callees (fn_body f)))"

fun push_caller :: "nat \<Rightarrow> nat list \<Rightarrow> nat list list \<Rightarrow> nat list list option" where
  "push_caller caller [] callers = Some callers"
| "push_caller caller (c # cs) callers =
     (if c < length callers then push_caller caller cs (callers[c := callers ! c @ [caller]])
      else None)"

fun build_callers :: "nat \<Rightarrow> nat list list \<Rightarrow> nat list list \<Rightarrow> nat list list option" where
  "build_callers i [] callers = Some callers"
| "build_callers i (cs # css) callers =
     Option.bind (push_caller i cs callers) (build_callers (Suc i) css)"

subsection \<open>Postorder\<close>

text \<open>The top of the stack is the head of the list. \<open>seen\<close> has one flag per function.\<close>

definition unseen :: "bool list \<Rightarrow> nat" where
  "unseen seen = length (filter Not seen)"

lemma unseen_update:
  "i < length seen \<Longrightarrow> \<not> seen ! i \<Longrightarrow> unseen (seen[i := True]) < unseen seen"
proof (induction seen arbitrary: i)
  case (Cons b seen)
  then show ?case by (cases i) (auto simp: unseen_def)
qed simp

function visit ::
  "nat list list \<Rightarrow> (nat \<times> bool) list \<Rightarrow> bool list \<Rightarrow> nat list \<Rightarrow> (bool list \<times> nat list) option" where
  "visit callees [] seen post = Some (seen, post)"
| "visit callees ((node, True) # pending) seen post = visit callees pending seen (post @ [node])"
| "visit callees ((node, False) # pending) seen post =
     (if length seen \<le> node then None
      else if seen ! node then visit callees pending seen post
      else visit callees (map (\<lambda>c. (c, False)) (callees ! node) @ (node, True) # pending)
             (seen[node := True]) post)"
  by pat_completeness auto
termination
  by (relation "measures [\<lambda>(callees, pending, seen, post). unseen seen,
        \<lambda>(callees, pending, seen, post). length pending]")
    (auto intro: unseen_update)

fun visit_roots ::
  "nat list list \<Rightarrow> nat list \<Rightarrow> bool list \<Rightarrow> nat list \<Rightarrow> nat list option" where
  "visit_roots callees [] seen post = Some post"
| "visit_roots callees (r # roots) seen post =
     Option.bind (visit callees [(r, False)] seen post)
       (\<lambda>(seen, post). visit_roots callees roots seen post)"

definition call_graph_new :: "program \<Rightarrow> call_graph option" where
  "call_graph_new p =
     (let callees = map function_callees (pr_functions p);
          n = length callees
      in Option.bind (build_callers 0 callees (replicate n [])) (\<lambda>callers.
           Option.bind (visit_roots callees [0..<n] (replicate n False) []) (\<lambda>post.
             Some \<lparr>cg_callees = callees, cg_callers = callers, cg_postorder = post\<rparr>)))"

subsection \<open>Worklist\<close>

record worklist =
  wl_pending :: "nat list"
  wl_queued :: "bool list"

definition graph_worklist :: "call_graph \<Rightarrow> worklist" where
  "graph_worklist g = \<lparr>wl_pending = cg_postorder g, wl_queued = replicate (length (cg_callees g)) True\<rparr>"

definition worklist_pop :: "worklist \<Rightarrow> (nat \<times> worklist) option" where
  "worklist_pop w =
     (case wl_pending w of
        [] \<Rightarrow> None
      | nxt # rest \<Rightarrow> Some (nxt, \<lparr>wl_pending = rest, wl_queued = (wl_queued w)[nxt := False]\<rparr>))"

definition worklist_push :: "nat \<Rightarrow> worklist \<Rightarrow> worklist" where
  "worklist_push f w =
     (if \<not> wl_queued w ! f
      then \<lparr>wl_pending = wl_pending w @ [f], wl_queued = (wl_queued w)[f := True]\<rparr>
      else w)"

subsection \<open>The postorder is a dependency order\<close>

lemma distinct_remdups_adj_sorted: "sorted xs \<Longrightarrow> distinct (remdups_adj xs)"
  by (induction xs rule: remdups_adj.induct) (auto simp: le_less)

lemma function_callees_sorted: "sorted (function_callees f) \<and> distinct (function_callees f)
    \<and> set (function_callees f) = set (block_callees (fn_body f))"
  by (simp add: function_callees_def distinct_remdups_adj_sorted)

text \<open>The nearest finish mark below the top of the stack.\<close>

fun nearest :: "(nat \<times> bool) list \<Rightarrow> nat option" where
  "nearest [] = None"
| "nearest ((v, True) # st) = Some v"
| "nearest ((v, False) # st) = nearest st"

fun stack_ok :: "nat list list \<Rightarrow> (nat \<times> bool) list \<Rightarrow> bool" where
  "stack_ok callees [] = True"
| "stack_ok callees ((v, m) # st) =
     ((\<forall>u. nearest st = Some u \<longrightarrow> v \<in> set (callees ! u)) \<and> stack_ok callees st)"

definition marks :: "(nat \<times> bool) list \<Rightarrow> nat set" where
  "marks st = {v. (v, True) \<in> set st}"

definition edges :: "nat list list \<Rightarrow> (nat \<times> nat) set" where
  "edges callees = {(u, v). u < length callees \<and> v \<in> set (callees ! u)}"

lemma nearest_mem: "nearest st = Some v \<Longrightarrow> (v, True) \<in> set st"
  by (induction st rule: nearest.induct) auto

lemma stack_marks_reach:
  assumes "stack_ok callees st" and "\<forall>u \<in> marks st. u < length callees"
    and "nearest st = Some v" and "u \<in> marks st"
  shows "(u, v) \<in> (edges callees)\<^sup>*"
  using assms
proof (induction st arbitrary: v)
  case (Cons x st)
  obtain a m where x: "x = (a, m)" by fastforce
  show ?case
  proof (cases m)
    case False
    then show ?thesis using Cons x by (auto simp: marks_def)
  next
    case True
    then have v: "v = a" using Cons.prems(3) x by simp
    show ?thesis
    proof (cases "u = a")
      case False
      then have u: "u \<in> marks st" using Cons.prems(4) x by (auto simp: marks_def)
      then obtain b where b: "nearest st = Some b"
        by (induction st rule: nearest.induct) (auto simp: marks_def)
      have "(u, b) \<in> (edges callees)\<^sup>*"
        using Cons.IH [OF _ _ b u] Cons.prems(1,2) x by (auto simp: marks_def)
      moreover have "(b, a) \<in> edges callees"
        using Cons.prems(1,2) x b nearest_mem [OF b] by (auto simp: edges_def marks_def)
      ultimately show ?thesis unfolding v by (rule rtrancl_into_rtrancl)
    qed (simp add: v)
  qed
qed (simp add: marks_def)

text \<open>Every callee of a marked node is seen or waits above the mark.\<close>

fun above_ok :: "nat list list \<Rightarrow> bool list \<Rightarrow> nat set \<Rightarrow> (nat \<times> bool) list \<Rightarrow> bool" where
  "above_ok callees seen waiting [] = True"
| "above_ok callees seen waiting ((v, False) # st) = above_ok callees seen (insert v waiting) st"
| "above_ok callees seen waiting ((v, True) # st) =
     ((\<forall>c \<in> set (callees ! v). seen ! c \<or> c \<in> waiting) \<and> above_ok callees seen waiting st)"

definition closed_post :: "nat list list \<Rightarrow> nat list \<Rightarrow> bool" where
  "closed_post callees post \<longleftrightarrow> distinct post
     \<and> (\<forall>i < length post. \<forall>c \<in> set (callees ! (post ! i)). c \<in> set (take i post))"

definition visit_inv ::
  "nat list list \<Rightarrow> (nat \<times> bool) list \<Rightarrow> bool list \<Rightarrow> nat list \<Rightarrow> bool" where
  "visit_inv callees st seen post \<longleftrightarrow>
     length seen = length callees \<and> stack_ok callees st \<and> above_ok callees seen {} st
   \<and> (\<forall>v < length callees. seen ! v \<longleftrightarrow> v \<in> set post \<or> v \<in> marks st)
   \<and> marks st \<inter> set post = {} \<and> distinct (map fst (filter snd st))
   \<and> marks st \<subseteq> {..<length callees} \<and> set post \<subseteq> {..<length callees}
   \<and> fst ` set st \<subseteq> {..<length callees} \<and> closed_post callees post"

lemma above_ok_mono:
  "above_ok callees seen w st \<Longrightarrow> (\<And>c. seen ! c \<or> c \<in> w \<Longrightarrow> seen' ! c \<or> c \<in> w') \<Longrightarrow>
     above_ok callees seen' w' st"
proof (induction callees seen w st arbitrary: w' rule: above_ok.induct)
  case (2 callees seen waiting v st)
  show ?case
    using "2.prems" "2.IH" [of "insert v w'"] by (simp, blast)
qed auto

lemma above_ok_append:
  "above_ok callees seen w (map (\<lambda>c. (c, False)) cs @ st) = above_ok callees seen (w \<union> set cs) st"
  by (induction cs arbitrary: w) (simp_all add: insert_absorb2 Un_commute)

lemma stack_ok_append:
  "(\<forall>c \<in> set cs. \<forall>u. nearest st = Some u \<longrightarrow> c \<in> set (callees ! u)) \<Longrightarrow> stack_ok callees st \<Longrightarrow>
     stack_ok callees (map (\<lambda>c. (c, False)) cs @ st)
     \<and> nearest (map (\<lambda>c. (c, False)) cs @ st) = nearest st"
  by (induction cs) auto

lemma marks_append: "marks (map (\<lambda>c. (c, False)) cs @ st) = marks st"
  by (auto simp: marks_def)

lemma closed_post_snoc:
  "closed_post callees post \<Longrightarrow> v \<notin> set post \<Longrightarrow> set (callees ! v) \<subseteq> set post \<Longrightarrow>
     closed_post callees (post @ [v])"
  by (auto simp: closed_post_def nth_append less_Suc_eq)

lemma visit_correct:
  assumes "acyclic (edges callees)" and "\<forall>cs \<in> set callees. set cs \<subseteq> {..<length callees}"
    and "visit_inv callees st seen post"
  shows "\<exists>seen' post'. visit callees st seen post = Some (seen', post')
    \<and> visit_inv callees [] seen' post' \<and> (\<forall>v. seen ! v \<longrightarrow> seen' ! v)
    \<and> (\<forall>v. (v, False) \<in> set st \<longrightarrow> seen' ! v)"
  using assms
proof (induction callees st seen post rule: visit.induct)
  case (1 callees seen post)
  then show ?case by simp
next
  case (2 callees node pending seen post)
  note inv = "2.prems"(3) [unfolded visit_inv_def]
  have node: "node < length callees" "node \<notin> set post" using inv by (auto simp: marks_def)
  have cs: "set (callees ! node) \<subseteq> set post"
  proof
    fix c assume c: "c \<in> set (callees ! node)"
    have cl: "c < length callees" using "2.prems"(2) c node(1) nth_mem by blast
    have "seen ! c" using inv c by auto
    then consider "c \<in> set post" | "c \<in> marks ((node, True) # pending)" using inv cl by blast
    then show "c \<in> set post"
    proof cases
      case 2
      have "(c, node) \<in> (edges callees)\<^sup>*"
        using stack_marks_reach [of callees "(node, True) # pending" node c] inv 2
        by (auto simp: subset_iff)
      moreover have "(node, c) \<in> edges callees" using c node(1) by (simp add: edges_def)
      ultimately have "(node, node) \<in> (edges callees)\<^sup>+" by (rule rtrancl_into_trancl2 [rotated])
      then show ?thesis using "2.prems"(1) by (simp add: acyclic_def)
    qed
  qed
  have fresh: "node \<notin> marks pending"
  proof
    assume "node \<in> marks pending"
    then have "(node, True) \<in> set (filter snd pending)" by (simp add: marks_def)
    then have "node \<in> set (map fst (filter snd pending))" by (simp only: set_map image_iff) force
    moreover have "distinct (node # map fst (filter snd pending))" using inv by simp
    ultimately show False by simp
  qed
  have m: "marks ((node, True) # pending) = insert node (marks pending)" by (auto simp: marks_def)
  have "visit_inv callees pending seen (post @ [node])"
    unfolding visit_inv_def
  proof (intro conjI)
    show "closed_post callees (post @ [node])"
      using inv node(2) cs by (intro closed_post_snoc) auto
    show "\<forall>v < length callees. seen ! v \<longleftrightarrow> v \<in> set (post @ [node]) \<or> v \<in> marks pending"
      using inv unfolding m by auto
    show "marks pending \<inter> set (post @ [node]) = {}" using inv fresh unfolding m by auto
    show "marks pending \<subseteq> {..<length callees}" using inv unfolding m by auto
    show "set (post @ [node]) \<subseteq> {..<length callees}" using inv node by auto
  qed (use inv in auto)
  from "2.IH" [OF "2.prems"(1,2) this] show ?case by auto
next
  case (3 callees node pending seen post)
  note inv = "3.prems"(3) [unfolded visit_inv_def]
  have node: "node < length callees" "\<not> length seen \<le> node" using inv by auto
  show ?case
  proof (cases "seen ! node")
    case True
    have "above_ok callees seen {} pending"
      by (rule above_ok_mono [of _ _ "{node}"]) (use inv True in auto)
    then have "visit_inv callees pending seen post"
      using inv unfolding visit_inv_def by (auto simp: marks_def)
    from "3.IH"(1) [OF node(2) True "3.prems"(1,2) this] show ?thesis
      using node True by auto
  next
    case False
    let ?st = "map (\<lambda>c. (c, False)) (callees ! node) @ (node, True) # pending"
    let ?seen = "seen[node := True]"
    have kids: "set (callees ! node) \<subseteq> {..<length callees}" using "3.prems"(2) node by auto
    have notin: "node \<notin> set post" "node \<notin> marks pending" using inv False node by (auto simp: marks_def)
    have "stack_ok callees ?st"
      using inv by (intro stack_ok_append [THEN conjunct1]) auto
    moreover have "above_ok callees ?seen {} ?st"
    proof -
      have "above_ok callees ?seen (set (callees ! node)) pending"
        by (rule above_ok_mono [of _ seen "{node}"])
          (use inv node in \<open>auto simp: nth_list_update\<close>)
      then show ?thesis by (simp add: above_ok_append)
    qed
    moreover have "marks ?st = insert node (marks pending)"
      unfolding marks_append by (auto simp: marks_def)
    moreover have "distinct (map fst (filter snd ?st))"
      using inv notin by (auto simp: marks_def)
    moreover have "fst ` set ?st \<subseteq> {..<length callees}" using inv kids by auto
    ultimately have "visit_inv callees ?st ?seen post"
      using inv notin node unfolding visit_inv_def by (auto simp: nth_list_update marks_def)
    from "3.IH"(2) [OF node(2) False "3.prems"(1,2) this] show ?thesis
      using node False by (auto simp: nth_list_update split: if_splits)
  qed
qed

lemma visit_root:
  assumes "acyclic (edges callees)" and "\<forall>cs \<in> set callees. set cs \<subseteq> {..<length callees}"
    and "visit_inv callees [] seen post" and "r < length callees"
  shows "\<exists>seen' post'. visit callees [(r, False)] seen post = Some (seen', post')
    \<and> visit_inv callees [] seen' post' \<and> (\<forall>v. seen ! v \<longrightarrow> seen' ! v) \<and> seen' ! r"
proof -
  have "visit_inv callees [(r, False)] seen post"
    using assms(3,4) by (auto simp: visit_inv_def marks_def)
  from visit_correct [OF assms(1,2) this] show ?thesis by auto
qed

lemma visit_roots_correct:
  assumes "acyclic (edges callees)" and "\<forall>cs \<in> set callees. set cs \<subseteq> {..<length callees}"
    and "visit_inv callees [] seen post" and "set roots \<subseteq> {..<length callees}"
  shows "\<exists>post'. visit_roots callees roots seen post = Some post' \<and> closed_post callees post'
    \<and> set post' \<subseteq> {..<length callees} \<and> {v. v < length callees \<and> seen ! v} \<union> set roots \<subseteq> set post'"
  using assms(3,4)
proof (induction roots arbitrary: seen post)
  case Nil
  then show ?case by (auto simp: visit_inv_def marks_def)
next
  case (Cons r roots)
  obtain seen' post' where v: "visit callees [(r, False)] seen post = Some (seen', post')"
      "visit_inv callees [] seen' post'" "\<forall>v. seen ! v \<longrightarrow> seen' ! v" "seen' ! r"
    using visit_root [OF assms(1,2) Cons.prems(1), of r] Cons.prems(2) by auto
  from Cons.IH [OF v(2)] Cons.prems(2) obtain post2 where
    "visit_roots callees roots seen' post' = Some post2" "closed_post callees post2"
    "set post2 \<subseteq> {..<length callees}"
    "{v. v < length callees \<and> seen' ! v} \<union> set roots \<subseteq> set post2" by auto
  moreover from this have "r \<in> set post2" using v(4) Cons.prems(2) by auto
  ultimately show ?case using v by auto
qed

lemma push_caller_total:
  assumes "set cs \<subseteq> {..<length callers}" and "distinct cs"
  shows "\<exists>r. push_caller i cs callers = Some r \<and> length r = length callers
    \<and> (\<forall>c < length callers. r ! c = callers ! c @ (if c \<in> set cs then [i] else []))"
  using assms
proof (induction cs arbitrary: callers)
  case (Cons c cs)
  let ?cs = "callers[c := callers ! c @ [i]]"
  obtain r where "push_caller i cs ?cs = Some r" "length r = length ?cs"
      "\<forall>d < length ?cs. r ! d = ?cs ! d @ (if d \<in> set cs then [i] else [])"
    using Cons.IH [of ?cs] Cons.prems by auto
  then show ?case using Cons.prems by (auto simp: nth_list_update)
qed simp

lemma build_callers_total:
  assumes "\<forall>cs \<in> set css. set cs \<subseteq> {..<length callers} \<and> distinct cs"
  shows "\<exists>r. build_callers i css callers = Some r \<and> length r = length callers
    \<and> (\<forall>c < length callers. r ! c = callers ! c @ filter (\<lambda>k. c \<in> set (css ! (k - i))) [i..<i + length css])"
  using assms
proof (induction css arbitrary: i callers)
  case (Cons cs css)
  obtain r1 where r1: "push_caller i cs callers = Some r1" "length r1 = length callers"
      "\<forall>c < length callers. r1 ! c = callers ! c @ (if c \<in> set cs then [i] else [])"
    using push_caller_total [of cs callers i] Cons.prems by auto
  obtain r where r: "build_callers (Suc i) css r1 = Some r" "length r = length r1"
      "\<forall>c < length r1. r ! c = r1 ! c @ filter (\<lambda>k. c \<in> set (css ! (k - Suc i))) [Suc i..<Suc i + length css]"
    using Cons.IH [of r1 "Suc i"] Cons.prems r1(2) by auto
  have "filter (\<lambda>k. c \<in> set ((cs # css) ! (k - i))) [i..<i + length (cs # css)]
      = (if c \<in> set cs then [i] else [])
        @ filter (\<lambda>k. c \<in> set (css ! (k - Suc i))) [Suc i..<Suc i + length css]" for c
  proof -
    have "[i..<i + length (cs # css)] = i # [Suc i..<Suc i + length css]"
      by (subst upt_rec) simp
    moreover have "filter (\<lambda>k. c \<in> set ((cs # css) ! (k - i))) [Suc i..<Suc i + length css]
        = filter (\<lambda>k. c \<in> set (css ! (k - Suc i))) [Suc i..<Suc i + length css]"
      by (rule filter_cong) (auto simp: nth_Cons')
    ultimately show ?thesis by simp
  qed
  with r r1 show ?case by simp
qed simp

definition calls_in_range :: "program \<Rightarrow> bool" where
  "calls_in_range p \<longleftrightarrow> (\<forall>f \<in> set (pr_functions p). \<forall>c \<in> set (block_callees (fn_body f)). c < length (pr_functions p))"

text \<open>The function \<open>i\<close> calls the function \<open>c\<close>.\<close>

definition calls :: "program \<Rightarrow> nat \<Rightarrow> nat \<Rightarrow> bool" where
  "calls p i c \<longleftrightarrow> i < length (pr_functions p) \<and> c \<in> set (block_callees (fn_body (pr_functions p ! i)))"

lemma edges_calls: "edges (map function_callees (pr_functions p)) = {(i, c). calls p i c}"
  by (auto simp: edges_def calls_def function_callees_sorted)

lemma call_graph_order:
  assumes "calls_in_range p" and "acyclic {(i, c). calls p i c}"
  shows "\<exists>g. call_graph_new p = Some g
    \<and> distinct (cg_postorder g) \<and> set (cg_postorder g) = {..<length (pr_functions p)}
    \<and> (\<forall>i < length (cg_postorder g). \<forall>c. calls p (cg_postorder g ! i) c \<longrightarrow> c \<in> set (take i (cg_postorder g)))
    \<and> (\<forall>i < length (pr_functions p). sorted (cg_callees g ! i) \<and> distinct (cg_callees g ! i)
         \<and> (\<forall>c. c \<in> set (cg_callees g ! i) \<longleftrightarrow> calls p i c))
    \<and> (\<forall>c < length (pr_functions p). \<forall>i. i \<in> set (cg_callers g ! c) \<longleftrightarrow> calls p i c)"
proof -
  let ?cs = "map function_callees (pr_functions p)"
  let ?n = "length (pr_functions p)"
  have range: "\<forall>cs \<in> set ?cs. set cs \<subseteq> {..<length ?cs}"
    using assms(1) by (auto simp: calls_in_range_def function_callees_sorted)
  have dist: "\<forall>cs \<in> set ?cs. distinct cs" by (auto simp: function_callees_sorted)
  have "visit_inv ?cs [] (replicate ?n False) []"
    by (simp add: visit_inv_def marks_def closed_post_def)
  from visit_roots_correct [OF _ range this, of "[0..<?n]"] assms(2)
  obtain post where post: "visit_roots ?cs [0..<?n] (replicate ?n False) [] = Some post"
      "closed_post ?cs post" "set post \<subseteq> {..<?n}" "{..<?n} \<subseteq> set post"
    by (auto simp: edges_calls subset_iff)
  obtain callers where callers: "build_callers 0 ?cs (replicate ?n []) = Some callers"
      "\<forall>c < ?n. callers ! c = filter (\<lambda>k. c \<in> set (?cs ! k)) [0..<?n]"
    using build_callers_total [of ?cs "replicate ?n []" 0] range dist by auto
  have order: "c \<in> set (take i post)" if "i < length post" "calls p (post ! i) c" for i c
  proof -
    have "post ! i < ?n" using post(3) that(1) nth_mem by blast
    then have "c \<in> set (?cs ! (post ! i))"
      using that(2) by (simp add: calls_def function_callees_sorted)
    then show ?thesis using post(2) that(1) by (auto simp: closed_post_def)
  qed
  have "call_graph_new p = Some \<lparr>cg_callees = ?cs, cg_callers = callers, cg_postorder = post\<rparr>"
    using post callers by (simp add: call_graph_new_def Let_def)
  then show ?thesis
    using post callers(2) order
    by (auto simp: closed_post_def function_callees_sorted calls_def)
qed

text \<open>C25: for a program whose calls are in range and not recursive, the call graph is built without a
  panic; its postorder lists every function exactly once and every callee before its callers, the
  callee lists are the sorted duplicate-free callees of each body, and the caller lists are
  exactly their inverse.\<close>

theorem call_graph_dependency_order:
  assumes "calls_in_range p" and "acyclic {(i, c). calls p i c}"
  shows "\<exists>g. call_graph_new p = Some g
    \<and> distinct (cg_postorder g) \<and> set (cg_postorder g) = {..<length (pr_functions p)}
    \<and> (\<forall>i < length (cg_postorder g). \<forall>c. calls p (cg_postorder g ! i) c \<longrightarrow> c \<in> set (take i (cg_postorder g)))
    \<and> (\<forall>i < length (pr_functions p). sorted (cg_callees g ! i) \<and> distinct (cg_callees g ! i)
         \<and> (\<forall>c. c \<in> set (cg_callees g ! i) \<longleftrightarrow> calls p i c))
    \<and> (\<forall>c < length (pr_functions p). \<forall>i. i \<in> set (cg_callers g ! c) \<longleftrightarrow> calls p i c)"
  using assms by (rule call_graph_order)

definition demo_program :: "mir_function list \<Rightarrow> program" where
  "demo_program fs = (program_new \<lparr>sample_rate = 0x473B8000, block_size = 64\<rparr> 0 0) \<lparr>pr_functions := fs\<rparr>"

theorem call_graph_dependency_order_witness:
  "\<exists>g. call_graph_new (demo_program [demo_function [S_Call [] 1 []] 0, demo_function [] 0]) = Some g
    \<and> set (cg_postorder g) = {..<2}"
proof -
  let ?p = "demo_program [demo_function [S_Call [] 1 []] 0, demo_function [] 0]"
  have n: "length (pr_functions ?p) = 2" by (simp add: demo_program_def)
  have c: "{(i, c). calls ?p i c} = {(0, 1)}"
    by (auto simp: calls_def demo_program_def demo_function_def nth_Cons' split: if_splits)
  have "calls_in_range ?p"
    by (simp add: calls_in_range_def demo_program_def demo_function_def)
  moreover have "acyclic {(i, c). calls ?p i c}"
    unfolding c by (auto simp: acyclic_def trancl_insert)
  ultimately show ?thesis
    using call_graph_dependency_order [of ?p] unfolding n by blast
qed

subsection \<open>The worklist as an interface\<close>

text \<open>
  What a solver needs of its worklist: popping takes one member out, pushing adds one, and members
  are within the node range. The client fact is the invariant of every solver built on it: a
  property that a step establishes for the popped node, and can break only for nodes it pushes,
  holds of every node that is not waiting.
\<close>

locale work_queue =
  fixes members :: "'q \<Rightarrow> nat set" and ok :: "'q \<Rightarrow> bool"
    and pop :: "'q \<Rightarrow> (nat \<times> 'q) option" and push :: "nat \<Rightarrow> 'q \<Rightarrow> 'q" and nodes :: "'q \<Rightarrow> nat set"
  assumes pop_empty: "ok q \<Longrightarrow> pop q = None \<longleftrightarrow> members q = {}"
    and pop_member: "ok q \<Longrightarrow> pop q = Some (x, q') \<Longrightarrow>
      ok q' \<and> x \<in> members q \<and> members q' = members q - {x} \<and> nodes q' = nodes q"
    and push_member: "ok q \<Longrightarrow> x \<in> nodes q \<Longrightarrow>
      ok (push x q) \<and> members (push x q) = insert x (members q) \<and> nodes (push x q) = nodes q"
    and member_nodes: "ok q \<Longrightarrow> members q \<subseteq> nodes q"
begin

lemma push_all:
  "ok q \<Longrightarrow> set xs \<subseteq> nodes q \<Longrightarrow>
     ok (fold push xs q) \<and> members (fold push xs q) = members q \<union> set xs \<and> nodes (fold push xs q) = nodes q"
  by (induction xs arbitrary: q) (auto simp: push_member)

text \<open>One step of a solver keeps the nodes that are not waiting solved.\<close>

lemma step_solved:
  assumes "ok q" and "pop q = Some (x, q')" and "set xs \<subseteq> nodes q"
    and "\<And>v. v \<in> nodes q \<Longrightarrow> v \<notin> members q \<Longrightarrow> solved s v"
    and "solved s' x \<or> x \<in> set xs"
    and "\<And>v. v \<in> nodes q \<Longrightarrow> v \<noteq> x \<Longrightarrow> v \<notin> set xs \<Longrightarrow> solved s v \<Longrightarrow> solved s' v"
    and "v \<in> nodes q" and "v \<notin> members (fold push xs q')"
  shows "solved s' v"
proof -
  note p = pop_member [OF assms(1,2)]
  have m: "members (fold push xs q') = (members q - {x}) \<union> set xs"
    using push_all [of q' xs] p assms(3) by auto
  show ?thesis
  proof (cases "v = x")
    case True
    then show ?thesis using assms(5,8) m by auto
  next
    case False
    then show ?thesis using assms(4,6,7,8) m by auto
  qed
qed

end

definition worklist_ok :: "worklist \<Rightarrow> bool" where
  "worklist_ok w \<longleftrightarrow> distinct (wl_pending w) \<and> set (wl_pending w) \<subseteq> {..<length (wl_queued w)}
     \<and> (\<forall>i < length (wl_queued w). wl_queued w ! i \<longleftrightarrow> i \<in> set (wl_pending w))"

interpretation analysis_queue: work_queue "\<lambda>w. set (wl_pending w)" worklist_ok worklist_pop
  worklist_push "\<lambda>w. {..<length (wl_queued w)}"
proof
  fix q x q'
  show "worklist_ok q \<Longrightarrow> worklist_pop q = None \<longleftrightarrow> set (wl_pending q) = {}"
    by (auto simp: worklist_pop_def split: list.splits)
  show "worklist_ok q \<Longrightarrow> worklist_pop q = Some (x, q') \<Longrightarrow>
      worklist_ok q' \<and> x \<in> set (wl_pending q) \<and> set (wl_pending q') = set (wl_pending q) - {x}
      \<and> {..<length (wl_queued q')} = {..<length (wl_queued q)}"
    by (auto simp: worklist_pop_def worklist_ok_def nth_list_update split: list.splits if_splits)
  show "worklist_ok q \<Longrightarrow> x \<in> {..<length (wl_queued q)} \<Longrightarrow>
      worklist_ok (worklist_push x q) \<and> set (wl_pending (worklist_push x q)) = insert x (set (wl_pending q))
      \<and> {..<length (wl_queued (worklist_push x q))} = {..<length (wl_queued q)}"
    by (auto simp: worklist_push_def worklist_ok_def nth_list_update)
  show "worklist_ok q \<Longrightarrow> set (wl_pending q) \<subseteq> {..<length (wl_queued q)}"
    by (simp add: worklist_ok_def)
qed

lemma graph_worklist_ok:
  assumes "distinct (cg_postorder g)" and "set (cg_postorder g) = {..<length (cg_callees g)}"
  shows "worklist_ok (graph_worklist g)"
  using assms by (auto simp: worklist_ok_def graph_worklist_def)



subsection \<open>Recursive programs\<close>

text \<open>The construction also succeeds on recursive, unvalidated programs.\<close>

definition visit_ok :: "nat list list \<Rightarrow> (nat \<times> bool) list \<Rightarrow> bool list \<Rightarrow> nat list \<Rightarrow> bool" where
  "visit_ok callees st seen post \<longleftrightarrow>
     length seen = length callees \<and> distinct post \<and> set post \<subseteq> {..<length callees}
   \<and> (\<forall>v < length callees. seen ! v \<longleftrightarrow> v \<in> set post \<or> v \<in> marks st)
   \<and> marks st \<inter> set post = {} \<and> distinct (map fst (filter snd st))
   \<and> fst ` set st \<subseteq> {..<length callees}"

lemma visit_total:
  assumes "\<forall>cs \<in> set callees. set cs \<subseteq> {..<length callees}" and "visit_ok callees st seen post"
  shows "\<exists>seen' post'. visit callees st seen post = Some (seen', post')
    \<and> visit_ok callees [] seen' post' \<and> (\<forall>v. seen ! v \<longrightarrow> seen' ! v)
    \<and> (\<forall>v. (v, False) \<in> set st \<longrightarrow> seen' ! v)"
  using assms
proof (induction callees st seen post rule: visit.induct)
  case (1 callees seen post)
  then show ?case by simp
next
  case (2 callees node pending seen post)
  note inv = "2.prems"(2) [unfolded visit_ok_def]
  have m: "marks ((node, True) # pending) = insert node (marks pending)" by (auto simp: marks_def)
  have fresh: "node \<notin> marks pending"
  proof
    assume "node \<in> marks pending"
    then have "node \<in> set (map fst (filter snd pending))" by (force simp: marks_def)
    then show False using inv by simp
  qed
  have "visit_ok callees pending seen (post @ [node])"
    using inv fresh unfolding visit_ok_def m by auto
  from "2.IH" [OF "2.prems"(1) this] show ?case by auto
next
  case (3 callees node pending seen post)
  note inv = "3.prems"(2) [unfolded visit_ok_def]
  have node: "node < length callees" "\<not> length seen \<le> node" using inv by auto
  have m: "marks ((node, False) # pending) = marks pending" by (auto simp: marks_def)
  show ?case
  proof (cases "seen ! node")
    case True
    have "visit_ok callees pending seen post"
      using inv unfolding visit_ok_def m by auto
    from "3.IH"(1) [OF node(2) True "3.prems"(1) this] show ?thesis
      using node True by auto
  next
    case False
    let ?st = "map (\<lambda>c. (c, False)) (callees ! node) @ (node, True) # pending"
    let ?seen = "seen[node := True]"
    have kids: "set (callees ! node) \<subseteq> {..<length callees}" using "3.prems"(1) node by auto
    have notin: "node \<notin> set post" "node \<notin> marks pending" using inv False node m by auto
    have mst: "marks ?st = insert node (marks pending)"
      unfolding marks_append by (auto simp: marks_def)
    have "distinct (map fst (filter snd ?st))"
      using inv notin by (auto simp: marks_def)
    then have "visit_ok callees ?st ?seen post"
      using inv notin node kids unfolding visit_ok_def mst m by (auto simp: nth_list_update)
    from "3.IH"(2) [OF node(2) False "3.prems"(1) this] show ?thesis
      using node False by (auto simp: nth_list_update split: if_splits)
  qed
qed

lemma visit_roots_total:
  assumes "\<forall>cs \<in> set callees. set cs \<subseteq> {..<length callees}"
    and "visit_ok callees [] seen post" and "set roots \<subseteq> {..<length callees}"
  shows "\<exists>post'. visit_roots callees roots seen post = Some post' \<and> distinct post'
    \<and> set post' \<subseteq> {..<length callees} \<and> {v. v < length callees \<and> seen ! v} \<union> set roots \<subseteq> set post'"
  using assms(2,3)
proof (induction roots arbitrary: seen post)
  case Nil
  then show ?case by (auto simp: visit_ok_def marks_def)
next
  case (Cons r roots)
  have "visit_ok callees [(r, False)] seen post"
    using Cons.prems by (auto simp: visit_ok_def marks_def)
  from visit_total [OF assms(1) this] obtain seen' post' where
    v: "visit callees [(r, False)] seen post = Some (seen', post')"
      "visit_ok callees [] seen' post'" "\<forall>v. seen ! v \<longrightarrow> seen' ! v" "seen' ! r" by auto
  from Cons.IH [OF v(2)] Cons.prems(2) obtain post2 where
    "visit_roots callees roots seen' post' = Some post2" "distinct post2"
    "set post2 \<subseteq> {..<length callees}"
    "{v. v < length callees \<and> seen' ! v} \<union> set roots \<subseteq> set post2" by auto
  moreover from this have "r \<in> set post2" using v(4) Cons.prems(2) by auto
  ultimately show ?case using v by auto
qed

lemma call_graph_total:
  assumes "calls_in_range p"
  shows "\<exists>g. call_graph_new p = Some g \<and> length (cg_callees g) = length (pr_functions p)
    \<and> distinct (cg_postorder g) \<and> set (cg_postorder g) = {..<length (pr_functions p)}
    \<and> length (cg_callers g) = length (pr_functions p)
    \<and> (\<forall>c < length (pr_functions p). \<forall>i. i \<in> set (cg_callers g ! c) \<longleftrightarrow> calls p i c)"
proof -
  let ?cs = "map function_callees (pr_functions p)"
  let ?n = "length (pr_functions p)"
  have range: "\<forall>cs \<in> set ?cs. set cs \<subseteq> {..<length ?cs}"
    using assms by (auto simp: calls_in_range_def function_callees_sorted)
  have dist: "\<forall>cs \<in> set ?cs. distinct cs" by (auto simp: function_callees_sorted)
  have "visit_ok ?cs [] (replicate ?n False) []" by (simp add: visit_ok_def marks_def)
  from visit_roots_total [OF range this, of "[0..<?n]"]
  obtain post where post: "visit_roots ?cs [0..<?n] (replicate ?n False) [] = Some post"
      "distinct post" "set post \<subseteq> {..<?n}" "{..<?n} \<subseteq> set post"
    by (auto simp: subset_iff)
  obtain callers where callers: "build_callers 0 ?cs (replicate ?n []) = Some callers"
      "length callers = ?n" "\<forall>c < ?n. callers ! c = filter (\<lambda>k. c \<in> set (?cs ! k)) [0..<?n]"
    using build_callers_total [of ?cs "replicate ?n []" 0] range dist by auto
  have "call_graph_new p = Some \<lparr>cg_callees = ?cs, cg_callers = callers, cg_postorder = post\<rparr>"
    using post callers by (simp add: call_graph_new_def Let_def)
  then show ?thesis
    using post callers by (auto simp: function_callees_sorted calls_def)
qed

end
