(* ===== verification/Effects.thy ===== *)
theory Effects
  imports Call_Graph
begin

section \<open>Effects\<close>

text \<open>
  Memory regions, function effects and their call-transitive analysis (\<open>onda_mir/src/analysis.rs\<close>).
  The scans thread one \<open>function_effects\<close> record through a body. Table identifiers of validated
  programs are in range.
\<close>

subsection \<open>Regions\<close>

type_synonym region_set = "16 word"

definition region_state :: region_set where "region_state = 1"
definition region_params :: region_set where "region_params = 2"
definition region_inputs :: region_set where "region_inputs = 4"
definition region_outputs :: region_set where "region_outputs = 8"
definition region_control_outputs :: region_set where "region_control_outputs = 16"
definition region_buffers :: region_set where "region_buffers = 32"
definition region_const_data :: region_set where "region_const_data = 64"
definition region_event_payload :: region_set where "region_event_payload = 128"
definition region_arguments :: region_set where "region_arguments = 256"
definition region_indirect :: region_set where "region_indirect = 512"
definition region_delegate_batch :: region_set where "region_delegate_batch = 1024"
definition region_print_batch :: region_set where "region_print_batch = 2048"

definition region_caller_visible :: region_set where
  "region_caller_visible =
     region_state OR region_params OR region_inputs OR region_outputs OR region_control_outputs
     OR region_buffers OR region_const_data OR region_event_payload OR region_arguments
     OR region_indirect OR region_delegate_batch OR region_print_batch"

definition region_is_empty :: "region_set \<Rightarrow> bool" where
  "region_is_empty s \<longleftrightarrow> s = 0"

definition region_contains :: "region_set \<Rightarrow> region_set \<Rightarrow> bool" where
  "region_contains s t \<longleftrightarrow> s AND t = t"

definition region_intersects :: "region_set \<Rightarrow> region_set \<Rightarrow> bool" where
  "region_intersects s t \<longleftrightarrow> s AND t \<noteq> 0"

definition region_union :: "region_set \<Rightarrow> region_set \<Rightarrow> region_set" where
  "region_union s t = s OR t"

definition region_without :: "region_set \<Rightarrow> region_set \<Rightarrow> region_set" where
  "region_without s t = s AND NOT t"

definition region_insert :: "region_set \<Rightarrow> region_set \<Rightarrow> region_set \<times> bool" where
  "region_insert s t = (s OR t, s OR t \<noteq> s)"

subsection \<open>Effects of a function\<close>

record reference_effects =
  re_reads :: bool
  re_writes :: bool

definition no_reference_effects :: reference_effects where
  "no_reference_effects = \<lparr>re_reads = False, re_writes = False\<rparr>"

definition reference_is_unused :: "reference_effects \<Rightarrow> bool" where
  "reference_is_unused e \<longleftrightarrow> \<not> re_reads e \<and> \<not> re_writes e"

definition reference_merge :: "reference_effects \<Rightarrow> reference_effects \<Rightarrow> reference_effects \<times> bool" where
  "reference_merge e other =
     (let e' = \<lparr>re_reads = re_reads e \<or> re_reads other, re_writes = re_writes e \<or> re_writes other\<rparr>
      in (e', e' \<noteq> e))"

record function_effects =
  fe_reads :: region_set
  fe_writes :: region_set
  fe_parameters :: "reference_effects list"
  fe_may_fail :: bool
  fe_may_not_return :: bool

definition effects_default :: function_effects where
  "effects_default = \<lparr>fe_reads = 0, fe_writes = 0, fe_parameters = [], fe_may_fail = False,
     fe_may_not_return = False\<rparr>"

definition is_memory_free :: "function_effects \<Rightarrow> bool" where
  "is_memory_free e \<longleftrightarrow> region_is_empty (fe_reads e) \<and> region_is_empty (fe_writes e)"

definition is_read_only :: "function_effects \<Rightarrow> bool" where
  "is_read_only e \<longleftrightarrow> region_is_empty (fe_writes e)"

definition has_observable_writes :: "function_effects \<Rightarrow> bool" where
  "has_observable_writes e \<longleftrightarrow> region_intersects (fe_writes e) region_caller_visible"

subsection \<open>Marking\<close>

datatype access = Acc_Read | Acc_Write

definition add_reads :: "region_set \<Rightarrow> function_effects \<Rightarrow> function_effects" where
  "add_reads r e = e\<lparr>fe_reads := fst (region_insert (fe_reads e) r)\<rparr>"

definition add_writes :: "region_set \<Rightarrow> function_effects \<Rightarrow> function_effects" where
  "add_writes r e = e\<lparr>fe_writes := fst (region_insert (fe_writes e) r)\<rparr>"

definition add_failure :: "function_effects \<Rightarrow> function_effects" where
  "add_failure e = e\<lparr>fe_may_fail := True\<rparr>"

definition mark_region :: "region_set \<Rightarrow> access \<Rightarrow> function_effects \<Rightarrow> function_effects" where
  "mark_region r a e = (case a of Acc_Read \<Rightarrow> add_reads r e | Acc_Write \<Rightarrow> add_writes r e)"

definition update_parameter ::
  "nat \<Rightarrow> (reference_effects \<Rightarrow> reference_effects) \<Rightarrow> function_effects \<Rightarrow> function_effects" where
  "update_parameter i f e =
     (if i < length (fe_parameters e)
      then e\<lparr>fe_parameters := (fe_parameters e)[i := f (fe_parameters e ! i)]\<rparr> else e)"

definition mark_parameter :: "parameter_id \<Rightarrow> access \<Rightarrow> function_effects \<Rightarrow> function_effects" where
  "mark_parameter i a e =
     update_parameter i
       (case a of Acc_Read \<Rightarrow> re_reads_update (\<lambda>_. True) | Acc_Write \<Rightarrow> re_writes_update (\<lambda>_. True))
       (mark_region region_arguments a e)"

definition mark_base :: "place_base \<Rightarrow> access \<Rightarrow> function_effects \<Rightarrow> function_effects" where
  "mark_base b a e =
     (case b of
        PB_Local _ \<Rightarrow> e
      | PB_Parameter p \<Rightarrow> mark_parameter p a e
      | PB_State _ \<Rightarrow> mark_region region_state a e
      | PB_Param _ \<Rightarrow> mark_region region_params a e
      | PB_EventParam _ \<Rightarrow> mark_region region_event_payload a e)"

definition mark_checked_bounds :: "bounds_mode \<Rightarrow> function_effects \<Rightarrow> function_effects" where
  "mark_checked_bounds b e = (if b = Checked then add_failure e else e)"

definition mark_dynamic_bounds :: "bounds_mode \<Rightarrow> function_effects \<Rightarrow> function_effects" where
  "mark_dynamic_bounds b e = (if b \<noteq> Unchecked then add_failure e else e)"

text \<open>Scalar values do not dereference storage.\<close>

definition scan_value :: "mir_value \<Rightarrow> function_effects \<Rightarrow> function_effects" where
  "scan_value v e = e"

definition scan_optional_value :: "mir_value option \<Rightarrow> function_effects \<Rightarrow> function_effects" where
  "scan_optional_value v e = (case v of Some x \<Rightarrow> scan_value x e | None \<Rightarrow> e)"

definition mark_buffer_param_ref ::
  "buffer_param_ref \<Rightarrow> access \<Rightarrow> function_effects \<Rightarrow> function_effects" where
  "mark_buffer_param_ref p a e =
     (let e = fold (\<lambda>i. mark_parameter i a) (buffer_param_possible_indices p) e
      in case p of
           BP_ArrayElement _ selector bounds \<Rightarrow> mark_checked_bounds bounds (scan_value selector e)
         | BP_Direct _ \<Rightarrow> e)"

definition scan_buffer_ref :: "buffer_ref \<Rightarrow> function_effects \<Rightarrow> function_effects" where
  "scan_buffer_ref b e =
     (case b of
        BR_ArrayElement _ _ selector bounds \<Rightarrow> mark_checked_bounds bounds (scan_value selector e)
      | BR_Direct _ \<Rightarrow> e)"

definition scan_place_indices :: "place \<Rightarrow> function_effects \<Rightarrow> function_effects" where
  "scan_place_indices p e =
     fold (\<lambda>pr e. case pr of
             P_Index i bounds \<Rightarrow> mark_checked_bounds bounds (scan_value i e)
           | P_Field _ \<Rightarrow> e) (place_projections p) e"

definition scan_place :: "place \<Rightarrow> access \<Rightarrow> function_effects \<Rightarrow> function_effects" where
  "scan_place p a e = mark_base (place_base p) a (scan_place_indices p e)"

definition scan_slice_source :: "slice_source \<Rightarrow> function_effects \<Rightarrow> function_effects" where
  "scan_slice_source s e =
     (case s of
        SS_Place p \<Rightarrow> scan_place p Acc_Read e
      | SS_Buffer b ch \<Rightarrow> scan_optional_value ch (scan_buffer_ref b (add_reads region_buffers e))
      | SS_BufferParam b ch \<Rightarrow> scan_optional_value ch (mark_buffer_param_ref b Acc_Read e)
      | SS_ConstData _ \<Rightarrow> add_reads region_const_data e)"

definition scan_call_argument :: "call_argument \<Rightarrow> function_effects \<Rightarrow> function_effects" where
  "scan_call_argument a e =
     (case a of
        A_Value v \<Rightarrow> scan_value v e
      | A_Place p \<Rightarrow> scan_place_indices p e
      | A_SliceElement s i bounds \<Rightarrow> mark_dynamic_bounds bounds (scan_value i (scan_value s e))
      | A_ArrayWindow p st bounds \<Rightarrow> mark_checked_bounds bounds (scan_value st (scan_place_indices p e))
      | A_SliceWindow s st bounds \<Rightarrow> mark_dynamic_bounds bounds (scan_value st (scan_value s e))
      | A_Buffer b \<Rightarrow> scan_buffer_ref b (add_reads region_buffers e)
      | A_BufferParam p \<Rightarrow> mark_buffer_param_ref p Acc_Read e
      | A_BufferSpan (BS_Interface _ _) \<Rightarrow> add_reads region_buffers e
      | A_BufferSpan (BS_Parameter span _ _) \<Rightarrow>
          update_parameter span (re_reads_update (\<lambda>_. True)) (add_reads region_arguments e))"

definition value_scalar_type ::
  "mir_type list \<Rightarrow> mir_local list \<Rightarrow> mir_value \<Rightarrow> scalar_type option" where
  "value_scalar_type types locals v =
     (case v of
        V_Constant c \<Rightarrow> Some (scalar_ty c)
      | V_Local l \<Rightarrow>
          Option.bind (nth_opt locals l) (\<lambda>lc.
            case nth_opt types (lc_ty lc) of Some (T_Scalar s) \<Rightarrow> Some s | _ \<Rightarrow> None))"

text \<open>A constant divisor other than zero.\<close>

fun is_nonzero_constant :: "mir_value \<Rightarrow> bool" where
  "is_nonzero_constant (V_Constant (I32 v)) = (v \<noteq> 0)"
| "is_nonzero_constant (V_Constant (I64 v)) = (v \<noteq> 0)"
| "is_nonzero_constant _ = False"

definition scan_rvalue ::
  "mir_type list \<Rightarrow> mir_local list \<Rightarrow> rvalue \<Rightarrow> function_effects \<Rightarrow> function_effects" where
  "scan_rvalue types locals r e =
     (case r of
        R_InitAll \<Rightarrow> e
      | R_Use v \<Rightarrow> scan_value v e
      | R_SliceLen v \<Rightarrow> scan_value v e
      | R_Load p \<Rightarrow> scan_place p Acc_Read e
      | R_Unary _ v \<Rightarrow> scan_value v e
      | R_Binary op a b \<Rightarrow>
          (let e = scan_value b (scan_value a e)
           in if op \<in> {Divide, Remainder}
                 \<and> value_scalar_type types locals a \<in> {Some TI32, Some TI64}
                 \<and> \<not> is_nonzero_constant b
              then add_failure e else e)
      | R_Compare _ a b \<Rightarrow> scan_value b (scan_value a e)
      | R_Cast v _ \<Rightarrow> scan_value v e
      | R_Intrinsic _ args \<Rightarrow> fold scan_value args e
      | R_ProcessFrame offset \<Rightarrow> add_failure (scan_value offset e)
      | R_NormalizeIndex i n bounds \<Rightarrow> mark_dynamic_bounds bounds (scan_value n (scan_value i e))
      | R_InputLoad _ el bounds fr \<Rightarrow>
          mark_checked_bounds bounds (scan_value fr (scan_optional_value el (add_reads region_inputs e)))
      | R_OutputLoad _ el bounds fr \<Rightarrow>
          mark_checked_bounds bounds (scan_value fr (scan_optional_value el (add_reads region_outputs e)))
      | R_BufferLoad b ch i bounds \<Rightarrow>
          mark_checked_bounds bounds
            (scan_value i (scan_optional_value ch (scan_buffer_ref b (add_reads region_buffers e))))
      | R_BufferParamLoad p ch i bounds \<Rightarrow>
          mark_checked_bounds bounds
            (scan_value i (scan_optional_value ch
              (add_reads region_indirect (mark_buffer_param_ref p Acc_Read e))))
      | R_BufferLen b \<Rightarrow> scan_buffer_ref b (add_reads region_buffers e)
      | R_BufferChannels b \<Rightarrow> scan_buffer_ref b (add_reads region_buffers e)
      | R_BufferSampleRate b \<Rightarrow> scan_buffer_ref b (add_reads region_buffers e)
      | R_BufferIsBound b \<Rightarrow> scan_buffer_ref b (add_reads region_buffers e)
      | R_BufferParamLen p \<Rightarrow> mark_buffer_param_ref p Acc_Read e
      | R_BufferParamChannels p \<Rightarrow> mark_buffer_param_ref p Acc_Read e
      | R_BufferParamSampleRate p \<Rightarrow> mark_buffer_param_ref p Acc_Read e
      | R_BufferParamIsBound p \<Rightarrow> mark_buffer_param_ref p Acc_Read e
      | R_ConstDataLoad _ i bounds \<Rightarrow>
          mark_checked_bounds bounds (scan_value i (add_reads region_const_data e))
      | R_MakeSlice src st len bounds acc \<Rightarrow>
          (let e = scan_slice_source src e;
               e = (case src of
                      SS_Place p \<Rightarrow>
                        (case place_base p of
                           PB_Parameter _ \<Rightarrow> if acc = ReadWrite then scan_place p Acc_Write e else e
                         | _ \<Rightarrow> e)
                    | _ \<Rightarrow> e)
           in mark_checked_bounds bounds (scan_value len (scan_value st e)))
      | R_SliceLoad s i bounds \<Rightarrow>
          mark_dynamic_bounds bounds (scan_value i (scan_value s (add_reads region_indirect e))))"

definition call_argument_may_fail :: "call_argument \<Rightarrow> bool" where
  "call_argument_may_fail a = fe_may_fail (scan_call_argument a effects_default)"

definition rvalue_may_fail :: "mir_type list \<Rightarrow> mir_local list \<Rightarrow> rvalue \<Rightarrow> bool" where
  "rvalue_may_fail types locals r = fe_may_fail (scan_rvalue types locals r effects_default)"

subsection \<open>Bodies\<close>

record call_site =
  cs_callee :: function_id
  cs_args :: "call_argument list"

definition delegate_may_fail :: "program \<Rightarrow> delegate_id \<Rightarrow> bool" where
  "delegate_may_fail p d =
     (case nth_opt (if_delegates (pr_interface p)) d of
        None \<Rightarrow> False
      | Some dg \<Rightarrow>
          list_ex (\<lambda>f. case pf_ty f of PT_Slice (PT_Struct _ _) \<Rightarrow> True | _ \<Rightarrow> False)
            (schema_params (dg_schema dg))
          \<or> list_ex (\<lambda>q. case nth_opt (pr_types p) (dp_ty q) of Some (T_Array _ _) \<Rightarrow> True | _ \<Rightarrow> False)
              (dg_params dg))"

fun scan_block ::
    "program \<Rightarrow> mir_function \<Rightarrow> block \<Rightarrow> function_effects \<times> call_site list
       \<Rightarrow> function_effects \<times> call_site list"
  and scan_statements ::
    "program \<Rightarrow> mir_function \<Rightarrow> statement list \<Rightarrow> function_effects \<times> call_site list
       \<Rightarrow> function_effects \<times> call_site list"
  and scan_statement ::
    "program \<Rightarrow> mir_function \<Rightarrow> statement \<Rightarrow> function_effects \<times> call_site list
       \<Rightarrow> function_effects \<times> call_site list" where
  "scan_block p f (Block ss) s = scan_statements p f ss s"
| "scan_statements p f [] s = s"
| "scan_statements p f (st # ss) s = scan_statements p f ss (scan_statement p f st s)"
| "scan_statement p f (Statement k src) (e, sites) =
     (case k of
        S_Assign d r \<Rightarrow> (scan_rvalue (pr_types p) (fn_locals f) r (scan_place d Acc_Write e), sites)
      | S_Call _ callee args \<Rightarrow>
          (fold scan_call_argument args e, sites @ [\<lparr>cs_callee = callee, cs_args = args\<rparr>])
      | S_PublishDelegate d args \<Rightarrow>
          (let e = fold scan_call_argument args (add_writes region_delegate_batch e)
           in (if delegate_may_fail p d then add_failure e else e, sites))
      | S_PublishLog _ args \<Rightarrow> (fold scan_value args (add_writes region_print_batch e), sites)
      | S_OutputStore _ el bounds fr _ \<Rightarrow>
          (mark_checked_bounds bounds
             (scan_value fr (scan_optional_value el (add_writes region_outputs e))), sites)
      | S_ControlOutputStore _ el bounds _ \<Rightarrow>
          (mark_checked_bounds bounds
             (scan_optional_value el (add_writes region_control_outputs e)), sites)
      | S_BufferStore b ch i _ bounds \<Rightarrow>
          (mark_checked_bounds bounds (scan_value i (scan_optional_value ch
             (scan_buffer_ref b (add_writes region_buffers e)))), sites)
      | S_BufferParamStore q ch i _ bounds \<Rightarrow>
          (mark_checked_bounds bounds (scan_value i (scan_optional_value ch
             (add_writes region_indirect (mark_buffer_param_ref q Acc_Read e)))), sites)
      | S_SliceStore sl i _ bounds \<Rightarrow>
          (mark_dynamic_bounds bounds (scan_value i (scan_value sl
             (add_writes region_indirect e))), sites)
      | S_SliceFill d _ \<Rightarrow> (scan_value d (add_writes region_indirect e), sites)
      | S_SliceCopy cs pre \<Rightarrow>
          (let e = (if cs \<noteq> [] \<and> pre = Required then add_failure e else e)
           in (fold (\<lambda>c e. scan_value (copy_source c) (scan_value (copy_destination c)
                      (add_writes region_indirect (add_reads region_indirect e)))) cs e, sites))
      | S_If c t el \<Rightarrow> scan_block p f el (scan_block p f t (scan_value c e, sites))
      | S_Loop body \<Rightarrow> scan_block p f body (e\<lparr>fe_may_not_return := True\<rparr>, sites)
      | S_Return vs \<Rightarrow> (fold scan_value vs e, sites)
      | S_Break \<Rightarrow> (e, sites)
      | S_Continue \<Rightarrow> (e, sites))"

subsection \<open>The whole program\<close>

definition declared_parameter_effects :: "program \<Rightarrow> function_param \<Rightarrow> reference_effects" where
  "declared_parameter_effects p q =
     (case nth_opt (pr_types p) (fp_ty q) of
        Some (T_Scalar _) \<Rightarrow> no_reference_effects
      | _ \<Rightarrow>
         (case fp_mode q of
            PM_Value \<Rightarrow> no_reference_effects
          | PM_ReadOnlyReference \<Rightarrow> \<lparr>re_reads = True, re_writes = False\<rparr>
          | PM_ReadWriteReference \<Rightarrow> \<lparr>re_reads = True, re_writes = True\<rparr>
          | PM_ResultReference \<Rightarrow> \<lparr>re_reads = False, re_writes = True\<rparr>))"

definition normalize_value_parameter_effects ::
  "mir_function \<Rightarrow> function_effects \<Rightarrow> function_effects" where
  "normalize_value_parameter_effects f e =
     (let ps = map (\<lambda>(i, x). case nth_opt (fn_params f) i of
                     Some q \<Rightarrow> if fp_mode q = PM_Value then no_reference_effects else x
                   | None \<Rightarrow> x) (enumerate 0 (fe_parameters e));
          e = e\<lparr>fe_parameters := ps\<rparr>;
          e = (if \<not> list_ex re_reads ps
               then e\<lparr>fe_reads := region_without (fe_reads e) region_arguments\<rparr> else e)
      in (if \<not> list_ex re_writes ps
          then e\<lparr>fe_writes := region_without (fe_writes e) region_arguments\<rparr> else e))"

definition direct_effects :: "program \<Rightarrow> mir_function \<Rightarrow> function_effects \<times> call_site list" where
  "direct_effects p f =
     (let e = effects_default\<lparr>fe_parameters := map (declared_parameter_effects p) (fn_params f)\<rparr>;
          e = (if list_ex re_reads (fe_parameters e) then add_reads region_arguments e else e);
          e = (if list_ex re_writes (fe_parameters e) then add_writes region_arguments e else e);
          (e, sites) = scan_block p f (fn_body f) (e, [])
      in (normalize_value_parameter_effects f e, sites))"

definition region_for_base :: "place_base \<Rightarrow> region_set \<times> parameter_id option" where
  "region_for_base b =
     (case b of
        PB_Local _ \<Rightarrow> (0, None)
      | PB_Parameter p \<Rightarrow> (region_arguments, Some p)
      | PB_State _ \<Rightarrow> (region_state, None)
      | PB_Param _ \<Rightarrow> (region_params, None)
      | PB_EventParam _ \<Rightarrow> (region_event_payload, None))"

text \<open>The caller region and the caller parameters an argument lets a callee access.\<close>

definition argument_target :: "mir_function \<Rightarrow> call_argument \<Rightarrow> region_set \<times> parameter_id list" where
  "argument_target f a =
     (let of_place = (\<lambda>pl.
            let (region, q) =
              (case place_base pl of
                 PB_Parameter i \<Rightarrow>
                   if fp_mode (fn_params f ! i) = PM_Value then (0, None)
                   else region_for_base (place_base pl)
               | b \<Rightarrow> region_for_base b)
            in (region, case q of Some i \<Rightarrow> [i] | None \<Rightarrow> []))
      in case a of
           A_BufferParam q \<Rightarrow> (region_arguments, buffer_param_possible_indices q)
         | A_BufferSpan (BS_Parameter span _ _) \<Rightarrow> (region_arguments, [span])
         | A_Place pl \<Rightarrow> of_place pl
         | A_ArrayWindow pl _ _ \<Rightarrow> of_place pl
         | A_SliceElement _ _ _ \<Rightarrow> (region_indirect, [])
         | A_SliceWindow _ _ _ \<Rightarrow> (region_indirect, [])
         | A_Buffer _ \<Rightarrow> (region_buffers, [])
         | A_BufferSpan (BS_Interface _ _) \<Rightarrow> (region_buffers, [])
         | A_Value _ \<Rightarrow> (region_indirect, []))"

text \<open>Updates that report whether they changed anything.\<close>

definition insert_reads :: "region_set \<Rightarrow> function_effects \<times> bool \<Rightarrow> function_effects \<times> bool" where
  "insert_reads r s =
     (let (e, changed) = s; (v, c) = region_insert (fe_reads e) r
      in (e\<lparr>fe_reads := v\<rparr>, changed \<or> c))"

definition insert_writes :: "region_set \<Rightarrow> function_effects \<times> bool \<Rightarrow> function_effects \<times> bool" where
  "insert_writes r s =
     (let (e, changed) = s; (v, c) = region_insert (fe_writes e) r
      in (e\<lparr>fe_writes := v\<rparr>, changed \<or> c))"

definition insert_parameter ::
  "reference_effects \<Rightarrow> nat \<Rightarrow> function_effects \<times> bool \<Rightarrow> function_effects \<times> bool" where
  "insert_parameter a i s =
     (let (e, changed) = s
      in if i < length (fe_parameters e)
         then (let (v, c) = reference_merge (fe_parameters e ! i) a
               in (e\<lparr>fe_parameters := (fe_parameters e)[i := v]\<rparr>, changed \<or> c))
         else s)"

definition merge_argument_effects ::
  "mir_function \<Rightarrow> call_argument \<Rightarrow> reference_effects \<Rightarrow> function_effects \<times> bool
     \<Rightarrow> function_effects \<times> bool" where
  "merge_argument_effects f argument a s =
     (let (region, params) = argument_target f argument;
          s = (if re_reads a then insert_reads region s else s);
          s = (if re_writes a then insert_writes region s else s)
      in fold (insert_parameter a) params s)"

definition merge_call ::
  "mir_function \<Rightarrow> function_effects \<Rightarrow> call_site \<Rightarrow> function_effects \<times> bool \<Rightarrow> function_effects \<times> bool" where
  "merge_call f callee call s =
     (let s = insert_reads (region_without (fe_reads callee) region_arguments) s;
          s = insert_writes (region_without (fe_writes callee) region_arguments) s;
          s = (if fe_may_fail callee \<and> \<not> fe_may_fail (fst s)
               then (fst s\<lparr>fe_may_fail := True\<rparr>, True) else s);
          s = (if fe_may_not_return callee \<and> \<not> fe_may_not_return (fst s)
               then (fst s\<lparr>fe_may_not_return := True\<rparr>, True) else s)
      in fold (\<lambda>(i, a) s.
            if reference_is_unused a then s
            else case nth_opt (cs_args call) i of
                   None \<Rightarrow> s
                 | Some argument \<Rightarrow> merge_argument_effects f argument a s)
          (enumerate 0 (fe_parameters callee)) s)"

text \<open>All sites of one function; a call changes the entry of the caller only.\<close>

fun merge_calls ::
  "mir_function \<Rightarrow> nat \<Rightarrow> call_site list \<Rightarrow> function_effects list \<times> bool
     \<Rightarrow> (function_effects list \<times> bool) option" where
  "merge_calls f caller [] s = Some s"
| "merge_calls f caller (call # sites) (fs, changed) =
     (if length fs \<le> cs_callee call \<or> length fs \<le> caller then None
      else let (e, changed) = merge_call f (fs ! cs_callee call) call (fs ! caller, changed)
           in merge_calls f caller sites (fs[caller := e], changed))"

subsection \<open>Scalar traps\<close>

text \<open>C34: every trap of a scalar operation is announced: when a binary operation on two integers of
  the declared type of its left operand has no result, \<open>rvalue_may_fail\<close> holds of it; only
  division and remainder are ever announced, and never with a non-zero constant divisor.\<close>

theorem binary_trap_announced:
  assumes "value_scalar_type types locals a = Some (scalar_ty x)" and "scalar_ty x \<in> {TI32, TI64}"
    and "eval_scalar e a = Some x" and "eval_scalar e b = Some y" and "scalar_ty y = scalar_ty x"
  shows "(eval_binary op x y = None \<longrightarrow> rvalue_may_fail types locals (R_Binary op a b))
    \<and> (rvalue_may_fail types locals (R_Binary op a b) \<longrightarrow>
         op \<in> {Divide, Remainder} \<and> \<not> is_nonzero_constant b)"
proof
  have announced: "rvalue_may_fail types locals (R_Binary op a b) \<longleftrightarrow>
      op \<in> {Divide, Remainder} \<and> \<not> is_nonzero_constant b"
    using assms(1,2)
    by (simp add: rvalue_may_fail_def scan_rvalue_def scan_value_def add_failure_def effects_default_def Let_def)
  then show "rvalue_may_fail types locals (R_Binary op a b) \<longrightarrow> op \<in> {Divide, Remainder} \<and> \<not> is_nonzero_constant b"
    by simp
  show "eval_binary op x y = None \<longrightarrow> rvalue_may_fail types locals (R_Binary op a b)"
  proof
    assume none: "eval_binary op x y = None"
    consider v u where "x = I32 v" "y = I32 u" | v u where "x = I64 v" "y = I64 u"
      using assms(2,5) by (cases x; cases y) auto
    then have zero: "op \<in> {Divide, Remainder} \<and> int_value y = Some 0"
      using none by cases (auto simp: fold_integer_binary_None)
    moreover have "\<not> is_nonzero_constant b"
      using assms(4) zero by (cases b rule: is_nonzero_constant.cases) (auto simp: eval_scalar_def signed_eq_0_iff)
    ultimately show "rvalue_may_fail types locals (R_Binary op a b)" using announced by simp
  qed
qed

theorem binary_trap_announced_witness:
  "rvalue_may_fail [T_Scalar TI32] [\<lparr>lc_name = None, lc_ty = 0, lc_integer_range = None\<rparr>]
     (R_Binary Divide (V_Constant (I32 7)) (V_Local 0))"
  using binary_trap_announced [of "[T_Scalar TI32]" "[\<lparr>lc_name = None, lc_ty = 0, lc_integer_range = None\<rparr>]"
      "V_Constant (I32 7)" "I32 7" "[0 \<mapsto> Sc (I32 0)]" "V_Local 0" "I32 0" Divide]
  by (simp add: value_scalar_type_def eval_scalar_def)

end
