(* ===== verification/Effect_Solver.thy ===== *)
theory Effect_Solver
  imports Effects
begin

section \<open>The effect solver\<close>

text \<open>
  The worklist loop of \<open>analyze_effects\<close> (\<open>onda_mir/src/analysis.rs\<close>): the order on effect summaries,
  the reporting updates, the merge of one call, the loop with its termination order (missing effects,
  then waiting functions), and the proof that it computes the least solution.
\<close>

subsection \<open>The fixed point\<close>

text \<open>One effect summary is contained in another.\<close>

definition reference_le :: "reference_effects \<Rightarrow> reference_effects \<Rightarrow> bool" where
  "reference_le a b \<longleftrightarrow> (re_reads a \<longrightarrow> re_reads b) \<and> (re_writes a \<longrightarrow> re_writes b)"

definition effects_le :: "function_effects \<Rightarrow> function_effects \<Rightarrow> bool" where
  "effects_le a b \<longleftrightarrow> region_contains (fe_reads b) (fe_reads a) \<and> region_contains (fe_writes b) (fe_writes a)
     \<and> list_all2 reference_le (fe_parameters a) (fe_parameters b)
     \<and> (fe_may_fail a \<longrightarrow> fe_may_fail b) \<and> (fe_may_not_return a \<longrightarrow> fe_may_not_return b)"

lemma region_contains_iff: "region_contains s t \<longleftrightarrow> (\<forall>i < 16. bit t i \<longrightarrow> bit s i)"
  by (auto simp: region_contains_def bit_eq_iff bit_and_iff dest: bit_imp_le_length)

lemma region_contains_refl [simp]: "region_contains s s"
  by (simp add: region_contains_def)

lemma region_contains_trans: "region_contains a b \<Longrightarrow> region_contains b c \<Longrightarrow> region_contains a c"
  by (auto simp: region_contains_iff)

lemma region_contains_antisym: "region_contains a b \<Longrightarrow> region_contains b a \<Longrightarrow> a = b"
  by (simp add: region_contains_def and.commute)

lemma region_contains_or [simp]:
  "region_contains (a OR b) a" "region_contains (a OR b) b"
  "region_contains a (b OR c) \<longleftrightarrow> region_contains a b \<and> region_contains a c"
  by (auto simp: region_contains_iff bit_or_iff)

lemma region_contains_without_mono:
  "region_contains b a \<Longrightarrow> region_contains (region_without b r) (region_without a r)"
  by (auto simp: region_contains_iff region_without_def bit_and_iff bit_not_iff)

lemma reference_le_refl [simp]: "reference_le a a"
  by (simp add: reference_le_def)

lemma reference_le_trans: "reference_le a b \<Longrightarrow> reference_le b c \<Longrightarrow> reference_le a c"
  by (auto simp: reference_le_def)

lemma reference_le_antisym: "reference_le a b \<Longrightarrow> reference_le b a \<Longrightarrow> a = b"
  by (auto simp: reference_le_def intro: reference_effects.equality)

lemma effects_le_refl [simp]: "effects_le a a"
  by (simp add: effects_le_def list_all2_refl)

lemma effects_le_trans: "effects_le a b \<Longrightarrow> effects_le b c \<Longrightarrow> effects_le a c"
  by (auto simp: effects_le_def intro: region_contains_trans
      list_all2_trans [OF reference_le_trans])

lemma effects_le_antisym: "effects_le a b \<Longrightarrow> effects_le b a \<Longrightarrow> a = b"
  by (auto simp: effects_le_def list_all2_antisym [OF reference_le_antisym]
      intro!: function_effects.equality region_contains_antisym)

text \<open>How many effects a summary does not have yet.\<close>

definition reference_room :: "reference_effects \<Rightarrow> nat" where
  "reference_room a = of_bool (\<not> re_reads a) + of_bool (\<not> re_writes a)"

definition effects_room :: "function_effects \<Rightarrow> nat" where
  "effects_room e = unat (NOT (fe_reads e)) + unat (NOT (fe_writes e))
     + sum_list (map reference_room (fe_parameters e))
     + of_bool (\<not> fe_may_fail e) + of_bool (\<not> fe_may_not_return e)"

lemma region_room: "region_contains b a \<Longrightarrow> unat (NOT b) \<le> unat (NOT a)"
proof -
  assume "region_contains b a"
  then have "NOT b = NOT a AND NOT b"
    by (auto simp: region_contains_def bit_eq_iff bit_and_iff bit_not_iff)
  then show ?thesis by (metis word_and_le2 word_le_nat_alt)
qed

lemma reference_room_le: "reference_le a b \<Longrightarrow> reference_room b \<le> reference_room a"
  by (auto simp: reference_le_def reference_room_def)

lemma reference_room_less: "reference_le a b \<Longrightarrow> a \<noteq> b \<Longrightarrow> reference_room b < reference_room a"
  by (cases a; cases b) (auto simp: reference_le_def reference_room_def)

lemma parameters_room:
  "list_all2 reference_le xs ys \<Longrightarrow>
     sum_list (map reference_room ys) \<le> sum_list (map reference_room xs)
     \<and> (xs \<noteq> ys \<longrightarrow> sum_list (map reference_room ys) < sum_list (map reference_room xs))"
proof (induction rule: list_all2_induct)
  case (Cons x xs y ys)
  then show ?case using reference_room_le [of x y] reference_room_less [of x y] by fastforce
qed simp

lemma region_room_less: "region_contains b a \<Longrightarrow> a \<noteq> b \<Longrightarrow> unat (NOT b) < unat (NOT a)"
  using region_room [of b a] by (metis le_neq_implies_less word_unat_eq_iff bit.compl_eq_compl_iff)

lemma effects_room:
  assumes "effects_le a b"
  shows "effects_room b \<le> effects_room a" and "a \<noteq> b \<Longrightarrow> effects_room b < effects_room a"
proof -
  have regions: "unat (NOT (fe_reads b)) \<le> unat (NOT (fe_reads a))"
      "unat (NOT (fe_writes b)) \<le> unat (NOT (fe_writes a))"
      "fe_reads a \<noteq> fe_reads b \<longrightarrow> unat (NOT (fe_reads b)) < unat (NOT (fe_reads a))"
      "fe_writes a \<noteq> fe_writes b \<longrightarrow> unat (NOT (fe_writes b)) < unat (NOT (fe_writes a))"
    using assms region_room region_room_less by (auto simp: effects_le_def)
  note params = parameters_room [of "fe_parameters a" "fe_parameters b"]
  have flags: "fe_may_fail a \<longrightarrow> fe_may_fail b" "fe_may_not_return a \<longrightarrow> fe_may_not_return b"
    and "list_all2 reference_le (fe_parameters a) (fe_parameters b)"
    using assms by (auto simp: effects_le_def)
  then show "effects_room b \<le> effects_room a"
    using regions params unfolding effects_room_def by (auto simp: of_bool_def)
  show "effects_room b < effects_room a" if "a \<noteq> b"
  proof -
    from that consider "fe_reads a \<noteq> fe_reads b" | "fe_writes a \<noteq> fe_writes b"
      | "fe_parameters a \<noteq> fe_parameters b" | "fe_may_fail a \<noteq> fe_may_fail b"
      | "fe_may_not_return a \<noteq> fe_may_not_return b"
      by (cases a; cases b) auto
    then show ?thesis
      using regions params flags \<open>list_all2 _ _ _\<close> unfolding effects_room_def
      by cases (auto simp: of_bool_def)
  qed
qed

text \<open>A reporting update grows the summary, and reports exactly whether it changed.\<close>

definition grows :: "(function_effects \<times> bool \<Rightarrow> function_effects \<times> bool) \<Rightarrow> bool" where
  "grows u \<longleftrightarrow> (\<forall>e c. effects_le e (fst (u (e, c))) \<and> (snd (u (e, c)) \<longleftrightarrow> c \<or> fst (u (e, c)) \<noteq> e))"

lemma growsD: "grows u \<Longrightarrow> u (e, c) = (e', c') \<Longrightarrow> effects_le e e' \<and> (c' \<longleftrightarrow> c \<or> e' \<noteq> e)"
  by (metis grows_def fst_conv snd_conv)

lemma grows_id: "grows (\<lambda>s. s)"
  by (simp add: grows_def)

lemma grows_comp:
  assumes "grows u" and "grows v"
  shows "grows (\<lambda>s. v (u s))"
  unfolding grows_def
proof (intro allI)
  fix e c
  obtain e1 c1 where u: "u (e, c) = (e1, c1)" by fastforce
  obtain e2 c2 where v: "v (e1, c1) = (e2, c2)" by fastforce
  have le1: "effects_le e e1" and le2: "effects_le e1 e2"
    and c12: "c1 \<longleftrightarrow> c \<or> e1 \<noteq> e" "c2 \<longleftrightarrow> c1 \<or> e2 \<noteq> e1"
    using growsD [OF assms(1) u] growsD [OF assms(2) v] by auto
  then show "effects_le e (fst (v (u (e, c)))) \<and> (snd (v (u (e, c))) \<longleftrightarrow> c \<or> fst (v (u (e, c))) \<noteq> e)"
  proof -
    have le: "effects_le e e2" using le1 le2 by (rule effects_le_trans)
    have "e1 = e" if "e2 = e" using le1 le2 that effects_le_antisym by blast
    then show ?thesis using u v le c12 by auto
  qed
qed

lemma grows_if: "grows u \<Longrightarrow> grows (\<lambda>s. if b then u s else s)"
  by (simp add: grows_def)

lemma grows_fold: "(\<And>x. x \<in> set xs \<Longrightarrow> grows (u x)) \<Longrightarrow> grows (fold u xs)"
proof (induction xs)
  case Nil
  then show ?case using grows_id by (simp add: id_def)
next
  case (Cons x xs)
  have "grows (fold u xs)" by (rule Cons.IH) (simp add: Cons.prems)
  moreover have "grows (u x)" by (simp add: Cons.prems)
  ultimately show ?case using grows_comp [of "u x" "fold u xs"] by (simp add: comp_def)
qed

lemma grows_insert_reads: "grows (insert_reads r)"
proof -
  have "e\<lparr>fe_reads := x\<rparr> = e \<longleftrightarrow> x = fe_reads e" for e :: function_effects and x by (cases e) auto
  then show ?thesis
    by (simp add: grows_def insert_reads_def region_insert_def effects_le_def list_all2_refl Let_def)
qed

lemma grows_insert_writes: "grows (insert_writes r)"
proof -
  have "e\<lparr>fe_writes := x\<rparr> = e \<longleftrightarrow> x = fe_writes e" for e :: function_effects and x by (cases e) auto
  then show ?thesis
    by (simp add: grows_def insert_writes_def region_insert_def effects_le_def list_all2_refl Let_def)
qed

lemma reference_merge_le: "reference_le x (fst (reference_merge x a))" "reference_le a (fst (reference_merge x a))"
  by (simp_all add: reference_merge_def reference_le_def Let_def)

lemma grows_insert_parameter: "grows (insert_parameter a i)"
proof -
  have "effects_le e (fst (insert_parameter a i (e, c)))
      \<and> (snd (insert_parameter a i (e, c)) \<longleftrightarrow> c \<or> fst (insert_parameter a i (e, c)) \<noteq> e)" for e c
  proof (cases "i < length (fe_parameters e)")
    case True
    let ?x = "fe_parameters e ! i" and ?v = "fst (reference_merge (fe_parameters e ! i) a)"
    have "list_all2 reference_le (fe_parameters e) ((fe_parameters e)[i := ?v])"
      using True by (auto simp: list_all2_conv_all_nth nth_list_update reference_merge_le)
    moreover have "e\<lparr>fe_parameters := (fe_parameters e)[i := ?v]\<rparr> = e \<longleftrightarrow> ?v = ?x"
      using True by (cases e) (auto simp: list_eq_iff_nth_eq nth_list_update)
    moreover have "snd (reference_merge ?x a) \<longleftrightarrow> ?v \<noteq> ?x"
      by (simp add: reference_merge_def Let_def)
    ultimately show ?thesis
      using True by (simp add: insert_parameter_def effects_le_def split_def Let_def)
  qed (simp add: insert_parameter_def)
  then show ?thesis by (simp add: grows_def)
qed

lemma grows_merge_argument: "grows (merge_argument_effects f argument a)"
proof -
  obtain region params where t: "argument_target f argument = (region, params)" by fastforce
  have eq: "merge_argument_effects f argument a
      = (\<lambda>s. fold (insert_parameter a) params
            ((\<lambda>s. if re_writes a then insert_writes region s else s)
              ((\<lambda>s. if re_reads a then insert_reads region s else s) s)))"
    by (rule ext) (simp add: merge_argument_effects_def t Let_def)
  show ?thesis unfolding eq
    by (rule grows_comp [OF grows_comp [OF grows_if [OF grows_insert_reads] grows_if [OF grows_insert_writes]]
          grows_fold [OF grows_insert_parameter]])
qed

text \<open>The steps of \<open>merge_call\<close>.\<close>

definition merge_flags :: "function_effects \<Rightarrow> function_effects \<times> bool \<Rightarrow> function_effects \<times> bool" where
  "merge_flags callee s =
     (let s = (if fe_may_fail callee \<and> \<not> fe_may_fail (fst s)
               then (fst s\<lparr>fe_may_fail := True\<rparr>, True) else s)
      in (if fe_may_not_return callee \<and> \<not> fe_may_not_return (fst s)
          then (fst s\<lparr>fe_may_not_return := True\<rparr>, True) else s))"

definition merge_parameter ::
  "mir_function \<Rightarrow> call_site \<Rightarrow> nat \<times> reference_effects \<Rightarrow> function_effects \<times> bool \<Rightarrow> function_effects \<times> bool" where
  "merge_parameter f call ia s =
     (if reference_is_unused (snd ia) then s
      else case nth_opt (cs_args call) (fst ia) of
             None \<Rightarrow> s
           | Some argument \<Rightarrow> merge_argument_effects f argument (snd ia) s)"

lemma merge_call_steps:
  "merge_call f callee call s =
     fold (merge_parameter f call) (enumerate 0 (fe_parameters callee))
       (merge_flags callee
         (insert_writes (region_without (fe_writes callee) region_arguments)
           (insert_reads (region_without (fe_reads callee) region_arguments) s)))"
  by (simp add: merge_call_def merge_flags_def merge_parameter_def [abs_def] split_def Let_def)

lemma grows_merge_flags: "grows (merge_flags callee)"
  by (auto simp: grows_def merge_flags_def effects_le_def list_all2_refl Let_def
      dest: arg_cong [where f = fe_may_fail] arg_cong [where f = fe_may_not_return])

lemma grows_merge_parameter: "grows (merge_parameter f call ia)"
  by (cases "nth_opt (cs_args call) (fst ia)"; cases "reference_is_unused (snd ia)")
    (simp_all add: merge_parameter_def [abs_def] grows_id grows_merge_argument)

lemma grows_merge_call: "grows (merge_call f callee call)"
  unfolding merge_call_steps [abs_def]
  by (rule grows_comp [OF grows_comp [OF grows_comp [OF grows_insert_reads grows_insert_writes]
        grows_merge_flags] grows_fold [OF grows_merge_parameter]])

text \<open>What a summary of the caller has to say about one of its calls.\<close>

definition argument_covered ::
  "mir_function \<Rightarrow> reference_effects \<Rightarrow> call_argument \<Rightarrow> function_effects \<Rightarrow> bool" where
  "argument_covered f a argument e \<longleftrightarrow>
     (let (region, params) = argument_target f argument
      in (re_reads a \<longrightarrow> region_contains (fe_reads e) region)
       \<and> (re_writes a \<longrightarrow> region_contains (fe_writes e) region)
       \<and> (\<forall>q \<in> set params. q < length (fe_parameters e) \<longrightarrow> reference_le a (fe_parameters e ! q)))"

definition call_covered ::
  "mir_function \<Rightarrow> function_effects \<Rightarrow> call_site \<Rightarrow> function_effects \<Rightarrow> bool" where
  "call_covered f callee call e \<longleftrightarrow>
     region_contains (fe_reads e) (region_without (fe_reads callee) region_arguments)
   \<and> region_contains (fe_writes e) (region_without (fe_writes callee) region_arguments)
   \<and> (fe_may_fail callee \<longrightarrow> fe_may_fail e) \<and> (fe_may_not_return callee \<longrightarrow> fe_may_not_return e)
   \<and> (\<forall>i < length (fe_parameters callee). \<forall>argument. nth_opt (cs_args call) i = Some argument \<longrightarrow>
        argument_covered f (fe_parameters callee ! i) argument e)"

lemma effects_le_parameter:
  "effects_le e e' \<Longrightarrow> q < length (fe_parameters e) \<Longrightarrow> reference_le (fe_parameters e ! q) (fe_parameters e' ! q)"
  by (simp add: effects_le_def list_all2_conv_all_nth)

lemma effects_le_length: "effects_le e e' \<Longrightarrow> length (fe_parameters e') = length (fe_parameters e)"
  by (simp add: effects_le_def list_all2_conv_all_nth)

lemma argument_covered_mono:
  "argument_covered f a argument e \<Longrightarrow> effects_le e e' \<Longrightarrow> argument_covered f a argument e'"
  unfolding argument_covered_def
  by (auto simp: effects_le_length Let_def split_def effects_le_def
      intro: region_contains_trans reference_le_trans [OF _ effects_le_parameter])

lemma call_covered_mono:
  "call_covered f callee call e \<Longrightarrow> effects_le e e' \<Longrightarrow> call_covered f callee call e'"
  unfolding call_covered_def
  by (blast intro: region_contains_trans argument_covered_mono dest: effects_le_def [THEN iffD1])

lemma covered_insert_reads: "region_contains (fe_reads (fst (insert_reads r s))) r"
  by (cases s) (simp add: insert_reads_def region_insert_def Let_def)

lemma covered_insert_writes: "region_contains (fe_writes (fst (insert_writes r s))) r"
  by (cases s) (simp add: insert_writes_def region_insert_def Let_def)

lemma grows_le: "grows u \<Longrightarrow> effects_le (fst s) (fst (u s))"
  by (metis grows_def prod.collapse)

lemma fold_covers:
  "(\<And>x. x \<in> set xs \<Longrightarrow> grows (u x)) \<Longrightarrow> (\<And>x s. x \<in> set xs \<Longrightarrow> Q x (fst (u x s))) \<Longrightarrow>
     (\<And>x e e'. Q x e \<Longrightarrow> effects_le e e' \<Longrightarrow> Q x e') \<Longrightarrow> x \<in> set xs \<Longrightarrow> Q x (fst (fold u xs s))"
proof (induction xs arbitrary: s)
  case (Cons y xs)
  show ?case
  proof (cases "x = y")
    case True
    have "effects_le (fst (u y s)) (fst (fold u xs (u y s)))"
      by (rule grows_le [OF grows_fold]) (simp add: Cons.prems(1))
    moreover have "Q x (fst (u y s))" using Cons.prems(2) True by simp
    ultimately have "Q x (fst (fold u xs (u y s)))" by (rule Cons.prems(3) [rotated])
    then show ?thesis by simp
  next
    case False
    then have "Q x (fst (fold u xs (u y s)))"
      using Cons.prems by (intro Cons.IH) auto
    then show ?thesis by simp
  qed
qed simp

lemma covered_insert_parameter:
  "q < length (fe_parameters (fst (insert_parameter a q s))) \<Longrightarrow>
     reference_le a (fe_parameters (fst (insert_parameter a q s)) ! q)"
  by (cases s) (auto simp: insert_parameter_def Let_def split_def reference_merge_le)

lemma covered_merge_argument: "argument_covered f a argument (fst (merge_argument_effects f argument a s))"
proof -
  obtain region params where t: "argument_target f argument = (region, params)" by fastforce
  let ?r = "if re_reads a then insert_reads region s else s"
  let ?w = "if re_writes a then insert_writes region ?r else ?r"
  let ?f = "fold (insert_parameter a) params ?w"
  have eq: "merge_argument_effects f argument a s = ?f"
    by (simp add: merge_argument_effects_def t Let_def)
  have wf: "effects_le (fst ?w) (fst ?f)"
    by (rule grows_le [OF grows_fold [OF grows_insert_parameter]])
  have rw: "effects_le (fst ?r) (fst ?w)"
    by (rule grows_le [OF grows_if [OF grows_insert_writes]])
  have "region_contains (fe_reads (fst ?f)) region" if "re_reads a"
  proof -
    have "region_contains (fe_reads (fst ?r)) region" using that by (simp add: covered_insert_reads)
    then show ?thesis using effects_le_trans [OF rw wf] by (auto simp: effects_le_def intro: region_contains_trans)
  qed
  moreover have "region_contains (fe_writes (fst ?f)) region" if "re_writes a"
  proof -
    have "region_contains (fe_writes (fst ?w)) region" using that by (simp add: covered_insert_writes)
    then show ?thesis using wf by (auto simp: effects_le_def intro: region_contains_trans)
  qed
  moreover have "q < length (fe_parameters (fst ?f)) \<longrightarrow> reference_le a (fe_parameters (fst ?f) ! q)"
    if "q \<in> set params" for q
    by (rule fold_covers [OF grows_insert_parameter _ _ that, where
          Q = "\<lambda>q e. q < length (fe_parameters e) \<longrightarrow> reference_le a (fe_parameters e ! q)"])
      (auto simp: covered_insert_parameter effects_le_length
        intro: reference_le_trans [OF _ effects_le_parameter])
  ultimately show ?thesis unfolding eq by (simp add: argument_covered_def t)
qed

lemma unused_covered: "reference_is_unused a \<Longrightarrow> argument_covered f a argument e"
  by (simp add: argument_covered_def reference_is_unused_def reference_le_def split_def)

lemma covered_merge_parameter:
  "nth_opt (cs_args call) (fst ia) = Some argument \<Longrightarrow>
     argument_covered f (snd ia) argument (fst (merge_parameter f call ia s))"
  by (simp add: merge_parameter_def unused_covered covered_merge_argument)

text \<open>After a merge the call is covered.\<close>

lemma merge_call_covers: "call_covered f callee call (fst (merge_call f callee call s))"
proof -
  let ?r = "insert_reads (region_without (fe_reads callee) region_arguments) s"
  let ?w = "insert_writes (region_without (fe_writes callee) region_arguments) ?r"
  let ?g = "merge_flags callee ?w"
  let ?f = "fold (merge_parameter f call) (enumerate 0 (fe_parameters callee)) ?g"
  have gf: "effects_le (fst ?g) (fst ?f)"
    by (rule grows_le [OF grows_fold [OF grows_merge_parameter]])
  have wg: "effects_le (fst ?w) (fst ?g)" by (rule grows_le [OF grows_merge_flags])
  have rw: "effects_le (fst ?r) (fst ?w)" by (rule grows_le [OF grows_insert_writes])
  have wf: "effects_le (fst ?w) (fst ?f)" using wg gf by (rule effects_le_trans)
  have "region_contains (fe_reads (fst ?f)) (region_without (fe_reads callee) region_arguments)"
    using covered_insert_reads effects_le_trans [OF rw wf]
    by (blast intro: region_contains_trans dest: effects_le_def [THEN iffD1])
  moreover have "region_contains (fe_writes (fst ?f)) (region_without (fe_writes callee) region_arguments)"
    using covered_insert_writes wf by (blast intro: region_contains_trans dest: effects_le_def [THEN iffD1])
  moreover have "fe_may_fail callee \<longrightarrow> fe_may_fail (fst ?g)"
      "fe_may_not_return callee \<longrightarrow> fe_may_not_return (fst ?g)"
    by (auto simp: merge_flags_def Let_def)
  then have "fe_may_fail callee \<longrightarrow> fe_may_fail (fst ?f)"
      "fe_may_not_return callee \<longrightarrow> fe_may_not_return (fst ?f)"
    using gf by (auto simp: effects_le_def)
  moreover have "argument_covered f (fe_parameters callee ! i) argument (fst ?f)"
    if "i < length (fe_parameters callee)" "nth_opt (cs_args call) i = Some argument" for i argument
  proof -
    have mem: "(i, fe_parameters callee ! i) \<in> set (enumerate 0 (fe_parameters callee))"
      using that(1) by (simp add: in_set_enumerate_eq)
    have "\<forall>argument. nth_opt (cs_args call) (fst (i, fe_parameters callee ! i)) = Some argument \<longrightarrow>
        argument_covered f (snd (i, fe_parameters callee ! i)) argument (fst ?f)"
      by (rule fold_covers [OF grows_merge_parameter _ _ mem, where
            Q = "\<lambda>ia e. \<forall>argument. nth_opt (cs_args call) (fst ia) = Some argument \<longrightarrow>
              argument_covered f (snd ia) argument e"])
        (auto intro: covered_merge_parameter argument_covered_mono)
    then show ?thesis using that(2) by simp
  qed
  ultimately show ?thesis unfolding merge_call_steps by (simp add: call_covered_def)
qed

text \<open>A merge stays below every covering summary.\<close>

lemma insert_reads_below:
  "effects_le (fst s) E \<Longrightarrow> region_contains (fe_reads E) r \<Longrightarrow> effects_le (fst (insert_reads r s)) E"
  by (cases s) (simp add: insert_reads_def region_insert_def Let_def effects_le_def)

lemma insert_writes_below:
  "effects_le (fst s) E \<Longrightarrow> region_contains (fe_writes E) r \<Longrightarrow> effects_le (fst (insert_writes r s)) E"
  by (cases s) (simp add: insert_writes_def region_insert_def Let_def effects_le_def)

lemma insert_parameter_below:
  assumes "effects_le (fst s) E" and "q < length (fe_parameters E) \<longrightarrow> reference_le a (fe_parameters E ! q)"
  shows "effects_le (fst (insert_parameter a q s)) E"
proof (cases "q < length (fe_parameters (fst s))")
  case True
  have len: "length (fe_parameters E) = length (fe_parameters (fst s))"
    using effects_le_length [OF assms(1)] .
  have "reference_le (fst (reference_merge (fe_parameters (fst s) ! q) a)) (fe_parameters E ! q)"
    using effects_le_parameter [OF assms(1) True] assms(2) True len
    by (auto simp: reference_merge_def reference_le_def Let_def)
  then show ?thesis
    using True assms(1) by (cases s)
      (auto simp: insert_parameter_def effects_le_def Let_def split_def list_all2_conv_all_nth nth_list_update)
next
  case False
  then show ?thesis using assms(1) by (cases s) (simp add: insert_parameter_def)
qed

lemma fold_below:
  "(\<And>x s. x \<in> set xs \<Longrightarrow> effects_le (fst s) E \<Longrightarrow> effects_le (fst (u x s)) E) \<Longrightarrow> effects_le (fst s) E \<Longrightarrow>
     effects_le (fst (fold u xs s)) E"
  by (induction xs arbitrary: s) simp_all

lemma merge_argument_below:
  assumes "effects_le (fst s) E" and "argument_covered f a argument E"
  shows "effects_le (fst (merge_argument_effects f argument a s)) E"
proof -
  obtain region params where t: "argument_target f argument = (region, params)" by fastforce
  note c = assms(2) [unfolded argument_covered_def t, simplified]
  let ?r = "if re_reads a then insert_reads region s else s"
  let ?w = "if re_writes a then insert_writes region ?r else ?r"
  have r: "effects_le (fst ?r) E" using assms(1) c by (simp add: insert_reads_below)
  have w: "effects_le (fst ?w) E"
  proof (cases "re_writes a")
    case True
    then have "region_contains (fe_writes E) region" using c by blast
    from insert_writes_below [OF r this] show ?thesis by (simp only: True if_True)
  qed (simp only: if_False r)
  have "effects_le (fst (fold (insert_parameter a) params ?w)) E"
    by (rule fold_below [OF _ w]) (use c insert_parameter_below in blast)
  then show ?thesis by (simp add: merge_argument_effects_def t Let_def)
qed

lemma argument_covered_anti: "argument_covered f b argument E \<Longrightarrow> reference_le a b \<Longrightarrow> argument_covered f a argument E"
  by (auto simp: argument_covered_def split_def Let_def reference_le_def)

lemma merge_flags_below:
  "effects_le (fst s) E \<Longrightarrow> (fe_may_fail callee \<longrightarrow> fe_may_fail E) \<Longrightarrow>
     (fe_may_not_return callee \<longrightarrow> fe_may_not_return E) \<Longrightarrow> effects_le (fst (merge_flags callee s)) E"
  by (cases s) (auto simp: merge_flags_def effects_le_def Let_def)

lemma merge_call_below:
  assumes "effects_le (fst s) E" and "effects_le callee callee'" and "call_covered f callee' call E"
  shows "effects_le (fst (merge_call f callee call s)) E"
proof -
  let ?r = "insert_reads (region_without (fe_reads callee) region_arguments) s"
  let ?w = "insert_writes (region_without (fe_writes callee) region_arguments) ?r"
  let ?g = "merge_flags callee ?w"
  have cov: "region_contains (fe_reads E) (region_without (fe_reads callee') region_arguments)"
      "region_contains (fe_writes E) (region_without (fe_writes callee') region_arguments)"
      "fe_may_fail callee' \<longrightarrow> fe_may_fail E" "fe_may_not_return callee' \<longrightarrow> fe_may_not_return E"
      "\<And>i argument. i < length (fe_parameters callee') \<Longrightarrow> nth_opt (cs_args call) i = Some argument \<Longrightarrow>
         argument_covered f (fe_parameters callee' ! i) argument E"
    using assms(3) by (simp_all add: call_covered_def)
  have le: "region_contains (fe_reads callee') (fe_reads callee)"
      "region_contains (fe_writes callee') (fe_writes callee)"
      "fe_may_fail callee \<longrightarrow> fe_may_fail callee'" "fe_may_not_return callee \<longrightarrow> fe_may_not_return callee'"
    using assms(2) by (simp_all add: effects_le_def)
  have r: "effects_le (fst ?r) E"
    by (rule insert_reads_below [OF assms(1)
          region_contains_trans [OF cov(1) region_contains_without_mono [OF le(1)]]])
  have w: "effects_le (fst ?w) E"
    by (rule insert_writes_below [OF r
          region_contains_trans [OF cov(2) region_contains_without_mono [OF le(2)]]])
  have g: "effects_le (fst ?g) E"
    using le(3,4) cov(3,4) by (intro merge_flags_below [OF w]) simp_all
  have "effects_le (fst (merge_parameter f call ia t)) E"
    if "ia \<in> set (enumerate 0 (fe_parameters callee))" "effects_le (fst t) E" for ia t
  proof (cases "nth_opt (cs_args call) (fst ia)")
    case (Some argument)
    have i: "fst ia < length (fe_parameters callee)" "snd ia = fe_parameters callee ! fst ia"
      using that(1) in_set_enumerate_eq [of ia 0 "fe_parameters callee"] by simp_all
    have "argument_covered f (fe_parameters callee' ! fst ia) argument E"
      using cov(5) [OF _ Some] i(1) effects_le_length [OF assms(2)] by simp
    then have "argument_covered f (snd ia) argument E"
      using argument_covered_anti effects_le_parameter [OF assms(2) i(1)] i(2) by metis
    then show ?thesis using Some that(2) by (simp add: merge_parameter_def merge_argument_below)
  qed (simp add: merge_parameter_def that(2))
  then show ?thesis unfolding merge_call_steps by (rule fold_below) (use g in auto)
qed

subsection \<open>Merging the calls of one function\<close>

lemma merge_call_grows:
  "merge_call f callee call (e, c) = (e', c') \<Longrightarrow> effects_le e e' \<and> (c' \<longleftrightarrow> c \<or> e' \<noteq> e)"
  by (rule growsD [OF grows_merge_call])

lemma merge_calls_step:
  assumes "caller < length fs" and "\<forall>site \<in> set sites. cs_callee site < length fs"
  shows "\<exists>fs' c'. merge_calls f caller sites (fs, c) = Some (fs', c')
    \<and> (\<exists>e'. fs' = fs[caller := e'] \<and> effects_le (fs ! caller) e' \<and> (c' \<longleftrightarrow> c \<or> e' \<noteq> fs ! caller))"
  using assms
proof (induction sites arbitrary: fs c)
  case Nil
  then show ?case by (auto intro!: exI [of _ "fs ! caller"])
next
  case (Cons site sites)
  obtain e1 c1 where m: "merge_call f (fs ! cs_callee site) site (fs ! caller, c) = (e1, c1)" by fastforce
  note g = merge_call_grows [OF m]
  obtain fs' c' e' where r: "merge_calls f caller sites (fs[caller := e1], c1) = Some (fs', c')"
      "fs' = (fs[caller := e1])[caller := e']" "effects_le (fs[caller := e1] ! caller) e'"
      "c' \<longleftrightarrow> c1 \<or> e' \<noteq> fs[caller := e1] ! caller"
    using Cons.IH [of "fs[caller := e1]" c1] Cons.prems by auto
  have le: "effects_le e1 e'" using r(3) Cons.prems(1) by simp
  have "effects_le (fs ! caller) e'" using g le effects_le_trans by blast
  moreover have "e1 = fs ! caller" if "e' = fs ! caller"
    using g le that effects_le_antisym by blast
  then have "c' \<longleftrightarrow> c \<or> e' \<noteq> fs ! caller" using r(4) g Cons.prems(1) by auto
  moreover have "merge_calls f caller (site # sites) (fs, c) = Some (fs', c')"
    using Cons.prems m r(1) by simp
  ultimately show ?case using r(2) by auto
qed

text \<open>A call of another function is covered afterwards; when nothing changed, every call is.\<close>

lemma merge_calls_covers:
  assumes "caller < length fs" and "merge_calls f caller sites (fs, c) = Some (fs', c')"
    and "site \<in> set sites"
  shows "(cs_callee site \<noteq> caller \<longrightarrow> call_covered f (fs ! cs_callee site) site (fs' ! caller))
    \<and> (\<not> c' \<longrightarrow> call_covered f (fs' ! cs_callee site) site (fs' ! caller))"
  using assms
proof (induction sites arbitrary: fs c)
  case (Cons x sites)
  obtain e1 c1 where m: "merge_call f (fs ! cs_callee x) x (fs ! caller, c) = (e1, c1)" by fastforce
  have range: "cs_callee x < length fs" and rest: "merge_calls f caller sites (fs[caller := e1], c1) = Some (fs', c')"
    using Cons.prems(2) m by (simp_all split: if_splits)
  have callees: "\<forall>site \<in> set sites. cs_callee site < length (fs[caller := e1])"
    if "merge_calls f caller sites (gs, d) = Some r" "length gs = length fs" for gs d r
    using that
  proof (induction sites arbitrary: gs d)
    case (Cons y sites)
    from Cons.prems obtain e2 c2 where "merge_calls f caller sites (gs[caller := e2], c2) = Some r"
        "cs_callee y < length gs" by (auto split: if_splits prod.splits)
    with Cons.IH [of "gs[caller := e2]" c2] Cons.prems(2) show ?case by simp
  qed simp
  obtain e' where e': "fs' = (fs[caller := e1])[caller := e']" "effects_le e1 e'" "c' \<longleftrightarrow> c1 \<or> e' \<noteq> e1"
    using merge_calls_step [of caller "fs[caller := e1]" sites f c1] rest callees [OF rest] Cons.prems(1) by auto
  show ?case
  proof (cases "site \<in> set sites")
    case True
    from Cons.IH [OF _ rest True] Cons.prems(1)
    show ?thesis by (auto simp: nth_list_update)
  next
    case False
    then have x: "site = x" using Cons.prems(3) by simp
    have "call_covered f (fs ! cs_callee x) x e1" using merge_call_covers [of f _ x "(fs ! caller, c)"] m by (metis fst_conv)
    then have cov: "call_covered f (fs ! cs_callee x) x e'" using e'(2) call_covered_mono by blast
    moreover have "fs' ! cs_callee x = fs ! cs_callee x" if "\<not> c'"
    proof -
      have "e1 = fs ! caller" using that e'(3) merge_call_grows [OF m] by blast
      then show ?thesis using that e'(1,3) by (simp add: list_update_id)
    qed
    ultimately show ?thesis using x e'(1) Cons.prems(1) by auto
  qed
qed simp

lemma merge_calls_below:
  assumes "caller < length fs" and "merge_calls f caller sites (fs, c) = Some (fs', c')"
    and "length F = length fs" and "\<forall>i < length fs. effects_le (fs ! i) (F ! i)"
    and "\<forall>site \<in> set sites. call_covered f (F ! cs_callee site) site (F ! caller)"
  shows "\<forall>i < length fs. effects_le (fs' ! i) (F ! i)"
  using assms
proof (induction sites arbitrary: fs c)
  case (Cons x sites)
  obtain e1 c1 where m: "merge_call f (fs ! cs_callee x) x (fs ! caller, c) = (e1, c1)" by fastforce
  have range: "cs_callee x < length fs" and rest: "merge_calls f caller sites (fs[caller := e1], c1) = Some (fs', c')"
    using Cons.prems(2) m by (simp_all split: if_splits)
  have "effects_le e1 (F ! caller)"
    using merge_call_below [of "(fs ! caller, c)" "F ! caller" "fs ! cs_callee x" "F ! cs_callee x" f x]
      Cons.prems(1,4,5) range m by simp
  then have "\<forall>i < length (fs[caller := e1]). effects_le (fs[caller := e1] ! i) (F ! i)"
    using Cons.prems(1,4) by (auto simp: nth_list_update)
  from Cons.IH [OF _ rest _ this] Cons.prems show ?case by simp
qed simp

definition total_room :: "function_effects list \<Rightarrow> nat" where
  "total_room fs = sum_list (map effects_room fs)"

lemma total_room_update:
  "i < length fs \<Longrightarrow> effects_room e \<le> effects_room (fs ! i) \<Longrightarrow>
     total_room (fs[i := e]) \<le> total_room fs
     \<and> (effects_room e < effects_room (fs ! i) \<longrightarrow> total_room (fs[i := e]) < total_room fs)"
proof (induction fs arbitrary: i)
  case (Cons x fs)
  then show ?case by (cases i) (auto simp: total_room_def)
qed simp

lemma merge_calls_room:
  assumes "merge_calls f caller sites (fs, c) = Some (fs', c')"
  shows "total_room fs' \<le> total_room fs \<and> (c' \<and> \<not> c \<longrightarrow> total_room fs' < total_room fs)"
  using assms
proof (induction sites arbitrary: fs c)
  case (Cons x sites)
  obtain e1 c1 where m: "merge_call f (fs ! cs_callee x) x (fs ! caller, c) = (e1, c1)" by fastforce
  have range: "caller < length fs" and rest: "merge_calls f caller sites (fs[caller := e1], c1) = Some (fs', c')"
    using Cons.prems m by (simp_all split: if_splits)
  note g = merge_call_grows [OF m]
  have "effects_room e1 \<le> effects_room (fs ! caller)"
      "e1 \<noteq> fs ! caller \<longrightarrow> effects_room e1 < effects_room (fs ! caller)"
    using effects_room [of "fs ! caller" e1] g by auto
  with total_room_update [OF range, of e1] Cons.IH [OF rest] g
  show ?case by (auto simp: not_less)
qed simp

subsection \<open>The solver\<close>

record effect_analysis =
  ea_functions :: "function_effects list"
  ea_function_visits :: nat

lemma worklist_pop_shorter: "worklist_pop w = Some (x, w') \<Longrightarrow> length (wl_pending w') < length (wl_pending w)"
  by (auto simp: worklist_pop_def split: list.splits)

text \<open>The loop over the worklist. An index outside a table is a panic of the code.\<close>

function solve_effects ::
  "program \<Rightarrow> call_site list list \<Rightarrow> call_graph \<Rightarrow> worklist \<Rightarrow> function_effects list \<Rightarrow> nat \<Rightarrow> effect_analysis option" where
  "solve_effects p sites g w fs visits =
     (case worklist_pop w of
        None \<Rightarrow> Some \<lparr>ea_functions = fs, ea_function_visits = visits\<rparr>
      | Some (caller, w) \<Rightarrow>
          if length sites \<le> caller \<or> length (pr_functions p) \<le> caller \<or> length (cg_callers g) \<le> caller then None
          else case merge_calls (pr_functions p ! caller) caller (sites ! caller) (fs, False) of
                 None \<Rightarrow> None
               | Some (fs, changed) \<Rightarrow>
                   solve_effects p sites g
                     (if changed then fold worklist_push (cg_callers g ! caller) w else w) fs (Suc visits))"
  by pat_completeness auto
termination
  by (relation "measures [\<lambda>(p, sites, g, w, fs, visits). total_room fs,
        \<lambda>(p, sites, g, w, fs, visits). length (wl_pending w)]")
    (auto dest!: merge_calls_room worklist_pop_shorter split: if_splits)

declare solve_effects.simps [simp del]

definition analyze_effects :: "program \<Rightarrow> effect_analysis option" where
  "analyze_effects p =
     (let direct = map (direct_effects p) (pr_functions p)
      in Option.bind (call_graph_new p) (\<lambda>g.
           solve_effects p (map snd direct) g (graph_worklist g) (map fst direct) 0))"

subsection \<open>The call sites of a body\<close>

lemma scan_block_sites:
  "map cs_callee (snd (scan_block p f b s)) = map cs_callee (snd s) @ block_callees b"
  "map cs_callee (snd (scan_statements p f ss s)) = map cs_callee (snd s) @ statements_callees ss"
  "map cs_callee (snd (scan_statement p f st s)) = map cs_callee (snd s) @ statements_callees [st]"
proof (induction p f b s and p f ss s and p f st s rule: scan_block_scan_statements_scan_statement.induct)
  case (3 p f st ss s)
  then show ?case by (cases st) simp
next
  case (4 p f k src e sites)
  then show ?case by (cases k) (simp_all add: Let_def)
qed simp_all

lemma direct_effects_callees:
  "map cs_callee (snd (direct_effects p f)) = block_callees (fn_body f)"
  using scan_block_sites(1) [of p f "fn_body f"] by (simp add: direct_effects_def split_def Let_def)

subsection \<open>The solution\<close>

text \<open>What the summaries of one function have to say.\<close>

definition solved_function ::
  "program \<Rightarrow> call_site list list \<Rightarrow> function_effects list \<Rightarrow> nat \<Rightarrow> bool" where
  "solved_function p sites fs i \<longleftrightarrow>
     (\<forall>site \<in> set (sites ! i). call_covered (pr_functions p ! i) (fs ! cs_callee site) site (fs ! i))"

definition tables_ok :: "program \<Rightarrow> call_site list list \<Rightarrow> call_graph \<Rightarrow> bool" where
  "tables_ok p sites g \<longleftrightarrow> length sites = length (pr_functions p) \<and> length (cg_callers g) = length (pr_functions p)
   \<and> (\<forall>i < length (pr_functions p). \<forall>site \<in> set (sites ! i).
        cs_callee site < length (pr_functions p) \<and> i \<in> set (cg_callers g ! cs_callee site))
   \<and> (\<forall>c < length (pr_functions p). set (cg_callers g ! c) \<subseteq> {..<length (pr_functions p)})"

text \<open>The invariant of the loop.\<close>

definition solving ::
  "program \<Rightarrow> call_site list list \<Rightarrow> worklist \<Rightarrow> function_effects list \<Rightarrow> bool" where
  "solving p sites w fs \<longleftrightarrow> worklist_ok w \<and> length (wl_queued w) = length (pr_functions p)
   \<and> length fs = length (pr_functions p)
   \<and> (\<forall>v < length (pr_functions p). v \<notin> set (wl_pending w) \<longrightarrow> solved_function p sites fs v)"

definition requeue :: "call_graph \<Rightarrow> nat \<Rightarrow> bool \<Rightarrow> nat list" where
  "requeue g x changed = (if changed then cg_callers g ! x else [])"

lemma merged_solved:
  assumes "tables_ok p sites g" and "x < length (pr_functions p)" and "length fs = length (pr_functions p)"
    and "merge_calls (pr_functions p ! x) x (sites ! x) (fs, False) = Some (fs', c')"
    and "fs' = fs[x := e']" and "c' \<longleftrightarrow> e' \<noteq> fs ! x"
  shows "solved_function p sites fs' x \<or> x \<in> set (requeue g x c')"
proof (cases "c' \<and> (\<exists>site \<in> set (sites ! x). cs_callee site = x)")
  case True
  then show ?thesis using assms(1,2) by (auto simp: requeue_def tables_ok_def)
next
  case False
  have "call_covered (pr_functions p ! x) (fs' ! cs_callee site) site (fs' ! x)"
    if s: "site \<in> set (sites ! x)" for site
  proof -
    have "x < length fs" using assms(2,3) by simp
    note covers = merge_calls_covers [OF this assms(4) s]
    show ?thesis
    proof (cases "cs_callee site = x")
      case True
      then have "\<not> c'" using False s by blast
      then show ?thesis using covers by blast
    next
      case other: False
      have "fs' ! cs_callee site = fs ! cs_callee site" unfolding assms(5) using other by simp
      then show ?thesis using covers other by simp
    qed
  qed
  then show ?thesis by (simp add: solved_function_def)
qed

lemma others_solved:
  assumes "tables_ok p sites g" and "fs' = fs[x := e']" and "c' \<longleftrightarrow> e' \<noteq> fs ! x"
    and "v < length (pr_functions p)" and "v \<noteq> x" and "v \<notin> set (requeue g x c')"
    and "solved_function p sites fs v"
  shows "solved_function p sites fs' v"
  unfolding solved_function_def
proof
  fix site assume s: "site \<in> set (sites ! v)"
  have "fs' ! cs_callee site = fs ! cs_callee site"
  proof (cases "cs_callee site = x")
    case True
    then have "v \<in> set (cg_callers g ! x)" using assms(1,4) s by (auto simp: tables_ok_def)
    then have "\<not> c'" using assms(6) by (cases c') (simp_all add: requeue_def)
    then show ?thesis using assms(2,3) by (simp add: list_update_id)
  qed (simp add: assms(2))
  then show "call_covered (pr_functions p ! v) (fs' ! cs_callee site) site (fs' ! v)"
    using assms(2,5,7) s by (simp add: solved_function_def)
qed

lemma solve_step:
  assumes "tables_ok p sites g" and "solving p sites w fs" and "worklist_pop w = Some (x, w')"
  shows "x < length (pr_functions p)
    \<and> (\<exists>fs' c'. merge_calls (pr_functions p ! x) x (sites ! x) (fs, False) = Some (fs', c')
        \<and> solving p sites (fold worklist_push (requeue g x c') w') fs'
        \<and> (\<forall>i < length fs. effects_le (fs ! i) (fs' ! i)))"
proof -
  let ?n = "length (pr_functions p)"
  have ok: "worklist_ok w" and len: "length (wl_queued w) = ?n" "length fs = ?n"
    and solved: "\<And>v. v < ?n \<Longrightarrow> v \<notin> set (wl_pending w) \<Longrightarrow> solved_function p sites fs v"
    using assms(2) by (simp_all add: solving_def)
  note pm = analysis_queue.pop_member [OF ok assms(3)]
  have x: "x < ?n" using pm analysis_queue.member_nodes [OF ok] len(1) by auto
  have "\<forall>site \<in> set (sites ! x). cs_callee site < length fs"
    using assms(1) x len(2) by (auto simp: tables_ok_def)
  then obtain fs' c' e' where m: "merge_calls (pr_functions p ! x) x (sites ! x) (fs, False) = Some (fs', c')"
      "fs' = fs[x := e']" "effects_le (fs ! x) e'" "c' \<longleftrightarrow> e' \<noteq> fs ! x"
    using merge_calls_step [of x fs "sites ! x" "pr_functions p ! x" False] x len(2) by auto
  have xs: "set (requeue g x c') \<subseteq> {..<length (wl_queued w')}"
    using assms(1) x pm len(1) by (cases c') (auto simp: requeue_def tables_ok_def)
  note pa = analysis_queue.push_all [OF pm [THEN conjunct1] xs]
  have step: "solved_function p sites fs' v"
    if "v < ?n" "v \<notin> set (wl_pending (fold worklist_push (requeue g x c') w'))" for v
  proof (rule analysis_queue.step_solved [OF ok assms(3), where xs = "requeue g x c'"
        and solved = "solved_function p sites" and s = fs])
    show "set (requeue g x c') \<subseteq> {..<length (wl_queued w)}" using xs pm by simp
    show "solved_function p sites fs' x \<or> x \<in> set (requeue g x c')"
      by (rule merged_solved [OF assms(1) x len(2) m(1,2,4)])
    show "solved_function p sites fs' u"
      if "u \<in> {..<length (wl_queued w)}" "u \<noteq> x" "u \<notin> set (requeue g x c')" "solved_function p sites fs u" for u
      using others_solved [OF assms(1) m(2,4)] that len(1) by simp
  qed (use that solved len(1) in auto)
  have "solving p sites (fold worklist_push (requeue g x c') w') fs'"
    using pa pm len m(2) step by (simp add: solving_def)
  moreover have "effects_le (fs ! i) (fs' ! i)" if "i < length fs" for i
    using m(2,3) that by (cases "i = x") auto
  ultimately show ?thesis using x m(1) by blast
qed

lemma solve_effects_correct:
  assumes "tables_ok p sites g" and "solving p sites w fs"
  shows "\<exists>a. solve_effects p sites g w fs n = Some a \<and> length (ea_functions a) = length fs
    \<and> (\<forall>i < length fs. effects_le (fs ! i) (ea_functions a ! i))
    \<and> (\<forall>i < length fs. solved_function p sites (ea_functions a) i)
    \<and> (\<forall>F. length F = length fs \<longrightarrow> (\<forall>i < length fs. effects_le (fs ! i) (F ! i)) \<longrightarrow>
         (\<forall>i < length fs. solved_function p sites F i) \<longrightarrow>
         (\<forall>i < length fs. effects_le (ea_functions a ! i) (F ! i)))"
  using assms
proof (induction p sites g w fs n rule: solve_effects.induct)
  case (1 p sites g w fs visits)
  show ?case
  proof (cases "worklist_pop w")
    case None
    have "worklist_ok w" using "1.prems"(2) by (simp add: solving_def)
    from analysis_queue.pop_empty [OF this] None have "set (wl_pending w) = {}" by simp
    then show ?thesis using None "1.prems"(2) by (simp add: solve_effects.simps [of p sites g w] solving_def)
  next
    case (Some r)
    obtain x w' where pop: "worklist_pop w = Some (x, w')" using Some by fastforce
    obtain fs' c' where m: "merge_calls (pr_functions p ! x) x (sites ! x) (fs, False) = Some (fs', c')"
        "solving p sites (fold worklist_push (requeue g x c') w') fs'"
        "\<forall>i < length fs. effects_le (fs ! i) (fs' ! i)" and x: "x < length (pr_functions p)"
      using solve_step [OF "1.prems" pop] by blast
    let ?q = "if c' then fold worklist_push (cg_callers g ! x) w' else w'"
    have q: "fold worklist_push (requeue g x c') w' = ?q" by (simp add: requeue_def)
    have range: "\<not> (length sites \<le> x \<or> length (pr_functions p) \<le> x \<or> length (cg_callers g) \<le> x)"
      using x "1.prems"(1) by (auto simp: tables_ok_def)
    have run: "solve_effects p sites g w fs visits = solve_effects p sites g ?q fs' (Suc visits)"
      using pop m(1) range by (simp add: solve_effects.simps [of p sites g w])
    have len: "length fs' = length fs" using m(2) "1.prems"(2) by (simp add: solving_def)
    from "1.IH" [OF pop refl range m(1) refl "1.prems"(1) m(2) [unfolded q]]
    obtain a where a: "solve_effects p sites g ?q fs' (Suc visits) = Some a" "length (ea_functions a) = length fs"
        "\<forall>i < length fs. effects_le (fs' ! i) (ea_functions a ! i)"
        "\<forall>i < length fs. solved_function p sites (ea_functions a) i"
        "\<And>F. length F = length fs \<Longrightarrow> \<forall>i < length fs. effects_le (fs' ! i) (F ! i) \<Longrightarrow>
           \<forall>i < length fs. solved_function p sites F i \<Longrightarrow> \<forall>i < length fs. effects_le (ea_functions a ! i) (F ! i)"
      unfolding len by blast
    have "\<forall>i < length fs. effects_le (ea_functions a ! i) (F ! i)"
      if F: "length F = length fs" "\<forall>i < length fs. effects_le (fs ! i) (F ! i)"
        "\<forall>i < length fs. solved_function p sites F i" for F
    proof (rule a(5) [OF F(1) _ F(3)])
      show "\<forall>i < length fs. effects_le (fs' ! i) (F ! i)"
        by (rule merge_calls_below [OF _ m(1) F(1,2)])
          (use F(3) x "1.prems"(2) in \<open>auto simp: solved_function_def solving_def\<close>)
    qed
    moreover have "\<forall>i < length fs. effects_le (fs ! i) (ea_functions a ! i)"
      using a(3) m(3) effects_le_trans by metis
    ultimately show ?thesis unfolding run using a(1,2,4) by blast
  qed
qed

lemma calls_in_rangeD: "calls_in_range p \<Longrightarrow> calls p i c \<Longrightarrow> c < length (pr_functions p)"
  by (auto simp: calls_in_range_def calls_def)

lemma direct_site_calls:
  "i < length (pr_functions p) \<Longrightarrow> site \<in> set (snd (direct_effects p (pr_functions p ! i))) \<Longrightarrow>
     calls p i (cs_callee site)"
  unfolding calls_def direct_effects_callees [of p, symmetric] by auto

lemma analyze_effects_solution:
  assumes "calls_in_range p"
  shows "\<exists>a. analyze_effects p = Some a \<and> length (ea_functions a) = length (pr_functions p)
    \<and> (\<forall>i < length (pr_functions p).
         effects_le (fst (direct_effects p (pr_functions p ! i))) (ea_functions a ! i)
       \<and> (\<forall>site \<in> set (snd (direct_effects p (pr_functions p ! i))).
            call_covered (pr_functions p ! i) (ea_functions a ! cs_callee site) site (ea_functions a ! i)))
    \<and> (\<forall>F. length F = length (pr_functions p) \<longrightarrow>
         (\<forall>i < length (pr_functions p).
            effects_le (fst (direct_effects p (pr_functions p ! i))) (F ! i)
          \<and> (\<forall>site \<in> set (snd (direct_effects p (pr_functions p ! i))).
               call_covered (pr_functions p ! i) (F ! cs_callee site) site (F ! i))) \<longrightarrow>
         (\<forall>i < length (pr_functions p). effects_le (ea_functions a ! i) (F ! i)))"
proof -
  let ?n = "length (pr_functions p)"
  let ?direct = "map (direct_effects p) (pr_functions p)"
  obtain g where g: "call_graph_new p = Some g" "length (cg_callees g) = ?n"
      "distinct (cg_postorder g)" "set (cg_postorder g) = {..<?n}" "length (cg_callers g) = ?n"
      "\<And>c i. c < ?n \<Longrightarrow> i \<in> set (cg_callers g ! c) \<longleftrightarrow> calls p i c"
    using call_graph_total [OF assms] by blast
  have site: "cs_callee site < ?n \<and> i \<in> set (cg_callers g ! cs_callee site)"
    if "i < ?n" "site \<in> set (snd (direct_effects p (pr_functions p ! i)))" for i site
    using direct_site_calls [OF that] calls_in_rangeD [OF assms] g(6) by blast
  have callers: "set (cg_callers g ! c) \<subseteq> {..<?n}" if "c < ?n" for c
    using g(6) [OF that] by (auto simp: calls_def)
  have "tables_ok p (map snd ?direct) g"
    using g(5) site callers by (simp add: tables_ok_def)
  moreover have "solving p (map snd ?direct) (graph_worklist g) (map fst ?direct)"
    using g(2-4) graph_worklist_ok [of g] by (simp add: solving_def graph_worklist_def)
  ultimately obtain a where a: "solve_effects p (map snd ?direct) g (graph_worklist g) (map fst ?direct) 0 = Some a"
      "length (ea_functions a) = ?n" "\<forall>i < ?n. effects_le (map fst ?direct ! i) (ea_functions a ! i)"
      "\<forall>i < ?n. solved_function p (map snd ?direct) (ea_functions a) i"
      "\<And>F. length F = ?n \<Longrightarrow> \<forall>i < ?n. effects_le (map fst ?direct ! i) (F ! i) \<Longrightarrow>
         \<forall>i < ?n. solved_function p (map snd ?direct) F i \<Longrightarrow> \<forall>i < ?n. effects_le (ea_functions a ! i) (F ! i)"
    using solve_effects_correct [of p "map snd ?direct" g "graph_worklist g" "map fst ?direct" 0]
    unfolding length_map by blast
  show ?thesis
  proof (intro exI conjI)
    show "analyze_effects p = Some a" using g(1) a(1) by (simp add: analyze_effects_def Let_def)
    show "\<forall>i < ?n. effects_le (fst (direct_effects p (pr_functions p ! i))) (ea_functions a ! i)
       \<and> (\<forall>site \<in> set (snd (direct_effects p (pr_functions p ! i))).
            call_covered (pr_functions p ! i) (ea_functions a ! cs_callee site) site (ea_functions a ! i))"
      using a(3,4) by (simp add: solved_function_def)
    show "\<forall>F. length F = ?n \<longrightarrow> (\<forall>i < ?n. effects_le (fst (direct_effects p (pr_functions p ! i))) (F ! i)
          \<and> (\<forall>site \<in> set (snd (direct_effects p (pr_functions p ! i))).
               call_covered (pr_functions p ! i) (F ! cs_callee site) site (F ! i))) \<longrightarrow>
         (\<forall>i < ?n. effects_le (ea_functions a ! i) (F ! i))"
      using a(5) by (simp add: solved_function_def)
  qed (rule a(2))
qed


text \<open>Two functions that call each other, the second of which reads the state.\<close>

definition recursive_demo :: program where
  "recursive_demo = demo_program
     [demo_function [S_Call [] 1 []] 0,
      demo_function [S_Assign (place_local 0) (R_Load \<lparr>place_base = PB_State 0, place_projections = []\<rparr>),
        S_Call [] 0 []] 1]"

lemma recursive_demo_in_range: "calls_in_range recursive_demo"
  by (simp add: recursive_demo_def calls_in_range_def demo_program_def demo_function_def)


text \<open>C24: effects propagate through every chain of calls: what a function may do, its callers may
  do, however long the chain is; only accesses to a callee's own arguments are left to the
  translation at each call.\<close>

theorem effects_transitive:
  assumes "calls_in_range p" and "analyze_effects p = Some a"
    and "(i, c) \<in> {(i, c). calls p i c}\<^sup>*" and "i < length (pr_functions p)"
  shows "(fe_may_fail (ea_functions a ! c) \<longrightarrow> fe_may_fail (ea_functions a ! i))
    \<and> (fe_may_not_return (ea_functions a ! c) \<longrightarrow> fe_may_not_return (ea_functions a ! i))
    \<and> region_contains (fe_reads (ea_functions a ! i)) (region_without (fe_reads (ea_functions a ! c)) region_arguments)
    \<and> region_contains (fe_writes (ea_functions a ! i)) (region_without (fe_writes (ea_functions a ! c)) region_arguments)"
  using assms(3,4)
proof (induction rule: converse_rtrancl_induct)
  case base
  have "region_contains s (region_without s t)" for s t
    by (auto simp: region_contains_iff region_without_def bit_and_iff)
  then show ?case by simp
next
  case (step i j)
  then have call: "calls p i j" by simp
  then have j: "j < length (pr_functions p)" using calls_in_rangeD [OF assms(1)] by blast
  obtain site where site: "site \<in> set (snd (direct_effects p (pr_functions p ! i)))" "cs_callee site = j"
    using call unfolding calls_def direct_effects_callees [of p, symmetric] by auto
  have "call_covered (pr_functions p ! i) (ea_functions a ! j) site (ea_functions a ! i)"
    using analyze_effects_solution [OF assms(1)] assms(2) step.prems site by auto
  note c = this [unfolded call_covered_def]
  have "region_contains x (region_without z region_arguments)"
    if "region_contains x (region_without y region_arguments)"
      "region_contains y (region_without z region_arguments)" for x y z
    using that by (auto simp: region_contains_iff region_without_def bit_and_iff bit_not_iff)
  then show ?case using c step.IH [OF j] by blast
qed

theorem effects_transitive_witness:
  "\<exists>a. analyze_effects recursive_demo = Some a
    \<and> region_contains (fe_reads (ea_functions a ! 0)) (region_without (fe_reads (ea_functions a ! 1)) region_arguments)"
proof -
  obtain a where a: "analyze_effects recursive_demo = Some a"
    using analyze_effects_solution [OF recursive_demo_in_range] by blast
  have "calls recursive_demo 0 1"
    by (simp add: calls_def recursive_demo_def demo_program_def demo_function_def)
  then have "(0, 1) \<in> {(i, c). calls recursive_demo i c}\<^sup>*" by blast
  moreover have "0 < length (pr_functions recursive_demo)"
    by (simp add: recursive_demo_def demo_program_def)
  ultimately show ?thesis
    using effects_transitive [OF recursive_demo_in_range a, of 0 1] a by blast
qed

lemma push_queued: "\<forall>x \<in> set xs. wl_queued w ! x \<Longrightarrow> fold worklist_push xs w = w"
  by (induction xs) (auto simp: worklist_push_def)

lemma solve_effects_visits:
  assumes "solve_effects p sites g w fs visits = Some a" and "wl_pending w = xs" and "worklist_ok w"
    and "\<And>ys x zs. xs = ys @ x # zs \<Longrightarrow> set (cg_callers g ! x) \<subseteq> set zs"
  shows "ea_function_visits a = visits + length xs"
  using assms
proof (induction xs arbitrary: w fs visits)
  case Nil
  then show ?case by (auto simp: solve_effects.simps [of p sites g w] worklist_pop_def)
next
  case (Cons x xs)
  obtain w' where pop: "worklist_pop w = Some (x, w')" and w': "wl_pending w' = xs"
    using Cons.prems(2) by (simp add: worklist_pop_def)
  have ok: "worklist_ok w'" using analysis_queue.pop_member [OF Cons.prems(3) pop] by blast
  have "set (cg_callers g ! x) \<subseteq> set xs" using Cons.prems(4) [of "[]"] by simp
  then have "fold worklist_push (cg_callers g ! x) w' = w'"
    using ok w' by (intro push_queued) (auto simp: worklist_ok_def)
  then obtain fs' where "solve_effects p sites g w' fs' (Suc visits) = Some a"
    using Cons.prems(1) pop
    by (auto simp: solve_effects.simps [of p sites g w] split: if_splits option.splits)
  moreover have "set (cg_callers g ! y) \<subseteq> set zs" if "xs = ys @ y # zs" for ys y zs
    using Cons.prems(4) [of "x # ys"] that by simp
  ultimately show ?case using Cons.IH [OF _ w' ok] by simp
qed

lemma effects_visited_once:
  assumes "calls_in_range p" and "acyclic {(i, c). calls p i c}" and "analyze_effects p = Some a"
  shows "ea_function_visits a = length (pr_functions p)"
proof -
  let ?n = "length (pr_functions p)"
  obtain g where new: "call_graph_new p = Some g"
    using call_graph_order [OF assms(1,2)] by blast
  have g: "distinct (cg_postorder g)" "set (cg_postorder g) = {..<?n}"
      "\<And>i c. i < length (cg_postorder g) \<Longrightarrow> calls p (cg_postorder g ! i) c \<Longrightarrow> c \<in> set (take i (cg_postorder g))"
      "\<And>c i. c < ?n \<Longrightarrow> i \<in> set (cg_callers g ! c) \<longleftrightarrow> calls p i c"
    using call_graph_order [OF assms(1,2)] new by simp_all
  have len: "length (cg_callees g) = ?n" using call_graph_total [OF assms(1)] new by auto
  have order: "set (cg_callers g ! x) \<subseteq> set zs" if post: "cg_postorder g = ys @ x # zs" for ys x zs
  proof
    fix i assume i: "i \<in> set (cg_callers g ! x)"
    have "x < ?n" using g(2) post by auto
    then have c: "calls p i x" using g(4) i by blast
    then have "i \<in> set (cg_postorder g)" using g(2) by (simp add: calls_def)
    then obtain k where k: "k < length (cg_postorder g)" "cg_postorder g ! k = i"
      by (auto simp: in_set_conv_nth)
    have "x \<in> set (take k (cg_postorder g))" using g(3) k c by blast
    moreover have "x \<notin> set ys" using g(1) post by simp
    ultimately have "length ys < k"
      using post by (auto simp: not_less take_Cons' dest: in_set_takeD split: if_splits)
    then show "i \<in> set zs" using k post by (auto simp: nth_append nth_Cons' split: if_splits)
  qed
  have len_post: "length (cg_postorder g) = ?n"
    using g(1,2) distinct_card [of "cg_postorder g"] by simp
  have ok: "worklist_ok (graph_worklist g)" using g(1,2) len by (intro graph_worklist_ok) simp_all
  have run: "solve_effects p (map snd (map (direct_effects p) (pr_functions p))) g (graph_worklist g)
      (map fst (map (direct_effects p) (pr_functions p))) 0 = Some a"
    using assms(3) new by (simp add: analyze_effects_def Let_def)
  have "wl_pending (graph_worklist g) = cg_postorder g" by (simp add: graph_worklist_def)
  from solve_effects_visits [OF run this ok order] len_post show ?thesis by simp
qed

text \<open>On a program without recursion the analysis looks at every function exactly once,
  whatever the order of the function table: the dependency order of the worklist makes one pass
  enough.\<close>

theorem effects_single_pass:
  assumes "calls_in_range p" and "acyclic {(i, c). calls p i c}" and "analyze_effects p = Some a"
  shows "ea_function_visits a = length (pr_functions p)"
  using assms by (rule effects_visited_once)

text \<open>A function that calls two others, listed after it in the table.\<close>

definition acyclic_demo :: program where
  "acyclic_demo = demo_program
     [demo_function [S_Call [] 1 [], S_Call [] 2 []] 0, demo_function [S_Call [] 2 []] 0, demo_function [] 0]"

theorem effects_single_pass_witness:
  "\<exists>a. analyze_effects acyclic_demo = Some a \<and> ea_function_visits a = 3"
proof -
  have range: "calls_in_range acyclic_demo"
    by (simp add: acyclic_demo_def calls_in_range_def demo_program_def demo_function_def)
  have "{(i, c). calls acyclic_demo i c} \<subseteq> less_than"
    by (auto simp: acyclic_demo_def calls_def demo_program_def demo_function_def nth_Cons' split: if_splits)
  then have "acyclic {(i, c). calls acyclic_demo i c}"
    by (rule acyclic_subset [OF wf_acyclic [OF wf_less_than]])
  moreover obtain a where a: "analyze_effects acyclic_demo = Some a"
    using analyze_effects_solution [OF range] by blast
  ultimately show ?thesis
    using effects_single_pass [OF range] by (simp add: acyclic_demo_def demo_program_def)
qed

end
