(* ===== verification/Parameter_Pruning.thy ===== *)
theory Parameter_Pruning
  imports Effect_Solver
begin

section \<open>Pruning of parameters\<close>

text \<open>
  \<open>onda_mir/src/passes/parameter_pruning.rs\<close>: parameters that a function never mentions and whose arguments cannot fail at any
  call are removed, with their arguments, until nothing changes. A set of used parameters is one flag per parameter; a mapping has the new
  number of each parameter that stays.
\<close>

subsection \<open>Used parameters\<close>

text \<open>A parameter out of range marks everything.\<close>

definition mark_parameter :: "parameter_id \<Rightarrow> bool list \<Rightarrow> bool list" where
  "mark_parameter i used = (if i < length used then used[i := True] else replicate (length used) True)"

definition collect_place_parameters :: "place \<Rightarrow> bool list \<Rightarrow> bool list" where
  "collect_place_parameters pl used = (case place_base pl of PB_Parameter i \<Rightarrow> mark_parameter i used | _ \<Rightarrow> used)"

definition collect_buffer_parameter :: "buffer_param_ref \<Rightarrow> bool list \<Rightarrow> bool list" where
  "collect_buffer_parameter r used = mark_parameter (buffer_param_ref_first r) used"

definition collect_span_parameter :: "buffer_span_ref \<Rightarrow> bool list \<Rightarrow> bool list" where
  "collect_span_parameter r used = (case r of BS_Parameter span _ _ \<Rightarrow> mark_parameter span used | BS_Interface _ _ \<Rightarrow> used)"

definition collect_slice_source_parameters :: "slice_source \<Rightarrow> bool list \<Rightarrow> bool list" where
  "collect_slice_source_parameters s used =
     (case s of
        SS_Place pl \<Rightarrow> collect_place_parameters pl used
      | SS_BufferParam r _ \<Rightarrow> collect_buffer_parameter r used
      | _ \<Rightarrow> used)"

definition collect_rvalue_parameters :: "rvalue \<Rightarrow> bool list \<Rightarrow> bool list" where
  "collect_rvalue_parameters r used =
     (case r of
        R_Load pl \<Rightarrow> collect_place_parameters pl used
      | R_BufferParamLoad b _ _ _ \<Rightarrow> collect_buffer_parameter b used
      | R_BufferParamLen b \<Rightarrow> collect_buffer_parameter b used
      | R_BufferParamChannels b \<Rightarrow> collect_buffer_parameter b used
      | R_BufferParamSampleRate b \<Rightarrow> collect_buffer_parameter b used
      | R_BufferParamIsBound b \<Rightarrow> collect_buffer_parameter b used
      | R_MakeSlice s _ _ _ _ \<Rightarrow> collect_slice_source_parameters s used
      | _ \<Rightarrow> used)"

definition collect_call_argument_parameters :: "call_argument \<Rightarrow> bool list \<Rightarrow> bool list" where
  "collect_call_argument_parameters a used =
     (case a of
        A_Place pl \<Rightarrow> collect_place_parameters pl used
      | A_ArrayWindow pl _ _ \<Rightarrow> collect_place_parameters pl used
      | A_BufferParam r \<Rightarrow> collect_buffer_parameter r used
      | A_BufferSpan r \<Rightarrow> collect_span_parameter r used
      | _ \<Rightarrow> used)"

fun collect_block_parameters :: "block \<Rightarrow> bool list \<Rightarrow> bool list"
  and collect_statements_parameters :: "statement list \<Rightarrow> bool list \<Rightarrow> bool list" where
  "collect_block_parameters (Block ss) used = collect_statements_parameters ss used"
| "collect_statements_parameters [] used = used"
| "collect_statements_parameters (Statement k src # ss) used =
     collect_statements_parameters ss
       (case k of
          S_Assign d r \<Rightarrow> collect_rvalue_parameters r (collect_place_parameters d used)
        | S_Call _ _ args \<Rightarrow> fold collect_call_argument_parameters args used
        | S_PublishDelegate _ args \<Rightarrow> fold collect_call_argument_parameters args used
        | S_BufferParamStore b _ _ _ _ \<Rightarrow> collect_buffer_parameter b used
        | S_If _ t e \<Rightarrow> collect_block_parameters e (collect_block_parameters t used)
        | S_Loop body \<Rightarrow> collect_block_parameters body used
        | _ \<Rightarrow> used)"

subsection \<open>Fallible arguments\<close>

fun mark_fallible :: "bool list \<Rightarrow> call_argument list \<Rightarrow> bool list" where
  "mark_fallible (p # ps) (a # as) = (p \<or> call_argument_may_fail a) # mark_fallible ps as"
| "mark_fallible ps _ = ps"

fun collect_fallible_call_parameters :: "block \<Rightarrow> bool list list \<Rightarrow> bool list list"
  and collect_fallible_statements :: "statement list \<Rightarrow> bool list list \<Rightarrow> bool list list" where
  "collect_fallible_call_parameters (Block ss) fallible = collect_fallible_statements ss fallible"
| "collect_fallible_statements [] fallible = fallible"
| "collect_fallible_statements (Statement k src # ss) fallible =
     collect_fallible_statements ss
       (case k of
          S_Call _ g args \<Rightarrow> if g < length fallible then fallible[g := mark_fallible (fallible ! g) args] else fallible
        | S_If _ t e \<Rightarrow> collect_fallible_call_parameters e (collect_fallible_call_parameters t fallible)
        | S_Loop body \<Rightarrow> collect_fallible_call_parameters body fallible
        | _ \<Rightarrow> fallible)"

definition fallible_call_parameters :: "program \<Rightarrow> bool list list" where
  "fallible_call_parameters p =
     fold (\<lambda>f. collect_fallible_call_parameters (fn_body f)) (pr_functions p)
       (map (\<lambda>f. replicate (length (fn_params f)) False) (pr_functions p))"

fun number_used :: "nat \<Rightarrow> bool list \<Rightarrow> parameter_id option list" where
  "number_used next_id [] = []"
| "number_used next_id (u # us) = (if u then Some next_id # number_used (Suc next_id) us else None # number_used next_id us)"

definition parameter_mapping :: "mir_function \<Rightarrow> bool list \<Rightarrow> parameter_id option list" where
  "parameter_mapping f fallible =
     (if fn_kind f \<noteq> FK_User then map Some [0..<length (fn_params f)]
      else number_used 0 (collect_block_parameters (fn_body f) fallible))"

subsection \<open>Renumbering\<close>

definition mapped_parameter :: "parameter_id option list \<Rightarrow> parameter_id \<Rightarrow> parameter_id" where
  "mapped_parameter m i = (case nth_opt m i of Some (Some j) \<Rightarrow> j | _ \<Rightarrow> i)"

definition rewrite_place_parameter :: "parameter_id option list \<Rightarrow> place \<Rightarrow> place" where
  "rewrite_place_parameter m pl =
     (case place_base pl of PB_Parameter i \<Rightarrow> pl\<lparr>place_base := PB_Parameter (mapped_parameter m i)\<rparr> | _ \<Rightarrow> pl)"

fun rewrite_buffer_parameter :: "parameter_id option list \<Rightarrow> buffer_param_ref \<Rightarrow> buffer_param_ref" where
  "rewrite_buffer_parameter m (BP_Direct i) = BP_Direct (mapped_parameter m i)"
| "rewrite_buffer_parameter m (BP_ArrayElement i v b) = BP_ArrayElement (mapped_parameter m i) v b"

fun rewrite_span_parameter :: "parameter_id option list \<Rightarrow> buffer_span_ref \<Rightarrow> buffer_span_ref" where
  "rewrite_span_parameter m (BS_Parameter i start len) = BS_Parameter (mapped_parameter m i) start len"
| "rewrite_span_parameter m (BS_Interface first len) = BS_Interface first len"

definition rewrite_slice_source_parameters :: "parameter_id option list \<Rightarrow> slice_source \<Rightarrow> slice_source" where
  "rewrite_slice_source_parameters m s =
     (case s of
        SS_Place pl \<Rightarrow> SS_Place (rewrite_place_parameter m pl)
      | SS_BufferParam r c \<Rightarrow> SS_BufferParam (rewrite_buffer_parameter m r) c
      | _ \<Rightarrow> s)"

definition rewrite_rvalue_parameters :: "parameter_id option list \<Rightarrow> rvalue \<Rightarrow> rvalue" where
  "rewrite_rvalue_parameters m r =
     (case r of
        R_Load pl \<Rightarrow> R_Load (rewrite_place_parameter m pl)
      | R_BufferParamLoad b c k bounds \<Rightarrow> R_BufferParamLoad (rewrite_buffer_parameter m b) c k bounds
      | R_BufferParamLen b \<Rightarrow> R_BufferParamLen (rewrite_buffer_parameter m b)
      | R_BufferParamChannels b \<Rightarrow> R_BufferParamChannels (rewrite_buffer_parameter m b)
      | R_BufferParamSampleRate b \<Rightarrow> R_BufferParamSampleRate (rewrite_buffer_parameter m b)
      | R_BufferParamIsBound b \<Rightarrow> R_BufferParamIsBound (rewrite_buffer_parameter m b)
      | R_MakeSlice s start len bounds access \<Rightarrow> R_MakeSlice (rewrite_slice_source_parameters m s) start len bounds access
      | _ \<Rightarrow> r)"

definition rewrite_call_argument_parameters :: "parameter_id option list \<Rightarrow> call_argument \<Rightarrow> call_argument" where
  "rewrite_call_argument_parameters m a =
     (case a of
        A_Place pl \<Rightarrow> A_Place (rewrite_place_parameter m pl)
      | A_ArrayWindow pl start bounds \<Rightarrow> A_ArrayWindow (rewrite_place_parameter m pl) start bounds
      | A_BufferParam r \<Rightarrow> A_BufferParam (rewrite_buffer_parameter m r)
      | A_BufferSpan r \<Rightarrow> A_BufferSpan (rewrite_span_parameter m r)
      | _ \<Rightarrow> a)"

fun rewrite_block_parameters :: "parameter_id option list \<Rightarrow> block \<Rightarrow> block"
  and rewrite_statements_parameters :: "parameter_id option list \<Rightarrow> statement list \<Rightarrow> statement list" where
  "rewrite_block_parameters m (Block ss) = Block (rewrite_statements_parameters m ss)"
| "rewrite_statements_parameters m [] = []"
| "rewrite_statements_parameters m (Statement k src # ss) =
     Statement
       (case k of
          S_Assign d r \<Rightarrow> S_Assign (rewrite_place_parameter m d) (rewrite_rvalue_parameters m r)
        | S_Call rs g args \<Rightarrow> S_Call rs g (map (rewrite_call_argument_parameters m) args)
        | S_PublishDelegate d args \<Rightarrow> S_PublishDelegate d (map (rewrite_call_argument_parameters m) args)
        | S_BufferParamStore b c k v bounds \<Rightarrow> S_BufferParamStore (rewrite_buffer_parameter m b) c k v bounds
        | S_If c t e \<Rightarrow> S_If c (rewrite_block_parameters m t) (rewrite_block_parameters m e)
        | S_Loop body \<Rightarrow> S_Loop (rewrite_block_parameters m body)
        | _ \<Rightarrow> k) src
     # rewrite_statements_parameters m ss"

text \<open>Arguments beyond the mapping stay.\<close>

fun retain_arguments :: "parameter_id option list \<Rightarrow> 'a list \<Rightarrow> 'a list" where
  "retain_arguments (m # ms) (a # as) = (if m \<noteq> None then [a] else []) @ retain_arguments ms as"
| "retain_arguments _ as = as"

fun rewrite_call_arguments :: "parameter_id option list list \<Rightarrow> block \<Rightarrow> block"
  and rewrite_statements_arguments :: "parameter_id option list list \<Rightarrow> statement list \<Rightarrow> statement list" where
  "rewrite_call_arguments ms (Block ss) = Block (rewrite_statements_arguments ms ss)"
| "rewrite_statements_arguments ms [] = []"
| "rewrite_statements_arguments ms (Statement k src # ss) =
     Statement
       (case k of
          S_Call rs g args \<Rightarrow> (case nth_opt ms g of Some m \<Rightarrow> S_Call rs g (retain_arguments m args) | None \<Rightarrow> S_Call rs g args)
        | S_If c t e \<Rightarrow> S_If c (rewrite_call_arguments ms t) (rewrite_call_arguments ms e)
        | S_Loop body \<Rightarrow> S_Loop (rewrite_call_arguments ms body)
        | _ \<Rightarrow> k) src
     # rewrite_statements_arguments ms ss"

subsection \<open>Rounds\<close>

text \<open>The declaration of a parameter is looked up in the mapping; an index out of range is a panic.\<close>

fun retain_params :: "parameter_id option list \<Rightarrow> 'a list \<Rightarrow> 'a list option" where
  "retain_params _ [] = Some []"
| "retain_params [] (_ # _) = None"
| "retain_params (m # ms) (x # xs) = map_option (append (if m \<noteq> None then [x] else [])) (retain_params ms xs)"

definition parameter_mappings :: "program \<Rightarrow> parameter_id option list list" where
  "parameter_mappings p = map (\<lambda>(f, fallible). parameter_mapping f fallible) (zip (pr_functions p) (fallible_call_parameters p))"

definition round_removed :: "parameter_id option list list \<Rightarrow> nat" where
  "round_removed ms = sum_list (map (\<lambda>m. length (filter (\<lambda>entry. entry = None) m)) ms)"

definition prune_function :: "mir_function \<Rightarrow> parameter_id option list \<Rightarrow> mir_function option" where
  "prune_function f m =
     map_option (\<lambda>params. f\<lparr>fn_params := params, fn_body := rewrite_block_parameters m (fn_body f)\<rparr>) (retain_params m (fn_params f))"

definition prune_round :: "program \<Rightarrow> parameter_id option list list \<Rightarrow> program option" where
  "prune_round p ms =
     map_option (\<lambda>fs. p\<lparr>pr_functions := map (\<lambda>f. f\<lparr>fn_body := rewrite_call_arguments ms (fn_body f)\<rparr>) fs\<rparr>)
       (those (map (\<lambda>(f, m). prune_function f m) (zip (pr_functions p) ms)))"

subsection \<open>The parameters and the call sites of a body\<close>

definition place_params :: "place \<Rightarrow> nat set" where
  "place_params pl = (case place_base pl of PB_Parameter i \<Rightarrow> {i} | _ \<Rightarrow> {})"

definition span_params :: "buffer_span_ref \<Rightarrow> nat set" where
  "span_params r = (case r of BS_Parameter i _ _ \<Rightarrow> {i} | _ \<Rightarrow> {})"

definition source_params :: "slice_source \<Rightarrow> nat set" where
  "source_params s = (case s of SS_Place pl \<Rightarrow> place_params pl | SS_BufferParam r _ \<Rightarrow> {buffer_param_ref_first r} | _ \<Rightarrow> {})"

definition rvalue_params :: "rvalue \<Rightarrow> nat set" where
  "rvalue_params r =
     (case r of
        R_Load pl \<Rightarrow> place_params pl
      | R_BufferParamLoad b _ _ _ \<Rightarrow> {buffer_param_ref_first b}
      | R_BufferParamLen b \<Rightarrow> {buffer_param_ref_first b}
      | R_BufferParamChannels b \<Rightarrow> {buffer_param_ref_first b}
      | R_BufferParamSampleRate b \<Rightarrow> {buffer_param_ref_first b}
      | R_BufferParamIsBound b \<Rightarrow> {buffer_param_ref_first b}
      | R_MakeSlice s _ _ _ _ \<Rightarrow> source_params s
      | _ \<Rightarrow> {})"

definition argument_params :: "call_argument \<Rightarrow> nat set" where
  "argument_params a =
     (case a of
        A_Place pl \<Rightarrow> place_params pl
      | A_ArrayWindow pl _ _ \<Rightarrow> place_params pl
      | A_BufferParam r \<Rightarrow> {buffer_param_ref_first r}
      | A_BufferSpan r \<Rightarrow> span_params r
      | _ \<Rightarrow> {})"

fun block_params :: "block \<Rightarrow> nat set" and statements_params :: "statement list \<Rightarrow> nat set" where
  "block_params (Block ss) = statements_params ss"
| "statements_params [] = {}"
| "statements_params (Statement k src # ss) =
     (case k of
        S_Assign d r \<Rightarrow> place_params d \<union> rvalue_params r
      | S_Call _ _ args \<Rightarrow> \<Union> (argument_params ` set args)
      | S_PublishDelegate _ args \<Rightarrow> \<Union> (argument_params ` set args)
      | S_BufferParamStore b _ _ _ _ \<Rightarrow> {buffer_param_ref_first b}
      | S_If _ t e \<Rightarrow> block_params t \<union> block_params e
      | S_Loop body \<Rightarrow> block_params body
      | _ \<Rightarrow> {}) \<union> statements_params ss"

fun block_sites :: "block \<Rightarrow> (nat \<times> call_argument list) set" and statements_sites :: "statement list \<Rightarrow> (nat \<times> call_argument list) set" where
  "block_sites (Block ss) = statements_sites ss"
| "statements_sites [] = {}"
| "statements_sites (Statement k src # ss) =
     (case k of
        S_Call _ g args \<Rightarrow> {(g, args)}
      | S_If _ t e \<Rightarrow> block_sites t \<union> block_sites e
      | S_Loop body \<Rightarrow> block_sites body
      | _ \<Rightarrow> {}) \<union> statements_sites ss"

lemma statements_params_Cons: "statements_params (s # ss) = statements_params [s] \<union> statements_params ss"
  by (cases s) simp

lemma statements_sites_Cons: "statements_sites (s # ss) = statements_sites [s] \<union> statements_sites ss"
  by (cases s) simp

subsection \<open>What the collectors mark\<close>

definition marks :: "bool list \<Rightarrow> nat set" where
  "marks used = {i. i < length used \<and> used ! i}"

text \<open>A collector that marks a set of parameters.\<close>

definition marks_params :: "nat set \<Rightarrow> (bool list \<Rightarrow> bool list) \<Rightarrow> bool" where
  "marks_params S f \<longleftrightarrow>
     (\<forall>used. length (f used) = length used
        \<and> marks (f used) = (if S \<subseteq> {..<length used} then marks used \<union> S else {..<length used}))"

named_theorems marking "collectors and the sets they mark"

lemma marks_params_id [marking]: "marks_params {} (\<lambda>used. used)"
  by (simp add: marks_params_def)

lemma marks_params_comp:
  assumes "marks_params S f" and "marks_params T g"
  shows "marks_params (S \<union> T) (\<lambda>used. g (f used))"
  unfolding marks_params_def
proof (intro allI conjI)
  fix used
  have f: "length (f used) = length used" "marks (f used) = (if S \<subseteq> {..<length used} then marks used \<union> S else {..<length used})"
    using assms(1) by (simp_all add: marks_params_def)
  have g: "length (g (f used)) = length used"
      "marks (g (f used)) = (if T \<subseteq> {..<length used} then marks (f used) \<union> T else {..<length used})"
    using assms(2) f(1) by (simp_all add: marks_params_def)
  show "length (g (f used)) = length used" by (rule g(1))
  show "marks (g (f used)) = (if S \<union> T \<subseteq> {..<length used} then marks used \<union> (S \<union> T) else {..<length used})"
    using f(2) g(2) by auto
qed

lemma mark_parameter_marks [marking]: "marks_params {i} (mark_parameter i)"
  by (auto simp: marks_params_def mark_parameter_def marks_def nth_list_update)

lemma place_marks [marking]: "marks_params (place_params pl) (collect_place_parameters pl)"
  by (cases "place_base pl") (simp_all add: place_params_def collect_place_parameters_def [abs_def] marking)

lemma buffer_marks [marking]: "marks_params {buffer_param_ref_first r} (collect_buffer_parameter r)"
  by (simp add: collect_buffer_parameter_def [abs_def] marking)

lemma span_marks [marking]: "marks_params (span_params r) (collect_span_parameter r)"
  by (cases r) (simp_all add: span_params_def collect_span_parameter_def [abs_def] marking)

lemma source_marks [marking]: "marks_params (source_params s) (collect_slice_source_parameters s)"
  by (cases s) (simp_all add: source_params_def collect_slice_source_parameters_def [abs_def] marking)

lemma rvalue_marks [marking]: "marks_params (rvalue_params r) (collect_rvalue_parameters r)"
  by (cases r) (simp_all add: rvalue_params_def collect_rvalue_parameters_def [abs_def] marking)

lemma argument_marks [marking]: "marks_params (argument_params a) (collect_call_argument_parameters a)"
  by (cases a) (simp_all add: argument_params_def collect_call_argument_parameters_def [abs_def] marking)

lemma arguments_marks [marking]: "marks_params (\<Union> (argument_params ` set as)) (fold collect_call_argument_parameters as)"
proof (induction as)
  case (Cons a as)
  then show ?case using marks_params_comp [OF argument_marks [of a] Cons.IH] by (simp add: comp_def)
qed (simp add: marking id_def)

lemma collect_statements_Cons:
  "collect_statements_parameters (s # ss) = (\<lambda>used. collect_statements_parameters ss (collect_statements_parameters [s] used))"
  by (cases s) (simp add: fun_eq_iff)

lemma collect_statement_fun:
  "collect_statements_parameters [] = (\<lambda>used. used)"
  "collect_block_parameters (Block ss) = collect_statements_parameters ss"
  "collect_statements_parameters [Statement k src] = (\<lambda>used. case k of
          S_Assign d r \<Rightarrow> collect_rvalue_parameters r (collect_place_parameters d used)
        | S_Call _ _ args \<Rightarrow> fold collect_call_argument_parameters args used
        | S_PublishDelegate _ args \<Rightarrow> fold collect_call_argument_parameters args used
        | S_BufferParamStore b _ _ _ _ \<Rightarrow> collect_buffer_parameter b used
        | S_If _ t e \<Rightarrow> collect_block_parameters e (collect_block_parameters t used)
        | S_Loop body \<Rightarrow> collect_block_parameters body used
        | _ \<Rightarrow> used)"
  by (simp_all add: fun_eq_iff)

lemma collect_marks:
  shows "marks_params (statements_params [s]) (collect_statements_parameters [s])"
    and "marks_params (statements_params [Statement k src]) (collect_statements_parameters [Statement k src])"
    and "marks_params (block_params b) (collect_block_parameters b)"
    and "marks_params (statements_params ss) (collect_statements_parameters ss)"
proof (induction s and k and b and ss arbitrary: and src and and rule: mir_induct)
  case (Statement k src)
  then show ?case .
next
  case (Simple k)
  then show ?case
  proof (cases k)
    case (S_Assign d r)
    then show ?thesis using marks_params_comp [OF place_marks [of d] rvalue_marks [of r]] by (simp add: collect_statement_fun)
  qed (simp_all add: collect_statement_fun marking has_blocks_def)
next
  case (If c t e)
  then show ?case using marks_params_comp [OF If] by (simp add: collect_statement_fun)
next
  case (Cons s ss)
  then show ?case using marks_params_comp [OF Cons] unfolding statements_params_Cons [of s ss] collect_statements_Cons [of s ss] by simp
qed (simp_all add: collect_statement_fun marking)

subsection \<open>Fallible arguments\<close>

lemma mark_fallible_length [simp]: "length (mark_fallible ps as) = length ps"
  by (induction ps as rule: mark_fallible.induct) auto

lemma mark_fallible_nth: "i < length ps \<Longrightarrow> mark_fallible ps as ! i \<longleftrightarrow> ps ! i \<or> i < length as \<and> call_argument_may_fail (as ! i)"
  by (induction ps as arbitrary: i rule: mark_fallible.induct) (auto simp: nth_Cons' split: if_splits)

text \<open>The collection over a set of call sites.\<close>

definition fallible_at :: "(nat \<times> call_argument list) set \<Rightarrow> nat \<Rightarrow> nat \<Rightarrow> bool" where
  "fallible_at sites g i \<longleftrightarrow> (\<exists>as. (g, as) \<in> sites \<and> i < length as \<and> call_argument_may_fail (as ! i))"

definition marks_fallible :: "(nat \<times> call_argument list) set \<Rightarrow> (bool list list \<Rightarrow> bool list list) \<Rightarrow> bool" where
  "marks_fallible sites f \<longleftrightarrow>
     (\<forall>t. map length (f t) = map length t
        \<and> (\<forall>g < length t. \<forall>i < length (t ! g). f t ! g ! i \<longleftrightarrow> t ! g ! i \<or> fallible_at sites g i))"

lemma marks_fallible_id: "marks_fallible {} (\<lambda>t. t)"
  by (simp add: marks_fallible_def fallible_at_def)

lemma marks_fallible_comp:
  assumes "marks_fallible S f" and "marks_fallible T g"
  shows "marks_fallible (S \<union> T) (\<lambda>t. g (f t))"
  unfolding marks_fallible_def
proof (intro allI conjI impI)
  fix t
  have f: "map length (f t) = map length t" using assms(1) by (simp add: marks_fallible_def)
  then show "map length (g (f t)) = map length t" using assms(2) by (simp add: marks_fallible_def)
  fix h i assume h: "h < length t" "i < length (t ! h)"
  have "length (f t) = length t" using f by (metis length_map)
  moreover from this have "length (f t ! h) = length (t ! h)" using f h(1) by (metis nth_map)
  ultimately have "g (f t) ! h ! i \<longleftrightarrow> f t ! h ! i \<or> fallible_at T h i" using assms(2) h by (simp add: marks_fallible_def)
  moreover have "f t ! h ! i \<longleftrightarrow> t ! h ! i \<or> fallible_at S h i" using assms(1) h by (simp add: marks_fallible_def)
  moreover have "fallible_at (S \<union> T) h i \<longleftrightarrow> fallible_at S h i \<or> fallible_at T h i" by (auto simp: fallible_at_def)
  ultimately show "g (f t) ! h ! i \<longleftrightarrow> t ! h ! i \<or> fallible_at (S \<union> T) h i" by blast
qed

lemma call_marks_fallible:
  "marks_fallible {(g, as)} (\<lambda>t. if g < length t then t[g := mark_fallible (t ! g) as] else t)"
  by (auto simp: marks_fallible_def fallible_at_def mark_fallible_nth nth_list_update list_eq_iff_nth_eq)

lemma collect_fallible_Cons:
  "collect_fallible_statements (s # ss) = (\<lambda>t. collect_fallible_statements ss (collect_fallible_statements [s] t))"
  by (cases s) (simp add: fun_eq_iff)

lemma collect_fallible_fun:
  "collect_fallible_statements [] = (\<lambda>t. t)"
  "collect_fallible_call_parameters (Block ss) = collect_fallible_statements ss"
  "collect_fallible_statements [Statement k src] = (\<lambda>fallible. case k of
          S_Call _ g args \<Rightarrow> if g < length fallible then fallible[g := mark_fallible (fallible ! g) args] else fallible
        | S_If _ t e \<Rightarrow> collect_fallible_call_parameters e (collect_fallible_call_parameters t fallible)
        | S_Loop body \<Rightarrow> collect_fallible_call_parameters body fallible
        | _ \<Rightarrow> fallible)"
  by (simp_all add: fun_eq_iff)

lemma collect_fallible_marks:
  shows "marks_fallible (statements_sites [s]) (collect_fallible_statements [s])"
    and "marks_fallible (statements_sites [Statement k src]) (collect_fallible_statements [Statement k src])"
    and "marks_fallible (block_sites b) (collect_fallible_call_parameters b)"
    and "marks_fallible (statements_sites ss) (collect_fallible_statements ss)"
proof (induction s and k and b and ss arbitrary: and src and and rule: mir_induct)
  case (Statement k src)
  then show ?case .
next
  case (Simple k)
  then show ?case by (cases k) (simp_all add: collect_fallible_fun marks_fallible_id call_marks_fallible has_blocks_def)
next
  case (If c t e)
  then show ?case using marks_fallible_comp [OF If] by (simp add: collect_fallible_fun)
next
  case (Cons s ss)
  then show ?case using marks_fallible_comp [OF Cons] unfolding statements_sites_Cons [of s ss] collect_fallible_Cons [of s ss] by simp
qed (simp_all add: collect_fallible_fun marks_fallible_id)

text \<open>All call sites of a program.\<close>

definition program_sites :: "program \<Rightarrow> (nat \<times> call_argument list) set" where
  "program_sites p = (\<Union>f \<in> set (pr_functions p). block_sites (fn_body f))"

lemma fold_marks_fallible: "marks_fallible (\<Union>f \<in> set fs. block_sites (fn_body f)) (fold (\<lambda>f. collect_fallible_call_parameters (fn_body f)) fs)"
proof (induction fs)
  case (Cons f fs)
  then show ?case using marks_fallible_comp [OF collect_fallible_marks(3) [of "fn_body f"] Cons.IH] by (simp add: comp_def)
qed (simp add: marks_fallible_id id_def)

lemma fallible_call_parameters_nth:
  shows "length (fallible_call_parameters p) = length (pr_functions p)"
    and "g < length (pr_functions p) \<Longrightarrow> length (fallible_call_parameters p ! g) = length (fn_params (pr_functions p ! g))"
    and "g < length (pr_functions p) \<Longrightarrow> i < length (fn_params (pr_functions p ! g)) \<Longrightarrow>
      fallible_call_parameters p ! g ! i \<longleftrightarrow> fallible_at (program_sites p) g i"
proof -
  let ?t = "map (\<lambda>f. replicate (length (fn_params f)) False) (pr_functions p)"
  note m = fold_marks_fallible [of "pr_functions p", unfolded marks_fallible_def, rule_format, of ?t]
  have "map length (fallible_call_parameters p) = map length ?t" using m by (simp add: fallible_call_parameters_def)
  then show "length (fallible_call_parameters p) = length (pr_functions p)"
    "g < length (pr_functions p) \<Longrightarrow> length (fallible_call_parameters p ! g) = length (fn_params (pr_functions p ! g))"
    by (metis length_map, metis (no_types, lifting) length_map length_replicate nth_map)
  assume "g < length (pr_functions p)" and "i < length (fn_params (pr_functions p ! g))"
  then show "fallible_call_parameters p ! g ! i \<longleftrightarrow> fallible_at (program_sites p) g i"
    using m by (simp add: fallible_call_parameters_def program_sites_def)
qed

subsection \<open>Numbering\<close>

text \<open>The elements whose flag is set.\<close>

definition keep :: "bool list \<Rightarrow> 'a list \<Rightarrow> 'a list" where
  "keep us xs = map fst (filter snd (zip xs us))"

lemma keep_simps [simp]:
  "keep us [] = []" "keep [] xs = []" "keep (u # us) (x # xs) = (if u then [x] else []) @ keep us xs"
  by (simp_all add: keep_def)

lemma keep_length: "length xs = length us \<Longrightarrow> length (keep us xs) = length (filter (\<lambda>u. u) us)"
  by (induction xs us rule: list_induct2) simp_all

lemma keep_map: "keep us (map f xs) = map f (keep us xs)"
  by (induction us xs rule: list_induct2') simp_all

lemma keep_subset: "set (keep us xs) \<subseteq> set xs"
  by (auto simp: keep_def dest: set_zip_leftD)

lemma keep_all: "length xs = n \<Longrightarrow> keep (replicate n True) xs = xs"
  by (induction xs arbitrary: n) auto

text \<open>The flags that keep what \<open>vs\<close> keeps of what \<open>us\<close> keeps.\<close>

fun keep_both :: "bool list \<Rightarrow> bool list \<Rightarrow> bool list" where
  "keep_both [] vs = []"
| "keep_both (False # us) vs = False # keep_both us vs"
| "keep_both (True # us) [] = False # keep_both us []"
| "keep_both (True # us) (v # vs) = v # keep_both us vs"

lemma keep_both_length [simp]: "length (keep_both us vs) = length us"
  by (induction us vs rule: keep_both.induct) simp_all

lemma keep_keep: "keep vs (keep us xs) = keep (keep_both us vs) xs"
proof (induction us vs arbitrary: xs rule: keep_both.induct)
  case (2 us vs)
  then show ?case by (cases xs) simp_all
next
  case (3 us)
  then show ?case by (cases xs) simp_all
next
  case (4 us v vs)
  then show ?case by (cases xs) simp_all
qed simp

lemma number_used_length [simp]: "length (number_used s us) = length us"
  by (induction us arbitrary: s) simp_all

lemma number_used_None: "i < length us \<Longrightarrow> number_used s us ! i = None \<longleftrightarrow> \<not> us ! i"
  by (induction us arbitrary: s i) (auto simp: nth_Cons' split: if_splits)

lemma number_used_count: "length (filter (\<lambda>entry. entry = None) (number_used s us)) = length us - length (filter (\<lambda>u. u) us)"
proof (induction us arbitrary: s)
  case (Cons u us)
  then show ?case using length_filter_le [of id us] by (simp add: Suc_diff_le)
qed simp

lemma number_used_nth:
  "length xs = length us \<Longrightarrow> i < length us \<Longrightarrow> us ! i \<Longrightarrow>
     \<exists>j. number_used s us ! i = Some (s + j) \<and> j < length (keep us xs) \<and> keep us xs ! j = xs ! i"
proof (induction xs us arbitrary: i s rule: list_induct2)
  case (Cons x xs u us)
  show ?case
  proof (cases i)
    case 0
    then show ?thesis using Cons.prems by simp
  next
    case (Suc k)
    then have k: "k < length us" "us ! k" using Cons.prems by simp_all
    from Cons.IH [OF this, of "if u then Suc s else s"] obtain j where
      "number_used (if u then Suc s else s) us ! k = Some ((if u then Suc s else s) + j)" "j < length (keep us xs)" "keep us xs ! j = xs ! k"
      by blast
    then show ?thesis using Suc by (cases u) (auto intro!: exI [of _ "Suc j"])
  qed
qed simp

lemma number_used_all: "number_used s (replicate n True) = map Some [s..<s + n]"
  by (induction n arbitrary: s) (simp_all add: upt_conv_Cons del: upt_Suc)

lemma retain_params_number: "length xs = length us \<Longrightarrow> retain_params (number_used s us) xs = Some (keep us xs)"
  by (induction xs us arbitrary: s rule: list_induct2) simp_all

lemma retain_arguments_number: "length as = length us \<Longrightarrow> retain_arguments (number_used s us) as = keep us as"
  by (induction as us arbitrary: s rule: list_induct2) simp_all

subsection \<open>The flags of a round\<close>

definition used_flags :: "mir_function \<Rightarrow> bool list \<Rightarrow> bool list" where
  "used_flags f fallible =
     (if fn_kind f \<noteq> FK_User then replicate (length (fn_params f)) True else collect_block_parameters (fn_body f) fallible)"

lemma parameter_mapping_flags: "parameter_mapping f fallible = number_used 0 (used_flags f fallible)"
  by (simp add: parameter_mapping_def used_flags_def number_used_all)

definition round_flags :: "program \<Rightarrow> nat \<Rightarrow> bool list" where
  "round_flags p i = used_flags (pr_functions p ! i) (fallible_call_parameters p ! i)"

lemma parameter_mappings_nth:
  shows "length (parameter_mappings p) = length (pr_functions p)"
    and "i < length (pr_functions p) \<Longrightarrow> parameter_mappings p ! i = number_used 0 (round_flags p i)"
  by (simp_all add: parameter_mappings_def fallible_call_parameters_nth(1) parameter_mapping_flags round_flags_def)

lemma round_flags_length: "i < length (pr_functions p) \<Longrightarrow> length (round_flags p i) = length (fn_params (pr_functions p ! i))"
  using collect_marks(3) [of "fn_body (pr_functions p ! i)"] fallible_call_parameters_nth(2) [of i p]
  by (simp add: round_flags_def used_flags_def marks_params_def)

text \<open>A parameter stays exactly when its function is an entry point or mentions it, or some call passes it an argument that can fail.\<close>

lemma round_flags_nth:
  assumes "i < length (pr_functions p)" and "block_params (fn_body (pr_functions p ! i)) \<subseteq> {..<length (fn_params (pr_functions p ! i))}"
    and "k < length (fn_params (pr_functions p ! i))"
  shows "round_flags p i ! k \<longleftrightarrow> fn_kind (pr_functions p ! i) \<noteq> FK_User \<or> k \<in> block_params (fn_body (pr_functions p ! i))
    \<or> fallible_at (program_sites p) i k"
proof -
  let ?f = "pr_functions p ! i" and ?fa = "fallible_call_parameters p ! i"
  have len: "length ?fa = length (fn_params ?f)" using fallible_call_parameters_nth(2) assms(1) by blast
  have marks: "marks (collect_block_parameters (fn_body ?f) ?fa) = marks ?fa \<union> block_params (fn_body ?f)"
    and length: "length (collect_block_parameters (fn_body ?f) ?fa) = length ?fa"
    using collect_marks(3) [of "fn_body ?f"] assms(2) len by (simp_all add: marks_params_def)
  then have "collect_block_parameters (fn_body ?f) ?fa ! k \<longleftrightarrow> ?fa ! k \<or> k \<in> block_params (fn_body ?f)"
    using assms(3) len length by (simp add: marks_def set_eq_iff) metis
  then show ?thesis using fallible_call_parameters_nth(3) [OF assms(1,3)] assms(3) by (auto simp: round_flags_def used_flags_def)
qed

subsection \<open>Rewriting\<close>

lemma rewrite_place_params [simp]: "place_params (rewrite_place_parameter m pl) = mapped_parameter m ` place_params pl"
  by (cases "place_base pl") (simp_all add: rewrite_place_parameter_def place_params_def)

lemma rewrite_buffer_first [simp]: "buffer_param_ref_first (rewrite_buffer_parameter m r) = mapped_parameter m (buffer_param_ref_first r)"
  by (cases r) simp_all

lemma rewrite_span_params [simp]: "span_params (rewrite_span_parameter m r) = mapped_parameter m ` span_params r"
  by (cases r) (simp_all add: span_params_def)

lemma rewrite_source_params [simp]: "source_params (rewrite_slice_source_parameters m s) = mapped_parameter m ` source_params s"
  by (cases s) (simp_all add: rewrite_slice_source_parameters_def source_params_def)

lemma rewrite_rvalue_params [simp]: "rvalue_params (rewrite_rvalue_parameters m r) = mapped_parameter m ` rvalue_params r"
  by (cases r) (simp_all add: rewrite_rvalue_parameters_def rvalue_params_def)

lemma rewrite_argument_params [simp]: "argument_params (rewrite_call_argument_parameters m a) = mapped_parameter m ` argument_params a"
  by (cases a) (simp_all add: rewrite_call_argument_parameters_def argument_params_def)

lemma rewrite_statements_Cons: "rewrite_statements_parameters m (s # ss) = rewrite_statements_parameters m [s] @ rewrite_statements_parameters m ss"
  by (cases s) simp

lemma statements_params_append: "statements_params (xs @ ys) = statements_params xs \<union> statements_params ys"
proof (induction xs)
  case (Cons s xs)
  then show ?case
    by (simp only: append_Cons statements_params_Cons [of s "xs @ ys"] statements_params_Cons [of s xs] Un_assoc)
qed simp

lemma statements_sites_append: "statements_sites (xs @ ys) = statements_sites xs \<union> statements_sites ys"
proof (induction xs)
  case (Cons s xs)
  then show ?case
    by (simp only: append_Cons statements_sites_Cons [of s "xs @ ys"] statements_sites_Cons [of s xs] Un_assoc)
qed simp

definition rewrite_site :: "parameter_id option list \<Rightarrow> nat \<times> call_argument list \<Rightarrow> nat \<times> call_argument list" where
  "rewrite_site m = map_prod id (map (rewrite_call_argument_parameters m))"

lemma rewrite_mentions:
  shows "statements_params (rewrite_statements_parameters m [s]) = mapped_parameter m ` statements_params [s]
      \<and> statements_sites (rewrite_statements_parameters m [s]) = rewrite_site m ` statements_sites [s]"
    and "statements_params (rewrite_statements_parameters m [Statement k src]) = mapped_parameter m ` statements_params [Statement k src]
      \<and> statements_sites (rewrite_statements_parameters m [Statement k src]) = rewrite_site m ` statements_sites [Statement k src]"
    and "block_params (rewrite_block_parameters m b) = mapped_parameter m ` block_params b
      \<and> block_sites (rewrite_block_parameters m b) = rewrite_site m ` block_sites b"
    and "statements_params (rewrite_statements_parameters m ss) = mapped_parameter m ` statements_params ss
      \<and> statements_sites (rewrite_statements_parameters m ss) = rewrite_site m ` statements_sites ss"
proof (induction s and k and b and ss arbitrary: and src and and rule: mir_induct)
  case (Simple k)
  then show ?case by (cases k) (auto simp: has_blocks_def image_Un image_UN rewrite_site_def)
next
  case (Cons s ss)
  then show ?case
    unfolding rewrite_statements_Cons [of m s ss] statements_params_append statements_sites_append
      statements_params_Cons [of s ss] statements_sites_Cons [of s ss] image_Un by simp
qed (simp_all add: image_Un)

definition retain_site :: "parameter_id option list list \<Rightarrow> nat \<times> call_argument list \<Rightarrow> nat \<times> call_argument list" where
  "retain_site ms site = (case nth_opt ms (fst site) of Some m \<Rightarrow> (fst site, retain_arguments m (snd site)) | None \<Rightarrow> site)"

lemma retain_arguments_subset: "set (retain_arguments m as) \<subseteq> set as"
  by (induction m as rule: retain_arguments.induct) auto

lemma rewrite_arguments_Cons: "rewrite_statements_arguments ms (s # ss) = rewrite_statements_arguments ms [s] @ rewrite_statements_arguments ms ss"
  by (cases s) simp

lemma retain_arguments_mentions:
  shows "statements_params (rewrite_statements_arguments ms [s]) \<subseteq> statements_params [s]
      \<and> statements_sites (rewrite_statements_arguments ms [s]) = retain_site ms ` statements_sites [s]"
    and "statements_params (rewrite_statements_arguments ms [Statement k src]) \<subseteq> statements_params [Statement k src]
      \<and> statements_sites (rewrite_statements_arguments ms [Statement k src]) = retain_site ms ` statements_sites [Statement k src]"
    and "block_params (rewrite_call_arguments ms b) \<subseteq> block_params b
      \<and> block_sites (rewrite_call_arguments ms b) = retain_site ms ` block_sites b"
    and "statements_params (rewrite_statements_arguments ms ss) \<subseteq> statements_params ss
      \<and> statements_sites (rewrite_statements_arguments ms ss) = retain_site ms ` statements_sites ss"
proof (induction s and k and b and ss arbitrary: and src and and rule: mir_induct)
  case (Simple k)
  then show ?case
  proof (cases "\<exists>rs g args. k = S_Call rs g args")
    case True
    then obtain rs g args where k: "k = S_Call rs g args" by blast
    have "\<Union> (argument_params ` set (retain_arguments m args)) \<subseteq> \<Union> (argument_params ` set args)" for m
      using retain_arguments_subset [of m args] by blast
    then show ?thesis by (simp add: k retain_site_def split: option.split)
  qed (cases k; simp add: has_blocks_def retain_site_def)
next
  case (Cons s ss)
  then show ?case
    unfolding rewrite_arguments_Cons [of ms s ss] statements_params_append statements_sites_append
      statements_params_Cons [of s ss] statements_sites_Cons [of s ss] image_Un by blast
qed (auto simp: image_Un)

subsection \<open>Ranks\<close>

text \<open>The new number of a kept element: how many before it are kept.\<close>

definition rank :: "bool list \<Rightarrow> nat \<Rightarrow> nat" where
  "rank us k = length (filter (\<lambda>u. u) (take k us))"

lemma rank_simps [simp]: "rank us 0 = 0" "rank [] k = 0" "rank (u # us) (Suc k) = (if u then 1 else 0) + rank us k"
  by (simp_all add: rank_def)

lemma number_used_rank: "k < length us \<Longrightarrow> us ! k \<Longrightarrow> number_used s us ! k = Some (s + rank us k)"
proof (induction us arbitrary: s k)
  case (Cons u us)
  then show ?case by (cases k) auto
qed simp

lemma mapped_parameter_rank: "k < length us \<Longrightarrow> us ! k \<Longrightarrow> mapped_parameter (number_used 0 us) k = rank us k"
  by (simp add: mapped_parameter_def nth_opt_def number_used_rank)

lemma rank_keep: "length xs = length us \<Longrightarrow> k < length us \<Longrightarrow> us ! k \<Longrightarrow> rank us k < length (keep us xs) \<and> keep us xs ! rank us k = xs ! k"
proof (induction xs us arbitrary: k rule: list_induct2)
  case (Cons x xs u us)
  then show ?case by (cases k) auto
qed simp

lemma rank_onto: "length xs = length us \<Longrightarrow> j < length (keep us xs) \<Longrightarrow> \<exists>k < length us. us ! k \<and> rank us k = j"
proof (induction xs us arbitrary: j rule: list_induct2)
  case (Cons x xs u us)
  show ?case
  proof (cases "u \<and> j = 0")
    case True
    then show ?thesis by (intro exI [of _ 0]) simp
  next
    case False
    have "\<exists>k < length us. us ! k \<and> rank us k = (if u then j - 1 else j)" using Cons False by (intro Cons.IH) auto
    then obtain k where "k < length us" "us ! k" "rank us k = (if u then j - 1 else j)" by blast
    then show ?thesis using False by (intro exI [of _ "Suc k"]) auto
  qed
qed simp

lemma keep_both_nth: "k < length us \<Longrightarrow> length vs = length (filter (\<lambda>u. u) us) \<Longrightarrow> keep_both us vs ! k \<longleftrightarrow> us ! k \<and> vs ! rank us k"
proof (induction us vs arbitrary: k rule: keep_both.induct)
  case (2 us vs)
  then show ?case by (cases k) auto
next
  case (4 us v vs)
  then show ?case by (cases k) auto
qed auto

lemma rank_keep_both: "k < length us \<Longrightarrow> us ! k \<Longrightarrow> length vs = length (filter (\<lambda>u. u) us) \<Longrightarrow> rank (keep_both us vs) k = rank vs (rank us k)"
proof (induction us vs arbitrary: k rule: keep_both.induct)
  case (2 us vs)
  then show ?case by (cases k) auto
next
  case (4 us v vs)
  then show ?case by (cases k) auto
qed auto

lemma keep_both_all:
  "length (filter (\<lambda>u. u) us) = length vs \<Longrightarrow> us = replicate (length us) True \<Longrightarrow> vs = replicate (length vs) True \<Longrightarrow> keep_both us vs = replicate (length us) True"
proof -
  have "keep_both (replicate n True) (replicate n True) = replicate n True" for n by (induction n) simp_all
  moreover assume "length (filter (\<lambda>u. u) us) = length vs" and us: "us = replicate (length us) True" and "vs = replicate (length vs) True"
  moreover have "length (filter (\<lambda>u. u) us) = length us" by (subst us) simp
  ultimately show ?thesis by metis
qed

lemma keep_both_count: "length vs = length (filter (\<lambda>u. u) us) \<Longrightarrow> length (filter (\<lambda>u. u) (keep_both us vs)) = length (filter (\<lambda>u. u) vs)"
  by (induction us vs rule: keep_both.induct) auto

subsection \<open>Removing arguments and renaming commute\<close>

lemma retain_arguments_map: "retain_arguments m (map f as) = map f (retain_arguments m as)"
  by (induction m as rule: retain_arguments.induct) auto

lemma rewrite_commute:
  shows "rewrite_statements_arguments ms (rewrite_statements_parameters m [s]) = rewrite_statements_parameters m (rewrite_statements_arguments ms [s])"
    and "rewrite_statements_arguments ms (rewrite_statements_parameters m [Statement k src]) = rewrite_statements_parameters m (rewrite_statements_arguments ms [Statement k src])"
    and "rewrite_call_arguments ms (rewrite_block_parameters m b) = rewrite_block_parameters m (rewrite_call_arguments ms b)"
    and "rewrite_statements_arguments ms (rewrite_statements_parameters m ss) = rewrite_statements_parameters m (rewrite_statements_arguments ms ss)"
proof (induction s and k and b and ss arbitrary: and src and and rule: mir_induct)
  case (Simple k)
  then show ?case by (cases k) (auto simp: has_blocks_def retain_arguments_map split: option.splits)
next
  case (Cons s ss)
  obtain k src where s: "s = Statement k src" by (cases s)
  show ?case using Cons unfolding s by simp
qed simp_all

lemma rename_compose_parts:
  assumes "\<forall>k \<in> S. mapped_parameter m' (mapped_parameter m k) = mapped_parameter m'' k"
  shows "place_params pl \<subseteq> S \<Longrightarrow> rewrite_place_parameter m' (rewrite_place_parameter m pl) = rewrite_place_parameter m'' pl"
    and "buffer_param_ref_first r \<in> S \<Longrightarrow> rewrite_buffer_parameter m' (rewrite_buffer_parameter m r) = rewrite_buffer_parameter m'' r"
    and "span_params sp \<subseteq> S \<Longrightarrow> rewrite_span_parameter m' (rewrite_span_parameter m sp) = rewrite_span_parameter m'' sp"
proof -
  show "place_params pl \<subseteq> S \<Longrightarrow> rewrite_place_parameter m' (rewrite_place_parameter m pl) = rewrite_place_parameter m'' pl"
    using assms by (cases "place_base pl") (simp_all add: rewrite_place_parameter_def place_params_def)
  show "buffer_param_ref_first r \<in> S \<Longrightarrow> rewrite_buffer_parameter m' (rewrite_buffer_parameter m r) = rewrite_buffer_parameter m'' r"
    using assms by (cases r) simp_all
  show "span_params sp \<subseteq> S \<Longrightarrow> rewrite_span_parameter m' (rewrite_span_parameter m sp) = rewrite_span_parameter m'' sp"
    using assms by (cases sp) (simp_all add: span_params_def)
qed

lemma rename_compose_rvalue:
  assumes "\<forall>k \<in> S. mapped_parameter m' (mapped_parameter m k) = mapped_parameter m'' k"
  shows "rvalue_params r \<subseteq> S \<Longrightarrow> rewrite_rvalue_parameters m' (rewrite_rvalue_parameters m r) = rewrite_rvalue_parameters m'' r"
    and "argument_params a \<subseteq> S \<Longrightarrow> rewrite_call_argument_parameters m' (rewrite_call_argument_parameters m a) = rewrite_call_argument_parameters m'' a"
proof -
  note parts = rename_compose_parts [OF assms]
  have "source_params s \<subseteq> S \<Longrightarrow> rewrite_slice_source_parameters m' (rewrite_slice_source_parameters m s) = rewrite_slice_source_parameters m'' s" for s
    by (cases s) (simp_all add: rewrite_slice_source_parameters_def source_params_def parts)
  then show "rvalue_params r \<subseteq> S \<Longrightarrow> rewrite_rvalue_parameters m' (rewrite_rvalue_parameters m r) = rewrite_rvalue_parameters m'' r"
    by (cases r) (simp_all add: rewrite_rvalue_parameters_def rvalue_params_def parts)
  show "argument_params a \<subseteq> S \<Longrightarrow> rewrite_call_argument_parameters m' (rewrite_call_argument_parameters m a) = rewrite_call_argument_parameters m'' a"
    by (cases a) (simp_all add: rewrite_call_argument_parameters_def argument_params_def parts)
qed

lemma rename_compose:
  assumes "\<forall>k \<in> S. mapped_parameter m' (mapped_parameter m k) = mapped_parameter m'' k"
  shows "statements_params [s] \<subseteq> S \<Longrightarrow>
      rewrite_statements_parameters m' (rewrite_statements_parameters m [s]) = rewrite_statements_parameters m'' [s]"
    and "statements_params [Statement k src] \<subseteq> S \<Longrightarrow>
      rewrite_statements_parameters m' (rewrite_statements_parameters m [Statement k src]) = rewrite_statements_parameters m'' [Statement k src]"
    and "block_params b \<subseteq> S \<Longrightarrow> rewrite_block_parameters m' (rewrite_block_parameters m b) = rewrite_block_parameters m'' b"
    and "statements_params ss \<subseteq> S \<Longrightarrow> rewrite_statements_parameters m' (rewrite_statements_parameters m ss) = rewrite_statements_parameters m'' ss"
proof (induction s and k and b and ss arbitrary: and src and and rule: mir_induct)
  case (Simple k)
  then show ?case
    by (cases k) (auto simp: has_blocks_def UN_subset_iff rename_compose_parts [OF assms] rename_compose_rvalue [OF assms])
next
  case (Cons s ss)
  obtain k src where s: "s = Statement k src" by (cases s)
  show ?case using Cons unfolding s by simp
qed simp_all

subsection \<open>Removing arguments twice\<close>

definition flag_mappings :: "nat \<Rightarrow> (nat \<Rightarrow> bool list) \<Rightarrow> parameter_id option list list" where
  "flag_mappings n F = map (\<lambda>i. number_used 0 (F i)) [0..<n]"

lemma flag_mappings_nth [simp]: "g < n \<Longrightarrow> nth_opt (flag_mappings n F) g = Some (number_used 0 (F g))"
  by (simp add: flag_mappings_def nth_opt_def)

lemma remove_twice:
  assumes "\<forall>g < n. length (G g) = length (filter (\<lambda>u. u) (F g))"
  defines "R \<equiv> \<lambda>F. rewrite_statements_arguments (flag_mappings n F)" and "H \<equiv> \<lambda>i. keep_both (F i) (G i)"
  shows "\<forall>(g, as) \<in> statements_sites [s]. g < n \<and> length as = length (F g) \<Longrightarrow> R G (R F [s]) = R H [s]"
    and "\<forall>(g, as) \<in> statements_sites [Statement k src]. g < n \<and> length as = length (F g) \<Longrightarrow> R G (R F [Statement k src]) = R H [Statement k src]"
    and "\<forall>(g, as) \<in> block_sites b. g < n \<and> length as = length (F g) \<Longrightarrow>
      rewrite_call_arguments (flag_mappings n G) (rewrite_call_arguments (flag_mappings n F) b) = rewrite_call_arguments (flag_mappings n H) b"
    and "\<forall>(g, as) \<in> statements_sites ss. g < n \<and> length as = length (F g) \<Longrightarrow> R G (R F ss) = R H ss"
proof (induction s and k and b and ss arbitrary: and src and and rule: mir_induct)
  case (Simple k)
  then show ?case
    using assms(1) by (cases k) (auto simp: R_def H_def has_blocks_def retain_arguments_number keep_length keep_keep)
next
  case (Cons s ss)
  obtain k src where s: "s = Statement k src" by (cases s)
  show ?case using Cons unfolding s R_def by (simp add: ball_Un)
qed (auto simp: R_def)

subsection \<open>Pruning by flags\<close>

definition pruned_function :: "program \<Rightarrow> (nat \<Rightarrow> bool list) \<Rightarrow> nat \<Rightarrow> mir_function" where
  "pruned_function p F i =
     (let f = pr_functions p ! i in
      f\<lparr>fn_params := keep (F i) (fn_params f),
        fn_body := rewrite_block_parameters (number_used 0 (F i)) (rewrite_call_arguments (flag_mappings (length (pr_functions p)) F) (fn_body f))\<rparr>)"

text \<open>All parameters without a flag, and the arguments for them, taken out at once, and the parameters that stay renamed once.\<close>

definition pruned_by :: "program \<Rightarrow> (nat \<Rightarrow> bool list) \<Rightarrow> program" where
  "pruned_by p F = p\<lparr>pr_functions := map (pruned_function p F) [0..<length (pr_functions p)]\<rparr>"

lemma pruned_by_functions [simp]:
  "length (pr_functions (pruned_by p F)) = length (pr_functions p)"
  "i < length (pr_functions p) \<Longrightarrow> pr_functions (pruned_by p F) ! i = pruned_function p F i"
  by (simp_all add: pruned_by_def)

lemma pruned_function_parts [simp]:
  "fn_params (pruned_function p F i) = keep (F i) (fn_params (pr_functions p ! i))"
  "fn_kind (pruned_function p F i) = fn_kind (pr_functions p ! i)"
  "fn_body (pruned_function p F i) = rewrite_block_parameters (number_used 0 (F i))
     (rewrite_call_arguments (flag_mappings (length (pr_functions p)) F) (fn_body (pr_functions p ! i)))"
  by (simp_all add: pruned_function_def Let_def)

text \<open>Flags that keep every parameter of an entry point, every parameter that is mentioned outside the arguments that go, and
  every parameter that receives an argument that can fail.\<close>

definition flags_safe :: "program \<Rightarrow> (nat \<Rightarrow> bool list) \<Rightarrow> bool" where
  "flags_safe p F \<longleftrightarrow>
     (\<forall>i < length (pr_functions p).
        length (F i) = length (fn_params (pr_functions p ! i))
        \<and> (fn_kind (pr_functions p ! i) \<noteq> FK_User \<longrightarrow> F i = replicate (length (F i)) True)
        \<and> (\<forall>k \<in> block_params (rewrite_call_arguments (flag_mappings (length (pr_functions p)) F) (fn_body (pr_functions p ! i))). F i ! k))
     \<and> (\<forall>(g, as) \<in> program_sites p. \<forall>k < length as. call_argument_may_fail (as ! k) \<longrightarrow> F g ! k)"

lemma flags_safe_entry: "flags_safe p F \<Longrightarrow> i < length (pr_functions p) \<Longrightarrow> fn_kind (pr_functions p ! i) \<noteq> FK_User \<Longrightarrow> F i = replicate (length (F i)) True"
  unfolding flags_safe_def by blast

text \<open>Calls and parameter references that fit the declarations.\<close>

definition params_fit :: "program \<Rightarrow> bool" where
  "params_fit p \<longleftrightarrow>
     (\<forall>i < length (pr_functions p). block_params (fn_body (pr_functions p ! i)) \<subseteq> {..<length (fn_params (pr_functions p ! i))})
     \<and> (\<forall>(g, as) \<in> program_sites p. g < length (pr_functions p) \<and> length as = length (fn_params (pr_functions p ! g)))"

lemma program_sites_iff: "site \<in> program_sites p \<longleftrightarrow> (\<exists>i < length (pr_functions p). site \<in> block_sites (fn_body (pr_functions p ! i)))"
  by (auto simp: program_sites_def set_conv_nth)

lemma fit_site:
  "params_fit p \<Longrightarrow> site \<in> program_sites p \<Longrightarrow> fst site < length (pr_functions p) \<and> length (snd site) = length (fn_params (pr_functions p ! fst site))"
  by (auto simp: params_fit_def)

text \<open>A call site of the pruned program: the arguments that stay are those of the parameters that stay.\<close>

definition pruned_site :: "(nat \<Rightarrow> bool list) \<Rightarrow> nat \<Rightarrow> nat \<times> call_argument list \<Rightarrow> nat \<times> call_argument list" where
  "pruned_site F i site = (fst site, map (rewrite_call_argument_parameters (number_used 0 (F i))) (keep (F (fst site)) (snd site)))"

lemma pruned_sites:
  assumes fit: "params_fit p" and safe: "flags_safe p F" and i: "i < length (pr_functions p)"
  shows "block_sites (fn_body (pruned_function p F i)) = pruned_site F i ` block_sites (fn_body (pr_functions p ! i))"
proof -
  have "rewrite_site (number_used 0 (F i)) (retain_site (flag_mappings (length (pr_functions p)) F) site) = pruned_site F i site"
    if "site \<in> block_sites (fn_body (pr_functions p ! i))" for site
  proof -
    have "site \<in> program_sites p" using that i by (auto simp: program_sites_iff)
    from fit_site [OF fit this] show ?thesis using safe
      by (simp add: retain_site_def rewrite_site_def pruned_site_def flags_safe_def retain_arguments_number)
  qed
  then show ?thesis by (simp add: retain_arguments_mentions(3) rewrite_mentions(3) image_image)
qed

lemma pruned_program_sites:
  assumes "params_fit p" and "flags_safe p F" and "site \<in> program_sites (pruned_by p F)"
  obtains i old where "i < length (pr_functions p)" and "old \<in> program_sites p" and "site = pruned_site F i old"
proof -
  obtain i where i: "i < length (pr_functions p)" "site \<in> block_sites (fn_body (pruned_function p F i))"
    using assms(3) by (auto simp: program_sites_iff simp del: pruned_function_parts)
  then obtain old where "old \<in> block_sites (fn_body (pr_functions p ! i))" "site = pruned_site F i old"
    using pruned_sites [OF assms(1,2) i(1)] by blast
  then show ?thesis using i(1) that program_sites_iff by blast
qed

lemma update_parameter_fail: "fe_may_fail (update_parameter k u e) = fe_may_fail e"
  by (simp add: update_parameter_def Let_def)

lemma mark_parameter_fail: "fe_may_fail (Effects.mark_parameter k access e) = fe_may_fail e"
  by (cases access) (simp_all add: Effects.mark_parameter_def update_parameter_fail mark_region_def add_reads_def add_writes_def Let_def)

lemma mark_parameters_fail: "fe_may_fail (fold (\<lambda>k. Effects.mark_parameter k access) ks e) = fe_may_fail e"
  by (induction ks arbitrary: e) (simp_all add: mark_parameter_fail)

lemma mark_checked_bounds_fail: "fe_may_fail (mark_checked_bounds b e) \<longleftrightarrow> b = Checked \<or> fe_may_fail e"
  by (simp add: mark_checked_bounds_def add_failure_def)

lemmas renamed_defs = call_argument_may_fail_def scan_call_argument_def rewrite_call_argument_parameters_def mark_buffer_param_ref_def scan_value_def
  update_parameter_fail mark_parameters_fail mark_checked_bounds_fail

lemma may_fail_renamed [simp]: "call_argument_may_fail (rewrite_call_argument_parameters m a) = call_argument_may_fail a"
proof -
  have "scan_place_indices (rewrite_place_parameter m pl) e = scan_place_indices pl e" for pl e
    by (cases "place_base pl") (simp_all add: rewrite_place_parameter_def scan_place_indices_def)
  then show ?thesis
  proof (cases a)
    case (A_BufferParam r)
    then show ?thesis by (cases r) (simp_all add: renamed_defs)
  next
    case (A_BufferSpan r)
    then show ?thesis by (cases r) (simp_all add: renamed_defs)
  qed (simp_all add: renamed_defs)
qed

lemma pruned_fits:
  assumes fit: "params_fit p" and safe: "flags_safe p F"
  shows "params_fit (pruned_by p F)"
proof -
  have "block_params (fn_body (pruned_function p F i)) \<subseteq> {..<length (keep (F i) (fn_params (pr_functions p ! i)))}"
    if i: "i < length (pr_functions p)" for i
  proof -
    let ?b = "rewrite_call_arguments (flag_mappings (length (pr_functions p)) F) (fn_body (pr_functions p ! i))"
    have len: "length (fn_params (pr_functions p ! i)) = length (F i)" and "\<forall>k \<in> block_params ?b. F i ! k" using safe i by (simp_all add: flags_safe_def)
    moreover have "block_params ?b \<subseteq> {..<length (F i)}"
      using fit i len retain_arguments_mentions(3) unfolding params_fit_def by (metis order_trans)
    ultimately show ?thesis by (auto simp: rewrite_mentions(3) mapped_parameter_rank rank_keep)
  qed
  moreover have "fst site < length (pr_functions p) \<and> length (snd site) = length (keep (F (fst site)) (fn_params (pr_functions p ! fst site)))"
    if site: "site \<in> program_sites (pruned_by p F)" for site
  proof -
    obtain i old where "old \<in> program_sites p" "site = pruned_site F i old" using pruned_program_sites [OF fit safe site] by blast
    then show ?thesis using fit_site [OF fit] safe by (simp add: pruned_site_def flags_safe_def keep_length)
  qed
  ultimately show ?thesis by (auto simp: params_fit_def)
qed

subsection \<open>Two rounds are one\<close>

lemma safe_twice:
  assumes fit: "params_fit p" and F: "flags_safe p F" and G: "flags_safe (pruned_by p F) G"
  defines "H \<equiv> \<lambda>i. keep_both (F i) (G i)"
  shows "pruned_by (pruned_by p F) G = pruned_by p H" and "flags_safe p H"
proof -
  let ?n = "length (pr_functions p)"
  have lens: "length (fn_params (pr_functions p ! i)) = length (F i)" "length (G i) = length (filter (\<lambda>u. u) (F i))" if "i < ?n" for i
    using F G that by (simp_all add: flags_safe_def keep_length)
  have body: "rewrite_call_arguments (flag_mappings ?n G) (rewrite_call_arguments (flag_mappings ?n F) (fn_body (pr_functions p ! i)))
      = rewrite_call_arguments (flag_mappings ?n H) (fn_body (pr_functions p ! i))" if "i < ?n" for i
    unfolding H_def
  proof (rule remove_twice(3))
    show "\<forall>g < ?n. length (G g) = length (filter (\<lambda>u. u) (F g))" using lens by blast
    show "\<forall>(g, as) \<in> block_sites (fn_body (pr_functions p ! i)). g < ?n \<and> length as = length (F g)"
    proof (intro ballI, clarify)
      fix g as assume "(g, as) \<in> block_sites (fn_body (pr_functions p ! i))"
      then have "(g, as) \<in> program_sites p" using that by (auto simp: program_sites_iff)
      from fit_site [OF fit this] show "g < ?n \<and> length as = length (F g)" using lens by simp
    qed
  qed
  have kept: "k < length (F i) \<and> F i ! k \<and> H i ! k"
    if i: "i < ?n" and k: "k \<in> block_params (rewrite_call_arguments (flag_mappings ?n H) (fn_body (pr_functions p ! i)))" for i k
  proof -
    let ?b = "rewrite_call_arguments (flag_mappings ?n F) (fn_body (pr_functions p ! i))"
    have old: "k \<in> block_params ?b" using k retain_arguments_mentions(3) unfolding body [OF i, symmetric] by blast
    have "block_params ?b \<subseteq> {..<length (F i)}"
      using fit i lens [OF i] retain_arguments_mentions(3) unfolding params_fit_def by (metis order_trans)
    then have "k < length (F i)" using old by blast
    moreover have "F i ! k" using old F i by (simp add: flags_safe_def)
    moreover have "mapped_parameter (number_used 0 (F i)) k \<in> block_params (rewrite_call_arguments (flag_mappings ?n G) (fn_body (pruned_function p F i)))"
      using k i by (simp add: rewrite_commute(3) rewrite_mentions(3) body)
    then have "G i ! mapped_parameter (number_used 0 (F i)) k" using G i by (simp add: flags_safe_def)
    ultimately show ?thesis using lens [OF i] by (simp add: H_def mapped_parameter_rank keep_both_nth)
  qed
  have "pruned_function (pruned_by p F) G i = pruned_function p H i" if i: "i < ?n" for i
  proof -
    let ?b = "rewrite_call_arguments (flag_mappings ?n H) (fn_body (pr_functions p ! i))"
    have "rewrite_block_parameters (number_used 0 (G i)) (rewrite_block_parameters (number_used 0 (F i)) ?b) = rewrite_block_parameters (number_used 0 (H i)) ?b"
    proof (rule rename_compose(3) [OF _ subset_refl], rule ballI)
      fix k assume "k \<in> block_params ?b"
      from kept [OF i this] lens [OF i] have *: "k < length (F i)" "F i ! k" "keep_both (F i) (G i) ! k" "length (G i) = length (filter (\<lambda>u. u) (F i))"
        by (simp_all add: H_def)
      then have "rank (F i) k < length (G i)" using rank_keep [of "F i" "F i" k] keep_length [of "F i" "F i"] by simp
      then show "mapped_parameter (number_used 0 (G i)) (mapped_parameter (number_used 0 (F i)) k) = mapped_parameter (number_used 0 (H i)) k"
        using * by (simp add: H_def mapped_parameter_rank keep_both_nth rank_keep_both)
    qed
    then show ?thesis using i by (simp add: pruned_function_def Let_def rewrite_commute(3) body keep_keep H_def)
  qed
  then show "pruned_by (pruned_by p F) G = pruned_by p H" by (simp add: pruned_by_def [of _ G] pruned_by_def [of _ H]) (simp add: pruned_by_def)
  have "H g ! k" if site: "(g, as) \<in> program_sites p" and k: "k < length as" and fail: "call_argument_may_fail (as ! k)" for g as k
  proof -
    have g: "g < ?n" "length as = length (F g)" using fit_site [OF fit site] lens by simp_all
    have Fk: "F g ! k" using F site k fail by (auto simp: flags_safe_def)
    obtain i where i: "i < ?n" "(g, as) \<in> block_sites (fn_body (pr_functions p ! i))" using site by (auto simp: program_sites_iff)
    have "pruned_site F i (g, as) \<in> program_sites (pruned_by p F)"
      using i pruned_sites [OF fit F i(1)] by (auto simp: program_sites_iff)
    moreover have "rank (F g) k < length (keep (F g) as)" "keep (F g) as ! rank (F g) k = as ! k" using rank_keep [of as "F g" k] g Fk k by simp_all
    ultimately have "G g ! rank (F g) k" using G fail by (force simp: flags_safe_def pruned_site_def)
    then show ?thesis using Fk g k lens [OF g(1)] by (simp add: H_def keep_both_nth)
  qed
  moreover have "H i = replicate (length (H i)) True" if "i < ?n" "fn_kind (pr_functions p ! i) \<noteq> FK_User" for i
  proof -
    have "F i = replicate (length (F i)) True" "G i = replicate (length (G i)) True"
      using flags_safe_entry [OF F] flags_safe_entry [OF G, of i] that by auto
    then show ?thesis using keep_both_all [of "F i" "G i"] lens [OF that(1)] by (simp add: H_def)
  qed
  ultimately show "flags_safe p H" using kept lens by (auto simp: flags_safe_def H_def)
qed

subsection \<open>Keeping everything\<close>

lemma rename_id_parts:
  assumes "\<And>k. mapped_parameter m k = k"
  shows "rewrite_place_parameter m pl = pl" and "rewrite_rvalue_parameters m r = r" and "rewrite_call_argument_parameters m a = a"
    and "rewrite_buffer_parameter m b = b"
proof -
  have place: "rewrite_place_parameter m pl = pl" for pl
    by (cases "place_base pl") (simp_all add: rewrite_place_parameter_def assms)
  have buffer: "rewrite_buffer_parameter m b = b" for b by (cases b) (simp_all add: assms)
  have span: "rewrite_span_parameter m s = s" for s by (cases s) (simp_all add: assms)
  have source: "rewrite_slice_source_parameters m s = s" for s by (cases s) (simp_all add: rewrite_slice_source_parameters_def place buffer)
  show "rewrite_place_parameter m pl = pl" "rewrite_buffer_parameter m b = b" by (rule place, rule buffer)
  show "rewrite_rvalue_parameters m r = r" by (cases r) (simp_all add: rewrite_rvalue_parameters_def place buffer source)
  show "rewrite_call_argument_parameters m a = a" by (cases a) (simp_all add: rewrite_call_argument_parameters_def place buffer span)
qed

lemma rename_id:
  assumes "\<And>k. mapped_parameter m k = k"
  shows "rewrite_statements_parameters m [s] = [s]" and "rewrite_statements_parameters m [Statement k src] = [Statement k src]"
    and "rewrite_block_parameters m b = b" and "rewrite_statements_parameters m ss = ss"
proof (induction s and k and b and ss arbitrary: and src and and rule: mir_induct)
  case (Simple k)
  then show ?case by (cases k) (simp_all add: has_blocks_def rename_id_parts [OF assms] map_idI)
next
  case (Cons s ss)
  then show ?case unfolding rewrite_statements_Cons [of m s ss] by simp
qed simp_all

lemma retain_arguments_all: "retain_arguments (number_used s (replicate n True)) as = as"
proof (induction n arbitrary: s as)
  case (Suc n)
  then show ?case by (cases as) simp_all
qed simp

lemma remove_none:
  assumes "\<And>g m. nth_opt ms g = Some m \<Longrightarrow> \<exists>n. m = number_used 0 (replicate n True)"
  shows "rewrite_statements_arguments ms [s] = [s]" and "rewrite_statements_arguments ms [Statement k src] = [Statement k src]"
    and "rewrite_call_arguments ms b = b" and "rewrite_statements_arguments ms ss = ss"
proof (induction s and k and b and ss arbitrary: and src and and rule: mir_induct)
  case (Simple k)
  then show ?case
    using assms by (cases k) (fastforce simp: has_blocks_def retain_arguments_all split: option.split)+
next
  case (Cons s ss)
  then show ?case unfolding rewrite_arguments_Cons [of ms s ss] by simp
qed simp_all

definition all_flags :: "program \<Rightarrow> nat \<Rightarrow> bool list" where
  "all_flags p i = replicate (length (fn_params (pr_functions p ! i))) True"

lemma prune_nothing:
  assumes "params_fit p"
  shows "pruned_by p (all_flags p) = p" and "flags_safe p (all_flags p)"
proof -
  let ?ms = "flag_mappings (length (pr_functions p)) (all_flags p)"
  have mapped: "mapped_parameter (number_used 0 (all_flags p i)) k = k" for i k
    by (simp add: mapped_parameter_def nth_opt_def all_flags_def number_used_all)
  have "\<exists>n. m = number_used 0 (replicate n True)" if "nth_opt ?ms g = Some m" for g m
    using that by (auto simp: flag_mappings_def nth_opt_def all_flags_def split: if_splits)
  then have none: "rewrite_call_arguments ?ms b = b" for b by (rule remove_none(3))
  have "pruned_function p (all_flags p) i = pr_functions p ! i" for i
    by (simp add: pruned_function_def Let_def none rename_id(3) [OF mapped]) (simp add: all_flags_def keep_all)
  then have "map (pruned_function p (all_flags p)) [0..<length (pr_functions p)] = pr_functions p"
    by (intro nth_equalityI) simp_all
  then show "pruned_by p (all_flags p) = p" by (simp add: pruned_by_def)
  show "flags_safe p (all_flags p)"
    using assms fit_site [OF assms] by (fastforce simp: flags_safe_def none all_flags_def params_fit_def subset_iff)
qed

subsection \<open>One round\<close>

lemma those_map_Some: "those (map (\<lambda>x. Some (f x)) xs) = Some (map f xs)"
  by (induction xs) simp_all

lemma mappings_of_round: "parameter_mappings p = flag_mappings (length (pr_functions p)) (round_flags p)"
  by (rule nth_equalityI) (simp_all add: parameter_mappings_nth flag_mappings_def)

lemma prune_round_eq: "prune_round p (parameter_mappings p) = Some (pruned_by p (round_flags p))"
proof -
  let ?n = "length (pr_functions p)" and ?ms = "parameter_mappings p"
  have zip: "zip (pr_functions p) ?ms = map (\<lambda>i. (pr_functions p ! i, ?ms ! i)) [0..<?n]"
    by (rule nth_equalityI) (simp_all add: parameter_mappings_nth(1))
  let ?g = "\<lambda>i. (pr_functions p ! i)\<lparr>fn_params := keep (round_flags p i) (fn_params (pr_functions p ! i)),
      fn_body := rewrite_block_parameters (number_used 0 (round_flags p i)) (fn_body (pr_functions p ! i))\<rparr>"
  have "map (\<lambda>(f, m). prune_function f m) (zip (pr_functions p) ?ms) = map (\<lambda>i. Some (?g i)) [0..<?n]"
    unfolding zip
    by (simp add: prune_function_def parameter_mappings_nth(2) retain_params_number round_flags_length)
  then show ?thesis
    by (simp add: prune_round_def those_map_Some pruned_by_def pruned_function_def Let_def comp_def rewrite_commute(3) mappings_of_round)
qed

lemma round_safe:
  assumes "params_fit p"
  shows "flags_safe p (round_flags p)"
proof -
  have flag: "round_flags p i ! k \<longleftrightarrow> fn_kind (pr_functions p ! i) \<noteq> FK_User \<or> k \<in> block_params (fn_body (pr_functions p ! i))
      \<or> fallible_at (program_sites p) i k" if "i < length (pr_functions p)" "k < length (fn_params (pr_functions p ! i))" for i k
    using round_flags_nth [OF that(1) _ that(2)] assms that(1) by (simp add: params_fit_def)
  have entry: "fn_kind (pr_functions p ! i) \<noteq> FK_User \<longrightarrow> round_flags p i = replicate (length (round_flags p i)) True" for i
    by (simp add: round_flags_def used_flags_def)
  have "round_flags p i ! k"
    if i: "i < length (pr_functions p)" and k: "k \<in> block_params (rewrite_call_arguments ms (fn_body (pr_functions p ! i)))" for i k ms
  proof -
    have "k \<in> block_params (fn_body (pr_functions p ! i))" using k retain_arguments_mentions(3) by blast
    moreover from this have "k < length (fn_params (pr_functions p ! i))" using assms i by (auto simp: params_fit_def)
    ultimately show ?thesis using flag i by blast
  qed
  moreover have "round_flags p g ! k" if "(g, as) \<in> program_sites p" "k < length as" "call_argument_may_fail (as ! k)" for g as k
    using flag [of g k] fit_site [OF assms that(1)] that by (auto simp: fallible_at_def)
  ultimately show ?thesis using round_flags_length entry unfolding flags_safe_def by blast
qed

definition total_params :: "program \<Rightarrow> nat" where
  "total_params p = sum_list (map (\<lambda>f. length (fn_params f)) (pr_functions p))"


lemma round_removed_total: "total_params p = total_params (pruned_by p (round_flags p)) + round_removed (parameter_mappings p)"
proof -
  let ?n = "length (pr_functions p)"
  have removed: "round_removed (parameter_mappings p)
      = (\<Sum>i\<leftarrow>[0..<?n]. length (round_flags p i) - length (filter (\<lambda>u. u) (round_flags p i)))"
    by (simp add: mappings_of_round flag_mappings_def round_removed_def comp_def number_used_count)
  have "map (\<lambda>f. length (fn_params f)) (pr_functions p) = map (\<lambda>i. length (round_flags p i)) [0..<?n]"
    by (rule nth_equalityI) (simp_all add: round_flags_length)
  then have total: "total_params p = (\<Sum>i\<leftarrow>[0..<?n]. length (round_flags p i))" by (simp add: total_params_def)
  have "map (\<lambda>f. length (fn_params f)) (pr_functions (pruned_by p (round_flags p))) = map (\<lambda>i. length (filter (\<lambda>u. u) (round_flags p i))) [0..<?n]"
    by (rule nth_equalityI) (simp_all add: keep_length round_flags_length)
  then have new: "total_params (pruned_by p (round_flags p)) = (\<Sum>i\<leftarrow>[0..<?n]. length (filter (\<lambda>u. u) (round_flags p i)))"
    by (simp add: total_params_def)
  have "(\<Sum>i\<leftarrow>xs. a i) = (\<Sum>i\<leftarrow>xs. b i) + (\<Sum>i\<leftarrow>xs. a i - b i)" if "\<forall>i \<in> set xs. b i \<le> a i" for xs and a b :: "nat \<Rightarrow> nat"
    using that by (induction xs) auto
  then show ?thesis unfolding removed total new by simp
qed

subsection \<open>All rounds\<close>

text \<open>The number of removed parameters saturates at the largest \<open>u64\<close>; the rounds end because each removes a parameter.\<close>

function prune_rounds :: "program \<Rightarrow> nat \<Rightarrow> (program \<times> nat) option" where
  "prune_rounds p removed =
     (if round_removed (parameter_mappings p) = 0 then Some (p, removed)
      else case prune_round p (parameter_mappings p) of
        None \<Rightarrow> None
      | Some q \<Rightarrow> prune_rounds q (min (2 ^ 64 - 1) (removed + round_removed (parameter_mappings p))))"
  by pat_completeness auto
termination prune_rounds
proof (relation "measure (\<lambda>(p, _). total_params p)")
  fix p q removed
  assume "round_removed (parameter_mappings p) \<noteq> 0" and "prune_round p (parameter_mappings p) = Some q"
  then show "((q, min (2 ^ 64 - 1) (removed + round_removed (parameter_mappings p))), p, removed) \<in> measure (\<lambda>(p, _). total_params p)"
    using round_removed_total [of p] by (auto simp: prune_round_eq)
qed simp

declare prune_rounds.simps [simp del]

definition prune :: "program \<Rightarrow> (program \<times> nat) option" where
  "prune p = prune_rounds p 0"

text \<open>No parameter is left that another round would remove.\<close>

definition params_needed :: "program \<Rightarrow> bool" where
  "params_needed p \<longleftrightarrow>
     (\<forall>i < length (pr_functions p). \<forall>k < length (fn_params (pr_functions p ! i)).
        fn_kind (pr_functions p ! i) \<noteq> FK_User \<or> k \<in> block_params (fn_body (pr_functions p ! i)) \<or> fallible_at (program_sites p) i k)"

lemma round_removed_none:
  assumes "params_fit p" and "round_removed (parameter_mappings p) = 0"
  shows "params_needed p"
  unfolding params_needed_def
proof (intro allI impI)
  fix i k assume i: "i < length (pr_functions p)" and k: "k < length (fn_params (pr_functions p ! i))"
  have "parameter_mappings p ! i \<in> set (parameter_mappings p)" using i by (simp add: parameter_mappings_nth(1))
  then have "None \<notin> set (number_used 0 (round_flags p i))"
    using assms(2) i by (auto simp: round_removed_def parameter_mappings_nth(2) filter_empty_conv)
  then have "number_used 0 (round_flags p i) ! k \<noteq> None" using k round_flags_length [OF i] by (metis nth_mem number_used_length)
  then have "round_flags p i ! k" using number_used_None [of k "round_flags p i" 0] k round_flags_length [OF i] by simp
  then show "fn_kind (pr_functions p ! i) \<noteq> FK_User \<or> k \<in> block_params (fn_body (pr_functions p ! i)) \<or> fallible_at (program_sites p) i k"
    using round_flags_nth [OF i _ k] assms(1) i by (simp add: params_fit_def)
qed

definition removed_count :: "nat \<Rightarrow> program \<Rightarrow> program \<Rightarrow> nat" where
  "removed_count removed p q = (if total_params q = total_params p then removed else min (2 ^ 64 - 1) (removed + (total_params p - total_params q)))"

lemma prune_rounds_correct:
  assumes "params_fit p"
  shows "\<exists>F. prune_rounds p removed = Some (pruned_by p F, removed_count removed p (pruned_by p F))
    \<and> total_params (pruned_by p F) \<le> total_params p \<and> flags_safe p F \<and> params_needed (pruned_by p F)"
  using assms
proof (induction p removed rule: prune_rounds.induct)
  case (1 p removed)
  let ?n = "round_removed (parameter_mappings p)" and ?F = "round_flags p"
  let ?q = "pruned_by p ?F" and ?r = "min (2 ^ 64 - 1) (removed + round_removed (parameter_mappings p))"
  show ?case
  proof (cases "?n = 0")
    case True
    then have "prune_rounds p removed = Some (p, removed)" by (subst prune_rounds.simps) simp
    then show ?thesis using round_removed_none [OF 1(2) True] prune_nothing [OF 1(2)]
      by (intro exI [of _ "all_flags p"]) (simp add: removed_count_def)
  next
    case False
    note safe = round_safe [OF 1(2)]
    have total: "total_params p = total_params ?q + ?n" using round_removed_total by blast
    from 1(1) [OF False prune_round_eq pruned_fits [OF 1(2) safe]] obtain G where
      G: "prune_rounds ?q ?r = Some (pruned_by ?q G, removed_count ?r ?q (pruned_by ?q G))"
        "total_params (pruned_by ?q G) \<le> total_params ?q" "flags_safe ?q G" "params_needed (pruned_by ?q G)" by blast
    note twice = safe_twice [OF 1(2) safe G(3)]
    have "removed_count ?r ?q (pruned_by ?q G) = removed_count removed p (pruned_by ?q G)"
      using total G(2) False by (auto simp: removed_count_def min_def)
    then have "prune_rounds p removed = Some (pruned_by ?q G, removed_count removed p (pruned_by ?q G))"
      using G(1) False by (subst prune_rounds.simps) (simp add: prune_round_eq)
    moreover have "total_params (pruned_by ?q G) \<le> total_params p" using total G(2) by simp
    ultimately show ?thesis using G(4) twice unfolding twice(1) by blast
  qed
qed

lemma prune_correct:
  assumes "params_fit p"
  shows "\<exists>F. prune p = Some (pruned_by p F, min (2 ^ 64 - 1) (total_params p - total_params (pruned_by p F)))
    \<and> total_params (pruned_by p F) \<le> total_params p \<and> flags_safe p F \<and> params_fit (pruned_by p F) \<and> params_needed (pruned_by p F)"
proof -
  obtain F where F: "prune_rounds p 0 = Some (pruned_by p F, removed_count 0 p (pruned_by p F))"
    "total_params (pruned_by p F) \<le> total_params p" "flags_safe p F" "params_needed (pruned_by p F)"
    using prune_rounds_correct [OF assms, of 0] by blast
  then show ?thesis using pruned_fits [OF assms F(3)] by (auto simp: prune_def removed_count_def)
qed

text \<open>C5: pruning of parameters ends without a panic and amounts to one renaming. In a program whose calls and parameter references fit
  its declarations there are flags, one for each parameter, such that the result is the program with exactly the unflagged
  parameters and their arguments taken out and the others renumbered in order. The flags keep all parameters of entry points, every
  parameter that is mentioned outside the arguments taken out, and every parameter that some call passes an argument that can fail, so no
  failing argument is lost; the count is that of the parameters taken out; calls and references still fit; and nothing is left to take out.\<close>

theorem prune_exact:
  assumes "params_fit p"
  shows "\<exists>F. prune p = Some (pruned_by p F, min (2 ^ 64 - 1) (total_params p - total_params (pruned_by p F)))
    \<and> flags_safe p F \<and> params_fit (pruned_by p F) \<and> params_needed (pruned_by p F)"
  using prune_correct [OF assms] by blast

text \<open>A chain of three functions whose parameter nobody uses: pruning takes two rounds.\<close>

definition forwarding_chain :: program where
  "forwarding_chain =
     (let param = \<lparr>fp_name = ''x'', fp_ty = 0, fp_mode = PM_ReadOnlyReference, fp_integer_range = None\<rparr>;
          call = \<lambda>g pl. Block [Statement (S_Call [] g [A_Place pl]) span_unknown] in
      demo_program
        [(demo_function [] 1)\<lparr>fn_kind := FK_Process, fn_body := call 1 (place_local 0)\<rparr>,
         (demo_function [] 0)\<lparr>fn_params := [param], fn_body := call 2 \<lparr>place_base = PB_Parameter 0, place_projections = []\<rparr>\<rparr>,
         (demo_function [] 0)\<lparr>fn_params := [param]\<rparr>])"

theorem prune_exact_witness:
  "\<exists>F q. prune forwarding_chain = Some (q, 2) \<and> q = pruned_by forwarding_chain F \<and> flags_safe forwarding_chain F \<and> F 1 = [False]"
proof -
  have "params_fit forwarding_chain"
    by (auto simp: params_fit_def program_sites_def forwarding_chain_def Let_def demo_program_def demo_function_def program_new_def
        place_params_def argument_params_def place_local_def less_Suc_eq numeral_eq_Suc nth_Cons')
  from prune_exact [OF this] obtain F where F: "prune forwarding_chain
      = Some (pruned_by forwarding_chain F, min (2 ^ 64 - 1) (total_params forwarding_chain - total_params (pruned_by forwarding_chain F)))"
    "flags_safe forwarding_chain F" by blast
  have "map_option (\<lambda>r. (snd r, map (\<lambda>f. length (fn_params f)) (pr_functions (fst r)))) (prune forwarding_chain) = Some (2, [0, 0, 0])"
    by code_simp
  then have two: "prune forwarding_chain = Some (pruned_by forwarding_chain F, 2)"
    and none: "map (\<lambda>f. length (fn_params f)) (pr_functions (pruned_by forwarding_chain F)) = [0, 0, 0]" unfolding F(1) by simp_all
  have n: "length (pr_functions forwarding_chain) = 3" "length (fn_params (pr_functions forwarding_chain ! 1)) = 1"
    by (simp_all add: forwarding_chain_def Let_def demo_program_def)
  have "length (fn_params (pr_functions (pruned_by forwarding_chain F) ! 1)) = 0"
    using none n by (metis One_nat_def length_map nth_Cons_0 nth_Cons_Suc nth_map one_less_numeral_iff pruned_by_functions(1) semiring_norm(77))
  moreover have "length (F 1) = 1" using F(2) n by (simp add: flags_safe_def)
  ultimately have "length (filter (\<lambda>u. u) (F 1)) = 0" using n keep_length [of "fn_params (pr_functions forwarding_chain ! 1)" "F 1"] by simp
  then have "F 1 = [False]" using \<open>length (F 1) = 1\<close> by (cases "F 1") (auto split: if_splits)
  then show ?thesis using two F(2) by blast
qed

end
