(* ===== verification/Local_Reads.thy ===== *)
theory Local_Reads
  imports Effect_Solver
begin

section \<open>Locals read and written\<close>

text \<open>
  The collectors of \<open>onda_mir/src/passes.rs\<close> that enumerate the locals a statement reads, addresses or
  writes. A \<open>HashSet\<close> is a set; each collector adds to the set it is given.
\<close>

subsection \<open>Reads\<close>

definition value_reads :: "mir_value \<Rightarrow> local_id set \<Rightarrow> local_id set" where
  "value_reads v s = (case v of V_Local l \<Rightarrow> insert l s | V_Constant _ \<Rightarrow> s)"

definition optional_value_reads :: "mir_value option \<Rightarrow> local_id set \<Rightarrow> local_id set" where
  "optional_value_reads v s = (case v of Some x \<Rightarrow> value_reads x s | None \<Rightarrow> s)"

definition buffer_ref_reads :: "buffer_ref \<Rightarrow> local_id set \<Rightarrow> local_id set" where
  "buffer_ref_reads b s = (case b of BR_ArrayElement _ _ selector _ \<Rightarrow> value_reads selector s | BR_Direct _ \<Rightarrow> s)"

definition buffer_param_ref_reads :: "buffer_param_ref \<Rightarrow> local_id set \<Rightarrow> local_id set" where
  "buffer_param_ref_reads b s = (case b of BP_ArrayElement _ selector _ \<Rightarrow> value_reads selector s | BP_Direct _ \<Rightarrow> s)"

definition place_reads :: "place \<Rightarrow> bool \<Rightarrow> local_id set \<Rightarrow> local_id set" where
  "place_reads p include_base s =
     fold (\<lambda>pr s. case pr of P_Index i _ \<Rightarrow> value_reads i s | P_Field _ \<Rightarrow> s) (place_projections p)
       (if include_base then (case place_base p of PB_Local l \<Rightarrow> insert l s | _ \<Rightarrow> s) else s)"

definition slice_source_reads :: "slice_source \<Rightarrow> local_id set \<Rightarrow> local_id set" where
  "slice_source_reads src s =
     (case src of
        SS_Place p \<Rightarrow> place_reads p True s
      | SS_Buffer b ch \<Rightarrow> optional_value_reads ch (buffer_ref_reads b s)
      | SS_BufferParam b ch \<Rightarrow> optional_value_reads ch (buffer_param_ref_reads b s)
      | SS_ConstData _ \<Rightarrow> s)"

definition rvalue_reads :: "rvalue \<Rightarrow> local_id set \<Rightarrow> local_id set" where
  "rvalue_reads r s =
     (case r of
        R_InitAll \<Rightarrow> s
      | R_Use v \<Rightarrow> value_reads v s
      | R_SliceLen v \<Rightarrow> value_reads v s
      | R_Load p \<Rightarrow> place_reads p True s
      | R_Unary _ v \<Rightarrow> value_reads v s
      | R_Binary _ a b \<Rightarrow> value_reads b (value_reads a s)
      | R_Compare _ a b \<Rightarrow> value_reads b (value_reads a s)
      | R_Cast v _ \<Rightarrow> value_reads v s
      | R_Intrinsic _ args \<Rightarrow> fold value_reads args s
      | R_ProcessFrame offset \<Rightarrow> value_reads offset s
      | R_NormalizeIndex i n _ \<Rightarrow> value_reads n (value_reads i s)
      | R_InputLoad _ el _ fr \<Rightarrow> value_reads fr (optional_value_reads el s)
      | R_OutputLoad _ el _ fr \<Rightarrow> value_reads fr (optional_value_reads el s)
      | R_BufferLoad b ch i _ \<Rightarrow> value_reads i (optional_value_reads ch (buffer_ref_reads b s))
      | R_BufferParamLoad b ch i _ \<Rightarrow>
          value_reads i (optional_value_reads ch (buffer_param_ref_reads b s))
      | R_ConstDataLoad _ i _ \<Rightarrow> value_reads i s
      | R_MakeSlice src st n _ _ \<Rightarrow> value_reads n (value_reads st (slice_source_reads src s))
      | R_SliceLoad sl i _ \<Rightarrow> value_reads i (value_reads sl s)
      | R_BufferLen b \<Rightarrow> buffer_ref_reads b s
      | R_BufferChannels b \<Rightarrow> buffer_ref_reads b s
      | R_BufferSampleRate b \<Rightarrow> buffer_ref_reads b s
      | R_BufferIsBound b \<Rightarrow> buffer_ref_reads b s
      | R_BufferParamLen b \<Rightarrow> buffer_param_ref_reads b s
      | R_BufferParamChannels b \<Rightarrow> buffer_param_ref_reads b s
      | R_BufferParamSampleRate b \<Rightarrow> buffer_param_ref_reads b s
      | R_BufferParamIsBound b \<Rightarrow> buffer_param_ref_reads b s)"

definition call_argument_reads :: "call_argument \<Rightarrow> local_id set \<Rightarrow> local_id set" where
  "call_argument_reads a s =
     (case a of
        A_Value v \<Rightarrow> value_reads v s
      | A_Place p \<Rightarrow> place_reads p True s
      | A_ArrayWindow p st _ \<Rightarrow> value_reads st (place_reads p True s)
      | A_SliceElement sl i _ \<Rightarrow> value_reads i (value_reads sl s)
      | A_SliceWindow sl st _ \<Rightarrow> value_reads st (value_reads sl s)
      | A_Buffer b \<Rightarrow> buffer_ref_reads b s
      | A_BufferParam b \<Rightarrow> buffer_param_ref_reads b s
      | A_BufferSpan _ \<Rightarrow> s)"

text \<open>The reads of one statement, without those of its nested blocks. An assignment does not read
  the base of its destination.\<close>

definition collect_statement_read_references :: "statement \<Rightarrow> local_id set \<Rightarrow> local_id set" where
  "collect_statement_read_references st s =
     (case stmt_kind st of
        S_Assign d r \<Rightarrow> rvalue_reads r (place_reads d False s)
      | S_Call _ _ args \<Rightarrow> fold call_argument_reads args s
      | S_PublishDelegate _ args \<Rightarrow> fold call_argument_reads args s
      | S_PublishLog _ args \<Rightarrow> fold value_reads args s
      | S_OutputStore _ el _ fr v \<Rightarrow> value_reads v (value_reads fr (optional_value_reads el s))
      | S_ControlOutputStore _ el _ v \<Rightarrow> value_reads v (optional_value_reads el s)
      | S_BufferStore b ch i v _ \<Rightarrow>
          value_reads v (value_reads i (optional_value_reads ch (buffer_ref_reads b s)))
      | S_BufferParamStore b ch i v _ \<Rightarrow>
          value_reads v (value_reads i (optional_value_reads ch (buffer_param_ref_reads b s)))
      | S_SliceStore sl i v _ \<Rightarrow> value_reads v (value_reads i (value_reads sl s))
      | S_SliceFill d v \<Rightarrow> value_reads v (value_reads d s)
      | S_SliceCopy cs _ \<Rightarrow> fold (\<lambda>c s. value_reads (copy_source c) (value_reads (copy_destination c) s)) cs s
      | S_If c _ _ \<Rightarrow> value_reads c s
      | S_Loop _ \<Rightarrow> s
      | S_Return vs \<Rightarrow> fold value_reads vs s
      | S_Break \<Rightarrow> s
      | S_Continue \<Rightarrow> s)"

fun collect_read_references :: "block \<Rightarrow> local_id set \<Rightarrow> local_id set"
  and statements_read_references :: "statement list \<Rightarrow> local_id set \<Rightarrow> local_id set" where
  "collect_read_references (Block ss) s = statements_read_references ss s"
| "statements_read_references [] s = s"
| "statements_read_references (Statement k src # ss) s =
     (let s = collect_statement_read_references (Statement k src) s
      in statements_read_references ss
           (case k of
              S_If _ t e \<Rightarrow> collect_read_references e (collect_read_references t s)
            | S_Loop body \<Rightarrow> collect_read_references body s
            | _ \<Rightarrow> s))"

subsection \<open>Writes\<close>

definition collect_statement_writes :: "statement \<Rightarrow> local_id set \<Rightarrow> local_id set" where
  "collect_statement_writes st s =
     (case stmt_kind st of
        S_Assign d _ \<Rightarrow> (case place_base d of PB_Local l \<Rightarrow> insert l s | _ \<Rightarrow> s)
      | S_Call results _ _ \<Rightarrow> s \<union> set results
      | _ \<Rightarrow> s)"

fun collect_block_writes :: "block \<Rightarrow> local_id set \<Rightarrow> local_id set"
  and collect_statements_writes :: "statement list \<Rightarrow> local_id set \<Rightarrow> local_id set" where
  "collect_block_writes (Block ss) s = collect_statements_writes ss s"
| "collect_statements_writes [] s = s"
| "collect_statements_writes (Statement k src # ss) s =
     (let s = collect_statement_writes (Statement k src) s
      in collect_statements_writes ss
           (case k of
              S_If _ t e \<Rightarrow> collect_block_writes e (collect_block_writes t s)
            | S_Loop body \<Rightarrow> collect_block_writes body s
            | _ \<Rightarrow> s))"

definition collect_block_local_references :: "block \<Rightarrow> local_id set \<Rightarrow> local_id set" where
  "collect_block_local_references b s = collect_read_references b (collect_block_writes b s)"

definition referenced_locals :: "block \<Rightarrow> local_id set" where
  "referenced_locals b = collect_block_local_references b {}"

definition collect_direct_local_references :: "statement \<Rightarrow> local_id set \<Rightarrow> local_id set" where
  "collect_direct_local_references st s = collect_statement_read_references st (collect_statement_writes st s)"

subsection \<open>Reads are operands and addressed bases\<close>

definition value_locals :: "mir_value list \<Rightarrow> local_id set" where
  "value_locals vs = {l. V_Local l \<in> set vs}"

definition base_locals :: "place \<Rightarrow> local_id set" where
  "base_locals p = (case place_base p of PB_Local l \<Rightarrow> {l} | _ \<Rightarrow> {})"

definition rvalue_bases :: "rvalue \<Rightarrow> local_id set" where
  "rvalue_bases r =
     (case r of R_Load p \<Rightarrow> base_locals p | R_MakeSlice (SS_Place p) _ _ _ _ \<Rightarrow> base_locals p | _ \<Rightarrow> {})"

definition argument_bases :: "call_argument \<Rightarrow> local_id set" where
  "argument_bases a = (case a of A_Place p \<Rightarrow> base_locals p | A_ArrayWindow p _ _ \<Rightarrow> base_locals p | _ \<Rightarrow> {})"

definition kind_bases :: "statement_kind \<Rightarrow> local_id set" where
  "kind_bases k =
     (case k of
        S_Assign _ r \<Rightarrow> rvalue_bases r
      | S_Call _ _ as \<Rightarrow> \<Union> (argument_bases ` set as)
      | S_PublishDelegate _ as \<Rightarrow> \<Union> (argument_bases ` set as)
      | _ \<Rightarrow> {})"

lemma value_locals_simps [simp]:
  "value_locals [] = {}"
  "value_locals (V_Local l # vs) = insert l (value_locals vs)"
  "value_locals (V_Constant c # vs) = value_locals vs"
  "value_locals (xs @ ys) = value_locals xs \<union> value_locals ys"
  by (auto simp: value_locals_def)

named_theorems reads_simps "collectors as unions"

lemma value_reads_eq [reads_simps]: "value_reads v s = s \<union> value_locals [v]"
  by (cases v) (auto simp: value_reads_def)

lemma value_locals_Cons: "value_locals (v # vs) = value_locals [v] \<union> value_locals vs"
  by (cases v) auto

lemma fold_value_reads [reads_simps]: "fold value_reads vs s = s \<union> value_locals vs"
  by (induction vs arbitrary: s) (auto simp: value_reads_eq value_locals_def)

lemma optional_reads_eq [reads_simps]: "optional_value_reads v s = s \<union> value_locals (option_operands v)"
  by (cases v) (simp_all add: optional_value_reads_def option_operands_def value_reads_eq)

lemma buffer_ref_reads_eq [reads_simps]: "buffer_ref_reads b s = s \<union> value_locals (buffer_ref_operands b)"
  by (cases b) (simp_all add: buffer_ref_reads_def buffer_ref_operands_def value_reads_eq)

lemma buffer_param_ref_reads_eq [reads_simps]:
  "buffer_param_ref_reads b s = s \<union> value_locals (buffer_param_ref_operands b)"
  by (cases b) (simp_all add: buffer_param_ref_reads_def buffer_param_ref_operands_def value_reads_eq)

lemma fold_index_reads:
  "fold (\<lambda>pr s. case pr of P_Index i _ \<Rightarrow> value_reads i s | P_Field _ \<Rightarrow> s) ps s
     = s \<union> value_locals (concat (map index_operands ps))"
proof (induction ps arbitrary: s)
  case (Cons p ps)
  then show ?case by (cases p) (auto simp: index_operands_def value_reads_eq value_locals_Cons [of _ "_ # _"] value_locals_def)
qed simp

lemma place_reads_eq [reads_simps]:
  "place_reads p b s = s \<union> (if b then base_locals p else {}) \<union> value_locals (place_operands p)"
  unfolding place_reads_def fold_index_reads place_operands_def base_locals_def
  by (cases "place_base p") auto

lemma slice_source_reads_eq [reads_simps]:
  "slice_source_reads src s =
     s \<union> (case src of SS_Place p \<Rightarrow> base_locals p | _ \<Rightarrow> {}) \<union> value_locals (slice_source_operands src)"
  by (cases src) (auto simp: slice_source_reads_def slice_source_operands_def reads_simps)

lemma rvalue_reads_eq [reads_simps]:
  "rvalue_reads r s = s \<union> rvalue_bases r \<union> value_locals (rvalue_operands r)"
  by (cases r) (auto simp: rvalue_reads_def rvalue_operands_def rvalue_bases_def reads_simps
      value_locals_Cons [of _ "_ # _"] split: slice_source.splits)

lemma call_argument_reads_eq [reads_simps]:
  "call_argument_reads a s = s \<union> argument_bases a \<union> value_locals (argument_operands a)"
  by (cases a) (auto simp: call_argument_reads_def argument_operands_def argument_bases_def reads_simps
      value_locals_Cons [of _ "_ # _"])

lemma fold_argument_reads [reads_simps]:
  "fold call_argument_reads as s
     = s \<union> \<Union> (argument_bases ` set as) \<union> value_locals (concat (map argument_operands as))"
  by (induction as arbitrary: s) (auto simp: call_argument_reads_eq)

lemma fold_copy_reads [reads_simps]:
  "fold (\<lambda>c s. s \<union> value_locals [copy_destination c] \<union> value_locals [copy_source c]) cs s
     = s \<union> value_locals (concat (map (\<lambda>c. [copy_destination c, copy_source c]) cs))"
  by (induction cs arbitrary: s) (auto simp: value_locals_def)

lemma statement_reads_eq:
  "collect_statement_read_references st s
     = s \<union> kind_bases (stmt_kind st) \<union> value_locals (kind_operands (stmt_kind st))"
  by (cases "stmt_kind st")
    (auto simp: collect_statement_read_references_def kind_operands_def kind_bases_def reads_simps
      value_locals_Cons [of _ "_ # _"])

text \<open>The locals a statement assigns itself.\<close>

definition kind_targets :: "statement_kind \<Rightarrow> local_id set" where
  "kind_targets k = (case k of S_Assign d _ \<Rightarrow> base_locals d | S_Call rs _ _ \<Rightarrow> set rs | _ \<Rightarrow> {})"

end
