(* ===== verification/Pass_Dead_Values.thy ===== *)
theory Pass_Dead_Values
  imports Local_Reads
begin

section \<open>Dead value elimination\<close>

text \<open>
  The model of \<open>onda_mir/src/passes/dead_values.rs\<close>: dependencies between locals are collected from the
  assignments that may be discarded, liveness is traced through them from everything else, and the
  assignments to locals that are not live are dropped. An index outside a table is a panic of the
  code and \<open>None\<close> here. A \<open>HashSet\<close> is walked in ascending order; the walk over nested blocks follows
  the structure, where the code keeps a stack of blocks.
\<close>

subsection \<open>Operations\<close>

definition discardable_destination ::
  "mir_type list \<Rightarrow> mir_local list \<Rightarrow> statement_kind \<Rightarrow> local_id option" where
  "discardable_destination types locals k =
     (case k of
        S_Assign d r \<Rightarrow>
          (case place_base d of
             PB_Local l \<Rightarrow>
               if place_projections d = [] \<and> \<not> rvalue_may_fail types locals r then Some l else None
           | _ \<Rightarrow> None)
      | _ \<Rightarrow> None)"

text \<open>Liveness flags and the stack of locals whose dependencies are still to be visited.\<close>

definition mark_live :: "local_id \<Rightarrow> bool list \<times> local_id list \<Rightarrow> (bool list \<times> local_id list) option" where
  "mark_live l s =
     (let (live, pending) = s
      in if length live \<le> l then None
         else if \<not> live ! l then Some (live[l := True], l # pending) else Some s)"

fun mark_all :: "local_id list \<Rightarrow> bool list \<times> local_id list \<Rightarrow> (bool list \<times> local_id list) option" where
  "mark_all [] s = Some s"
| "mark_all (l # ls) s = Option.bind (mark_live l s) (mark_all ls)"

record dependency_scan =
  ds_dependencies :: "local_id list list"
  ds_live :: "bool list"
  ds_pending :: "local_id list"

definition scan_reads :: "mir_type list \<Rightarrow> mir_local list \<Rightarrow> statement \<Rightarrow> dependency_scan \<Rightarrow> dependency_scan option" where
  "scan_reads types locals st d =
     (let reads = sorted_list_of_set (collect_statement_read_references st {})
      in case discardable_destination types locals (stmt_kind st) of
           Some l \<Rightarrow>
             if length (ds_dependencies d) \<le> l then None
             else Some (d\<lparr>ds_dependencies := (ds_dependencies d)[l := ds_dependencies d ! l @ reads]\<rparr>)
         | None \<Rightarrow>
             map_option (\<lambda>(live, pending). d\<lparr>ds_live := live, ds_pending := pending\<rparr>)
               (mark_all reads (ds_live d, ds_pending d)))"

fun scan_dependencies :: "mir_type list \<Rightarrow> mir_local list \<Rightarrow> block \<Rightarrow> dependency_scan \<Rightarrow> dependency_scan option"
  and scan_statement_dependencies ::
    "mir_type list \<Rightarrow> mir_local list \<Rightarrow> statement list \<Rightarrow> dependency_scan \<Rightarrow> dependency_scan option" where
  "scan_dependencies types locals (Block ss) d = scan_statement_dependencies types locals ss d"
| "scan_statement_dependencies types locals [] d = Some d"
| "scan_statement_dependencies types locals (Statement k src # ss) d =
     Option.bind (scan_reads types locals (Statement k src) d) (\<lambda>d.
       Option.bind
         (case k of
            S_If _ t e \<Rightarrow> Option.bind (scan_dependencies types locals t d) (scan_dependencies types locals e)
          | S_Loop body \<Rightarrow> scan_dependencies types locals body d
          | _ \<Rightarrow> Some d)
         (scan_statement_dependencies types locals ss))"

lemma mark_live_count:
  "mark_live l (live, pending) = Some (live', pending') \<Longrightarrow>
     unseen live' + length pending' = unseen live + length pending \<and> length live' = length live"
proof -
  have "i < length xs \<Longrightarrow> \<not> xs ! i \<Longrightarrow> Suc (unseen (xs[i := True])) = unseen xs" for i xs
  proof (induction xs arbitrary: i)
    case (Cons x xs)
    then show ?case by (cases i) (auto simp: unseen_def)
  qed simp
  then show "mark_live l (live, pending) = Some (live', pending') \<Longrightarrow> ?thesis"
    by (auto simp: mark_live_def Let_def not_le split: if_splits)
qed

lemma mark_all_count:
  "mark_all ls (live, pending) = Some (live', pending') \<Longrightarrow>
     unseen live' + length pending' = unseen live + length pending \<and> length live' = length live"
proof (induction ls arbitrary: live pending)
  case (Cons l ls)
  then obtain live1 pending1 where "mark_live l (live, pending) = Some (live1, pending1)"
      "mark_all ls (live1, pending1) = Some (live', pending')"
    by (auto simp: bind_eq_Some_conv)
  with Cons.IH mark_live_count show ?case by fastforce
qed simp

function trace_live :: "local_id list list \<Rightarrow> bool list \<Rightarrow> local_id list \<Rightarrow> bool list option" where
  "trace_live deps live [] = Some live"
| "trace_live deps live (l # pending) =
     (if length deps \<le> l then None
      else case mark_all (deps ! l) (live, pending) of
             None \<Rightarrow> None
           | Some (live, pending) \<Rightarrow> trace_live deps live pending)"
  by pat_completeness auto
termination
  by (relation "measure (\<lambda>(deps, live, pending). unseen live + length pending)")
    (auto dest!: mark_all_count)

fun retain_live_assignments ::
    "mir_type list \<Rightarrow> mir_local list \<Rightarrow> block \<Rightarrow> bool list \<Rightarrow> pass_stats \<Rightarrow> block \<times> pass_stats"
  and retain_live_statements ::
    "mir_type list \<Rightarrow> mir_local list \<Rightarrow> statement list \<Rightarrow> bool list \<Rightarrow> pass_stats \<Rightarrow> statement list \<times> pass_stats"
  and retain_live_kind ::
    "mir_type list \<Rightarrow> mir_local list \<Rightarrow> statement_kind \<Rightarrow> bool list \<Rightarrow> pass_stats \<Rightarrow> statement_kind \<times> pass_stats" where
  "retain_live_assignments types locals (Block ss) live st =
     (let (ss, st) = retain_live_statements types locals ss live st in (Block ss, st))"
| "retain_live_statements types locals [] live st = ([], st)"
| "retain_live_statements types locals (Statement k src # ss) live st =
     (if (case discardable_destination types locals k of Some l \<Rightarrow> \<not> live ! l | None \<Rightarrow> False)
      then retain_live_statements types locals ss live
             (st\<lparr>ps_removed_dead_assignments := ps_removed_dead_assignments st + 1\<rparr>)
      else (let (k, st) = retain_live_kind types locals k live st;
                (ss, st) = retain_live_statements types locals ss live st
            in (Statement k src # ss, st)))"
| "retain_live_kind types locals k live st =
     (case k of
        S_If c t e \<Rightarrow>
          (let (t, st) = retain_live_assignments types locals t live st;
               (e, st) = retain_live_assignments types locals e live st
           in (S_If c t e, st))
      | S_Loop body \<Rightarrow>
          (let (body, st) = retain_live_assignments types locals body live st in (S_Loop body, st))
      | _ \<Rightarrow> (k, st))"

definition dead_values_live :: "mir_type list \<Rightarrow> mir_function \<Rightarrow> bool list option" where
  "dead_values_live types f =
     (let n = length (fn_locals f)
      in Option.bind
           (scan_dependencies types (fn_locals f) (fn_body f)
              \<lparr>ds_dependencies = replicate n [], ds_live = replicate n False, ds_pending = []\<rparr>)
           (\<lambda>d. trace_live (ds_dependencies d) (ds_live d) (ds_pending d)))"

definition dead_values_remove :: "mir_type list \<Rightarrow> mir_function \<Rightarrow> pass_stats \<Rightarrow> (mir_function \<times> pass_stats) option" where
  "dead_values_remove types f st =
     map_option (\<lambda>live.
         let (body, st) = retain_live_assignments types (fn_locals f) (fn_body f) live st
         in (f\<lparr>fn_body := body\<rparr>, st))
       (dead_values_live types f)"

subsection \<open>The traced liveness is closed\<close>

definition live_set :: "bool list \<Rightarrow> local_id set" where
  "live_set live = {l. l < length live \<and> live ! l}"

definition statement_reads :: "statement_kind \<Rightarrow> local_id set" where
  "statement_reads k = kind_bases k \<union> value_locals (kind_operands k)"

text \<open>A kept statement reads live locals only.\<close>

definition reads_live :: "mir_type list \<Rightarrow> mir_local list \<Rightarrow> local_id set \<Rightarrow> statement_kind \<Rightarrow> bool" where
  "reads_live types locals L k \<longleftrightarrow>
     (case discardable_destination types locals k of
        Some l \<Rightarrow> l \<in> L \<longrightarrow> statement_reads k \<subseteq> L
      | None \<Rightarrow> statement_reads k \<subseteq> L)"

lemma live_set_update: "l < length live \<Longrightarrow> live_set (live[l := True]) = insert l (live_set live)"
  by (auto simp: live_set_def nth_list_update)

lemma mark_live_set:
  "mark_live l (live, pending) = Some (live', pending') \<Longrightarrow>
     live_set live' = insert l (live_set live) \<and> length live' = length live
     \<and> set pending \<subseteq> set pending' \<and> set pending' \<subseteq> insert l (set pending)
     \<and> live_set live' - set pending' = live_set live - set pending'"
  by (auto simp: mark_live_def Let_def not_le live_set_update split: if_splits) (auto simp: live_set_def)

lemma mark_all_set:
  "mark_all ls (live, pending) = Some (live', pending') \<Longrightarrow>
     live_set live' = set ls \<union> live_set live \<and> length live' = length live
     \<and> set pending \<subseteq> set pending' \<and> set pending' \<subseteq> set ls \<union> set pending
     \<and> live_set live' - set pending' \<subseteq> live_set live - set pending"
proof (induction ls arbitrary: live pending)
  case (Cons l ls)
  then obtain live1 pending1 where m: "mark_live l (live, pending) = Some (live1, pending1)"
      "mark_all ls (live1, pending1) = Some (live', pending')"
    by (auto simp: bind_eq_Some_conv)
  from mark_live_set [OF m(1)] Cons.IH [OF m(2)] show ?case by auto
qed simp

lemma mark_all_total:
  "set ls \<subseteq> {..<length live} \<Longrightarrow> \<exists>r. mark_all ls (live, pending) = Some r"
proof (induction ls arbitrary: live pending)
  case (Cons l ls)
  obtain live1 pending1 where m: "mark_live l (live, pending) = Some (live1, pending1)"
    using Cons.prems by (cases "live ! l") (auto simp: mark_live_def Let_def)
  have "set ls \<subseteq> {..<length live1}" using Cons.prems mark_live_set [OF m] by simp
  from Cons.IH [OF this] m show ?case by simp
qed simp

text \<open>The flags are closed under the dependencies of every local that is not waiting.\<close>

definition dependencies_closed :: "local_id list list \<Rightarrow> bool list \<Rightarrow> local_id list \<Rightarrow> bool" where
  "dependencies_closed deps live pending \<longleftrightarrow>
     set pending \<subseteq> live_set live \<and> (\<forall>l \<in> live_set live - set pending. set (deps ! l) \<subseteq> live_set live)"

lemma trace_live_closed:
  assumes "length deps = length live" and "dependencies_closed deps live pending"
    and "\<forall>ds \<in> set deps. set ds \<subseteq> {..<length live}"
  shows "\<exists>live'. trace_live deps live pending = Some live' \<and> length live' = length live
    \<and> live_set live \<subseteq> live_set live' \<and> (\<forall>l \<in> live_set live'. set (deps ! l) \<subseteq> live_set live')"
  using assms
proof (induction deps live pending rule: trace_live.induct)
  case (1 deps live)
  then show ?case by (simp add: dependencies_closed_def)
next
  case (2 deps live l pending)
  have l: "l < length deps" "l \<in> live_set live"
    using "2.prems"(1,2) by (auto simp: dependencies_closed_def live_set_def)
  have "set (deps ! l) \<subseteq> {..<length live}" using "2.prems"(3) l(1) by simp
  then obtain live1 pending1 where m: "mark_all (deps ! l) (live, pending) = Some (live1, pending1)"
    using mark_all_total by fastforce
  note s = mark_all_set [OF m]
  have "dependencies_closed deps live1 pending1"
    unfolding dependencies_closed_def
  proof
    show "set pending1 \<subseteq> live_set live1"
      using s "2.prems"(2) by (auto simp: dependencies_closed_def)
    show "\<forall>k \<in> live_set live1 - set pending1. set (deps ! k) \<subseteq> live_set live1"
    proof
      fix k assume k: "k \<in> live_set live1 - set pending1"
      then have "k \<in> live_set live - set pending" using s by blast
      then show "set (deps ! k) \<subseteq> live_set live1"
        using s "2.prems"(2) by (cases "k = l") (auto simp: dependencies_closed_def)
    qed
  qed
  from "2.IH" [OF _ m refl _ this] "2.prems" l(1) s
  show ?case using m l(1) by fastforce
qed

definition kind_in_range :: "nat \<Rightarrow> statement_kind \<Rightarrow> bool" where
  "kind_in_range n k \<longleftrightarrow> kind_targets k \<union> statement_reads k \<subseteq> {..<n}"

text \<open>Every local a body reads or assigns is declared.\<close>

definition locals_in_range :: "mir_function \<Rightarrow> bool" where
  "locals_in_range f \<longleftrightarrow> all_kinds_block (kind_in_range (length (fn_locals f))) (fn_body f)"

definition dep_scan_ok :: "nat \<Rightarrow> dependency_scan \<Rightarrow> bool" where
  "dep_scan_ok n d \<longleftrightarrow> length (ds_dependencies d) = n \<and> length (ds_live d) = n
   \<and> (\<forall>ds \<in> set (ds_dependencies d). set ds \<subseteq> {..<n}) \<and> live_set (ds_live d) = set (ds_pending d)"

definition scan_le :: "dependency_scan \<Rightarrow> dependency_scan \<Rightarrow> bool" where
  "scan_le d d' \<longleftrightarrow> live_set (ds_live d) \<subseteq> live_set (ds_live d')
   \<and> (\<forall>l. set (ds_dependencies d ! l) \<subseteq> set (ds_dependencies d' ! l))"

definition scan_covers :: "mir_type list \<Rightarrow> mir_local list \<Rightarrow> dependency_scan \<Rightarrow> statement_kind \<Rightarrow> bool" where
  "scan_covers types locals d k \<longleftrightarrow>
     (case discardable_destination types locals k of
        Some l \<Rightarrow> statement_reads k \<subseteq> set (ds_dependencies d ! l)
      | None \<Rightarrow> statement_reads k \<subseteq> live_set (ds_live d))"

lemma scan_le_refl [simp]: "scan_le d d"
  by (simp add: scan_le_def)

lemma scan_le_trans: "scan_le a b \<Longrightarrow> scan_le b c \<Longrightarrow> scan_le a c"
  by (auto simp: scan_le_def) (meson subset_iff)+

lemma scan_covers_mono: "scan_covers types locals d k \<Longrightarrow> scan_le d d' \<Longrightarrow> scan_covers types locals d' k"
  by (auto simp: scan_covers_def scan_le_def split: option.splits)

lemma all_kinds_mono:
  assumes "\<And>k. P k \<Longrightarrow> Q k"
  shows "all_kinds P s \<Longrightarrow> all_kinds Q s" and "all_kinds P (Statement k src) \<Longrightarrow> all_kinds Q (Statement k src)"
    and "all_kinds_block P b \<Longrightarrow> all_kinds_block Q b" and "all_kinds_statements P ss \<Longrightarrow> all_kinds_statements Q ss"
proof (induction s and k and b and ss arbitrary: and src and and rule: mir_induct)
  case (Simple k)
  then show ?case using assms by (cases k) simp_all
qed (use assms in simp_all)

lemma statement_reads_collected:
  "collect_statement_read_references (Statement k src) {} = statement_reads k"
  by (simp add: statement_reads_eq statement_reads_def)

lemma value_locals_finite [simp]: "finite (value_locals vs)"
proof -
  have "value_locals vs \<subseteq> (\<lambda>v. case v of V_Local l \<Rightarrow> l | _ \<Rightarrow> 0) ` set vs"
    by (force simp: value_locals_def)
  then show ?thesis by (rule finite_subset) simp
qed

lemma base_locals_finite [simp]: "finite (base_locals p)"
  by (simp add: base_locals_def split: place_base.splits)

lemma statement_reads_finite [simp]: "finite (statement_reads k)"
proof -
  have "finite (argument_bases a)" for a by (cases a) (simp_all add: argument_bases_def)
  moreover have "finite (rvalue_bases r)" for r
    by (cases r) (simp_all add: rvalue_bases_def split: slice_source.splits)
  ultimately show ?thesis by (cases k) (simp_all add: statement_reads_def kind_bases_def)
qed

lemma discardable_base:
  "discardable_destination types locals k = Some l \<Longrightarrow> kind_in_range n k \<Longrightarrow> l < n"
  by (cases k) (auto simp: discardable_destination_def kind_in_range_def kind_targets_def base_locals_def
      split: place_base.splits if_splits)

lemma scan_reads_step:
  assumes "dep_scan_ok n d" and "kind_in_range n k"
  shows "\<exists>d'. scan_reads types locals (Statement k src) d = Some d' \<and> dep_scan_ok n d' \<and> scan_le d d'
    \<and> scan_covers types locals d' k"
proof (cases "discardable_destination types locals k")
  case None
  have range: "set (sorted_list_of_set (statement_reads k)) \<subseteq> {..<length (ds_live d)}"
    using assms by (simp add: kind_in_range_def dep_scan_ok_def)
  obtain live pending where m: "mark_all (sorted_list_of_set (statement_reads k)) (ds_live d, ds_pending d) = Some (live, pending)"
    using mark_all_total [OF range] by fastforce
  note s = mark_all_set [OF m]
  have "live_set live = set pending"
    using s assms(1) by (auto simp: dep_scan_ok_def)
  then show ?thesis
    using m s assms(1) None
    by (auto simp: scan_reads_def statement_reads_collected dep_scan_ok_def scan_le_def scan_covers_def Let_def)
next
  case (Some l)
  have l: "l < n" using discardable_base [OF Some assms(2)] .
  have "set (sorted_list_of_set (statement_reads k)) \<subseteq> {..<n}" using assms(2) by (simp add: kind_in_range_def)
  moreover have "set (ds_dependencies d ! l) \<subseteq> {..<n}" using assms(1) l by (simp add: dep_scan_ok_def)
  ultimately have new: "set (ds_dependencies d ! l @ sorted_list_of_set (statement_reads k)) \<subseteq> {..<n}" by simp
  have "set ds \<subseteq> {..<n}"
    if "ds \<in> set ((ds_dependencies d)[l := ds_dependencies d ! l @ sorted_list_of_set (statement_reads k)])" for ds
    using that new assms(1) set_update_subset_insert [of "ds_dependencies d"] unfolding dep_scan_ok_def by blast
  then show ?thesis
    using Some l assms(1)
    by (simp add: scan_reads_def statement_reads_collected dep_scan_ok_def scan_le_def scan_covers_def
        Let_def nth_list_update)
qed

lemma scan_statements_Nil [simp]: "scan_statement_dependencies types locals [] = Some"
  by (rule ext) simp

lemma scan_statement_Cons:
  "scan_statement_dependencies types locals (s # ss) d =
     Option.bind (scan_statement_dependencies types locals [s] d) (scan_statement_dependencies types locals ss)"
  by (cases s) (auto split: bind_splits statement_kind.splits)

definition dep_scanned ::
  "nat \<Rightarrow> (dependency_scan \<Rightarrow> dependency_scan option) \<Rightarrow> (dependency_scan \<Rightarrow> bool) \<Rightarrow> bool" where
  "dep_scanned n scan covers \<longleftrightarrow>
     (\<forall>d. dep_scan_ok n d \<longrightarrow> (\<exists>d'. scan d = Some d' \<and> dep_scan_ok n d' \<and> scan_le d d' \<and> covers d'))"

lemma dep_scanned_bind:
  assumes "dep_scanned n f P" and "dep_scanned n g Q" and "\<And>d d'. P d \<Longrightarrow> scan_le d d' \<Longrightarrow> P d'"
  shows "dep_scanned n (\<lambda>d. Option.bind (f d) g) (\<lambda>d. P d \<and> Q d)"
  unfolding dep_scanned_def
proof (intro allI impI)
  fix d assume "dep_scan_ok n d"
  then obtain d1 where d1: "f d = Some d1" "dep_scan_ok n d1" "scan_le d d1" "P d1"
    using assms(1) by (auto simp: dep_scanned_def)
  obtain d2 where d2: "g d1 = Some d2" "dep_scan_ok n d2" "scan_le d1 d2" "Q d2"
    using assms(2) d1(2) by (auto simp: dep_scanned_def)
  show "\<exists>d'. Option.bind (f d) g = Some d' \<and> dep_scan_ok n d' \<and> scan_le d d' \<and> P d' \<and> Q d'"
    using d1 d2 assms(3) scan_le_trans by fastforce
qed

lemma covers_block_mono:
  "all_kinds_block (scan_covers types locals d) b \<Longrightarrow> scan_le d d' \<Longrightarrow> all_kinds_block (scan_covers types locals d') b"
  using all_kinds_mono(3) [of "scan_covers types locals d" "scan_covers types locals d'" b] scan_covers_mono by blast

lemma covers_statement_mono:
  "all_kinds (scan_covers types locals d) s \<Longrightarrow> scan_le d d' \<Longrightarrow> all_kinds (scan_covers types locals d') s"
  using all_kinds_mono(1) [of "scan_covers types locals d" "scan_covers types locals d'" s] scan_covers_mono by blast

lemma scan_reads_scanned:
  "kind_in_range n k \<Longrightarrow> dep_scanned n (scan_reads types locals (Statement k src)) (\<lambda>d. scan_covers types locals d k)"
  using scan_reads_step by (simp add: dep_scanned_def)

lemma scan_block_scanned:
  shows "all_kinds (kind_in_range n) s \<Longrightarrow>
      dep_scanned n (scan_statement_dependencies types locals [s]) (\<lambda>d. all_kinds (scan_covers types locals d) s)"
    and "all_kinds (kind_in_range n) (Statement k src) \<Longrightarrow>
      dep_scanned n (scan_statement_dependencies types locals [Statement k src])
        (\<lambda>d. all_kinds (scan_covers types locals d) (Statement k src))"
    and "all_kinds_block (kind_in_range n) b \<Longrightarrow>
      dep_scanned n (scan_dependencies types locals b) (\<lambda>d. all_kinds_block (scan_covers types locals d) b)"
    and "all_kinds_statements (kind_in_range n) ss \<Longrightarrow>
      dep_scanned n (scan_statement_dependencies types locals ss) (\<lambda>d. all_kinds_statements (scan_covers types locals d) ss)"
proof (induction s and k and b and ss arbitrary: and src and and rule: mir_induct)
  case (Statement k src)
  then show ?case by blast
next
  case (Simple k)
  have "kind_in_range n k" using Simple by simp
  from scan_reads_scanned [OF this, of types locals src] Simple show ?case
    by (cases k) (simp_all add: dep_scanned_def)
next
  case (If c t f)
  have r: "dep_scanned n (scan_reads types locals (Statement (S_If c t f) src))
      (\<lambda>d. scan_covers types locals d (S_If c t f))"
    using If.prems by (intro scan_reads_scanned) simp
  have "dep_scanned n (\<lambda>d. Option.bind (scan_dependencies types locals t d) (scan_dependencies types locals f))
      (\<lambda>d. all_kinds_block (scan_covers types locals d) t \<and> all_kinds_block (scan_covers types locals d) f)"
  proof (rule dep_scanned_bind [OF If.IH covers_block_mono])
    show "all_kinds_block (kind_in_range n) t" and "all_kinds_block (kind_in_range n) f"
      using If.prems by simp_all
  qed
  from dep_scanned_bind [OF r this scan_covers_mono] show ?case by simp
next
  case (Loop body)
  have r: "dep_scanned n (scan_reads types locals (Statement (S_Loop body) src))
      (\<lambda>d. scan_covers types locals d (S_Loop body))"
    using Loop.prems by (intro scan_reads_scanned) simp
  have "dep_scanned n (scan_dependencies types locals body) (\<lambda>d. all_kinds_block (scan_covers types locals d) body)"
    using Loop by simp
  from dep_scanned_bind [OF r this scan_covers_mono] show ?case by simp
next
  case (Block ss)
  then show ?case by simp
next
  case Nil
  then show ?case by (simp add: dep_scanned_def)
next
  case (Cons s ss)
  have "dep_scanned n (\<lambda>d. Option.bind (scan_statement_dependencies types locals [s] d)
        (scan_statement_dependencies types locals ss))
      (\<lambda>d. all_kinds (scan_covers types locals d) s \<and> all_kinds_statements (scan_covers types locals d) ss)"
  proof (rule dep_scanned_bind [OF Cons.IH covers_statement_mono])
    show "all_kinds (kind_in_range n) s" and "all_kinds_statements (kind_in_range n) ss"
      using Cons.prems by simp_all
  qed
  moreover have "scan_statement_dependencies types locals (s # ss)
      = (\<lambda>d. Option.bind (scan_statement_dependencies types locals [s] d) (scan_statement_dependencies types locals ss))"
    by (rule ext) (rule scan_statement_Cons)
  ultimately show ?case by (simp only: all_kinds_statements.simps)
qed

lemma dead_values_live_ok:
  assumes "locals_in_range f"
  shows "\<exists>live. dead_values_live types f = Some live \<and> length live = length (fn_locals f)
    \<and> all_kinds_block (reads_live types (fn_locals f) (live_set live)) (fn_body f)"
proof -
  let ?n = "length (fn_locals f)"
  let ?d = "\<lparr>ds_dependencies = replicate ?n [], ds_live = replicate ?n False, ds_pending = []\<rparr>"
  have "dep_scan_ok ?n ?d" by (simp add: dep_scan_ok_def live_set_def)
  then obtain d where d: "scan_dependencies types (fn_locals f) (fn_body f) ?d = Some d" "dep_scan_ok ?n d"
      "all_kinds_block (scan_covers types (fn_locals f) d) (fn_body f)"
    using scan_block_scanned(3) [of ?n "fn_body f" types "fn_locals f"] assms
    unfolding dep_scanned_def locals_in_range_def by blast
  have "dependencies_closed (ds_dependencies d) (ds_live d) (ds_pending d)"
    using d(2) by (auto simp: dep_scan_ok_def dependencies_closed_def)
  from trace_live_closed [OF _ this] d(2) obtain live where live:
      "trace_live (ds_dependencies d) (ds_live d) (ds_pending d) = Some live" "length live = ?n"
      "live_set (ds_live d) \<subseteq> live_set live" "\<forall>l \<in> live_set live. set (ds_dependencies d ! l) \<subseteq> live_set live"
    unfolding dep_scan_ok_def by auto
  have "reads_live types (fn_locals f) (live_set live) k" if "scan_covers types (fn_locals f) d k" for k
    using that live(3,4) by (auto simp: scan_covers_def reads_live_def split: option.splits)
  from all_kinds_mono(3) [of "scan_covers types (fn_locals f) d", OF this d(3)]
  show ?thesis using d(1) live(1,2) by (auto simp: dead_values_live_def Let_def)
qed

subsection \<open>Statements see live locals only\<close>

definition agree :: "local_id set \<Rightarrow> 'x env \<Rightarrow> 'x env \<Rightarrow> bool" where
  "agree L e e' \<longleftrightarrow> (\<forall>l \<in> L. e l = e' l)"

text \<open>Whether an element store traps does not depend on the contents of the array.\<close>

definition stores_by_index :: "('x, 'w) ops \<Rightarrow> bool" where
  "stores_by_index M \<longleftrightarrow>
     (\<forall>p is old old' v. op_update M p is old v = None \<longleftrightarrow> op_update M p is old' v = None)"

lemma agree_value: "agree L e e' \<Longrightarrow> value_locals [v] \<subseteq> L \<Longrightarrow> eval_value e v = eval_value e' v"
  by (cases v) (auto simp: agree_def)

lemma agree_scalar: "agree L e e' \<Longrightarrow> value_locals [v] \<subseteq> L \<Longrightarrow> eval_scalar e v = eval_scalar e' v"
  by (simp add: eval_scalar_def agree_value)

lemma value_locals_mem: "v \<in> set vs \<Longrightarrow> value_locals vs \<subseteq> L \<Longrightarrow> value_locals [v] \<subseteq> L"
  by (auto simp: value_locals_def)

lemma agree_values: "agree L e e' \<Longrightarrow> value_locals vs \<subseteq> L \<Longrightarrow> eval_values e vs = eval_values e' vs"
  unfolding eval_values_def by (rule arg_cong [where f = those], rule map_cong [OF refl], rule agree_value, assumption)
    (rule value_locals_mem)

lemma agree_scalars:
  "agree L e e' \<Longrightarrow> value_locals vs \<subseteq> L \<Longrightarrow> map (eval_scalar e) vs = map (eval_scalar e') vs"
  by (rule map_cong [OF refl], rule agree_scalar, assumption) (rule value_locals_mem)

lemma agree_sliced: "agree L e e' \<Longrightarrow> {l. op_sliced M l} \<subseteq> L \<Longrightarrow> sliced_part M e = sliced_part M e'"
  by (auto simp: agree_def sliced_part_def fun_eq_iff)

lemma agree_content: "agree L e e' \<Longrightarrow> base_locals p \<subseteq> L \<Longrightarrow> place_content e p = place_content e' p"
  by (auto simp: agree_def place_content_def base_locals_def split: place_base.splits)

lemma agree_argument: "agree L e e' \<Longrightarrow> argument_bases a \<subseteq> L \<Longrightarrow> argument_content e a = argument_content e' a"
  by (cases a) (simp_all add: argument_bases_def agree_content)

lemma agree_arguments:
  "agree L e e' \<Longrightarrow> \<Union> (argument_bases ` set as) \<subseteq> L \<Longrightarrow>
     map (argument_content e) as = map (argument_content e') as"
  by (rule map_cong [OF refl], rule agree_argument) auto

lemma agree_rvalue:
  assumes "agree L e e'" and "rvalue_bases r \<union> value_locals (rvalue_operands r) \<subseteq> L"
    and "{l. op_sliced M l} \<subseteq> L"
  shows "eval_rvalue M r e w = eval_rvalue M r e' w"
proof -
  have v: "eval_values e (rvalue_operands r) = eval_values e' (rvalue_operands r)"
    using agree_values [OF assms(1)] assms(2) by simp
  have s: "eval_scalar e v = eval_scalar e' v" if "v \<in> set (rvalue_operands r)" for v
    using agree_scalar [OF assms(1) value_locals_mem [OF that]] assms(2) by simp
  have c: "rvalue_content e r = rvalue_content e' r"
    using agree_content [OF assms(1)] assms(2)
    by (cases r) (simp_all add: rvalue_content_def rvalue_bases_def)
  note p = agree_sliced [OF assms(1,3)]
  show ?thesis
  proof (cases r)
    case (R_Use v)
    then show ?thesis using agree_value [OF assms(1)] assms(2)
      by (simp add: eval_rvalue_def rvalue_operands_def)
  next
    case (R_Intrinsic op vs)
    then have "value_locals vs \<subseteq> L" using assms(2) by (simp add: rvalue_operands_def)
    from agree_scalars [OF assms(1) this] show ?thesis
      using R_Intrinsic by (simp add: eval_rvalue_def del: map_eq_conv)
  qed (use v c p s in \<open>simp_all add: eval_rvalue_def rvalue_operands_def\<close>)
qed

lemma agree_update: "agree L e e' \<Longrightarrow> agree L (e(l := v)) (e'(l := v))"
  by (simp add: agree_def)

lemma agree_set_sliced: "agree L e e' \<Longrightarrow> agree L (set_sliced M e sl) (set_sliced M e' sl)"
  by (simp add: agree_def set_sliced_def)

lemma agree_write_back: "agree L e e' \<Longrightarrow> agree L (write_back ws news e) (write_back ws news e')"
  by (induction ws news e arbitrary: e' rule: write_back.induct)
    (simp_all add: agree_update split: option.splits)

lemma agree_bind_results:
  "agree L e e' \<Longrightarrow> bind_results rs res e = Some e1 \<Longrightarrow>
     \<exists>e1'. bind_results rs res e' = Some e1' \<and> agree L e1 e1'"
  by (induction rs res e arbitrary: e' rule: bind_results.induct) (auto dest: agree_update)

lemma agree_assign:
  assumes "agree L e e'" and "value_locals (place_operands p) \<subseteq> L" and "stores_by_index M"
    and "assign_place M p v e w = Some (e1, w1)"
  shows "\<exists>e1'. assign_place M p v e' w = Some (e1', w1) \<and> agree L e1 e1'"
proof -
  have ixs: "eval_values e (place_operands p) = eval_values e' (place_operands p)"
    using agree_values [OF assms(1,2)] .
  show ?thesis
  proof (cases "place_base p")
    case (PB_Local l)
    show ?thesis
    proof (cases "place_projections p = []")
      case True
      then show ?thesis using assms(1,4) ixs PB_Local
        by (auto simp: assign_place_def bind_eq_Some_conv intro: agree_update)
    next
      case False
      from assms(4) False PB_Local obtain ix new where r: "eval_values e (place_operands p) = Some ix"
          "op_update M (place_shape p) ix (e l) v = Some new" "e1 = e(l \<mapsto> new)" "w1 = w"
        by (auto simp: assign_place_def bind_eq_Some_conv)
      obtain new' where new': "op_update M (place_shape p) ix (e' l) v = Some new'"
        using assms(3) r(2) unfolding stores_by_index_def by (metis option.exhaust option.distinct(1))
      have "l \<in> L \<Longrightarrow> new' = new" using r(2) new' assms(1) by (simp add: agree_def)
      then have "agree L (e(l \<mapsto> new)) (e'(l \<mapsto> new'))" using assms(1) by (auto simp: agree_def)
      moreover have "assign_place M p v e' w = Some (e'(l \<mapsto> new'), w)"
        using False PB_Local r(1) ixs new' by (simp add: assign_place_def)
      ultimately show ?thesis using r(3,4) by blast
    qed
  qed (use assms(1,4) ixs in \<open>auto simp: assign_place_def bind_eq_Some_conv\<close>)
qed

lemma agree_call:
  assumes "agree L e e'" and "{l. op_sliced M l} \<subseteq> L"
    and "\<Union> (argument_bases ` set as) \<union> value_locals (concat (map argument_operands as)) \<subseteq> L"
    and "exec_call M rs f as e w = Some (e1, w1)"
  shows "\<exists>e1'. exec_call M rs f as e' w = Some (e1', w1) \<and> agree L e1 e1'"
proof -
  have same: "eval_values e' (concat (map argument_operands as)) = eval_values e (concat (map argument_operands as))"
      "map (argument_content e') as = map (argument_content e) as" "sliced_part M e' = sliced_part M e"
    using agree_values [OF assms(1), of "concat (map argument_operands as)"]
      agree_arguments [OF assms(1), of as] agree_sliced [OF assms(1,2)] assms(3) by auto
  from assms(4) obtain vs res news sl where r:
      "eval_values e (concat (map argument_operands as)) = Some vs"
      "op_call M f (map argument_shape as) vs (map (argument_content e) as) (sliced_part M e) w = Some (res, news, sl, w1)"
      "bind_results rs res (write_back (written_arguments (op_modes M) f as) news (set_sliced M e sl)) = Some e1"
    by (auto simp: exec_call_def bind_eq_Some_conv)
  obtain e1' where "bind_results rs res (write_back (written_arguments (op_modes M) f as) news (set_sliced M e' sl)) = Some e1'"
      "agree L e1 e1'"
    using agree_bind_results [OF agree_write_back [OF agree_set_sliced [OF assms(1)]] r(3)] by blast
  then show ?thesis using r(1,2) by (auto simp: exec_call_def same)
qed

lemma agree_simple:
  assumes "agree L e e'" and "{l. op_sliced M l} \<subseteq> L" and "stores_by_index M"
    and "statement_reads k \<subseteq> L" and "exec_simple M k e w = Some (e1, w1)"
  shows "\<exists>e1'. exec_simple M k e' w = Some (e1', w1) \<and> agree L e1 e1'"
proof -
  have v: "eval_values e' (kind_operands k) = eval_values e (kind_operands k)"
    using agree_values [OF assms(1), of "kind_operands k"] assms(4) by (simp add: statement_reads_def)
  have c: "kind_contents e' k = kind_contents e k"
  proof (cases k)
    case (S_PublishDelegate d as)
    with agree_arguments [OF assms(1), of as] assms(4) show ?thesis
      by (simp add: statement_reads_def kind_bases_def del: map_eq_conv)
  qed simp_all
  note p = agree_sliced [OF assms(1,2)]
  have other: ?thesis if "exec_simple M k = (\<lambda>e w. Option.bind (eval_values e (kind_operands k)) (\<lambda>vs.
            map_option (\<lambda>(sl, w'). (set_sliced M e sl, w'))
              (op_effect M (kind_shape k) vs (kind_contents e k) (sliced_part M e) w)))"
    using assms(5) unfolding that
    by (auto simp: bind_eq_Some_conv v c p [symmetric] intro: agree_set_sliced [OF assms(1)])
  show ?thesis
  proof (cases k)
    case (S_Assign d r)
    from assms(5) S_Assign obtain x where x: "eval_rvalue M r e w = Some x" "assign_place M d x e w = Some (e1, w1)"
      by (auto simp: exec_simple_def bind_eq_Some_conv)
    have "eval_rvalue M r e' w = Some x"
      using agree_rvalue [OF assms(1) _ assms(2), of r w] x(1) assms(4) S_Assign
      by (simp add: statement_reads_def kind_bases_def kind_operands_def)
    moreover have "value_locals (place_operands d) \<subseteq> L"
      using assms(4) S_Assign by (simp add: statement_reads_def kind_operands_def)
    ultimately show ?thesis
      using agree_assign [OF assms(1) _ assms(3) x(2)] S_Assign by (simp add: exec_simple_def)
  next
    case (S_Call rs f as)
    then show ?thesis using agree_call [OF assms(1,2), of as rs f w e1 w1] assms(4,5)
      by (simp add: exec_simple_def statement_reads_def kind_bases_def kind_operands_def)
  qed (rule other, simp add: exec_simple_def [abs_def])+
qed

subsection \<open>Removal preserves completed runs\<close>

definition refines :: "local_id set \<Rightarrow> ('x, 'w) result option \<Rightarrow> ('x, 'w) result option \<Rightarrow> bool" where
  "refines L r r' \<longleftrightarrow> (\<forall>out e1 w1. r = Some (out, e1, w1) \<longrightarrow> out \<noteq> Trapped \<longrightarrow>
     (\<exists>e1'. r' = Some (out, e1', w1) \<and> agree L e1 e1'))"

definition runs_refine ::
  "local_id set \<Rightarrow> ('x env \<Rightarrow> 'w \<Rightarrow> ('x, 'w) result option) \<Rightarrow> ('x env \<Rightarrow> 'w \<Rightarrow> ('x, 'w) result option) \<Rightarrow> bool" where
  "runs_refine L f f' \<longleftrightarrow> (\<forall>e e' w. agree L e e' \<longrightarrow> refines L (f e w) (f' e' w))"

lemma runs_refineD: "runs_refine L f f' \<Longrightarrow> agree L e e' \<Longrightarrow> refines L (f e w) (f' e' w)"
  by (simp add: runs_refine_def)

lemma refines_seq:
  assumes "refines L r r'" and "runs_refine L k k'"
  shows "refines L (seq r k) (seq r' k')"
  unfolding refines_def
proof (intro allI impI)
  fix out e1 w1 assume run: "seq r k = Some (out, e1, w1)" and out: "out \<noteq> Trapped"
  obtain o0 e0 w0 where r: "r = Some (o0, e0, w0)" using run by (cases r) (auto simp: seq_def)
  show "\<exists>e1'. seq r' k' = Some (out, e1', w1) \<and> agree L e1 e1'"
  proof (cases "o0 = Normal")
    case True
    then obtain e0' where "r' = Some (Normal, e0', w0)" "agree L e0 e0'"
      using assms(1) r by (auto simp: refines_def)
    moreover have "k e0 w0 = Some (out, e1, w1)" using run r True by (simp add: seq_def)
    ultimately show ?thesis
      using runs_refineD [OF assms(2), of e0 e0' w0] out by (auto simp: refines_def seq_def)
  next
    case False
    then have "r = Some (out, e1, w1)" using run r by (auto simp: seq_def split: outcome.splits)
    then obtain e1' where "r' = Some (out, e1', w1)" "agree L e1 e1'" "out \<noteq> Normal"
      using assms(1) out False r by (auto simp: refines_def)
    then show ?thesis by (cases out) (auto simp: seq_def)
  qed
qed

lemma refines_iterate:
  assumes "runs_refine L body body'"
  shows "agree L e e' \<Longrightarrow> refines L (iterate n body e w) (iterate n body' e' w)"
proof (induction n arbitrary: e e' w)
  case (Suc n)
  show ?case
    unfolding refines_def
  proof (intro allI impI)
    fix out e1 w1 assume run: "iterate (Suc n) body e w = Some (out, e1, w1)" and out: "out \<noteq> Trapped"
    obtain o0 e0 w0 where b: "body e w = Some (o0, e0, w0)" using run by (auto split: option.splits)
    have "o0 \<noteq> Trapped" using run b out by (auto split: outcome.splits)
    then obtain e0' where b': "body' e' w = Some (o0, e0', w0)" "agree L e0 e0'"
      using runs_refineD [OF assms Suc.prems, of w] b by (auto simp: refines_def)
    show "\<exists>e1'. iterate (Suc n) body' e' w = Some (out, e1', w1) \<and> agree L e1 e1'"
      using run b b' out Suc.IH [OF b'(2), of w0]
      by (cases o0) (auto simp: refines_def)
  qed
qed (simp add: refines_def)

lemma discarded_run:
  assumes "discardable_destination types locals k = Some l" and "l \<notin> L" and "agree L e e'"
  shows "refines L (run_kind k M n e w) (Some (Normal, e', w))"
proof -
  obtain d r where k: "k = S_Assign d r" "place_base d = PB_Local l" "place_projections d = []"
    using assms(1) by (auto simp: discardable_destination_def split: statement_kind.splits place_base.splits if_splits)
  have "refines L (Some (finish (Option.bind (eval_rvalue M r e w) (\<lambda>v. assign_place M d v e w)) e w))
      (Some (Normal, e', w))"
    using k assms(2,3)
    by (auto simp: refines_def finish_def assign_place_def place_operands_def eval_values_def agree_def
        bind_eq_Some_conv split: option.splits)
  then show ?thesis using k by (simp add: exec_simple_def)
qed

lemma kept_reads:
  "reads_live types locals L k \<Longrightarrow> (case discardable_destination types locals k of Some l \<Rightarrow> l \<in> L | None \<Rightarrow> True) \<Longrightarrow>
     statement_reads k \<subseteq> L"
  by (auto simp: reads_live_def split: option.splits)

lemma kept_simple:
  assumes "{l. op_sliced M l} \<subseteq> L" and "stores_by_index M" and "statement_reads k \<subseteq> L" and "\<not> has_blocks k"
  shows "runs_refine L (run_kind k M n) (run_kind k M n)"
  unfolding runs_refine_def
proof (intro allI impI)
  fix e e' :: "'a env" and w assume a: "agree L e e'"
  show "refines L (run_kind k M n e w) (run_kind k M n e' w)"
  proof (cases "is_control k")
    case True
    have "value_locals (kind_operands k) \<subseteq> L" using assms(3) by (simp add: statement_reads_def)
    from agree_values [OF a this] True assms(4) a show ?thesis
      by (cases k) (auto simp: is_control_def refines_def run_return_def kind_operands_def split: option.splits)
  next
    case False
    show ?thesis
      using agree_simple [OF a assms(1-3), of w] by (auto simp: run_kind_simple [OF False] refines_def finish_def
          split: option.splits prod.splits)
  qed
qed

lemma retain_kind_simple: "\<not> has_blocks k \<Longrightarrow> retain_live_kind types locals k live st = (k, st)"
  by (cases k) simp_all

definition keeps :: "mir_type list \<Rightarrow> mir_local list \<Rightarrow> bool list \<Rightarrow> statement_kind \<Rightarrow> bool" where
  "keeps types locals live k \<longleftrightarrow>
     (case discardable_destination types locals k of Some l \<Rightarrow> live ! l | None \<Rightarrow> True)"

lemma retain_statements_Cons:
  "retain_live_statements types locals (Statement k src # ss) live st =
     (if \<not> keeps types locals live k
      then retain_live_statements types locals ss live
             (st\<lparr>ps_removed_dead_assignments := ps_removed_dead_assignments st + 1\<rparr>)
      else (let (k, st) = retain_live_kind types locals k live st;
                (ss, st) = retain_live_statements types locals ss live st
            in (Statement k src # ss, st)))"
  by (simp add: keeps_def split: option.splits)

lemma retain_kind_blocks:
  "retain_live_kind types locals (S_If c t e) live st =
     (let (t, st) = retain_live_assignments types locals t live st;
          (e, st) = retain_live_assignments types locals e live st
      in (S_If c t e, st))"
  "retain_live_kind types locals (S_Loop body) live st =
     (let (body, st) = retain_live_assignments types locals body live st in (S_Loop body, st))"
  by simp_all

declare retain_live_statements.simps(2) [simp del] retain_live_kind.simps [simp del]

lemma all_kinds_conj:
  "all_kinds (\<lambda>k. P k \<and> Q k) s \<longleftrightarrow> all_kinds P s \<and> all_kinds Q s"
  "all_kinds (\<lambda>k. P k \<and> Q k) (Statement k src) \<longleftrightarrow> all_kinds P (Statement k src) \<and> all_kinds Q (Statement k src)"
  "all_kinds_block (\<lambda>k. P k \<and> Q k) b \<longleftrightarrow> all_kinds_block P b \<and> all_kinds_block Q b"
  "all_kinds_statements (\<lambda>k. P k \<and> Q k) ss \<longleftrightarrow> all_kinds_statements P ss \<and> all_kinds_statements Q ss"
proof (induction s and k and b and ss arbitrary: and src and and rule: mir_induct)
  case (Simple k)
  then show ?case by (cases k) simp_all
qed auto

definition tracked :: "mir_type list \<Rightarrow> mir_local list \<Rightarrow> bool list \<Rightarrow> statement_kind \<Rightarrow> bool" where
  "tracked types locals live k \<longleftrightarrow> kind_in_range (length live) k \<and> reads_live types locals (live_set live) k"

text \<open>A block and its retained form, related on the live locals.\<close>

lemma retain_run:
  fixes M :: "('x, 'w) ops"
  assumes "{l. op_sliced M l} \<subseteq> live_set live" and "stores_by_index M"
  shows "all_kinds (tracked types locals live) s \<Longrightarrow> retain_live_statements types locals [s] live st = (ss', st') \<Longrightarrow>
      runs_refine (live_set live) (run_statement s M n) (run_statements ss' M n)"
    and "all_kinds (tracked types locals live) (Statement k src) \<Longrightarrow> keeps types locals live k \<Longrightarrow>
      retain_live_kind types locals k live st = (k', st') \<Longrightarrow>
      runs_refine (live_set live) (run_kind k M n) (run_kind k' M n)"
    and "all_kinds_block (tracked types locals live) b \<Longrightarrow> retain_live_assignments types locals b live st = (b', st') \<Longrightarrow>
      runs_refine (live_set live) (run_block b M n) (run_block b' M n)"
    and "all_kinds_statements (tracked types locals live) ss \<Longrightarrow> retain_live_statements types locals ss live st = (ss', st') \<Longrightarrow>
      runs_refine (live_set live) (run_statements ss M n) (run_statements ss' M n)"
proof (induction s and k and b and ss arbitrary: st ss' st' and src st k' st' and st b' st' and st ss' st' rule: mir_induct)
  case (Statement k src)
  have g: "tracked types locals live k" using Statement.prems(1) by simp
  show ?case
  proof (cases "keeps types locals live k")
    case True
    then obtain k' st1 where k': "retain_live_kind types locals k live st = (k', st1)" "ss' = [Statement k' src]"
      using Statement.prems(2) by (auto simp: retain_statements_Cons split: prod.splits)
    have "runs_refine (live_set live) (run_kind k M n) (run_kind k' M n)"
      using Statement.IH [OF Statement.prems(1) True k'(1)] .
    moreover have "run_statements [Statement k' src] M n e w = run_kind k' M n e w" for e w
      by (auto simp: run_statements_Cons seq_def split: option.splits outcome.splits prod.splits)
    ultimately show ?thesis using k'(2) by (simp add: runs_refine_def)
  next
    case False
    then obtain l where l: "discardable_destination types locals k = Some l" "\<not> live ! l"
      by (auto simp: keeps_def split: option.splits)
    then have "l \<notin> live_set live" by (simp add: live_set_def)
    moreover have "ss' = []" using Statement.prems(2) False by (simp add: retain_statements_Cons)
    ultimately show ?thesis unfolding runs_refine_def by (auto intro: discarded_run [OF l(1)])
  qed
next
  case (Simple k)
  have "statement_reads k \<subseteq> live_set live"
    using Simple.prems(1,2) discardable_base [of types locals k]
    by (intro kept_reads [of types locals]) (auto simp: tracked_def keeps_def live_set_def split: option.splits)
  then show ?case
    using kept_simple [OF assms _ Simple.hyps] Simple.prems(3) retain_kind_simple [OF Simple.hyps]
    by auto
next
  case (If c t f)
  obtain t' st1 f' st2 where r: "retain_live_assignments types locals t live st = (t', st1)"
      "retain_live_assignments types locals f live st1 = (f', st2)" "k' = S_If c t' f'"
    using If.prems(3) by (auto simp: retain_kind_blocks split: prod.splits)
  have t: "runs_refine (live_set live) (run_block t M n) (run_block t' M n)"
    using If.IH(1) [OF _ r(1)] If.prems(1) by simp
  have f: "runs_refine (live_set live) (run_block f M n) (run_block f' M n)"
    using If.IH(2) [OF _ r(2)] If.prems(1) by simp
  have "value_locals [c] \<subseteq> live_set live"
    using If.prems(1) by (simp add: tracked_def reads_live_def discardable_destination_def statement_reads_def kind_operands_def)
  then have c: "eval_scalar e' c = eval_scalar e c" if "agree (live_set live) e e'" for e e' :: "'x env"
    using agree_scalar [OF that] by metis
  show ?case
    using t f unfolding r(3) runs_refine_def
    by (auto simp: run_if_def c refines_def split: option.splits scalar_value.splits)
next
  case (Loop body)
  obtain b' st1 where r: "retain_live_assignments types locals body live st = (b', st1)" "k' = S_Loop b'"
    using Loop.prems(3) by (auto simp: retain_kind_blocks split: prod.splits)
  have "runs_refine (live_set live) (run_block body M n) (run_block b' M n)"
    using Loop.IH [OF _ r(1)] Loop.prems(1) by simp
  from refines_iterate [OF this] show ?case unfolding r(2) by (simp add: runs_refine_def)
next
  case (Block ss)
  then show ?case by (auto split: prod.splits)
next
  case Nil
  then show ?case by (simp add: runs_refine_def refines_def)
next
  case (Cons s ss)
  obtain k src where s: "s = Statement k src" by (cases s)
  obtain ss1 st1 ss2 where r: "retain_live_statements types locals [s] live st = (ss1, st1)"
      "retain_live_statements types locals ss live st1 = (ss2, st')" "ss' = ss1 @ ss2"
    using Cons.prems(2) unfolding s retain_statements_Cons by (auto simp: Let_def split: if_splits prod.splits)
  have "runs_refine (live_set live) (run_statement s M n) (run_statements ss1 M n)"
    using Cons.IH(1) [OF _ r(1)] Cons.prems(1) by simp
  moreover have "runs_refine (live_set live) (run_statements ss M n) (run_statements ss2 M n)"
    using Cons.IH(2) [OF _ r(2)] Cons.prems(1) by simp
  ultimately show ?case
    unfolding r(3) runs_refine_def run_statements_append run_statements_Cons
    by (auto intro: refines_seq simp: runs_refine_def)
qed

text \<open>C4: dead value elimination preserves every completed run: for a function whose locals are
  declared, when element stores trap by their index only and every local a slice reaches is live,
  the pass does not panic, and each run of the original body that ends without a trap is a run of
  the reduced body with the same outcome, the same returned values and the same effect on the
  outside world, at the same bound on loop iterations.\<close>

theorem dead_values_preserve:
  assumes "locals_in_range f" and "stores_by_index M"
    and "\<And>live. dead_values_live types f = Some live \<Longrightarrow> {l. op_sliced M l} \<subseteq> live_set live"
  shows "\<exists>f' st'. dead_values_remove types f st = Some (f', st')
    \<and> (\<forall>n e w out e1 w1. run_block (fn_body f) M n e w = Some (out, e1, w1) \<longrightarrow> out \<noteq> Trapped \<longrightarrow>
         (\<exists>e1'. run_block (fn_body f') M n e w = Some (out, e1', w1)))"
proof -
  obtain live where live: "dead_values_live types f = Some live" "length live = length (fn_locals f)"
      "all_kinds_block (reads_live types (fn_locals f) (live_set live)) (fn_body f)"
    using dead_values_live_ok [OF assms(1)] by blast
  obtain b' st' where b': "retain_live_assignments types (fn_locals f) (fn_body f) live st = (b', st')"
    by fastforce
  have "all_kinds_block (tracked types (fn_locals f) live) (fn_body f)"
    using live(2,3) assms(1) unfolding locals_in_range_def tracked_def [abs_def]
    by (simp add: all_kinds_conj)
  then have "runs_refine (live_set live) (run_block (fn_body f) M n) (run_block b' M n)" for n
    using retain_run(3) [OF assms(3) [OF live(1)] assms(2)] b' by blast
  then have "\<exists>e1'. run_block b' M n e w = Some (out, e1', w1)"
    if "run_block (fn_body f) M n e w = Some (out, e1, w1)" "out \<noteq> Trapped" for n e w out e1 w1
    using that by (fastforce simp: runs_refine_def refines_def agree_def)
  then show ?thesis using live(1) b' by (auto simp: dead_values_remove_def)
qed

text \<open>Local 0 is dead, local 1 is returned.\<close>

definition dead_demo :: mir_function where
  "dead_demo = demo_function
     [S_Assign (place_local 0) (R_Use (V_Constant (I32 3))),
      S_Assign (place_local 1) (R_Use (V_Constant (I32 4))),
      S_Return [V_Local 1]] 2"

lemma dead_demo_in_range: "locals_in_range dead_demo"
    by (simp add: locals_in_range_def dead_demo_def demo_function_def kind_in_range_def kind_targets_def statement_reads_def
        kind_bases_def rvalue_bases_def kind_operands_def rvalue_operands_def place_operands_def
        place_local_def base_locals_def)

theorem dead_values_preserve_witness:
  "\<forall>st. \<exists>f' st' e1'. dead_values_remove [] dead_demo st = Some (f', st')
    \<and> run_block (fn_body f') (bare_ops :: (unit, unit) ops) 0 (\<lambda>_. None) () = Some (Returned [Sc (I32 4)], e1', ())"
proof
  fix st
  note dead_demo_in_range
  moreover have "stores_by_index (bare_ops :: (unit, unit) ops)"
    by (simp add: stores_by_index_def bare_ops_def)
  moreover have "{l. op_sliced (bare_ops :: (unit, unit) ops) l} = {}" by (simp add: bare_ops_def)
  moreover have "run_block (fn_body dead_demo) (bare_ops :: (unit, unit) ops) 0 (\<lambda>_. None) ()
      = Some (Returned [Sc (I32 4)], [0 \<mapsto> Sc (I32 3), 1 \<mapsto> Sc (I32 4)], ())"
    by (simp add: dead_demo_def demo_function_def run_statements_Cons seq_def exec_simple_def finish_def
        eval_rvalue_def assign_place_def eval_values_def place_operands_def place_local_def run_return_def)
  ultimately show "\<exists>f' st' e1'. dead_values_remove [] dead_demo st = Some (f', st')
    \<and> run_block (fn_body f') (bare_ops :: (unit, unit) ops) 0 (\<lambda>_. None) () = Some (Returned [Sc (I32 4)], e1', ())"
    using dead_values_preserve [of dead_demo "bare_ops :: (unit, unit) ops" "[]" st] by fastforce
qed

end
