(* ===== verification/Reindex_Locals.thy ===== *)
theory Reindex_Locals
  imports Pass_Dead_Values "HOL-Library.Monad_Syntax"
begin

section \<open>Reindexing locals\<close>

text \<open>
  After dead values are removed the locals that are no longer mentioned are dropped and the others
  renumbered (\<open>remove_dead_pure_locals\<close> and the \<open>rewrite_*\<close> functions of \<open>onda_mir/src/passes.rs\<close>). A local
  without a new index is a panic of the code (\<open>expect\<close>, or an index past the end) and \<open>None\<close> here.
\<close>

type_synonym local_mapping = "local_id option list"

subsection \<open>Rewriting\<close>

definition rewrite_value :: "local_mapping \<Rightarrow> mir_value \<Rightarrow> mir_value option" where
  "rewrite_value m v =
     (case v of V_Local l \<Rightarrow> map_option V_Local (get_flat m l) | V_Constant c \<Rightarrow> Some (V_Constant c))"

definition rewrite_values :: "local_mapping \<Rightarrow> mir_value list \<Rightarrow> mir_value list option" where
  "rewrite_values m vs = those (map (rewrite_value m) vs)"

definition rewrite_optional :: "local_mapping \<Rightarrow> mir_value option \<Rightarrow> mir_value option option" where
  "rewrite_optional m v = (case v of None \<Rightarrow> Some None | Some x \<Rightarrow> map_option Some (rewrite_value m x))"

definition rewrite_buffer_ref :: "local_mapping \<Rightarrow> buffer_ref \<Rightarrow> buffer_ref option" where
  "rewrite_buffer_ref m b =
     (case b of
        BR_ArrayElement i n selector md \<Rightarrow>
          do { s \<leftarrow> rewrite_value m selector; Some (BR_ArrayElement i n s md) }
      | BR_Direct i \<Rightarrow> Some (BR_Direct i))"

definition rewrite_buffer_param_ref :: "local_mapping \<Rightarrow> buffer_param_ref \<Rightarrow> buffer_param_ref option" where
  "rewrite_buffer_param_ref m b =
     (case b of
        BP_ArrayElement i selector md \<Rightarrow>
          do { s \<leftarrow> rewrite_value m selector; Some (BP_ArrayElement i s md) }
      | BP_Direct i \<Rightarrow> Some (BP_Direct i))"

definition rewrite_base :: "local_mapping \<Rightarrow> place_base \<Rightarrow> place_base option" where
  "rewrite_base m b = (case b of PB_Local l \<Rightarrow> map_option PB_Local (get_flat m l) | _ \<Rightarrow> Some b)"

definition rewrite_projection :: "local_mapping \<Rightarrow> projection \<Rightarrow> projection option" where
  "rewrite_projection m p =
     (case p of P_Index i b \<Rightarrow> do { i \<leftarrow> rewrite_value m i; Some (P_Index i b) } | P_Field f \<Rightarrow> Some (P_Field f))"

definition rewrite_place :: "local_mapping \<Rightarrow> place \<Rightarrow> place option" where
  "rewrite_place m p =
     do { b \<leftarrow> rewrite_base m (place_base p);
          ps \<leftarrow> those (map (rewrite_projection m) (place_projections p));
          Some (p\<lparr>place_base := b, place_projections := ps\<rparr>) }"

definition rewrite_slice_source :: "local_mapping \<Rightarrow> slice_source \<Rightarrow> slice_source option" where
  "rewrite_slice_source m s =
     (case s of
        SS_Place p \<Rightarrow> do { p \<leftarrow> rewrite_place m p; Some (SS_Place p) }
      | SS_Buffer b ch \<Rightarrow>
          do { b \<leftarrow> rewrite_buffer_ref m b; ch \<leftarrow> rewrite_optional m ch; Some (SS_Buffer b ch) }
      | SS_BufferParam b ch \<Rightarrow>
          do { b \<leftarrow> rewrite_buffer_param_ref m b; ch \<leftarrow> rewrite_optional m ch; Some (SS_BufferParam b ch) }
      | SS_ConstData d \<Rightarrow> Some (SS_ConstData d))"

definition rewrite_rvalue :: "local_mapping \<Rightarrow> rvalue \<Rightarrow> rvalue option" where
  "rewrite_rvalue m r =
     (case r of
        R_InitAll \<Rightarrow> Some R_InitAll
      | R_Use v \<Rightarrow> do { v \<leftarrow> rewrite_value m v; Some (R_Use v) }
      | R_SliceLen v \<Rightarrow> do { v \<leftarrow> rewrite_value m v; Some (R_SliceLen v) }
      | R_Load p \<Rightarrow> do { p \<leftarrow> rewrite_place m p; Some (R_Load p) }
      | R_Unary op v \<Rightarrow> do { v \<leftarrow> rewrite_value m v; Some (R_Unary op v) }
      | R_Binary op a b \<Rightarrow> do { a \<leftarrow> rewrite_value m a; b \<leftarrow> rewrite_value m b; Some (R_Binary op a b) }
      | R_Compare op a b \<Rightarrow> do { a \<leftarrow> rewrite_value m a; b \<leftarrow> rewrite_value m b; Some (R_Compare op a b) }
      | R_Cast v to \<Rightarrow> do { v \<leftarrow> rewrite_value m v; Some (R_Cast v to) }
      | R_Intrinsic op args \<Rightarrow> do { args \<leftarrow> rewrite_values m args; Some (R_Intrinsic op args) }
      | R_ProcessFrame v \<Rightarrow> do { v \<leftarrow> rewrite_value m v; Some (R_ProcessFrame v) }
      | R_NormalizeIndex i n b \<Rightarrow>
          do { i \<leftarrow> rewrite_value m i; n \<leftarrow> rewrite_value m n; Some (R_NormalizeIndex i n b) }
      | R_InputLoad i el b fr \<Rightarrow>
          do { el \<leftarrow> rewrite_optional m el; fr \<leftarrow> rewrite_value m fr; Some (R_InputLoad i el b fr) }
      | R_OutputLoad i el b fr \<Rightarrow>
          do { el \<leftarrow> rewrite_optional m el; fr \<leftarrow> rewrite_value m fr; Some (R_OutputLoad i el b fr) }
      | R_BufferLoad bf ch i b \<Rightarrow>
          do { bf \<leftarrow> rewrite_buffer_ref m bf; ch \<leftarrow> rewrite_optional m ch; i \<leftarrow> rewrite_value m i;
               Some (R_BufferLoad bf ch i b) }
      | R_BufferParamLoad bf ch i b \<Rightarrow>
          do { bf \<leftarrow> rewrite_buffer_param_ref m bf; ch \<leftarrow> rewrite_optional m ch; i \<leftarrow> rewrite_value m i;
               Some (R_BufferParamLoad bf ch i b) }
      | R_ConstDataLoad d i b \<Rightarrow> do { i \<leftarrow> rewrite_value m i; Some (R_ConstDataLoad d i b) }
      | R_MakeSlice src st n b a \<Rightarrow>
          do { src \<leftarrow> rewrite_slice_source m src; st \<leftarrow> rewrite_value m st; n \<leftarrow> rewrite_value m n;
               Some (R_MakeSlice src st n b a) }
      | R_SliceLoad s i b \<Rightarrow>
          do { s \<leftarrow> rewrite_value m s; i \<leftarrow> rewrite_value m i; Some (R_SliceLoad s i b) }
      | R_BufferLen b \<Rightarrow> do { b \<leftarrow> rewrite_buffer_ref m b; Some (R_BufferLen b) }
      | R_BufferChannels b \<Rightarrow> do { b \<leftarrow> rewrite_buffer_ref m b; Some (R_BufferChannels b) }
      | R_BufferSampleRate b \<Rightarrow> do { b \<leftarrow> rewrite_buffer_ref m b; Some (R_BufferSampleRate b) }
      | R_BufferIsBound b \<Rightarrow> do { b \<leftarrow> rewrite_buffer_ref m b; Some (R_BufferIsBound b) }
      | R_BufferParamLen b \<Rightarrow> do { b \<leftarrow> rewrite_buffer_param_ref m b; Some (R_BufferParamLen b) }
      | R_BufferParamChannels b \<Rightarrow> do { b \<leftarrow> rewrite_buffer_param_ref m b; Some (R_BufferParamChannels b) }
      | R_BufferParamSampleRate b \<Rightarrow> do { b \<leftarrow> rewrite_buffer_param_ref m b; Some (R_BufferParamSampleRate b) }
      | R_BufferParamIsBound b \<Rightarrow> do { b \<leftarrow> rewrite_buffer_param_ref m b; Some (R_BufferParamIsBound b) })"

definition rewrite_argument :: "local_mapping \<Rightarrow> call_argument \<Rightarrow> call_argument option" where
  "rewrite_argument m a =
     (case a of
        A_Value v \<Rightarrow> do { v \<leftarrow> rewrite_value m v; Some (A_Value v) }
      | A_Place p \<Rightarrow> do { p \<leftarrow> rewrite_place m p; Some (A_Place p) }
      | A_ArrayWindow p st b \<Rightarrow>
          do { p \<leftarrow> rewrite_place m p; st \<leftarrow> rewrite_value m st; Some (A_ArrayWindow p st b) }
      | A_SliceElement s i b \<Rightarrow>
          do { s \<leftarrow> rewrite_value m s; i \<leftarrow> rewrite_value m i; Some (A_SliceElement s i b) }
      | A_SliceWindow s st b \<Rightarrow>
          do { s \<leftarrow> rewrite_value m s; st \<leftarrow> rewrite_value m st; Some (A_SliceWindow s st b) }
      | A_Buffer b \<Rightarrow> do { b \<leftarrow> rewrite_buffer_ref m b; Some (A_Buffer b) }
      | A_BufferParam b \<Rightarrow> do { b \<leftarrow> rewrite_buffer_param_ref m b; Some (A_BufferParam b) }
      | A_BufferSpan b \<Rightarrow> Some (A_BufferSpan b))"

definition rewrite_copy :: "local_mapping \<Rightarrow> slice_copy \<Rightarrow> slice_copy option" where
  "rewrite_copy m c =
     do { d \<leftarrow> rewrite_value m (copy_destination c); s \<leftarrow> rewrite_value m (copy_source c);
          Some \<lparr>copy_destination = d, copy_source = s\<rparr> }"

text \<open>Statements without nested blocks.\<close>

definition rewrite_simple :: "local_mapping \<Rightarrow> statement_kind \<Rightarrow> statement_kind option" where
  "rewrite_simple m k =
     (case k of
        S_Assign d r \<Rightarrow> do { d \<leftarrow> rewrite_place m d; r \<leftarrow> rewrite_rvalue m r; Some (S_Assign d r) }
      | S_Call rs f args \<Rightarrow>
          do { rs \<leftarrow> those (map (get_flat m) rs); args \<leftarrow> those (map (rewrite_argument m) args);
               Some (S_Call rs f args) }
      | S_PublishDelegate d args \<Rightarrow>
          do { args \<leftarrow> those (map (rewrite_argument m) args); Some (S_PublishDelegate d args) }
      | S_PublishLog l vs \<Rightarrow> do { vs \<leftarrow> rewrite_values m vs; Some (S_PublishLog l vs) }
      | S_OutputStore i el b fr v \<Rightarrow>
          do { el \<leftarrow> rewrite_optional m el; fr \<leftarrow> rewrite_value m fr; v \<leftarrow> rewrite_value m v;
               Some (S_OutputStore i el b fr v) }
      | S_ControlOutputStore i el b v \<Rightarrow>
          do { el \<leftarrow> rewrite_optional m el; v \<leftarrow> rewrite_value m v; Some (S_ControlOutputStore i el b v) }
      | S_BufferStore bf ch i v b \<Rightarrow>
          do { bf \<leftarrow> rewrite_buffer_ref m bf; ch \<leftarrow> rewrite_optional m ch; i \<leftarrow> rewrite_value m i;
               v \<leftarrow> rewrite_value m v; Some (S_BufferStore bf ch i v b) }
      | S_BufferParamStore bf ch i v b \<Rightarrow>
          do { bf \<leftarrow> rewrite_buffer_param_ref m bf; ch \<leftarrow> rewrite_optional m ch; i \<leftarrow> rewrite_value m i;
               v \<leftarrow> rewrite_value m v; Some (S_BufferParamStore bf ch i v b) }
      | S_SliceStore s i v b \<Rightarrow>
          do { s \<leftarrow> rewrite_value m s; i \<leftarrow> rewrite_value m i; v \<leftarrow> rewrite_value m v;
               Some (S_SliceStore s i v b) }
      | S_SliceFill d v \<Rightarrow> do { d \<leftarrow> rewrite_value m d; v \<leftarrow> rewrite_value m v; Some (S_SliceFill d v) }
      | S_SliceCopy cs p \<Rightarrow> do { cs \<leftarrow> those (map (rewrite_copy m) cs); Some (S_SliceCopy cs p) }
      | S_Return vs \<Rightarrow> do { vs \<leftarrow> rewrite_values m vs; Some (S_Return vs) }
      | _ \<Rightarrow> Some k)"

fun rewrite_block_locals :: "local_mapping \<Rightarrow> block \<Rightarrow> block option"
  and rewrite_statements :: "local_mapping \<Rightarrow> statement list \<Rightarrow> statement list option"
  and rewrite_statement_locals :: "local_mapping \<Rightarrow> statement \<Rightarrow> statement option"
  and rewrite_kind :: "local_mapping \<Rightarrow> statement_kind \<Rightarrow> statement_kind option" where
  "rewrite_block_locals m (Block ss) = do { ss \<leftarrow> rewrite_statements m ss; Some (Block ss) }"
| "rewrite_statements m [] = Some []"
| "rewrite_statements m (s # ss) =
     do { s \<leftarrow> rewrite_statement_locals m s; ss \<leftarrow> rewrite_statements m ss; Some (s # ss) }"
| "rewrite_statement_locals m (Statement k src) = do { k \<leftarrow> rewrite_kind m k; Some (Statement k src) }"
| "rewrite_kind m (S_If c t e) =
     do { c \<leftarrow> rewrite_value m c; t \<leftarrow> rewrite_block_locals m t; e \<leftarrow> rewrite_block_locals m e;
          Some (S_If c t e) }"
| "rewrite_kind m (S_Loop body) = do { body \<leftarrow> rewrite_block_locals m body; Some (S_Loop body) }"
| "rewrite_kind m k = rewrite_simple m k"

subsection \<open>The new table\<close>

fun reindex :: "local_id set \<Rightarrow> nat \<Rightarrow> mir_local list \<Rightarrow> mir_local list \<Rightarrow> pass_stats
    \<Rightarrow> local_mapping \<times> mir_local list \<times> pass_stats" where
  "reindex referenced i [] locals st = ([], locals, st)"
| "reindex referenced i (lc # rest) locals st =
     (if i \<in> referenced
      then (let (m, locals', st) = reindex referenced (Suc i) rest (locals @ [lc]) st
            in (Some (length locals) # m, locals', st))
      else (let (m, locals', st) = reindex referenced (Suc i) rest locals
                  (st\<lparr>ps_removed_locals := bump (ps_removed_locals st)\<rparr>)
            in (None # m, locals', st)))"

definition remove_dead_pure_locals ::
  "mir_type list \<Rightarrow> mir_function \<Rightarrow> pass_stats \<Rightarrow> (mir_function \<times> pass_stats) option" where
  "remove_dead_pure_locals types f st =
     do { (f, st) \<leftarrow> dead_values_remove types f st;
          let (m, locals, st) = reindex (collect_block_local_references (fn_body f) {}) 0 (fn_locals f) [] st;
          body \<leftarrow> rewrite_block_locals m (fn_body f);
          Some (f\<lparr>fn_locals := locals, fn_body := body\<rparr>, st) }"

subsection \<open>Rewriting is a renaming of mapped locals\<close>

definition mapped :: "local_mapping \<Rightarrow> local_id set" where
  "mapped m = {l. get_flat m l \<noteq> None}"

definition new_index :: "local_mapping \<Rightarrow> local_id \<Rightarrow> local_id" where
  "new_index m l = the (get_flat m l)"

definition rename_value :: "local_mapping \<Rightarrow> mir_value \<Rightarrow> mir_value" where
  "rename_value m v = (case v of V_Local l \<Rightarrow> V_Local (new_index m l) | V_Constant c \<Rightarrow> V_Constant c)"

definition rename_base :: "local_mapping \<Rightarrow> place_base \<Rightarrow> place_base" where
  "rename_base m b = (case b of PB_Local l \<Rightarrow> PB_Local (new_index m l) | _ \<Rightarrow> b)"

definition rename_place :: "local_mapping \<Rightarrow> place \<Rightarrow> place" where
  "rename_place m p = (map_place (rename_value m) p)\<lparr>place_base := rename_base m (place_base p)\<rparr>"

definition rename_rvalue :: "local_mapping \<Rightarrow> rvalue \<Rightarrow> rvalue" where
  "rename_rvalue m r =
     (case r of
        R_Load p \<Rightarrow> R_Load (rename_place m p)
      | R_MakeSlice (SS_Place p) st n b a \<Rightarrow>
          R_MakeSlice (SS_Place (rename_place m p)) (rename_value m st) (rename_value m n) b a
      | _ \<Rightarrow> map_rvalue (rename_value m) r)"

definition rename_argument :: "local_mapping \<Rightarrow> call_argument \<Rightarrow> call_argument" where
  "rename_argument m a =
     (case a of
        A_Place p \<Rightarrow> A_Place (rename_place m p)
      | A_ArrayWindow p st b \<Rightarrow> A_ArrayWindow (rename_place m p) (rename_value m st) b
      | _ \<Rightarrow> map_argument (rename_value m) a)"

definition rename_simple :: "local_mapping \<Rightarrow> statement_kind \<Rightarrow> statement_kind" where
  "rename_simple m k =
     (case k of
        S_Assign d r \<Rightarrow> S_Assign (rename_place m d) (rename_rvalue m r)
      | S_Call rs f as \<Rightarrow> S_Call (map (new_index m) rs) f (map (rename_argument m) as)
      | S_PublishDelegate d as \<Rightarrow> S_PublishDelegate d (map (rename_argument m) as)
      | _ \<Rightarrow> map_kind (rename_value m) k)"

lemma bind_guard [simp]: "Option.bind (if b then Some x else None) f = (if b then f x else None)"
  by simp

lemma map_option_guard [simp]: "map_option f (if b then Some x else None) = (if b then Some (f x) else None)"
  by simp

named_theorems rewrite_simps "rewriting as a guarded renaming"

lemma rewrite_value_eq [rewrite_simps]:
  "rewrite_value m v = (if value_locals [v] \<subseteq> mapped m then Some (rename_value m v) else None)"
  by (cases v) (auto simp: rewrite_value_def mapped_def rename_value_def new_index_def)

lemma those_guard:
  assumes "\<And>x. g x = (if P x then Some (f x) else None)"
  shows "those (map g xs) = (if \<forall>x \<in> set xs. P x then Some (map f xs) else None)"
  by (induction xs) (simp_all add: assms)

lemma rewrite_values_eq [rewrite_simps]:
  "rewrite_values m vs = (if value_locals vs \<subseteq> mapped m then Some (map (rename_value m) vs) else None)"
proof -
  have "(\<forall>v \<in> set vs. value_locals [v] \<subseteq> mapped m) \<longleftrightarrow> value_locals vs \<subseteq> mapped m"
    by (auto simp: value_locals_def)
  then show ?thesis by (simp add: rewrite_values_def those_guard [OF rewrite_value_eq])
qed

lemma rewrite_optional_eq [rewrite_simps]:
  "rewrite_optional m v =
     (if value_locals (option_operands v) \<subseteq> mapped m then Some (map_option (rename_value m) v) else None)"
  by (cases v) (simp_all add: rewrite_optional_def option_operands_def rewrite_value_eq)

lemma rewrite_buffer_ref_eq [rewrite_simps]:
  "rewrite_buffer_ref m b =
     (if value_locals (buffer_ref_operands b) \<subseteq> mapped m then Some (map_buffer_ref (rename_value m) b) else None)"
  by (cases b) (simp_all add: rewrite_buffer_ref_def buffer_ref_operands_def map_buffer_ref_def rewrite_value_eq)

lemma rewrite_buffer_param_ref_eq [rewrite_simps]:
  "rewrite_buffer_param_ref m b =
     (if value_locals (buffer_param_ref_operands b) \<subseteq> mapped m
      then Some (map_buffer_param_ref (rename_value m) b) else None)"
  by (cases b)
    (simp_all add: rewrite_buffer_param_ref_def buffer_param_ref_operands_def map_buffer_param_ref_def rewrite_value_eq)

lemma rewrite_base_eq [rewrite_simps]:
  "rewrite_base m (place_base p) = (if base_locals p \<subseteq> mapped m then Some (rename_base m (place_base p)) else None)"
  by (cases "place_base p") (auto simp: rewrite_base_def base_locals_def rename_base_def mapped_def new_index_def)

lemma rewrite_projection_eq:
  "rewrite_projection m p =
     (if value_locals (index_operands p) \<subseteq> mapped m then Some (map_index (rename_value m) p) else None)"
  by (cases p) (simp_all add: rewrite_projection_def index_operands_def map_index_def rewrite_value_eq)

lemma value_locals_concat: "value_locals (concat xss) = \<Union> (value_locals ` set xss)"
  by (auto simp: value_locals_def)

lemma rewrite_place_eq [rewrite_simps]:
  "rewrite_place m p =
     (if base_locals p \<union> value_locals (place_operands p) \<subseteq> mapped m then Some (rename_place m p) else None)"
proof -
  have "(\<forall>q \<in> set (place_projections p). value_locals (index_operands q) \<subseteq> mapped m)
      \<longleftrightarrow> value_locals (place_operands p) \<subseteq> mapped m"
    by (auto simp: place_operands_def value_locals_concat)
  then show ?thesis
    by (auto simp: rewrite_place_def rewrite_base_eq those_guard [OF rewrite_projection_eq]
        rename_place_def map_place_def)
qed

lemma rewrite_slice_source_eq [rewrite_simps]:
  "rewrite_slice_source m s =
     (if (case s of SS_Place p \<Rightarrow> base_locals p | _ \<Rightarrow> {}) \<union> value_locals (slice_source_operands s) \<subseteq> mapped m
      then Some (case s of SS_Place p \<Rightarrow> SS_Place (rename_place m p) | _ \<Rightarrow> map_slice_source (rename_value m) s)
      else None)"
  by (cases s) (simp_all add: rewrite_slice_source_def slice_source_operands_def map_slice_source_def rewrite_simps)

lemma rewrite_rvalue_eq [rewrite_simps]:
  "rewrite_rvalue m r =
     (if rvalue_bases r \<union> value_locals (rvalue_operands r) \<subseteq> mapped m then Some (rename_rvalue m r) else None)"
proof (cases r)
  case (R_MakeSlice src st n b a)
  then show ?thesis
    by (cases src) (auto simp: rewrite_rvalue_def rvalue_operands_def rvalue_bases_def rename_rvalue_def
        map_rvalue_def rewrite_simps slice_source_operands_def map_slice_source_def value_locals_Cons [of _ "_ # _"])
qed (auto simp: rewrite_rvalue_def rvalue_operands_def rvalue_bases_def rename_rvalue_def map_rvalue_def
    rewrite_simps value_locals_Cons [of _ "_ # _"])

lemma rewrite_argument_eq [rewrite_simps]:
  "rewrite_argument m a =
     (if argument_bases a \<union> value_locals (argument_operands a) \<subseteq> mapped m then Some (rename_argument m a) else None)"
  by (cases a) (auto simp: rewrite_argument_def argument_operands_def argument_bases_def rename_argument_def
    map_argument_def rewrite_simps value_locals_Cons [of _ "_ # _"])

lemma rewrite_arguments_eq [rewrite_simps]:
  "those (map (rewrite_argument m) as) =
     (if \<Union> (argument_bases ` set as) \<union> value_locals (concat (map argument_operands as)) \<subseteq> mapped m
      then Some (map (rename_argument m) as) else None)"
proof -
  have "(\<forall>a \<in> set as. argument_bases a \<union> value_locals (argument_operands a) \<subseteq> mapped m)
      \<longleftrightarrow> \<Union> (argument_bases ` set as) \<union> value_locals (concat (map argument_operands as)) \<subseteq> mapped m"
    by (auto simp: value_locals_concat)
  then show ?thesis by (simp add: those_guard [OF rewrite_argument_eq])
qed

lemma rewrite_results_eq [rewrite_simps]:
  "those (map (get_flat m) rs) = (if set rs \<subseteq> mapped m then Some (map (new_index m) rs) else None)"
proof -
  have "get_flat m l = (if l \<in> mapped m then Some (new_index m l) else None)" for l
    by (auto simp: mapped_def new_index_def)
  then have "those (map (get_flat m) rs) = (if \<forall>l \<in> set rs. l \<in> mapped m then Some (map (new_index m) rs) else None)"
    by (rule those_guard)
  then show ?thesis by (simp add: subset_iff)
qed

lemma rewrite_copies_eq [rewrite_simps]:
  "those (map (rewrite_copy m) cs) =
     (if value_locals (concat (map (\<lambda>c. [copy_destination c, copy_source c]) cs)) \<subseteq> mapped m
      then Some (map (map_copy (rename_value m)) cs) else None)"
proof -
  have copy: "rewrite_copy m c = (if value_locals [copy_destination c, copy_source c] \<subseteq> mapped m
      then Some (map_copy (rename_value m) c) else None)" for c
    by (auto simp: rewrite_copy_def map_copy_def rewrite_value_eq value_locals_Cons [of _ "_ # _"])
  moreover have "(\<forall>c \<in> set cs. value_locals [copy_destination c, copy_source c] \<subseteq> mapped m)
      \<longleftrightarrow> value_locals (concat (map (\<lambda>c. [copy_destination c, copy_source c]) cs)) \<subseteq> mapped m"
    by (auto simp: value_locals_concat)
  ultimately show ?thesis by (simp only: those_guard [OF copy])
qed

lemma rewrite_simple_eq:
  "\<not> has_blocks k \<Longrightarrow> rewrite_simple m k =
     (if kind_targets k \<union> statement_reads k \<subseteq> mapped m then Some (rename_simple m k) else None)"
  by (cases k) (auto simp: rewrite_simple_def kind_targets_def statement_reads_def kind_bases_def
    kind_operands_def rename_simple_def map_kind_def rewrite_simps value_locals_Cons [of _ "_ # _"])

lemma rename_values_locals: "value_locals (map (rename_value m) vs) = new_index m ` value_locals vs"
proof -
  have "V_Local l \<in> rename_value m ` set vs \<longleftrightarrow> (\<exists>l'. V_Local l' \<in> set vs \<and> l = new_index m l')" for l
    by (force simp: rename_value_def split: mir_value.splits)
  then show ?thesis by (auto simp: value_locals_def)
qed

lemma rename_place_operands: "place_operands (rename_place m p) = map (rename_value m) (place_operands p)"
  using place_operands_map [of "rename_value m" p] by (simp add: rename_place_def place_operands_def)

lemma rename_place_base: "base_locals (rename_place m p) = new_index m ` base_locals p"
  by (cases "place_base p") (simp_all add: rename_place_def base_locals_def rename_base_def)

lemma rename_rvalue_operands: "rvalue_operands (rename_rvalue m r) = map (rename_value m) (rvalue_operands r)"
proof (cases r)
  case (R_MakeSlice src st n b a)
  then show ?thesis
    by (cases src) (simp_all add: rename_rvalue_def rvalue_operands_def slice_source_operands_def
        rename_place_operands map_rvalue_def map_slice_source_def operand_simps)
qed (simp_all add: rename_rvalue_def rvalue_operands_def rename_place_operands map_rvalue_def operand_simps)

lemma rename_rvalue_bases: "rvalue_bases (rename_rvalue m r) = new_index m ` rvalue_bases r"
proof (cases r)
  case (R_MakeSlice src st n b a)
  then show ?thesis
    by (cases src) (simp_all add: rename_rvalue_def rvalue_bases_def rename_place_base map_rvalue_def map_slice_source_def)
qed (simp_all add: rename_rvalue_def rvalue_bases_def rename_place_base map_rvalue_def)

lemma rename_argument_operands: "argument_operands (rename_argument m a) = map (rename_value m) (argument_operands a)"
  by (cases a) (simp_all add: rename_argument_def argument_operands_def rename_place_operands map_argument_def operand_simps)

lemma rename_argument_bases: "argument_bases (rename_argument m a) = new_index m ` argument_bases a"
  by (cases a) (simp_all add: rename_argument_def argument_bases_def rename_place_base map_argument_def)

lemma rename_arguments:
  "concat (map argument_operands (map (rename_argument m) as)) = map (rename_value m) (concat (map argument_operands as))"
  "\<Union> (argument_bases ` set (map (rename_argument m) as)) = new_index m ` \<Union> (argument_bases ` set as)"
  by (simp_all add: map_concat comp_def rename_argument_operands rename_argument_bases image_UN)

lemma rename_kind_operands: "kind_operands (rename_simple m k) = map (rename_value m) (kind_operands k)"
proof (cases k)
  case (S_Call rs f as)
  then show ?thesis using rename_arguments(1) [of m as] by (simp add: rename_simple_def kind_operands_def)
next
  case (S_PublishDelegate d as)
  then show ?thesis using rename_arguments(1) [of m as] by (simp add: rename_simple_def kind_operands_def)
qed (simp_all add: rename_simple_def kind_operands_def rename_place_operands rename_rvalue_operands
    kind_operands_map [unfolded kind_operands_def] map_kind_def operand_simps map_concat comp_def map_copy_def)

lemma rename_kind_bases: "kind_bases (rename_simple m k) = new_index m ` kind_bases k"
proof (cases k)
  case (S_Call rs f as)
  then show ?thesis using rename_arguments(2) [of m as] by (simp add: rename_simple_def kind_bases_def)
next
  case (S_PublishDelegate d as)
  then show ?thesis using rename_arguments(2) [of m as] by (simp add: rename_simple_def kind_bases_def)
qed (simp_all add: rename_simple_def kind_bases_def rename_rvalue_bases map_kind_def)

lemma rename_kind_locals:
  "kind_targets (rename_simple m k) \<union> statement_reads (rename_simple m k)
     = new_index m ` (kind_targets k \<union> statement_reads k)"
proof -
  have "kind_targets (rename_simple m k) = new_index m ` kind_targets k"
    by (cases k) (simp_all add: kind_targets_def rename_simple_def rename_place_base map_kind_def)
  then show ?thesis
    by (simp add: statement_reads_def rename_kind_operands rename_kind_bases rename_values_locals image_Un Un_assoc)
qed

text \<open>The locals a block mentions.\<close>

fun block_mentions :: "block \<Rightarrow> local_id set" and statements_mentions :: "statement list \<Rightarrow> local_id set" where
  "block_mentions (Block ss) = statements_mentions ss"
| "statements_mentions [] = {}"
| "statements_mentions (Statement k src # ss) =
     kind_targets k \<union> statement_reads k
     \<union> (case k of S_If c t e \<Rightarrow> block_mentions t \<union> block_mentions e | S_Loop b \<Rightarrow> block_mentions b | _ \<Rightarrow> {})
     \<union> statements_mentions ss"

lemma statement_writes_eq: "collect_statement_writes (Statement k src) s = s \<union> kind_targets k"
  by (cases k) (auto simp: collect_statement_writes_def kind_targets_def base_locals_def split: place_base.splits)

lemma statement_reads_collect: "collect_statement_read_references (Statement k src) s = s \<union> statement_reads k"
  by (simp add: statement_reads_eq statement_reads_def Un_assoc)

lemma simple_mentions:
  assumes "\<not> has_blocks k"
  shows "statements_mentions [Statement k src] = kind_targets k \<union> statement_reads k"
    and "collect_statements_writes [Statement k src] t = t \<union> kind_targets k"
    and "statements_read_references [Statement k src] t = t \<union> statement_reads k"
  using assms by (cases k; simp add: statement_writes_eq statement_reads_collect Let_def)+

lemma writes_and_reads:
  shows "\<exists>W R. W \<union> R = statements_mentions [s] \<and> (\<forall>t. collect_statements_writes [s] t = t \<union> W)
      \<and> (\<forall>t. statements_read_references [s] t = t \<union> R)"
    and "\<exists>W R. W \<union> R = statements_mentions [Statement k src] \<and> (\<forall>t. collect_statements_writes [Statement k src] t = t \<union> W)
      \<and> (\<forall>t. statements_read_references [Statement k src] t = t \<union> R)"
    and "\<exists>W R. W \<union> R = block_mentions b \<and> (\<forall>t. collect_block_writes b t = t \<union> W)
      \<and> (\<forall>t. collect_read_references b t = t \<union> R)"
    and "\<exists>W R. W \<union> R = statements_mentions ss \<and> (\<forall>t. collect_statements_writes ss t = t \<union> W)
      \<and> (\<forall>t. statements_read_references ss t = t \<union> R)"
proof (induction s and k and b and ss arbitrary: and src and and rule: mir_induct)
  case (Statement k src)
  then show ?case by blast
next
  case (Simple k)
  show ?case
    by (rule exI [of _ "kind_targets k"], rule exI [of _ "statement_reads k"])
      (simp add: simple_mentions [OF Simple] del: statements_mentions.simps
        collect_statements_writes.simps statements_read_references.simps)
next
  case (If c t f)
  obtain W1 R1 where 1: "W1 \<union> R1 = block_mentions t" "\<forall>s. collect_block_writes t s = s \<union> W1"
      "\<forall>s. collect_read_references t s = s \<union> R1" using If.IH(1) by (elim exE conjE) (rule that)
  obtain W2 R2 where 2: "W2 \<union> R2 = block_mentions f" "\<forall>s. collect_block_writes f s = s \<union> W2"
      "\<forall>s. collect_read_references f s = s \<union> R2" using If.IH(2) by (elim exE conjE) (rule that)
  show ?case
    by (rule exI [of _ "W1 \<union> W2"], rule exI [of _ "statement_reads (S_If c t f) \<union> R1 \<union> R2"])
      (simp add: 1(2,3) 2(2,3) 1(1) [symmetric] 2(1) [symmetric] statement_writes_eq statement_reads_collect
        Let_def kind_targets_def Un_ac)
next
  case (Loop body)
  obtain W R where 1: "W \<union> R = block_mentions body" "\<forall>s. collect_block_writes body s = s \<union> W"
      "\<forall>s. collect_read_references body s = s \<union> R"
    using Loop by (elim exE conjE) (rule that)
  show ?case
    by (rule exI [of _ W], rule exI [of _ "statement_reads (S_Loop body) \<union> R"])
      (simp add: 1(2,3) 1(1) [symmetric] statement_writes_eq statement_reads_collect Let_def
        kind_targets_def Un_ac)
next
  case (Block ss)
  then show ?case by simp
next
  case Nil
  then show ?case by simp
next
  case (Cons s ss)
  obtain k src where s: "s = Statement k src" by (cases s)
  obtain W1 R1 where 1: "W1 \<union> R1 = statements_mentions [s]" "\<forall>t. collect_statements_writes [s] t = t \<union> W1"
      "\<forall>t. statements_read_references [s] t = t \<union> R1" using Cons.IH(1) by (elim exE conjE) (rule that)
  obtain W2 R2 where 2: "W2 \<union> R2 = statements_mentions ss" "\<forall>t. collect_statements_writes ss t = t \<union> W2"
      "\<forall>t. statements_read_references ss t = t \<union> R2" using Cons.IH(2) by (elim exE conjE) (rule that)
  have split: "statements_mentions (s # ss) = statements_mentions [s] \<union> statements_mentions ss"
      "collect_statements_writes (s # ss) t = collect_statements_writes ss (collect_statements_writes [s] t)"
      "statements_read_references (s # ss) t = statements_read_references ss (statements_read_references [s] t)" for t
    by (simp_all add: s Let_def)
  show ?case
    by (rule exI [of _ "W1 \<union> W2"], rule exI [of _ "R1 \<union> R2"]) (simp add: split 1(2,3) 2(2,3) 1(1) [symmetric] 2(1) [symmetric] Un_ac del: statements_mentions.simps
        collect_statements_writes.simps statements_read_references.simps)
qed

lemma referenced_locals_mentions: "referenced_locals b = block_mentions b"
  using writes_and_reads(3) [of b] by (auto simp: referenced_locals_def collect_block_local_references_def)

lemma rewrite_kind_simple: "\<not> has_blocks k \<Longrightarrow> rewrite_kind m k = rewrite_simple m k"
  by (cases k) simp_all

lemma simple_statement_mentions:
  "\<not> has_blocks k \<Longrightarrow> statements_mentions [Statement k src] = kind_targets k \<union> statement_reads k"
  by (cases k) simp_all

lemma rename_simple_blocks: "\<not> has_blocks k \<Longrightarrow> \<not> has_blocks (rename_simple m k)"
  by (cases k) (simp_all add: rename_simple_def map_kind_def has_blocks_def)

lemma mentions_Cons: "statements_mentions (s # ss) = statements_mentions [s] \<union> statements_mentions ss"
  by (cases s) simp

text \<open>Rewriting succeeds when every mentioned local is mapped, and the result mentions the images.\<close>

definition rewrites_to :: "local_mapping \<Rightarrow> local_id set \<Rightarrow> 'a option \<Rightarrow> ('a \<Rightarrow> local_id set) \<Rightarrow> bool" where
  "rewrites_to m S r T \<longleftrightarrow> (S \<subseteq> mapped m \<longrightarrow> (\<exists>x. r = Some x \<and> T x = new_index m ` S))"

lemma rewrites_toD: "rewrites_to m S r T \<Longrightarrow> S \<subseteq> mapped m \<Longrightarrow> \<exists>x. r = Some x \<and> T x = new_index m ` S"
  by (simp add: rewrites_to_def)

lemma if_mentions:
  "statements_mentions [Statement (S_If c t e) src] = value_locals [c] \<union> block_mentions t \<union> block_mentions e"
  by (simp add: kind_targets_def statement_reads_def kind_bases_def kind_operands_def Un_ac)

lemma loop_mentions: "statements_mentions [Statement (S_Loop b) src] = block_mentions b"
  by (simp add: kind_targets_def statement_reads_def kind_bases_def kind_operands_def)

lemma rewrite_total:
  shows "rewrites_to m (statements_mentions [s]) (rewrite_statement_locals m s) (\<lambda>s'. statements_mentions [s'])"
    and "rewrites_to m (statements_mentions [Statement k src]) (rewrite_kind m k)
      (\<lambda>k'. statements_mentions [Statement k' src])"
    and "rewrites_to m (block_mentions b) (rewrite_block_locals m b) block_mentions"
    and "rewrites_to m (statements_mentions ss) (rewrite_statements m ss) statements_mentions"
proof (induction s and k and b and ss arbitrary: and src and and rule: mir_induct)
  case (Statement k src)
  from Statement.IH [of src] show ?case
    unfolding rewrites_to_def by (auto simp del: statements_mentions.simps)
next
  case (Simple k)
  note eq = rewrite_kind_simple [OF Simple] rewrite_simple_eq [OF Simple]
    simple_statement_mentions [OF Simple] simple_statement_mentions [OF rename_simple_blocks [OF Simple]]
  show ?case unfolding rewrites_to_def eq by (auto simp: rename_kind_locals eq simp del: statements_mentions.simps)
next
  case (If c t f)
  show ?case
    unfolding rewrites_to_def if_mentions
  proof
    assume m: "value_locals [c] \<union> block_mentions t \<union> block_mentions f \<subseteq> mapped m"
    obtain t' where t: "rewrite_block_locals m t = Some t'" "block_mentions t' = new_index m ` block_mentions t"
      using rewrites_toD [OF If.IH(1)] m by auto
    obtain f' where f: "rewrite_block_locals m f = Some f'" "block_mentions f' = new_index m ` block_mentions f"
      using rewrites_toD [OF If.IH(2)] m by auto
    have "rewrite_kind m (S_If c t f) = Some (S_If (rename_value m c) t' f')"
      using m t(1) f(1) by (simp add: rewrite_value_eq)
    moreover have "value_locals [rename_value m c] = new_index m ` value_locals [c]"
      using rename_values_locals [of m "[c]"] by simp
    ultimately show "\<exists>k'. rewrite_kind m (S_If c t f) = Some k' \<and> statements_mentions [Statement k' src]
        = new_index m ` (value_locals [c] \<union> block_mentions t \<union> block_mentions f)"
      using t(2) f(2) by (simp add: if_mentions image_Un del: statements_mentions.simps)
  qed
next
  case (Loop body)
  show ?case
    unfolding rewrites_to_def loop_mentions
    using rewrites_toD [OF Loop] by (auto simp: loop_mentions simp del: statements_mentions.simps)
next
  case (Block ss)
  then show ?case unfolding rewrites_to_def by auto
next
  case Nil
  then show ?case by (simp add: rewrites_to_def)
next
  case (Cons s ss)
  show ?case
    unfolding rewrites_to_def
  proof
    assume m: "statements_mentions (s # ss) \<subseteq> mapped m"
    have m1: "statements_mentions [s] \<subseteq> mapped m" and m2: "statements_mentions ss \<subseteq> mapped m"
      using m mentions_Cons [of s ss] by simp_all
    obtain s' where s: "rewrite_statement_locals m s = Some s'" "statements_mentions [s'] = new_index m ` statements_mentions [s]"
      using rewrites_toD [OF Cons.IH(1) m1] by blast
    obtain ss' where ss: "rewrite_statements m ss = Some ss'" "statements_mentions ss' = new_index m ` statements_mentions ss"
      using rewrites_toD [OF Cons.IH(2) m2] by blast
    show "\<exists>x. rewrite_statements m (s # ss) = Some x \<and> statements_mentions x = new_index m ` statements_mentions (s # ss)"
      using s(1) ss(1)
      by (simp add: mentions_Cons [of s' ss'] mentions_Cons [of s ss] s(2) ss(2) image_Un
          del: statements_mentions.simps)
  qed
qed

subsection \<open>The renumbered table\<close>

lemma reindex_correct:
  assumes "reindex R i lcs locals st = (m, locals', st')"
  shows "length m = length lcs
    \<and> locals' = locals @ map snd (filter (\<lambda>(j, lc). j \<in> R) (enumerate i lcs))
    \<and> (\<forall>j < length lcs. m ! j =
         (if i + j \<in> R then Some (length locals + length (filter (\<lambda>(j, lc). j \<in> R) (enumerate i (take j lcs)))) else None))"
  using assms
proof (induction lcs arbitrary: i locals st m locals' st')
  case (Cons lc lcs)
  show ?case
  proof (cases "i \<in> R")
    case True
    then obtain m1 where r: "reindex R (Suc i) lcs (locals @ [lc]) st = (m1, locals', st')" "m = Some (length locals) # m1"
      using Cons.prems by (auto split: prod.splits)
    from Cons.IH [OF r(1)] True show ?thesis by (auto simp: r(2) nth_Cons' take_Cons')
  next
    case False
    then obtain m1 st1 where r: "reindex R (Suc i) lcs locals st1 = (m1, locals', st')" "m = None # m1"
      using Cons.prems by (auto split: prod.splits)
    from Cons.IH [OF r(1)] False show ?thesis by (auto simp: r(2) nth_Cons' take_Cons')
  qed
qed simp

lemma reindex_nth:
  assumes "reindex R 0 lcs [] st = (m, locals', st')" and "l < length lcs" and "l \<in> R"
  shows "get_flat m l = Some (new_index m l)" and "new_index m l < length locals'" and "locals' ! new_index m l = lcs ! l"
proof -
  let ?P = "\<lambda>(j, lc). j \<in> R"
  note r = reindex_correct [OF assms(1)]
  have split: "lcs = take l lcs @ lcs ! l # drop (Suc l) lcs" by (rule id_take_nth_drop [OF assms(2)])
  have "enumerate 0 lcs = enumerate 0 (take l lcs) @ (l, lcs ! l) # enumerate (Suc l) (drop (Suc l) lcs)"
    by (subst split) (use assms(2) in \<open>simp add: enumerate_append_eq\<close>)
  then have f: "filter ?P (enumerate 0 lcs) = filter ?P (enumerate 0 (take l lcs)) @ (l, lcs ! l)
      # filter ?P (enumerate (Suc l) (drop (Suc l) lcs))"
    using assms(3) by simp
  have m: "m ! l = Some (length (filter ?P (enumerate 0 (take l lcs))))" "l < length m"
    using r assms(2,3) by simp_all
  then show "get_flat m l = Some (new_index m l)" by (simp add: new_index_def get_flat_def)
  have n: "new_index m l = length (filter ?P (enumerate 0 (take l lcs)))"
    using m by (simp add: new_index_def get_flat_def)
  have "locals' = map snd (filter ?P (enumerate 0 lcs))" using r by simp
  then show "new_index m l < length locals'" "locals' ! new_index m l = lcs ! l"
    unfolding n f by (simp_all add: nth_append)
qed

lemma reindex_mono:
  assumes "reindex R 0 lcs [] st = (m, locals', st')" and "l < k" and "k < length lcs" and "l \<in> R" and "k \<in> R"
  shows "new_index m l < new_index m k"
proof -
  let ?P = "\<lambda>(j, lc). j \<in> R"
  have idx: "new_index m j = length (filter ?P (enumerate 0 (take j lcs)))" if "j < length lcs" "j \<in> R" for j
    using reindex_correct [OF assms(1)] that by (simp add: new_index_def get_flat_def)
  have t: "take k lcs = take l lcs @ lcs ! l # drop (Suc l) (take k lcs)"
    using id_take_nth_drop [of l "take k lcs"] assms(2,3) by (simp add: min_def)
  have "enumerate 0 (take k lcs) = enumerate 0 (take l lcs) @ (l, lcs ! l) # enumerate (Suc l) (drop (Suc l) (take k lcs))"
    by (subst t) (use assms(2,3) in \<open>simp add: enumerate_append_eq\<close>)
  then have "length (filter ?P (enumerate 0 (take l lcs))) < length (filter ?P (enumerate 0 (take k lcs)))"
    using assms(4) by simp
  then show ?thesis using idx [of l] idx [of k] assms(2-5) by simp
qed

lemma reindex_image:
  assumes "reindex R 0 lcs [] st = (m, locals', st')" and "R \<subseteq> {..<length lcs}"
  shows "new_index m ` R = {..<length locals'}"
proof -
  have "map fst (filter (\<lambda>(j, lc). j \<in> R) (enumerate 0 lcs)) = filter (\<lambda>j. j \<in> R) [0..<length lcs]"
    using filter_map [of "\<lambda>j. j \<in> R" fst "enumerate 0 lcs"] by (simp add: comp_def split_def)
  then have "length locals' = length (filter (\<lambda>j. j \<in> R) [0..<length lcs])"
    using reindex_correct [OF assms(1)] by (metis append_Nil length_map)
  also have "\<dots> = card (set (filter (\<lambda>j. j \<in> R) [0..<length lcs]))" by (rule distinct_card [symmetric]) simp
  also have "set (filter (\<lambda>j. j \<in> R) [0..<length lcs]) = R" using assms(2) by auto
  finally have len: "length locals' = card R" .
  have "inj_on (new_index m) R"
  proof (rule linorder_inj_onI)
    fix x y assume "x < y" "x \<in> R" "y \<in> R"
    then show "new_index m x \<noteq> new_index m y"
      using reindex_mono [OF assms(1), of x y] assms(2) by (auto simp: subset_iff)
  qed auto
  then have "card (new_index m ` R) = card {..<length locals'}" using len by (simp add: card_image)
  moreover have "new_index m ` R \<subseteq> {..<length locals'}"
    using reindex_nth(2) [OF assms(1)] assms(2) by auto
  ultimately show ?thesis by (intro card_subset_eq) simp_all
qed

lemma retain_mentions:
  shows "retain_live_statements types locals [s] live st = (ss', st') \<Longrightarrow> statements_mentions ss' \<subseteq> statements_mentions [s]"
    and "retain_live_kind types locals k live st = (k', st') \<Longrightarrow>
      statements_mentions [Statement k' src] \<subseteq> statements_mentions [Statement k src]"
    and "retain_live_assignments types locals b live st = (b', st') \<Longrightarrow> block_mentions b' \<subseteq> block_mentions b"
    and "retain_live_statements types locals ss live st = (ss', st') \<Longrightarrow> statements_mentions ss' \<subseteq> statements_mentions ss"
proof (induction s and k and b and ss arbitrary: st ss' st' and src st k' st' and st b' st' and st ss' st' rule: mir_induct)
  case (Statement k src)
  show ?case
  proof (cases "keeps types locals live k")
    case True
    then obtain k' st1 where k': "retain_live_kind types locals k live st = (k', st1)" "ss' = [Statement k' src]"
      using Statement.prems by (auto simp: retain_statements_Cons split: prod.splits)
    from Statement.IH [OF k'(1)] show ?thesis unfolding k'(2) .
  next
    case False
    then show ?thesis using Statement.prems by (simp add: retain_statements_Cons del: statements_mentions.simps(2))
  qed
next
  case (Simple k)
  then show ?case by (simp add: retain_kind_simple)
next
  case (If c t f)
  obtain t' st1 f' st2 where r: "retain_live_assignments types locals t live st = (t', st1)"
      "retain_live_assignments types locals f live st1 = (f', st2)" "k' = S_If c t' f'"
    using If.prems by (auto simp: retain_kind_blocks split: prod.splits)
  from If.IH(1) [OF r(1)] If.IH(2) [OF r(2)] show ?case unfolding r(3) if_mentions by blast
next
  case (Loop body)
  obtain b' st1 where r: "retain_live_assignments types locals body live st = (b', st1)" "k' = S_Loop b'"
    using Loop.prems by (auto simp: retain_kind_blocks split: prod.splits)
  from Loop.IH [OF r(1)] show ?case unfolding r(2) loop_mentions .
next
  case (Block ss)
  obtain ss' where "retain_live_statements types locals ss live st = (ss', st')" "b' = Block ss'"
    using Block.prems by (auto split: prod.splits)
  with Block.IH show ?case by (auto simp del: statements_mentions.simps)
next
  case Nil
  then show ?case by simp
next
  case (Cons s ss)
  obtain k src where s: "s = Statement k src" by (cases s)
  obtain ss1 st1 ss2 where r: "retain_live_statements types locals [s] live st = (ss1, st1)"
      "retain_live_statements types locals ss live st1 = (ss2, st')" "ss' = ss1 @ ss2"
    using Cons.prems unfolding s retain_statements_Cons by (auto simp: Let_def split: if_splits prod.splits)
  have "statements_mentions (xs @ ys) = statements_mentions xs \<union> statements_mentions ys" for xs ys
  proof (induction xs)
    case (Cons x xs)
    then show ?case by (simp add: mentions_Cons [of x xs] mentions_Cons [of x "xs @ ys"] Un_assoc del: statements_mentions.simps(2))
  qed simp
  then show ?case
    using Cons.IH(1) [OF r(1)] Cons.IH(2) [OF r(2)] unfolding r(3) mentions_Cons [of s ss] by blast
qed

lemma in_range_mentions:
  shows "all_kinds (kind_in_range n) s \<Longrightarrow> statements_mentions [s] \<subseteq> {..<n}"
    and "all_kinds (kind_in_range n) (Statement k src) \<Longrightarrow> statements_mentions [Statement k src] \<subseteq> {..<n}"
    and "all_kinds_block (kind_in_range n) b \<Longrightarrow> block_mentions b \<subseteq> {..<n}"
    and "all_kinds_statements (kind_in_range n) ss \<Longrightarrow> statements_mentions ss \<subseteq> {..<n}"
proof (induction s and k and b and ss arbitrary: and src and and rule: mir_induct)
  case (Simple k)
  then show ?case using simple_statement_mentions [OF Simple(1)]
    by (simp add: kind_in_range_def del: statements_mentions.simps(2))
next
  case (Cons s ss)
  then show ?case unfolding mentions_Cons [of s ss] by simp
qed (auto simp: kind_in_range_def)

lemma reindex_locals_correct:
  assumes "locals_in_range f"
  shows "\<exists>f1 st1 f' st' m. dead_values_remove types f st = Some (f1, st1)
    \<and> remove_dead_pure_locals types f st = Some (f', st')
    \<and> rewrite_block_locals m (fn_body f1) = Some (fn_body f')
    \<and> referenced_locals (fn_body f') = {..<length (fn_locals f')}
    \<and> (\<forall>l \<in> referenced_locals (fn_body f1). \<exists>l'. get_flat m l = Some l' \<and> l' < length (fn_locals f')
         \<and> fn_locals f' ! l' = fn_locals f ! l)
    \<and> (\<forall>l \<in> referenced_locals (fn_body f1). \<forall>k \<in> referenced_locals (fn_body f1).
         l < k \<longrightarrow> the (get_flat m l) < the (get_flat m k))"
proof -
  obtain live where live: "dead_values_live types f = Some live"
    using dead_values_live_ok [OF assms] by blast
  obtain b1 st1 where b1: "retain_live_assignments types (fn_locals f) (fn_body f) live st = (b1, st1)"
    by fastforce
  let ?f1 = "f\<lparr>fn_body := b1\<rparr>"
  have f1: "dead_values_remove types f st = Some (?f1, st1)" using live b1 by (simp add: dead_values_remove_def)
  let ?R = "referenced_locals b1"
  have R: "?R \<subseteq> {..<length (fn_locals f)}"
    using retain_mentions(3) [OF b1] in_range_mentions(3) [of "length (fn_locals f)" "fn_body f"] assms
    by (auto simp: referenced_locals_mentions locals_in_range_def)
  obtain m locals' st2 where m: "reindex ?R 0 (fn_locals f) [] st1 = (m, locals', st2)" by (metis prod.collapse)
  have "?R \<subseteq> mapped m" using reindex_nth(1) [OF m] R by (auto simp: mapped_def)
  then obtain b2 where b2: "rewrite_block_locals m b1 = Some b2" "block_mentions b2 = new_index m ` ?R"
    using rewrites_toD [OF rewrite_total(3) [of m b1]] by (auto simp: referenced_locals_mentions)
  have "remove_dead_pure_locals types f st = Some (?f1\<lparr>fn_locals := locals', fn_body := b2\<rparr>, st2)"
    using f1 m b2(1) by (simp add: remove_dead_pure_locals_def referenced_locals_def)
  moreover have "referenced_locals b2 = {..<length locals'}"
    using b2(2) reindex_image [OF m R] by (simp add: referenced_locals_mentions)
  moreover have "\<forall>l \<in> ?R. \<exists>l'. get_flat m l = Some l' \<and> l' < length locals' \<and> locals' ! l' = fn_locals f ! l"
    using reindex_nth [OF m] R by (metis lessThan_iff subsetD)
  moreover have "\<forall>l \<in> ?R. \<forall>k \<in> ?R. l < k \<longrightarrow> the (get_flat m l) < the (get_flat m k)"
    using reindex_mono [OF m] R unfolding new_index_def by blast
  ultimately show ?thesis using f1 b2(1) by (intro exI conjI) auto
qed

text \<open>C31: renumbering never panics and is exact: for a function whose locals are declared, every
  local mentioned after dead values are removed gets a new index with the same declaration, in the
  same order, and in the resulting function the mentioned locals are exactly the declared ones.\<close>

theorem reindex_locals_exact:
  assumes "locals_in_range f"
  shows "\<exists>f1 st1 f' st' m. dead_values_remove types f st = Some (f1, st1)
    \<and> remove_dead_pure_locals types f st = Some (f', st')
    \<and> rewrite_block_locals m (fn_body f1) = Some (fn_body f')
    \<and> referenced_locals (fn_body f') = {..<length (fn_locals f')}
    \<and> (\<forall>l \<in> referenced_locals (fn_body f1). \<exists>l'. get_flat m l = Some l' \<and> l' < length (fn_locals f')
         \<and> fn_locals f' ! l' = fn_locals f ! l)
    \<and> (\<forall>l \<in> referenced_locals (fn_body f1). \<forall>k \<in> referenced_locals (fn_body f1).
         l < k \<longrightarrow> the (get_flat m l) < the (get_flat m k))"
  using assms by (rule reindex_locals_correct)

theorem reindex_locals_exact_witness:
  "\<forall>st. \<exists>f' st'. remove_dead_pure_locals [] dead_demo st = Some (f', st')
    \<and> referenced_locals (fn_body f') = {..<length (fn_locals f')}"
proof
  fix st
  have "locals_in_range dead_demo" by (rule dead_demo_in_range)
  from reindex_locals_exact [OF this, of "[]" st]
  show "\<exists>f' st'. remove_dead_pure_locals [] dead_demo st = Some (f', st')
    \<and> referenced_locals (fn_body f') = {..<length (fn_locals f')}" by blast
qed

end
