(* ===== verification/Validate_Base.thy ===== *)
theory Validate_Base
  imports Reindex_Locals
begin

section \<open>Validation: errors and type queries\<close>

text \<open>
  The part of \<open>onda_mir/src/validate.rs\<close> that every check uses: the error record, the types of values,
  slices and buffers, and the checks of single identifiers. A method that pushes to \<open>self.errors\<close>
  returns the errors it pushes, in order. A message is its format text, with \<open>{}\<close> where the
  code inserts a value.
\<close>

record validation_error =
  ve_message :: string
  ve_function :: "function_id option"
  ve_source :: source_span

datatype producer_proof_status = Absent | Trusted

definition program_error :: "string \<Rightarrow> validation_error list" where
  "program_error message = [\<lparr>ve_message = message, ve_function = None, ve_source = span_unknown\<rparr>]"

definition function_error :: "function_id \<Rightarrow> source_span \<Rightarrow> string \<Rightarrow> validation_error list" where
  "function_error f src message = [\<lparr>ve_message = message, ve_function = Some f, ve_source = src\<rparr>]"

named_theorems onda_errors "when a check reports nothing"

lemma program_error_ne [simp]: "program_error m \<noteq> []"
  by (simp add: program_error_def)

lemma function_error_ne [simp]: "function_error f src m \<noteq> []"
  by (simp add: function_error_def)

lemma concat_Nil [onda_errors]: "concat (map f xs) = [] \<longleftrightarrow> (\<forall>x \<in> set xs. f x = [])"
  by (simp add: concat_eq_Nil_conv)

lemma if_Nil [onda_errors]: "(if c then xs else ys) = [] \<longleftrightarrow> (if c then xs = [] else ys = [])"
  by simp

lemma enumerate_Nil: "(\<forall>x \<in> set (enumerate 0 xs). (case x of (i, x) \<Rightarrow> f i x) = []) \<longleftrightarrow> (\<forall>i < length xs. f i (xs ! i) = [])"
proof -
  have "set (enumerate 0 xs) = (\<lambda>i. (i, xs ! i)) ` {..<length xs}" by (auto simp: in_set_enumerate_eq image_iff)
  then show ?thesis by simp blast
qed

subsection \<open>Access and channels\<close>

definition access_permits :: "access_mode \<Rightarrow> access_mode \<Rightarrow> bool" where
  "access_permits source requested \<longleftrightarrow> source = ReadWrite \<or> requested = ReadOnly"

fun buffer_channels_accept :: "buffer_channels \<Rightarrow> buffer_channels \<Rightarrow> bool" where
  "buffer_channels_accept Dynamic actual = True"
| "buffer_channels_accept Mono actual = (actual = Mono \<or> actual = Static 1)"
| "buffer_channels_accept (Static n) actual =
     (if n = 1 then actual = Mono \<or> actual = Static 1 else actual = Static n)"

definition buffer_static_channel_validation_error :: "nat \<Rightarrow> scalar_type \<Rightarrow> string option" where
  "buffer_static_channel_validation_error channels element =
     (let maximum = 2147483647 div logical_byte_width element
      in if channels = 0 then Some ''has a zero-channel static buffer layout''
         else if maximum < channels
         then Some ''static channel count exceeds the signed i32 buffer byte-extent limit; maximum is {}''
         else None)"

text \<open>A product past \<open>u64\<close> is rejected like one past \<open>i32\<close>.\<close>

definition scalar_sequence_fits_i32_bytes :: "nat \<Rightarrow> scalar_type \<Rightarrow> bool" where
  "scalar_sequence_fits_i32_bytes len scalar \<longleftrightarrow>
     len < 2 ^ 64 \<and> len * logical_byte_width scalar < 2 ^ 64 \<and> len * logical_byte_width scalar \<le> 2147483647"

fun intrinsic_arity :: "intrinsic \<Rightarrow> nat" where
  "intrinsic_arity Atan2 = 2"
| "intrinsic_arity Pow = 2"
| "intrinsic_arity Min = 2"
| "intrinsic_arity Max = 2"
| "intrinsic_arity Fma = 3"
| "intrinsic_arity RangeClamp = 3"
| "intrinsic_arity RangeWrap = 3"
| "intrinsic_arity _ = 1"

subsection \<open>Types of values\<close>

definition type_is_scalar :: "program \<Rightarrow> type_id \<Rightarrow> scalar_type \<Rightarrow> bool" where
  "type_is_scalar p ty expected \<longleftrightarrow> nth_opt (pr_types p) ty = Some (T_Scalar expected)"

definition type_is_numeric_scalar :: "program \<Rightarrow> type_id \<Rightarrow> bool" where
  "type_is_numeric_scalar p ty \<longleftrightarrow>
     (case nth_opt (pr_types p) ty of Some (T_Scalar s) \<Rightarrow> is_numeric s | _ \<Rightarrow> False)"

definition type_is_integer_scalar :: "program \<Rightarrow> type_id \<Rightarrow> bool" where
  "type_is_integer_scalar p ty \<longleftrightarrow> nth_opt (pr_types p) ty \<in> {Some (T_Scalar TI32), Some (T_Scalar TI64)}"

definition indexed_type :: "program \<Rightarrow> type_id \<Rightarrow> bool \<Rightarrow> type_id option" where
  "indexed_type p ty indexed =
     (if \<not> indexed then Some ty
      else case nth_opt (pr_types p) ty of Some (T_Array element _) \<Rightarrow> Some element | _ \<Rightarrow> None)"

text \<open>The position of the first element with a property.\<close>

fun position :: "('a \<Rightarrow> bool) \<Rightarrow> 'a list \<Rightarrow> nat option" where
  "position P [] = None"
| "position P (x # xs) = (if P x then Some 0 else map_option Suc (position P xs))"

definition local_type :: "mir_function \<Rightarrow> local_id \<Rightarrow> type_id option" where
  "local_type f l = map_option lc_ty (nth_opt (fn_locals f) l)"

definition value_type :: "program \<Rightarrow> mir_function \<Rightarrow> mir_value \<Rightarrow> type_id option" where
  "value_type p f v =
     (case v of
        V_Local l \<Rightarrow> local_type f l
      | V_Constant c \<Rightarrow> position (\<lambda>ty. ty = T_Scalar (scalar_ty c)) (pr_types p))"

definition value_slice_type :: "program \<Rightarrow> mir_function \<Rightarrow> mir_value \<Rightarrow> (scalar_type \<times> access_mode) option" where
  "value_slice_type p f v =
     Option.bind (value_type p f v) (\<lambda>ty.
       case nth_opt (pr_types p) ty of Some (T_Slice element access) \<Rightarrow> Some (element, access) | _ \<Rightarrow> None)"

definition validated_scalar_type :: "program \<Rightarrow> mir_function \<Rightarrow> mir_value \<Rightarrow> scalar_type option" where
  "validated_scalar_type p f v =
     (case v of
        V_Local l \<Rightarrow>
          (case Option.bind (local_type f l) (nth_opt (pr_types p)) of Some (T_Scalar s) \<Rightarrow> Some s | _ \<Rightarrow> None)
      | V_Constant c \<Rightarrow> Some (scalar_ty c))"

definition value_matches_type :: "program \<Rightarrow> mir_function \<Rightarrow> mir_value \<Rightarrow> type_id \<Rightarrow> bool" where
  "value_matches_type p f v expected \<longleftrightarrow>
     (case v of
        V_Local l \<Rightarrow> (case local_type f l of Some ty \<Rightarrow> types_equivalent p ty expected | None \<Rightarrow> False)
      | V_Constant c \<Rightarrow> nth_opt (pr_types p) expected = Some (T_Scalar (scalar_ty c)))"

definition value_matches_scalar :: "program \<Rightarrow> mir_function \<Rightarrow> mir_value \<Rightarrow> scalar_type \<Rightarrow> bool" where
  "value_matches_scalar p f v expected \<longleftrightarrow>
     (case v of
        V_Local l \<Rightarrow> Option.bind (local_type f l) (nth_opt (pr_types p)) = Some (T_Scalar expected)
      | V_Constant c \<Rightarrow> scalar_ty c = expected)"

definition values_have_same_type :: "program \<Rightarrow> mir_function \<Rightarrow> mir_value \<Rightarrow> mir_value \<Rightarrow> bool" where
  "values_have_same_type p f lhs rhs \<longleftrightarrow>
     (case lhs of
        V_Local l \<Rightarrow> (case local_type f l of Some ty \<Rightarrow> value_matches_type p f rhs ty | None \<Rightarrow> False)
      | V_Constant c \<Rightarrow> value_matches_scalar p f rhs (scalar_ty c))"

subsection \<open>Places, slices and buffer parameters\<close>

definition place_is_writable :: "program \<Rightarrow> mir_function \<Rightarrow> place \<Rightarrow> bool" where
  "place_is_writable p f pl \<longleftrightarrow>
     (case place_base pl of
        PB_Local _ \<Rightarrow> True
      | PB_State s \<Rightarrow>
          (case nth_opt (pr_state p) s of Some slot \<Rightarrow> ss_persistence slot \<noteq> ControlMirror | None \<Rightarrow> False)
      | PB_Parameter i \<Rightarrow>
          (case nth_opt (fn_params f) i of Some param \<Rightarrow> is_writable_reference (fp_mode param) | None \<Rightarrow> False)
      | PB_Param _ \<Rightarrow> False
      | PB_EventParam _ \<Rightarrow> False)"

definition parameter_type :: "program \<Rightarrow> mir_function \<Rightarrow> parameter_id \<Rightarrow> mir_type option" where
  "parameter_type p f i =
     Option.bind (nth_opt (fn_params f) i) (\<lambda>param. nth_opt (pr_types p) (fp_ty param))"

definition function_buffer_param_ref ::
  "program \<Rightarrow> mir_function \<Rightarrow> buffer_param_ref \<Rightarrow> (scalar_type \<times> access_mode) option" where
  "function_buffer_param_ref p f r =
     (case r of
        BP_Direct i \<Rightarrow>
          (case parameter_type p f i of Some (T_Buffer element _ access) \<Rightarrow> Some (element, access) | _ \<Rightarrow> None)
      | BP_ArrayElement span _ _ \<Rightarrow>
          (case parameter_type p f span of
             Some (T_BufferSpan element _ access _) \<Rightarrow> Some (element, access) | _ \<Rightarrow> None))"

definition writable_access :: "program \<Rightarrow> mir_function \<Rightarrow> place \<Rightarrow> access_mode" where
  "writable_access p f pl = (if place_is_writable p f pl then ReadWrite else ReadOnly)"

definition slice_source_type ::
  "program \<Rightarrow> mir_function \<Rightarrow> slice_source \<Rightarrow> (scalar_type \<times> access_mode) option" where
  "slice_source_type p f s =
     (case s of
        SS_Place pl \<Rightarrow>
          (case Option.bind (place_type p f pl) (nth_opt (pr_types p)) of
             Some (T_Scalar element) \<Rightarrow> Some (element, writable_access p f pl)
           | Some (T_Array element _) \<Rightarrow>
               (case nth_opt (pr_types p) element of
                  Some (T_Scalar element) \<Rightarrow> Some (element, writable_access p f pl)
                | _ \<Rightarrow> None)
           | Some (T_Slice element access) \<Rightarrow> Some (element, access)
           | _ \<Rightarrow> None)
      | SS_Buffer b _ \<Rightarrow>
          map_option (\<lambda>b. (buf_element b, buf_access b)) (nth_opt (if_buffers (pr_interface p)) (buffer_ref_first b))
      | SS_BufferParam r _ \<Rightarrow> function_buffer_param_ref p f r
      | SS_ConstData d \<Rightarrow> map_option (\<lambda>d. (cd_element d, ReadOnly)) (nth_opt (pr_const_data p) d))"

definition slice_source_static_len :: "program \<Rightarrow> mir_function \<Rightarrow> slice_source \<Rightarrow> nat option" where
  "slice_source_static_len p f s =
     (case s of
        SS_Place pl \<Rightarrow>
          (case Option.bind (place_type p f pl) (nth_opt (pr_types p)) of
             Some (T_Scalar _) \<Rightarrow> Some 1
           | Some (T_Array _ len) \<Rightarrow> Some len
           | _ \<Rightarrow> None)
      | SS_ConstData d \<Rightarrow>
          Option.bind (nth_opt (pr_const_data p) d)
            (\<lambda>d. if length (cd_values d) < 2 ^ 32 then Some (length (cd_values d)) else None)
      | _ \<Rightarrow> None)"

definition unchecked_make_slice_constants_are_valid ::
  "program \<Rightarrow> mir_function \<Rightarrow> slice_source \<Rightarrow> mir_value \<Rightarrow> mir_value \<Rightarrow> bool" where
  "unchecked_make_slice_constants_are_valid p f s start len =
     (case slice_source_static_len p f s of
        None \<Rightarrow> True
      | Some source_len \<Rightarrow>
          (case (start, len) of
             (V_Constant (I32 start), V_Constant (I32 len)) \<Rightarrow>
               0 \<le> sint start \<and> 0 \<le> sint len \<and> sint start \<le> int source_len
               \<and> sint len \<le> int source_len - sint start
           | _ \<Rightarrow> True))"

definition window_start_is_statically_valid :: "mir_value \<Rightarrow> bounds_mode \<Rightarrow> nat \<Rightarrow> nat \<Rightarrow> bool" where
  "window_start_is_statically_valid start b source_len required_len =
     (if b \<noteq> Unchecked then True
      else case start of
             V_Constant (I32 start) \<Rightarrow> 0 \<le> sint start \<and> sint start + int required_len \<le> int source_len
           | _ \<Rightarrow> True)"

subsection \<open>Checks of single identifiers and operands\<close>

definition require_local :: "function_id \<Rightarrow> mir_function \<Rightarrow> local_id \<Rightarrow> source_span \<Rightarrow> validation_error list" where
  "require_local i f l src =
     (if length (fn_locals f) \<le> l then function_error i src ''references missing local {}'' else [])"

definition validate_value :: "function_id \<Rightarrow> mir_function \<Rightarrow> mir_value \<Rightarrow> source_span \<Rightarrow> validation_error list" where
  "validate_value i f v src = (case v of V_Local l \<Rightarrow> require_local i f l src | V_Constant _ \<Rightarrow> [])"

definition validate_optional_value ::
  "function_id \<Rightarrow> mir_function \<Rightarrow> mir_value option \<Rightarrow> source_span \<Rightarrow> validation_error list" where
  "validate_optional_value i f v src = (case v of Some v \<Rightarrow> validate_value i f v src | None \<Rightarrow> [])"

definition require_i32_value ::
  "program \<Rightarrow> function_id \<Rightarrow> mir_function \<Rightarrow> mir_value \<Rightarrow> source_span \<Rightarrow> string \<Rightarrow> validation_error list" where
  "require_i32_value p i f v src label =
     (if \<not> value_matches_scalar p f v TI32 then function_error i src (label @ '' must have type i32'') else [])"

definition validate_optional_index ::
  "program \<Rightarrow> function_id \<Rightarrow> mir_function \<Rightarrow> mir_value option \<Rightarrow> source_span \<Rightarrow> string \<Rightarrow> validation_error list" where
  "validate_optional_index p i f v src label =
     (case v of Some v \<Rightarrow> require_i32_value p i f v src label | None \<Rightarrow> [])"

definition require_process_frame_value ::
  "program \<Rightarrow> function_id \<Rightarrow> mir_function \<Rightarrow> mir_value \<Rightarrow> source_span \<Rightarrow> validation_error list" where
  "require_process_frame_value p i f v src = require_i32_value p i f v src ''audio frame''"

definition require_audio_io_capability ::
  "function_id \<Rightarrow> mir_function \<Rightarrow> source_span \<Rightarrow> string \<Rightarrow> validation_error list" where
  "require_audio_io_capability i f src operation =
     (if fn_kind f \<noteq> FK_Process
      then function_error i src (operation @ '' is only valid in the process entry point'') else [])"

definition require_control_output_capability ::
  "function_id \<Rightarrow> mir_function \<Rightarrow> source_span \<Rightarrow> validation_error list" where
  "require_control_output_capability i f src =
     (if fn_kind f \<noteq> FK_Process
      then function_error i src ''control output stores are only valid in the process entry point'' else [])"

definition has_runtime_buffer_capability :: "mir_function \<Rightarrow> bool" where
  "has_runtime_buffer_capability f \<longleftrightarrow>
     (case fn_kind f of
        FK_User \<Rightarrow> attr_origin (fn_attributes f) = FO_CompilerGenerated \<and> attr_runtime_context (fn_attributes f)
      | _ \<Rightarrow> True)"

definition require_direct_buffer_capability ::
  "function_id \<Rightarrow> mir_function \<Rightarrow> source_span \<Rightarrow> string \<Rightarrow> validation_error list" where
  "require_direct_buffer_capability i f src operation =
     (if \<not> has_runtime_buffer_capability f
      then function_error i src (operation @ '' requires init, process, or event host-buffer capability; user functions must receive buffers as parameters'')
      else [])"

definition same_descriptor :: "mir_buffer \<Rightarrow> mir_buffer \<Rightarrow> bool" where
  "same_descriptor a b \<longleftrightarrow> buf_element a = buf_element b \<and> buf_channels a = buf_channels b \<and> buf_access a = buf_access b"

definition require_buffer ::
  "program \<Rightarrow> function_id \<Rightarrow> mir_function \<Rightarrow> buffer_ref \<Rightarrow> source_span \<Rightarrow> validation_error list" where
  "require_buffer p i f b src =
     (let buffers = if_buffers (pr_interface p)
      in (case b of
            BR_ArrayElement _ len selector _ \<Rightarrow>
              (if len = 0 then function_error i src ''buffer array reference has zero length'' else [])
              @ require_i32_value p i f selector src ''buffer-array selector''
          | BR_Direct _ \<Rightarrow> [])
         @ (if list_ex (\<lambda>k. length buffers \<le> k) (buffer_ref_possible_indices b)
            then function_error i src ''references invalid buffer range beginning at {}''
            else case nth_opt buffers (buffer_ref_first b) of
                   None \<Rightarrow> []
                 | Some first \<Rightarrow>
                     if list_ex (\<lambda>k. case nth_opt buffers k of
                            Some candidate \<Rightarrow> \<not> same_descriptor candidate first | None \<Rightarrow> True)
                          (buffer_ref_possible_indices b)
                     then function_error i src ''buffer array reference spans incompatible descriptors''
                     else []))"

definition validate_buffer_param_ref ::
  "program \<Rightarrow> function_id \<Rightarrow> mir_function \<Rightarrow> buffer_param_ref \<Rightarrow> source_span \<Rightarrow> validation_error list" where
  "validate_buffer_param_ref p i f r src =
     (case r of
        BP_ArrayElement _ selector _ \<Rightarrow>
          validate_value i f selector src
          @ require_i32_value p i f selector src ''buffer-parameter collection selector''
      | BP_Direct _ \<Rightarrow> [])"

definition require_type :: "program \<Rightarrow> type_id \<Rightarrow> function_id option \<Rightarrow> source_span \<Rightarrow> validation_error list" where
  "require_type p ty i src =
     (if length (pr_types p) \<le> ty
      then [\<lparr>ve_message = ''references missing type {}'', ve_function = i, ve_source = src\<rparr>] else [])"

subsection \<open>What an operand that passes its checks is\<close>

lemma require_local_Nil [onda_errors]: "require_local i f l src = [] \<longleftrightarrow> l < length (fn_locals f)"
  by (auto simp: require_local_def)

lemma require_type_Nil [onda_errors]: "require_type p ty i src = [] \<longleftrightarrow> ty < length (pr_types p)"
  by (auto simp: require_type_def)

definition value_in_range :: "mir_function \<Rightarrow> mir_value \<Rightarrow> bool" where
  "value_in_range f v \<longleftrightarrow> (case v of V_Local l \<Rightarrow> l < length (fn_locals f) | V_Constant _ \<Rightarrow> True)"

lemma validate_value_Nil [onda_errors]: "validate_value i f v src = [] \<longleftrightarrow> value_in_range f v"
  by (simp add: validate_value_def value_in_range_def require_local_Nil split: mir_value.split)

lemma validate_optional_value_Nil [onda_errors]:
  "validate_optional_value i f v src = [] \<longleftrightarrow> (\<forall>x \<in> set (option_operands v). value_in_range f x)"
  by (simp add: validate_optional_value_def option_operands_def validate_value_Nil split: option.split)

lemma require_i32_value_Nil [onda_errors]:
  "require_i32_value p i f v src label = [] \<longleftrightarrow> value_matches_scalar p f v TI32"
  by (auto simp: require_i32_value_def)

lemma value_matches_scalar_in_range: "value_matches_scalar p f v s \<Longrightarrow> value_in_range f v"
  by (auto simp: value_matches_scalar_def value_in_range_def local_type_def nth_opt_def bind_eq_Some_conv
      split: mir_value.splits if_splits)

lemma validated_scalar_type_iff: "validated_scalar_type p f v = Some s \<longleftrightarrow> value_matches_scalar p f v s"
  by (simp add: validated_scalar_type_def value_matches_scalar_def split: mir_value.splits option.splits mir_type.splits)

end
