(* ===== verification/Validate_Flow.thy ===== *)
theory Validate_Flow
  imports Validate_Base
begin

section \<open>Validation: control flow and unchecked accesses\<close>

text \<open>
  The summary of how control leaves a block and the rejection of accesses without a runtime
  check (\<open>block_control_flow\<close> and the \<open>*_uses_unchecked_bounds\<close> functions of \<open>onda_mir/src/validate.rs\<close>). The summary
  is sound for \<open>Mir_Semantics\<close> and agrees with the one the passes use.
\<close>

subsection \<open>How control leaves a block\<close>

record control_flow =
  cf_falls_through :: bool
  cf_returns :: bool
  cf_breaks :: bool
  cf_continues :: bool

definition no_flow :: control_flow where
  "no_flow = \<lparr>cf_falls_through = False, cf_returns = False, cf_breaks = False, cf_continues = False\<rparr>"

definition flow_fallthrough :: control_flow where
  "flow_fallthrough = no_flow\<lparr>cf_falls_through := True\<rparr>"

definition flow_union :: "control_flow \<Rightarrow> control_flow \<Rightarrow> control_flow" where
  "flow_union a b = \<lparr>cf_falls_through = cf_falls_through a \<or> cf_falls_through b,
     cf_returns = cf_returns a \<or> cf_returns b, cf_breaks = cf_breaks a \<or> cf_breaks b,
     cf_continues = cf_continues a \<or> cf_continues b\<rparr>"

fun block_control_flow :: "block \<Rightarrow> control_flow"
  and statements_control_flow :: "control_flow \<Rightarrow> statement list \<Rightarrow> control_flow"
  and statement_control_flow :: "statement_kind \<Rightarrow> control_flow" where
  "block_control_flow (Block ss) = statements_control_flow flow_fallthrough ss"
| "statements_control_flow flow [] = flow"
| "statements_control_flow flow (Statement k src # ss) =
     (let reachable = cf_falls_through flow;
          flow = flow\<lparr>cf_falls_through := False\<rparr>
      in statements_control_flow (if reachable then flow_union flow (statement_control_flow k) else flow) ss)"
| "statement_control_flow k =
     (case k of
        S_If _ t e \<Rightarrow> flow_union (block_control_flow t) (block_control_flow e)
      | S_Loop body \<Rightarrow>
          (let body_flow = block_control_flow body
           in \<lparr>cf_falls_through = cf_breaks body_flow, cf_returns = cf_returns body_flow,
               cf_breaks = False, cf_continues = False\<rparr>)
      | S_Break \<Rightarrow> no_flow\<lparr>cf_breaks := True\<rparr>
      | S_Continue \<Rightarrow> no_flow\<lparr>cf_continues := True\<rparr>
      | S_Return _ \<Rightarrow> no_flow\<lparr>cf_returns := True\<rparr>
      | _ \<Rightarrow> flow_fallthrough)"

declare statement_control_flow.simps [simp del]

lemma statements_control_flow_blocked:
  "\<not> cf_falls_through flow \<Longrightarrow> statements_control_flow flow ss = flow"
proof (induction ss)
  case (Cons s ss)
  have eq: "flow\<lparr>cf_falls_through := False\<rparr> = flow" using Cons.prems by simp
  have "statements_control_flow flow (s # ss) = statements_control_flow (flow\<lparr>cf_falls_through := False\<rparr>) ss"
    using Cons.prems by (cases s) (simp add: Let_def)
  then show ?case unfolding eq using Cons by simp
qed simp

lemma flow_union_assoc: "flow_union (flow_union a b) c = flow_union a (flow_union b c)"
  by (simp add: flow_union_def)

lemma flow_union_no_flow [simp]: "flow_union no_flow a = a" "flow_union a no_flow = a"
  by (simp_all add: flow_union_def no_flow_def)

lemma statements_control_flow_union:
  "\<not> cf_falls_through a \<Longrightarrow> statements_control_flow (flow_union a b) ss = flow_union a (statements_control_flow b ss)"
proof (induction ss arbitrary: a b)
  case (Cons s ss)
  obtain k src where s: "s = Statement k src" by (cases s)
  have u: "(flow_union a b)\<lparr>cf_falls_through := False\<rparr> = flow_union a (b\<lparr>cf_falls_through := False\<rparr>)"
    and f: "cf_falls_through (flow_union a b) = cf_falls_through b"
    using Cons.prems by (simp_all add: flow_union_def)
  show ?case using Cons by (simp add: s Let_def u f flow_union_assoc)
qed simp

text \<open>A statement list flows like its first statement, and further like the rest if that can end
  normally.\<close>

lemma statements_control_flow_Cons:
  "statements_control_flow flow_fallthrough (Statement k src # ss) =
     (let flow = statement_control_flow k
      in if cf_falls_through flow
         then flow_union (flow\<lparr>cf_falls_through := False\<rparr>) (statements_control_flow flow_fallthrough ss)
         else flow)"
proof -
  let ?f = "statement_control_flow k"
  have n: "flow_fallthrough\<lparr>cf_falls_through := False\<rparr> = no_flow" "cf_falls_through flow_fallthrough"
    by (simp_all add: flow_fallthrough_def no_flow_def)
  have step: "statements_control_flow flow_fallthrough (Statement k src # ss) = statements_control_flow ?f ss"
    by (simp add: Let_def n)
  show ?thesis
  proof (cases "cf_falls_through ?f")
    case True
    then have "?f = flow_union (?f\<lparr>cf_falls_through := False\<rparr>) flow_fallthrough"
      by (simp add: flow_union_def flow_fallthrough_def no_flow_def)
    then have "statements_control_flow ?f ss
        = flow_union (?f\<lparr>cf_falls_through := False\<rparr>) (statements_control_flow flow_fallthrough ss)"
      using statements_control_flow_union [of "?f\<lparr>cf_falls_through := False\<rparr>" flow_fallthrough ss] by simp
    with True show ?thesis unfolding step by (simp add: Let_def)
  next
    case False
    then show ?thesis unfolding step by (simp add: Let_def statements_control_flow_blocked)
  qed
qed

declare statements_control_flow.simps(2) [simp del]

subsection \<open>Soundness of the summary\<close>

fun flow_allows :: "control_flow \<Rightarrow> 'x outcome \<Rightarrow> bool" where
  "flow_allows flow Normal = cf_falls_through flow"
| "flow_allows flow Broke = cf_breaks flow"
| "flow_allows flow Continued = cf_continues flow"
| "flow_allows flow (Returned _) = cf_returns flow"
| "flow_allows flow Trapped = True"

lemma flow_allows_union: "flow_allows (flow_union a b) out \<longleftrightarrow> flow_allows a out \<or> flow_allows b out"
  by (cases out) (simp_all add: flow_union_def)

definition flow_sound :: "control_flow \<Rightarrow> ('x env \<Rightarrow> 'w \<Rightarrow> ('x, 'w) result option) \<Rightarrow> bool" where
  "flow_sound flow f \<longleftrightarrow> (\<forall>e w out e' w'. f e w = Some (out, e', w') \<longrightarrow> flow_allows flow out)"

lemma flow_soundD: "flow_sound flow f \<Longrightarrow> f e w = Some (out, e', w') \<Longrightarrow> flow_allows flow out"
  unfolding flow_sound_def by blast

lemma iterate_flow:
  assumes "flow_sound flow f" and "iterate n f e w = Some (out, e', w')"
  shows "flow_allows \<lparr>cf_falls_through = cf_breaks flow, cf_returns = cf_returns flow,
    cf_breaks = False, cf_continues = False\<rparr> out"
  using assms(2)
proof (induction n arbitrary: e w)
  case (Suc n)
  then obtain out1 e1 w1 where f: "f e w = Some (out1, e1, w1)" by (auto split: option.splits)
  from flow_soundD [OF assms(1) f] have "flow_allows flow out1" .
  with f Suc show ?case by (cases out1) auto
qed simp

lemma control_flow_sound_all:
  fixes M :: "('x, 'w) ops"
  shows "flow_sound (statement_control_flow (stmt_kind s)) (run_statement s M n)"
    and "flow_sound (statement_control_flow k) (run_kind k M n)"
    and "flow_sound (block_control_flow b) (run_block b M n)"
    and "flow_sound (statements_control_flow flow_fallthrough ss) (run_statements ss M n)"
proof (induction s and k and b and ss rule: mir_induct)
  case (Simple k)
  then show ?case
    by (cases k) (auto simp: flow_sound_def statement_control_flow.simps flow_fallthrough_def no_flow_def
        finish_def run_return_def split: option.splits)
next
  case (If c t f)
  then show ?case
    by (auto simp: flow_sound_def statement_control_flow.simps flow_allows_union run_if_def
        split: option.splits scalar_value.splits if_splits)
next
  case (Loop body)
  show ?case using iterate_flow [OF Loop.IH]
    by (simp add: flow_sound_def statement_control_flow.simps Let_def)
next
  case (Cons s ss)
  obtain k src where s: "s = Statement k src" by (cases s)
  have "flow_allows (statements_control_flow flow_fallthrough (s # ss)) out"
    if run: "run_statements (s # ss) M n e w = Some (out, e', w')" for e w out e' w'
  proof -
    obtain out1 e1 w1 where r: "run_statement s M n e w = Some (out1, e1, w1)"
      using run by (cases "run_statement s M n e w") (auto simp: run_statements_Cons seq_def)
    then have a: "flow_allows (statement_control_flow k) out1"
      using flow_soundD [OF Cons.IH(1)] by (auto simp: s)
    show ?thesis
    proof (cases "out1 = Normal")
      case True
      then have "flow_allows (statements_control_flow flow_fallthrough ss) out"
        using run r flow_soundD [OF Cons.IH(2)] by (auto simp: run_statements_Cons seq_def)
      then show ?thesis using a True
        by (simp add: s statements_control_flow_Cons Let_def flow_allows_union)
    next
      case False
      then have "out = out1" using run r by (auto simp: run_statements_Cons seq_def split: outcome.splits)
      then show ?thesis using a False
        by (cases out1) (simp_all add: s statements_control_flow_Cons Let_def flow_union_def)
    qed
  qed
  then show ?case by (simp add: flow_sound_def)
qed (auto simp: flow_sound_def flow_fallthrough_def)

lemma control_flow_falls_through:
  shows "cf_falls_through (statement_control_flow (stmt_kind s)) = statement_falls_through (stmt_kind s)
      \<and> cf_breaks (statement_control_flow (stmt_kind s)) = statements_contain_reachable_break [s]"
    and "cf_falls_through (statement_control_flow k) = statement_falls_through k
      \<and> cf_breaks (statement_control_flow k) = statements_contain_reachable_break [Statement k src]"
    and "cf_falls_through (block_control_flow b) = block_falls_through b
      \<and> cf_breaks (block_control_flow b) = block_contains_reachable_break b"
    and "cf_falls_through (statements_control_flow flow_fallthrough ss) = statements_fall_through ss
      \<and> cf_breaks (statements_control_flow flow_fallthrough ss) = statements_contain_reachable_break ss"
proof (induction s and k and b and ss arbitrary: and src rule: mir_induct)
  case (Simple k)
  then show ?case by (cases k) (auto simp: statement_control_flow.simps flow_fallthrough_def no_flow_def)
next
  case (If c t f)
  then show ?case by (auto simp: statement_control_flow.simps flow_union_def)
next
  case (Loop body)
  then show ?case by (auto simp: statement_control_flow.simps Let_def)
next
  case (Cons s ss)
  obtain k src where s: "s = Statement k src" by (cases s)
  show ?case using Cons.IH
    by (auto simp: s statements_control_flow_Cons Let_def flow_union_def split: if_splits statement_kind.splits)
qed (auto simp: flow_fallthrough_def no_flow_def)

text \<open>C10: the control-flow summary of the validator is sound and as precise as the one the passes use:
  a block that ends normally, breaks, continues or returns is summarised to do so, at every bound on
  loop iterations and for every outside world, and its fall-through and break summaries are those of
  \<open>passes.rs\<close>.\<close>

theorem control_flow_sound:
  "(run_block b M n e w = Some (out, e', w') \<longrightarrow> flow_allows (block_control_flow b) out)
   \<and> cf_falls_through (block_control_flow b) = block_falls_through b
   \<and> cf_breaks (block_control_flow b) = block_contains_reachable_break b"
  using flow_soundD [OF control_flow_sound_all(3) [of b M n]] control_flow_falls_through(3) [of b]
  by (intro conjI impI) simp_all

theorem control_flow_sound_witness:
  "cf_returns (block_control_flow (Block [Statement (S_Return []) span_unknown]))"
proof -
  let ?b = "Block [Statement (S_Return []) span_unknown]"
  have "run_block ?b (bare_ops :: (unit, unit) ops) 0 (\<lambda>_. None) () = Some (Returned [], \<lambda>_. None, ())"
    by (simp add: run_statements_Cons seq_def run_return_def eval_values_def)
  then show ?thesis
    using control_flow_sound [of ?b "bare_ops :: (unit, unit) ops" 0 "\<lambda>_. None" "()" "Returned []" "\<lambda>_. None" "()"]
    by simp
qed

subsection \<open>Unchecked accesses\<close>

definition place_uses_unchecked_bounds :: "place \<Rightarrow> bool" where
  "place_uses_unchecked_bounds pl =
     list_ex (\<lambda>pr. case pr of P_Index _ b \<Rightarrow> b = Unchecked | P_Field _ \<Rightarrow> False) (place_projections pl)"

definition buffer_ref_uses_unchecked_bounds :: "buffer_ref \<Rightarrow> bool" where
  "buffer_ref_uses_unchecked_bounds r = (case r of BR_ArrayElement _ _ _ b \<Rightarrow> b = Unchecked | BR_Direct _ \<Rightarrow> False)"

definition buffer_param_ref_uses_unchecked_bounds :: "buffer_param_ref \<Rightarrow> bool" where
  "buffer_param_ref_uses_unchecked_bounds r =
     (case r of BP_ArrayElement _ _ b \<Rightarrow> b = Unchecked | BP_Direct _ \<Rightarrow> False)"

definition slice_source_uses_unchecked_bounds :: "slice_source \<Rightarrow> bool" where
  "slice_source_uses_unchecked_bounds s =
     (case s of
        SS_Place pl \<Rightarrow> place_uses_unchecked_bounds pl
      | SS_Buffer b _ \<Rightarrow> buffer_ref_uses_unchecked_bounds b
      | SS_BufferParam b _ \<Rightarrow> buffer_param_ref_uses_unchecked_bounds b
      | SS_ConstData _ \<Rightarrow> False)"

definition rvalue_uses_unchecked_bounds :: "rvalue \<Rightarrow> bool" where
  "rvalue_uses_unchecked_bounds r =
     (case r of
        R_Load pl \<Rightarrow> place_uses_unchecked_bounds pl
      | R_BufferLoad b _ _ bounds \<Rightarrow> bounds = Unchecked \<or> buffer_ref_uses_unchecked_bounds b
      | R_BufferParamLoad b _ _ bounds \<Rightarrow> bounds = Unchecked \<or> buffer_param_ref_uses_unchecked_bounds b
      | R_InputLoad _ _ bounds _ \<Rightarrow> bounds = Unchecked
      | R_OutputLoad _ _ bounds _ \<Rightarrow> bounds = Unchecked
      | R_ConstDataLoad _ _ bounds \<Rightarrow> bounds = Unchecked
      | R_SliceLoad _ _ bounds \<Rightarrow> bounds = Unchecked
      | R_NormalizeIndex _ _ bounds \<Rightarrow> bounds = Unchecked
      | R_MakeSlice s _ _ bounds _ \<Rightarrow> bounds = Unchecked \<or> slice_source_uses_unchecked_bounds s
      | R_BufferLen b \<Rightarrow> buffer_ref_uses_unchecked_bounds b
      | R_BufferChannels b \<Rightarrow> buffer_ref_uses_unchecked_bounds b
      | R_BufferSampleRate b \<Rightarrow> buffer_ref_uses_unchecked_bounds b
      | R_BufferIsBound b \<Rightarrow> buffer_ref_uses_unchecked_bounds b
      | R_BufferParamLen b \<Rightarrow> buffer_param_ref_uses_unchecked_bounds b
      | R_BufferParamChannels b \<Rightarrow> buffer_param_ref_uses_unchecked_bounds b
      | R_BufferParamSampleRate b \<Rightarrow> buffer_param_ref_uses_unchecked_bounds b
      | R_BufferParamIsBound b \<Rightarrow> buffer_param_ref_uses_unchecked_bounds b
      | _ \<Rightarrow> False)"

definition call_arg_uses_unchecked_bounds :: "call_argument \<Rightarrow> bool" where
  "call_arg_uses_unchecked_bounds a =
     (case a of
        A_Place pl \<Rightarrow> place_uses_unchecked_bounds pl
      | A_SliceElement _ _ bounds \<Rightarrow> bounds = Unchecked
      | A_SliceWindow _ _ bounds \<Rightarrow> bounds = Unchecked
      | A_ArrayWindow pl _ bounds \<Rightarrow> bounds = Unchecked \<or> place_uses_unchecked_bounds pl
      | A_Value _ \<Rightarrow> False
      | A_Buffer b \<Rightarrow> buffer_ref_uses_unchecked_bounds b
      | A_BufferParam b \<Rightarrow> buffer_param_ref_uses_unchecked_bounds b
      | A_BufferSpan _ \<Rightarrow> False)"

definition statement_uses_unchecked_bounds :: "statement_kind \<Rightarrow> bool" where
  "statement_uses_unchecked_bounds k =
     (case k of
        S_Assign d r \<Rightarrow> place_uses_unchecked_bounds d \<or> rvalue_uses_unchecked_bounds r
      | S_Call _ _ args \<Rightarrow> list_ex call_arg_uses_unchecked_bounds args
      | S_PublishDelegate _ args \<Rightarrow> list_ex call_arg_uses_unchecked_bounds args
      | S_BufferStore b _ _ _ bounds \<Rightarrow> bounds = Unchecked \<or> buffer_ref_uses_unchecked_bounds b
      | S_BufferParamStore b _ _ _ bounds \<Rightarrow> bounds = Unchecked \<or> buffer_param_ref_uses_unchecked_bounds b
      | S_OutputStore _ _ bounds _ _ \<Rightarrow> bounds = Unchecked
      | S_ControlOutputStore _ _ bounds _ \<Rightarrow> bounds = Unchecked
      | S_SliceStore _ _ _ bounds \<Rightarrow> bounds = Unchecked
      | _ \<Rightarrow> False)"

fun reject_unchecked_bounds :: "function_id \<Rightarrow> block \<Rightarrow> validation_error list"
  and reject_unchecked_statements :: "function_id \<Rightarrow> statement list \<Rightarrow> validation_error list" where
  "reject_unchecked_bounds i (Block ss) = reject_unchecked_statements i ss"
| "reject_unchecked_statements i [] = []"
| "reject_unchecked_statements i (Statement k src # ss) =
     (if statement_uses_unchecked_bounds k
      then function_error i src ''unchecked bounds require a trusted MIR producer proof'' else [])
     @ (case k of
          S_If _ t e \<Rightarrow> reject_unchecked_bounds i t @ reject_unchecked_bounds i e
        | S_Loop body \<Rightarrow> reject_unchecked_bounds i body
        | _ \<Rightarrow> [])
     @ reject_unchecked_statements i ss"

text \<open>Every statement of a body without such an error performs its checks.\<close>

lemma reject_unchecked_Nil:
  shows "reject_unchecked_statements i [s] = [] \<longleftrightarrow> all_kinds (\<lambda>k. \<not> statement_uses_unchecked_bounds k) s"
    and "reject_unchecked_statements i [Statement k src] = []
      \<longleftrightarrow> all_kinds (\<lambda>k. \<not> statement_uses_unchecked_bounds k) (Statement k src)"
    and "reject_unchecked_bounds i b = [] \<longleftrightarrow> all_kinds_block (\<lambda>k. \<not> statement_uses_unchecked_bounds k) b"
    and "reject_unchecked_statements i ss = []
      \<longleftrightarrow> all_kinds_statements (\<lambda>k. \<not> statement_uses_unchecked_bounds k) ss"
proof (induction s and k and b and ss arbitrary: and src and and rule: mir_induct)
  case (Simple k)
  then show ?case by (cases k) simp_all
next
  case (Cons s ss)
  have "reject_unchecked_statements i (s # ss) = reject_unchecked_statements i [s] @ reject_unchecked_statements i ss"
    by (cases s) simp
  with Cons show ?case by simp
qed (auto simp: statement_uses_unchecked_bounds_def)

end
