(* ===== verification/Validate_Calls.thy ===== *)
theory Validate_Calls
  imports Validate_Flow
begin

section \<open>Validation: the call graph\<close>

text \<open>
  The checks of \<open>onda_mir/src/validate.rs\<close> and \<open>validate/helpers.rs\<close> that follow calls: the search for a call cycle
  and the search for a delegate publication the init entry point can reach. The depth-first
  search marks a function 1 while its callees are visited and 2 when they are done; its panics
  (an index outside a table) are a result of their own.
\<close>

fun collect_block_callees :: "block \<Rightarrow> nat \<Rightarrow> nat list"
  and collect_statements_callees :: "statement list \<Rightarrow> nat \<Rightarrow> nat list" where
  "collect_block_callees (Block ss) n = collect_statements_callees ss n"
| "collect_statements_callees [] n = []"
| "collect_statements_callees (Statement k src # ss) n =
     (case k of
        S_Call _ f _ \<Rightarrow> if f < n then [f] else []
      | S_If _ t e \<Rightarrow> collect_block_callees t n @ collect_block_callees e n
      | S_Loop body \<Rightarrow> collect_block_callees body n
      | _ \<Rightarrow> []) @ collect_statements_callees ss n"

datatype cycle_search = Search_Panic | Cycle "nat list" | Done "nat list"

function find_call_cycle_from :: "nat list list \<Rightarrow> nat \<Rightarrow> nat list \<Rightarrow> nat list \<Rightarrow> cycle_search"
  and find_call_cycle_callees :: "nat list list \<Rightarrow> nat list \<Rightarrow> nat list \<Rightarrow> nat list \<Rightarrow> cycle_search" where
  "find_call_cycle_from graph f visits path =
     (if length visits \<le> f \<or> length graph \<le> f then Search_Panic
      else if visits ! f = 2 then Done visits
      else if visits ! f = 1
      then (let start = (case position (\<lambda>c. c = f) path of Some i \<Rightarrow> i | None \<Rightarrow> 0)
            in Cycle (drop start path @ [f]))
      else (case find_call_cycle_callees graph (graph ! f) (visits[f := 1]) (path @ [f]) of
              Done visits \<Rightarrow> Done (visits[f := 2])
            | r \<Rightarrow> r))"
| "find_call_cycle_callees graph [] visits path = Done visits"
| "find_call_cycle_callees graph (c # cs) visits path =
     (case find_call_cycle_from graph c visits path of
        Done visits \<Rightarrow> find_call_cycle_callees graph cs visits path
      | r \<Rightarrow> r)"
  by pat_completeness auto

text \<open>The search marks functions and never unmarks one, so the number of unmarked functions bounds
  its recursion.\<close>

definition unmarked :: "nat list \<Rightarrow> nat" where
  "unmarked visits = length (filter (\<lambda>v. v \<noteq> 1 \<and> v \<noteq> 2) visits)"

lemma unmarked_update:
  assumes "f < length visits" and "v \<in> {1, 2}"
  shows "unmarked (visits[f := v]) = unmarked visits - (if visits ! f \<in> {1, 2} then 0 else 1)"
    and "visits ! f \<notin> {1, 2} \<Longrightarrow> 0 < unmarked visits"
proof -
  show "unmarked (visits[f := v]) = unmarked visits - (if visits ! f \<in> {1, 2} then 0 else 1)"
    using assms
  proof (induction visits arbitrary: f)
    case (Cons x xs)
    then show ?case
    proof (cases f)
      case (Suc g)
      have "0 < unmarked xs" if "xs ! g \<notin> {1, 2}"
        using that Cons.prems(1) Suc by (auto simp: unmarked_def filter_empty_conv intro: nth_mem)
      with Cons Suc show ?thesis by (auto simp: unmarked_def)
    qed (auto simp: unmarked_def)
  qed simp
  show "0 < unmarked visits" if "visits ! f \<notin> {1, 2}"
    using that assms(1) by (auto simp: unmarked_def filter_empty_conv intro: nth_mem)
qed

lemma search_marks:
  "find_call_cycle_from_find_call_cycle_callees_dom (Inl (graph, f, visits, path)) \<Longrightarrow>
     find_call_cycle_from graph f visits path = Done v \<Longrightarrow> unmarked v \<le> unmarked visits \<and> length v = length visits"
  "find_call_cycle_from_find_call_cycle_callees_dom (Inr (graph, cs, visits, path)) \<Longrightarrow>
     find_call_cycle_callees graph cs visits path = Done v \<Longrightarrow> unmarked v \<le> unmarked visits \<and> length v = length visits"
proof (induction graph f visits path and graph cs visits path arbitrary: v and v
    rule: find_call_cycle_from_find_call_cycle_callees.pinduct)
  case (1 graph f visits path)
  show ?case
  proof (cases "length visits \<le> f \<or> length graph \<le> f \<or> visits ! f \<in> {1, 2}")
    case True
    with 1 show ?thesis by (auto simp: find_call_cycle_from.psimps Let_def split: if_splits)
  next
    case False
    then obtain u where u: "find_call_cycle_callees graph (graph ! f) (visits[f := 1]) (path @ [f]) = Done u"
        "v = u[f := 2]"
      using 1(1,3) by (auto simp: find_call_cycle_from.psimps split: cycle_search.splits)
    have "unmarked u \<le> unmarked (visits[f := 1]) \<and> length u = length visits"
      using 1(2) [OF _ _ _ u(1)] False by auto
    with False show ?thesis
      using unmarked_update(1) [of f visits 1] unmarked_update(1) [of f u 2] u(2) by auto
  qed
next
  case (2 graph visits path)
  then show ?case by (simp add: find_call_cycle_callees.psimps)
next
  case (3 graph c cs visits path)
  then obtain u where u: "find_call_cycle_from graph c visits path = Done u"
      "find_call_cycle_callees graph cs u path = Done v"
    by (auto simp: find_call_cycle_callees.psimps split: cycle_search.splits)
  show ?case using 3(2) [OF u(1)] 3(3) [OF u(1) u(2)] by simp
qed

termination find_call_cycle_from
proof (relation "measures [\<lambda>x. case x of Inl (graph, f, visits, path) \<Rightarrow> unmarked visits
      | Inr (graph, cs, visits, path) \<Rightarrow> unmarked visits,
    \<lambda>x. case x of Inl _ \<Rightarrow> 0 | Inr (graph, cs, visits, path) \<Rightarrow> Suc (length cs)]", goal_cases)
  case 1
  then show ?case by simp
next
  case (2 graph f visits path)
  then show ?case using unmarked_update [of f visits 1] by auto
next
  case (3 graph c cs visits path)
  then show ?case by simp
next
  case (4 graph c cs visits path v)
  then show ?case using search_marks(1) by fastforce
qed

declare find_call_cycle_from.simps [simp del]

subsection \<open>The search is exact\<close>

definition with_mark :: "nat \<Rightarrow> nat list \<Rightarrow> nat set" where
  "with_mark m visits = {i. i < length visits \<and> visits ! i = m}"

lemma with_mark_update:
  "f < length visits \<Longrightarrow> with_mark m (visits[f := v]) = (if v = m then insert f (with_mark m visits) else with_mark m visits - {f})"
  by (auto simp: with_mark_def nth_list_update)

text \<open>Done functions form a closed, acyclic part of the graph; the functions in progress are the
  path, which follows calls.\<close>

definition done_part :: "nat list list \<Rightarrow> nat list \<Rightarrow> bool" where
  "done_part graph visits \<longleftrightarrow> (\<forall>i \<in> with_mark 2 visits. set (graph ! i) \<subseteq> with_mark 2 visits)
     \<and> acyclic {(i, c). i \<in> with_mark 2 visits \<and> c \<in> set (graph ! i)}"

fun call_path :: "nat list list \<Rightarrow> nat list \<Rightarrow> bool" where
  "call_path graph (a # b # path) = (b \<in> set (graph ! a) \<and> call_path graph (b # path))"
| "call_path graph path = True"

definition call_cycle :: "nat list list \<Rightarrow> nat list \<Rightarrow> bool" where
  "call_cycle graph cycle \<longleftrightarrow> 2 \<le> length cycle \<and> hd cycle = last cycle \<and> call_path graph cycle
     \<and> set cycle \<subseteq> {..<length graph}"

definition search_state :: "nat list list \<Rightarrow> nat list \<Rightarrow> nat list \<Rightarrow> bool" where
  "search_state graph visits path \<longleftrightarrow> set visits \<subseteq> {0, 1, 2} \<and> length visits = length graph \<and> with_mark 1 visits = set path
     \<and> call_path graph path \<and> done_part graph visits"

lemma call_path_append: "call_path graph (xs @ ys) \<Longrightarrow> call_path graph ys"
proof (induction xs)
  case (Cons a xs)
  then show ?case by (cases "xs @ ys") auto
qed simp

lemma call_path_snoc:
  "call_path graph path \<Longrightarrow> (path \<noteq> [] \<longrightarrow> f \<in> set (graph ! last path)) \<Longrightarrow> call_path graph (path @ [f])"
  by (induction path rule: call_path.induct) auto

lemma position_split:
  "x \<in> set xs \<Longrightarrow> \<exists>i. position (\<lambda>c. c = x) xs = Some i \<and> i < length xs \<and> xs ! i = x"
proof (induction xs)
  case (Cons a xs)
  then show ?case by (cases "a = x") fastforce+
qed simp

lemma acyclic_extend:
  assumes "acyclic {(i, c). i \<in> B \<and> c \<in> F i}" and "\<forall>i \<in> B. F i \<subseteq> B" and "f \<notin> B" and "F f \<subseteq> B"
  shows "acyclic {(i, c). i \<in> insert f B \<and> c \<in> F i}" (is "acyclic ?S")
proof -
  let ?R = "{(i, c). i \<in> B \<and> c \<in> F i}"
  have stay: "(x, y) \<in> ?R\<^sup>+ \<and> y \<in> B" if "(x, y) \<in> ?S\<^sup>+" "x \<in> B" for x y
    using that
  proof (induction rule: trancl_induct)
    case (base y)
    then show ?case using assms(2,3) by auto
  next
    case (step y z)
    then have "(y, z) \<in> ?R" using assms(3) by auto
    then show ?case using step assms(2) by (blast intro: trancl_into_trancl)
  qed
  show ?thesis
  proof (rule acyclicI, intro allI notI)
    fix x assume c: "(x, x) \<in> ?S\<^sup>+"
    then obtain y where y: "(x, y) \<in> ?S" "(y, x) \<in> ?S\<^sup>*" by (blast dest: tranclD)
    show False
    proof (cases "x \<in> B")
      case True
      then show False using stay [OF c] assms(1) by (auto simp: acyclic_def)
    next
      case False
      then have "x = f" "y \<in> B" using y(1) assms(4) by auto
      then show False using y(2) stay [of y x] assms(3) by (auto dest: rtranclD)
    qed
  qed
qed

lemma search_correct:
  "search_state graph visits path \<Longrightarrow> f < length graph \<Longrightarrow> (path \<noteq> [] \<longrightarrow> f \<in> set (graph ! last path)) \<Longrightarrow>
     set path \<subseteq> {..<length graph} \<Longrightarrow> \<forall>cs \<in> set graph. set cs \<subseteq> {..<length graph} \<Longrightarrow>
     (case find_call_cycle_from graph f visits path of
        Search_Panic \<Rightarrow> False
      | Cycle cycle \<Rightarrow> call_cycle graph cycle
      | Done v \<Rightarrow> search_state graph v path \<and> insert f (with_mark 2 visits) \<subseteq> with_mark 2 v)"
  "search_state graph visits path \<Longrightarrow> path \<noteq> [] \<Longrightarrow> set cs \<subseteq> set (graph ! last path) \<Longrightarrow>
     set path \<subseteq> {..<length graph} \<Longrightarrow> \<forall>cs \<in> set graph. set cs \<subseteq> {..<length graph} \<Longrightarrow>
     (case find_call_cycle_callees graph cs visits path of
        Search_Panic \<Rightarrow> False
      | Cycle cycle \<Rightarrow> call_cycle graph cycle
      | Done v \<Rightarrow> search_state graph v path \<and> set cs \<union> with_mark 2 visits \<subseteq> with_mark 2 v)"
proof (induction graph f visits path and graph cs visits path
    rule: find_call_cycle_from_find_call_cycle_callees.induct)
  case (1 graph f visits path)
  have gray: "with_mark 1 visits = set path" and n: "length visits = length graph"
    and marks: "set visits \<subseteq> {0, 1, 2}" and walk: "call_path graph path" and black: "done_part graph visits"
    using 1(2) by (simp_all add: search_state_def)
  have len: "f < length visits" "f < length graph" using 1(3) n by simp_all
  consider (finished) "visits ! f = 2" | (cycle) "visits ! f = 1" | (fresh) "visits ! f \<noteq> 1" "visits ! f \<noteq> 2" by auto
  then show ?case
  proof cases
    case finished
    then have "find_call_cycle_from graph f visits path = Done visits" "f \<in> with_mark 2 visits"
      using len by (simp_all add: find_call_cycle_from.simps with_mark_def)
    then show ?thesis using 1(2) by simp
  next
    case cycle
    then have "f \<in> with_mark 1 visits" using len by (simp add: with_mark_def)
    then obtain i where i: "position (\<lambda>c. c = f) path = Some i" "i < length path" "path ! i = f"
      using position_split [of f path] gray by blast
    have "call_path graph (path @ [f])" using call_path_snoc [OF walk 1(4)] .
    then have "call_path graph (drop i path @ [f])"
      using call_path_append [of graph "take i path" "drop i path @ [f]"] by (simp flip: append_assoc)
    then have "call_cycle graph (drop i path @ [f])"
      using i 1(3,5) by (auto simp: call_cycle_def hd_append hd_drop_conv_nth dest: in_set_dropD)
    then show ?thesis using cycle len i by (simp add: find_call_cycle_from.simps Let_def)
  next
    case fresh
    let ?v = "visits[f := 1]"
    have nf: "f \<notin> with_mark 2 visits" "f \<notin> set path"
      using fresh gray [symmetric] by (simp_all add: with_mark_def)
    have m2: "with_mark 2 ?v = with_mark 2 visits" using nf len by (auto simp: with_mark_update)
    have "search_state graph ?v (path @ [f])"
      using n gray black m2 set_update_subsetI [OF marks, of 1 f] call_path_snoc [OF walk 1(4)] with_mark_update [OF len(1), of 1 1]
      by (simp add: search_state_def done_part_def)
    then have *: "case find_call_cycle_callees graph (graph ! f) ?v (path @ [f]) of
        Search_Panic \<Rightarrow> False
      | Cycle cycle \<Rightarrow> call_cycle graph cycle
      | Done v \<Rightarrow> search_state graph v (path @ [f]) \<and> set (graph ! f) \<union> with_mark 2 ?v \<subseteq> with_mark 2 v"
      using 1(1) fresh len 1(3,5,6) by simp
    show ?thesis
    proof (cases "find_call_cycle_callees graph (graph ! f) ?v (path @ [f])")
      case (Done v)
      with * have v: "search_state graph v (path @ [f])" "set (graph ! f) \<union> with_mark 2 visits \<subseteq> with_mark 2 v"
        unfolding m2 by simp_all
      have "f \<in> with_mark 1 v" using v(1) by (simp add: search_state_def)
      then have f1: "f < length v" "f \<notin> with_mark 2 v" by (simp_all add: with_mark_def)
      have m: "with_mark 2 (v[f := 2]) = insert f (with_mark 2 v)" "with_mark 1 (v[f := 2]) = set path"
        using v(1) nf with_mark_update [OF f1(1), of 2 2] with_mark_update [OF f1(1), of 1 2]
        by (simp_all add: search_state_def)
      have "done_part graph (v[f := 2])"
        using acyclic_extend [of "with_mark 2 v" "\<lambda>i. set (graph ! i)" f] v f1
        unfolding done_part_def m search_state_def by auto
      then have "search_state graph (v[f := 2]) path"
        using v(1) walk m set_update_subsetI [of v "{0, 1, 2}" 2 f] by (simp add: search_state_def)
      then show ?thesis using Done v(2) m fresh len by (auto simp: find_call_cycle_from.simps)
    qed (use * fresh len in \<open>simp_all add: find_call_cycle_from.simps\<close>)
  qed
next
  case (2 graph visits path)
  then show ?case by simp
next
  case (3 graph c cs visits path)
  have "set (graph ! last path) \<subseteq> {..<length graph}"
    using 3(4,6,7) by (meson last_in_set lessThan_iff nth_mem subsetD)
  then have *: "case find_call_cycle_from graph c visits path of
        Search_Panic \<Rightarrow> False
      | Cycle cycle \<Rightarrow> call_cycle graph cycle
      | Done v \<Rightarrow> search_state graph v path \<and> insert c (with_mark 2 visits) \<subseteq> with_mark 2 v"
    using 3 by auto
  show ?case
  proof (cases "find_call_cycle_from graph c visits path")
    case (Done v)
    with * 3(2) [OF Done] 3(4-7) show ?thesis
      by (cases "find_call_cycle_callees graph cs v path") auto
  qed (use * in simp_all)
qed

subsection \<open>Rejection of call cycles\<close>

definition call_edges :: "program \<Rightarrow> nat list list" where
  "call_edges p =
     map (\<lambda>f. remdups_adj (sort (collect_block_callees (fn_body f) (length (pr_functions p))))) (pr_functions p)"

fun find_call_cycle_roots :: "nat list list \<Rightarrow> nat list \<Rightarrow> nat list \<Rightarrow> cycle_search" where
  "find_call_cycle_roots graph [] visits = Done visits"
| "find_call_cycle_roots graph (f # fs) visits =
     (if length visits \<le> f then Search_Panic
      else if visits ! f = 0
      then (case find_call_cycle_from graph f visits [] of
              Done visits \<Rightarrow> find_call_cycle_roots graph fs visits
            | r \<Rightarrow> r)
      else find_call_cycle_roots graph fs visits)"

definition find_call_cycle :: "program \<Rightarrow> cycle_search" where
  "find_call_cycle p =
     (let graph = call_edges p
      in find_call_cycle_roots graph [0..<length graph] (replicate (length graph) 0))"

text \<open>A panic is \<open>None\<close>.\<close>

definition validate_acyclic_call_graph :: "program \<Rightarrow> validation_error list option" where
  "validate_acyclic_call_graph p =
     (case find_call_cycle p of
        Search_Panic \<Rightarrow> None
      | Done _ \<Rightarrow> Some []
      | Cycle cycle \<Rightarrow>
          (case cycle of
             [] \<Rightarrow> None
           | f # _ \<Rightarrow>
               if list_ex (\<lambda>i. length (pr_functions p) \<le> i) cycle then None
               else Some (function_error f (fn_source (pr_functions p ! f))
                      ''recursive call cycle is not realtime-safe: {}'')))"

lemma collect_callees_filter:
  shows "collect_statements_callees [s] n = filter (\<lambda>c. c < n) (statements_callees [s])"
    and "collect_statements_callees [Statement k src] n = filter (\<lambda>c. c < n) (statements_callees [Statement k src])"
    and "collect_block_callees b n = filter (\<lambda>c. c < n) (block_callees b)"
    and "collect_statements_callees ss n = filter (\<lambda>c. c < n) (statements_callees ss)"
proof (induction s and k and b and ss arbitrary: and src and and rule: mir_induct)
  case (Simple k)
  then show ?case by (cases k) simp_all
next
  case (Cons s ss)
  have "collect_statements_callees (s # ss) n = collect_statements_callees [s] n @ collect_statements_callees ss n"
    and "statements_callees (s # ss) = statements_callees [s] @ statements_callees ss" for n
    by (cases s; simp)+
  with Cons show ?case by simp
qed auto

lemma call_edges_nth: "i < length (pr_functions p) \<Longrightarrow>
    set (call_edges p ! i) = {c \<in> set (block_callees (fn_body (pr_functions p ! i))). c < length (pr_functions p)}"
  by (auto simp: call_edges_def collect_callees_filter(3))

lemma length_call_edges [simp]: "length (call_edges p) = length (pr_functions p)"
  by (simp add: call_edges_def)

lemma call_edges_range: "\<forall>cs \<in> set (call_edges p). set cs \<subseteq> {..<length (call_edges p)}"
  by (auto simp: call_edges_def collect_callees_filter(3))

text \<open>The calls between functions of a program, with ids outside the table left out.\<close>

definition program_calls :: "program \<Rightarrow> (nat \<times> nat) set" where
  "program_calls p = {(i, c). calls p i c \<and> c < length (pr_functions p)}"

lemma program_calls_edges: "program_calls p = edges (call_edges p)"
  by (auto simp: program_calls_def edges_def calls_def nth_opt_def call_edges_nth)

lemma search_roots_correct:
  "search_state graph visits [] \<Longrightarrow> set fs \<subseteq> {..<length graph} \<Longrightarrow> \<forall>cs \<in> set graph. set cs \<subseteq> {..<length graph} \<Longrightarrow>
     (case find_call_cycle_roots graph fs visits of
        Search_Panic \<Rightarrow> False
      | Cycle cycle \<Rightarrow> call_cycle graph cycle
      | Done v \<Rightarrow> search_state graph v [] \<and> set fs \<union> with_mark 2 visits \<subseteq> with_mark 2 v)"
proof (induction graph fs visits rule: find_call_cycle_roots.induct)
  case (2 graph f fs visits)
  have len: "f < length visits" "f < length graph" using 2(3,4) by (auto simp: search_state_def)
  have marks: "visits ! f \<in> {0, 1, 2}" "visits ! f \<noteq> 1"
    using 2(3) len(1) subsetD [OF _ nth_mem [OF len(1)], of "{0, 1, 2}"] by (auto simp: search_state_def with_mark_def)
  show ?case
  proof (cases "visits ! f = 0")
    case True
    have *: "case find_call_cycle_from graph f visits [] of
        Search_Panic \<Rightarrow> False
      | Cycle cycle \<Rightarrow> call_cycle graph cycle
      | Done v \<Rightarrow> search_state graph v [] \<and> insert f (with_mark 2 visits) \<subseteq> with_mark 2 v"
      using search_correct(1) [of graph visits "[]" f] 2(3,5) len by simp
    show ?thesis
    proof (cases "find_call_cycle_from graph f visits []")
      case (Done v)
      with * 2(1) [OF _ True Done] 2(4,5) len show ?thesis
        by (cases "find_call_cycle_roots graph fs v") (auto simp: True)
    qed (use * len True in simp_all)
  next
    case False
    then have "f \<in> with_mark 2 visits" using marks len by (simp add: with_mark_def)
    then show ?thesis using 2(2-5) False len by (cases "find_call_cycle_roots graph fs visits") auto
  qed
qed simp

lemma find_call_cycle_correct:
  "case find_call_cycle p of
     Search_Panic \<Rightarrow> False
   | Cycle cycle \<Rightarrow> call_cycle (call_edges p) cycle
   | Done _ \<Rightarrow> acyclic (program_calls p)"
proof -
  let ?g = "call_edges p"
  have "search_state ?g (replicate (length ?g) 0) []"
    by (simp add: search_state_def with_mark_def done_part_def acyclic_def set_replicate_conv_if cong: conj_cong)
  then have *: "case find_call_cycle p of
        Search_Panic \<Rightarrow> False
      | Cycle cycle \<Rightarrow> call_cycle ?g cycle
      | Done v \<Rightarrow> search_state ?g v [] \<and> {0..<length ?g} \<subseteq> with_mark 2 v"
    using search_roots_correct [of ?g "replicate (length ?g) 0" "[0..<length ?g]"] call_edges_range [of p]
    by (auto simp: find_call_cycle_def Let_def lessThan_atLeast0 split: cycle_search.splits)
  show ?thesis
  proof (cases "find_call_cycle p")
    case (Done v)
    with * have "with_mark 2 v = {..<length ?g}" "done_part ?g v"
      by (auto simp: search_state_def with_mark_def)
    then have "acyclic (program_calls p)"
      by (simp add: done_part_def program_calls_edges edges_def lessThan_def)
    with Done show ?thesis by simp
  qed (use * in simp_all)
qed

text \<open>A closed walk contradicts acyclicity.\<close>

lemma call_path_trancl:
  "call_path graph path \<Longrightarrow> set path \<subseteq> {..<length graph} \<Longrightarrow> 2 \<le> length path \<Longrightarrow> (hd path, last path) \<in> (edges graph)\<^sup>+"
proof (induction path rule: call_path.induct)
  case (1 graph a b path)
  have e: "(a, b) \<in> edges graph" using 1(2,3) by (simp add: edges_def)
  show ?case
  proof (cases path)
    case Nil
    with e show ?thesis by auto
  next
    case (Cons c cs)
    then have "(b, last (b # path)) \<in> (edges graph)\<^sup>+" using 1 by simp
    with e show ?thesis by (simp add: Cons trancl_into_trancl2)
  qed
qed simp_all

lemma call_cycle_not_acyclic: "call_cycle (call_edges p) cycle \<Longrightarrow> \<not> acyclic (program_calls p)"
  using call_path_trancl [of "call_edges p" cycle]
  by (auto simp: call_cycle_def acyclic_def program_calls_edges)

lemma acyclic_call_graph_correct:
  "\<exists>errors. validate_acyclic_call_graph p = Some errors \<and> (errors = [] \<longleftrightarrow> acyclic (program_calls p))
    \<and> (\<forall>cycle. find_call_cycle p = Cycle cycle \<longrightarrow> call_cycle (call_edges p) cycle)"
proof (cases "find_call_cycle p")
  case Search_Panic
  then show ?thesis using find_call_cycle_correct [of p] by simp
next
  case (Cycle cycle)
  then have c: "call_cycle (call_edges p) cycle" using find_call_cycle_correct [of p] by simp
  then obtain f fs where fs: "cycle = f # fs" by (cases cycle) (auto simp: call_cycle_def)
  have "\<not> list_ex (\<lambda>i. length (pr_functions p) \<le> i) cycle"
    using c by (auto simp: call_cycle_def list_ex_iff)
  with Cycle c fs call_cycle_not_acyclic [OF c] show ?thesis
    by (auto simp: validate_acyclic_call_graph_def)
next
  case (Done v)
  then show ?thesis using find_call_cycle_correct [of p] by (simp add: validate_acyclic_call_graph_def)
qed

text \<open>C26: the search for call cycles never panics and is exact: when it reports no error the calls of the
  program are acyclic, and when it reports one, the functions it lists are a walk along calls that
  returns to its start.\<close>

theorem acyclic_call_graph_exact:
  "\<exists>errors. validate_acyclic_call_graph p = Some errors \<and> (errors = [] \<longleftrightarrow> acyclic (program_calls p))
    \<and> (\<forall>cycle. find_call_cycle p = Cycle cycle \<longrightarrow> call_cycle (call_edges p) cycle)"
  by (rule acyclic_call_graph_correct)

theorem acyclic_call_graph_exact_witness:
  "find_call_cycle (demo_program [demo_function [S_Call [] 1 []] 0, demo_function [S_Call [] 0 []] 0]) = Cycle [0, 1, 0]
   \<and> call_cycle (call_edges (demo_program [demo_function [S_Call [] 1 []] 0, demo_function [S_Call [] 0 []] 0])) [0, 1, 0]"
  using acyclic_call_graph_exact [of "demo_program [demo_function [S_Call [] 1 []] 0, demo_function [S_Call [] 0 []] 0]"]
  by (auto simp: find_call_cycle_def call_edges_def demo_program_def demo_function_def Let_def find_call_cycle_from.simps
      numeral_2_eq_2)

subsection \<open>Publications the init entry point can reach\<close>

fun block_contains_publication :: "block \<Rightarrow> bool"
  and statements_contain_publication :: "statement list \<Rightarrow> bool" where
  "block_contains_publication (Block ss) = statements_contain_publication ss"
| "statements_contain_publication [] = False"
| "statements_contain_publication (Statement k src # ss) =
     ((case k of
         S_PublishDelegate _ _ \<Rightarrow> True
       | S_If _ t e \<Rightarrow> block_contains_publication t \<or> block_contains_publication e
       | S_Loop body \<Rightarrow> block_contains_publication body
       | _ \<Rightarrow> False) \<or> statements_contain_publication ss)"

text \<open>The last element of the code's stack is the head of the list.\<close>

function publication_walk :: "program \<Rightarrow> nat list \<Rightarrow> bool list \<Rightarrow> validation_error list option" where
  "publication_walk p [] visited = Some []"
| "publication_walk p (i # pending) visited =
     (if length visited \<le> i then None
      else if visited ! i then publication_walk p pending visited
      else if length (pr_functions p) \<le> i then None
      else let f = pr_functions p ! i
           in map_option
                (append (if block_contains_publication (fn_body f)
                         then function_error i (fn_source f) ''init entry point reaches delegate publication''
                         else []))
                (publication_walk p (rev (collect_block_callees (fn_body f) (length (pr_functions p))) @ pending)
                   (visited[i := True])))"
  by pat_completeness auto
termination
  by (relation "measures [\<lambda>(p, pending, visited). unseen visited, \<lambda>(p, pending, visited). length pending]")
    (auto intro: unseen_update)

definition validate_init_cannot_reach_publication :: "program \<Rightarrow> validation_error list option" where
  "validate_init_cannot_reach_publication p =
     (let init = entry_init (pr_entry_points p)
      in if length (pr_functions p) \<le> init then Some []
         else publication_walk p [init] (replicate (length (pr_functions p)) False))"

text \<open>A walk that starts in a set closed up to the pending nodes and leaves it passes one of those.\<close>

lemma leave_closed:
  assumes "(x, y) \<in> R\<^sup>*" and "x \<in> V" and "y \<notin> V" and "\<And>a b. a \<in> V \<Longrightarrow> (a, b) \<in> R \<Longrightarrow> b \<in> V \<union> P"
  shows "\<exists>z \<in> P. (z, y) \<in> R\<^sup>*"
  using assms(1,2)
proof (induction rule: converse_rtrancl_induct)
  case (step a b)
  with assms(4) [of a b] show ?case by blast
qed (use assms(3) in simp)

definition publishes :: "program \<Rightarrow> nat \<Rightarrow> bool" where
  "publishes p i \<longleftrightarrow> i < length (pr_functions p) \<and> block_contains_publication (fn_body (pr_functions p ! i))"

lemma publication_walk_correct:
  assumes "length visited = length (pr_functions p)" and "set pending \<subseteq> {..<length (pr_functions p)}"
    and "\<And>a b. a < length visited \<Longrightarrow> visited ! a \<Longrightarrow> (a, b) \<in> program_calls p \<Longrightarrow> (b < length visited \<and> visited ! b) \<or> b \<in> set pending"
  shows "\<exists>errors. publication_walk p pending visited = Some errors
    \<and> (errors = [] \<longleftrightarrow> (\<forall>i \<in> set pending. \<forall>j. (i, j) \<in> (program_calls p)\<^sup>* \<longrightarrow> visited ! j \<or> \<not> publishes p j))"
  using assms
proof (induction p pending visited rule: publication_walk.induct)
  case (1 p visited)
  then show ?case by simp
next
  case (2 p i pending visited)
  have i: "i < length visited" "i < length (pr_functions p)" using 2(3,4) by auto
  have range: "j < length (pr_functions p)" if "(i', j) \<in> (program_calls p)\<^sup>*" "i' < length (pr_functions p)" for i' j
    using that by (induction rule: rtrancl_induct) (auto simp: program_calls_def)
  show ?case
  proof (cases "visited ! i")
    case True
    have closed: "(b < length visited \<and> visited ! b) \<or> b \<in> set pending"
      if "a < length visited" "visited ! a" "(a, b) \<in> program_calls p" for a b
      using 2(5) [OF that] i True by auto
    have "\<exists>z \<in> set pending. (z, j) \<in> (program_calls p)\<^sup>*"
      if "(i, j) \<in> (program_calls p)\<^sup>*" "\<not> visited ! j" for j
    proof (rule leave_closed [OF that(1), of "{a. a < length visited \<and> visited ! a}"])
      show "b \<in> {a. a < length visited \<and> visited ! a} \<union> set pending"
        if "a \<in> {a. a < length visited \<and> visited ! a}" "(a, b) \<in> program_calls p" for a b
        using closed [of a b] that by auto
    qed (use i True that in auto)
    moreover have "\<exists>errors. publication_walk p pending visited = Some errors
      \<and> (errors = [] \<longleftrightarrow> (\<forall>i \<in> set pending. \<forall>j. (i, j) \<in> (program_calls p)\<^sup>* \<longrightarrow> visited ! j \<or> \<not> publishes p j))"
      using 2(1) [OF _ True 2(3) _ closed] 2(4) i by simp
    ultimately show ?thesis using True i by (simp (no_asm_simp)) (metis (full_types))
  next
    case False
    let ?f = "pr_functions p ! i"
    let ?callees = "collect_block_callees (fn_body ?f) (length (pr_functions p))"
    let ?visited = "visited[i := True]"
    have callees: "set ?callees = {c. (i, c) \<in> program_calls p}"
      using i by (auto simp: collect_callees_filter program_calls_def calls_def)
    have closed: "(b < length ?visited \<and> ?visited ! b) \<or> b \<in> set (rev ?callees @ pending)"
      if "a < length ?visited" "?visited ! a" "(a, b) \<in> program_calls p" for a b
    proof (cases "a = i")
      case True
      then show ?thesis using that callees by auto
    next
      case False
      then show ?thesis using 2(5) [of a b] that i by (cases "b = i") (auto simp: nth_list_update)
    qed
    have "\<exists>errors. publication_walk p (rev ?callees @ pending) ?visited = Some errors
      \<and> (errors = [] \<longleftrightarrow> (\<forall>c \<in> set (rev ?callees @ pending). \<forall>j. (c, j) \<in> (program_calls p)\<^sup>* \<longrightarrow>
           ?visited ! j \<or> \<not> publishes p j))"
    proof (rule 2(2) [OF _ False _ refl _ _ closed])
      show "set (rev ?callees @ pending) \<subseteq> {..<length (pr_functions p)}"
        using 2(4) by (auto simp: collect_callees_filter)
    qed (use 2(3) i in simp_all)
    then obtain errors where errors: "publication_walk p (rev ?callees @ pending) ?visited = Some errors"
        "errors = [] \<longleftrightarrow> (\<forall>c \<in> set (rev ?callees @ pending). \<forall>j. (c, j) \<in> (program_calls p)\<^sup>* \<longrightarrow>
           ?visited ! j \<or> \<not> publishes p j)" by blast
    have "(\<forall>c \<in> set (i # pending). \<forall>j. (c, j) \<in> (program_calls p)\<^sup>* \<longrightarrow> visited ! j \<or> \<not> publishes p j)
      \<longleftrightarrow> \<not> publishes p i \<and> errors = []" (is "?all \<longleftrightarrow> _")
    proof
      assume ?all
      moreover from this have "\<not> publishes p i" using False by auto
      moreover have "(i, j) \<in> (program_calls p)\<^sup>*" if "c \<in> set ?callees" "(c, j) \<in> (program_calls p)\<^sup>*" for c j
        using that callees by (auto intro: converse_rtrancl_into_rtrancl)
      ultimately show "\<not> publishes p i \<and> errors = []"
        unfolding errors(2) using i by (auto simp: nth_list_update)
    next
      assume e: "\<not> publishes p i \<and> errors = []"
      have "visited ! j \<or> \<not> publishes p j" if c: "c \<in> set (i # pending)" "(c, j) \<in> (program_calls p)\<^sup>*" for c j
      proof (cases "j = i")
        case False
        then have "\<exists>d \<in> set (rev ?callees @ pending). (d, j) \<in> (program_calls p)\<^sup>*"
          using c callees by (auto elim: converse_rtranclE)
        then show ?thesis
          using e nth_list_update_neq [of i j visited True] False unfolding errors(2) by blast
      qed (use e in simp)
      then show ?all by blast
    qed
    with errors(1) False i show ?thesis by (auto simp: Let_def publishes_def)
  qed
qed

lemma init_publication_correct:
  "\<exists>errors. validate_init_cannot_reach_publication p = Some errors
    \<and> (errors = [] \<longleftrightarrow> \<not> (\<exists>j. entry_init (pr_entry_points p) < length (pr_functions p)
          \<and> (entry_init (pr_entry_points p), j) \<in> (program_calls p)\<^sup>* \<and> publishes p j))"
proof (cases "entry_init (pr_entry_points p) < length (pr_functions p)")
  case True
  let ?n = "length (pr_functions p)"
  obtain errors where errors: "publication_walk p [entry_init (pr_entry_points p)] (replicate ?n False) = Some errors"
      "errors = [] \<longleftrightarrow> (\<forall>i \<in> set [entry_init (pr_entry_points p)]. \<forall>j. (i, j) \<in> (program_calls p)\<^sup>* \<longrightarrow>
         replicate ?n False ! j \<or> \<not> publishes p j)"
    using publication_walk_correct [of "replicate ?n False" p "[entry_init (pr_entry_points p)]"] True by auto
  have "\<not> replicate ?n False ! j" if "publishes p j" for j using that by (simp add: publishes_def)
  then show ?thesis using errors True by (auto simp: validate_init_cannot_reach_publication_def Let_def)
next
  case False
  then show ?thesis by (simp add: validate_init_cannot_reach_publication_def Let_def)
qed

text \<open>C27: the search for publications never panics and is exact: it reports an error exactly when the
  init entry point is a function of the table from which calls lead to a delegate publication.\<close>

theorem init_publication_exact:
  "\<exists>errors. validate_init_cannot_reach_publication p = Some errors
    \<and> (errors = [] \<longleftrightarrow> \<not> (\<exists>j. entry_init (pr_entry_points p) < length (pr_functions p)
          \<and> (entry_init (pr_entry_points p), j) \<in> (program_calls p)\<^sup>* \<and> publishes p j))"
  by (rule init_publication_correct)

end
