(* ===== verification/Definite_Assignment.thy ===== *)
theory Definite_Assignment
  imports Validate_Calls
begin

section \<open>Validation: definite assignment\<close>

text \<open>
  The analysis of \<open>onda_mir/src/validate.rs\<close> and \<open>validate/helpers.rs\<close> that rejects a read of a local before it
  is written. For each local it keeps the paths below it that are written on every way here, whether
  its value comes from \<open>process_frame\<close>, and the local array its slice covers. A \<open>HashSet\<close> of paths is a list
  without duplicates, walked in the order of insertion.
\<close>

subsection \<open>Paths and coverage\<close>

datatype init_projection = IP_Field nat | IP_Index nat

type_synonym init_path = "init_projection list"

record local_initialization =
  li_covered :: "init_path list"
  li_process_frame :: bool
  li_full_slice_backing :: "local_id option"

type_synonym assignment_state = "local_initialization list"

definition local_uninitialized :: local_initialization where
  "local_uninitialized = \<lparr>li_covered = [], li_process_frame = False, li_full_slice_backing = None\<rparr>"

definition assignment_state_new :: "nat \<Rightarrow> assignment_state" where
  "assignment_state_new n = replicate n local_uninitialized"

record assignment_flow =
  af_fallthrough :: "assignment_state option"
  af_breaks :: "assignment_state list"
  af_continues :: "assignment_state list"

text \<open>The index of a constant projection that is not negative.\<close>

definition static_index :: "mir_value \<Rightarrow> nat option" where
  "static_index v = (case v of V_Constant (I32 w) \<Rightarrow> if sint w < 0 then None else Some (nat (sint w)) | _ \<Rightarrow> None)"

fun static_initialization_path :: "projection list \<Rightarrow> init_path option" where
  "static_initialization_path [] = Some []"
| "static_initialization_path (P_Field k # prs) = map_option (Cons (IP_Field k)) (static_initialization_path prs)"
| "static_initialization_path (P_Index v _ # prs) =
     (case static_index v of
        None \<Rightarrow> None
      | Some k \<Rightarrow> map_option (Cons (IP_Index k)) (static_initialization_path prs))"

fun static_initialization_prefix :: "projection list \<Rightarrow> init_path" where
  "static_initialization_prefix [] = []"
| "static_initialization_prefix (P_Field k # prs) = IP_Field k # static_initialization_prefix prs"
| "static_initialization_prefix (P_Index v _ # prs) =
     (case static_index v of None \<Rightarrow> [] | Some k \<Rightarrow> IP_Index k # static_initialization_prefix prs)"

definition path_is_prefix :: "init_path \<Rightarrow> init_path \<Rightarrow> bool" where
  "path_is_prefix p q \<longleftrightarrow> length p \<le> length q \<and> list_all (\<lambda>(a, b). a = b) (zip p q)"

definition initialization_is_covered :: "init_path list \<Rightarrow> init_path \<Rightarrow> bool" where
  "initialization_is_covered covered requested = list_ex (\<lambda>region. path_is_prefix region requested) covered"

fun type_at_initialization_path :: "program \<Rightarrow> type_id \<Rightarrow> init_path \<Rightarrow> type_id option" where
  "type_at_initialization_path p ty [] = Some ty"
| "type_at_initialization_path p ty (IP_Field k # path) =
     (case nth_opt (pr_types p) ty of
        Some (T_Struct s) \<Rightarrow>
          Option.bind (Option.bind (nth_opt (pr_structs p) s) (\<lambda>st. nth_opt (st_fields st) k))
            (\<lambda>field. type_at_initialization_path p (sf_ty field) path)
      | _ \<Rightarrow> None)"
| "type_at_initialization_path p ty (IP_Index k # path) =
     (case nth_opt (pr_types p) ty of
        Some (T_Array element len) \<Rightarrow> if len \<le> k then None else type_at_initialization_path p element path
      | _ \<Rightarrow> None)"

definition direct_initialization_children :: "program \<Rightarrow> type_id \<Rightarrow> nat \<Rightarrow> init_projection list option" where
  "direct_initialization_children p ty covered_count =
     (case nth_opt (pr_types p) ty of
        Some (T_Array _ len) \<Rightarrow> if covered_count < len then None else Some (map IP_Index [0..<len])
      | Some (T_Struct s) \<Rightarrow>
          Option.bind (nth_opt (pr_structs p) s) (\<lambda>st.
            if covered_count < length (st_fields st) then None
            else Some (map IP_Field [0..<length (st_fields st)]))
      | _ \<Rightarrow> None)"

definition cover_insert :: "init_path \<Rightarrow> init_path list \<Rightarrow> init_path list" where
  "cover_insert path covered = (if path \<in> set covered then covered else covered @ [path])"

definition normalize_parent :: "program \<Rightarrow> type_id \<Rightarrow> init_path \<Rightarrow> init_path list \<Rightarrow> init_path list" where
  "normalize_parent p root parent covered =
     (case type_at_initialization_path p root parent of
        None \<Rightarrow> covered
      | Some ty \<Rightarrow>
          (case direct_initialization_children p ty (length covered) of
             None \<Rightarrow> covered
           | Some children \<Rightarrow>
               if list_all (\<lambda>child. initialization_is_covered covered (parent @ [child])) children
               then cover_insert parent (filter (\<lambda>path. \<not> path_is_prefix parent path) covered)
               else covered))"

definition normalize_initialization_coverage ::
  "program \<Rightarrow> type_id \<Rightarrow> init_path list \<Rightarrow> init_path \<Rightarrow> init_path list" where
  "normalize_initialization_coverage p root covered inserted =
     fold (\<lambda>depth. normalize_parent p root (take depth inserted)) (rev [0..<length inserted]) covered"

subsection \<open>Joining states\<close>

definition common_paths :: "init_path list \<Rightarrow> init_path list \<Rightarrow> init_path list" where
  "common_paths lhs rhs =
     fold (\<lambda>left. fold (\<lambda>right covered.
        if path_is_prefix left right then cover_insert right covered
        else if path_is_prefix right left then cover_insert left covered
        else covered) rhs) lhs []"

definition intersect_local :: "program \<Rightarrow> type_id option \<Rightarrow> local_initialization \<Rightarrow> local_initialization \<Rightarrow> local_initialization" where
  "intersect_local p ty lhs rhs =
     (let paths = common_paths (li_covered lhs) (li_covered rhs);
          covered = (case ty of
                       Some ty \<Rightarrow> fold (\<lambda>path covered. normalize_initialization_coverage p ty covered path) paths paths
                     | None \<Rightarrow> paths)
      in \<lparr>li_covered = covered,
          li_process_frame = li_process_frame lhs \<and> li_process_frame rhs \<and> list_ex (\<lambda>path. path = []) covered,
          li_full_slice_backing = (if li_full_slice_backing lhs = li_full_slice_backing rhs
             then li_full_slice_backing lhs else None)\<rparr>)"

definition intersect_two_assignment_states ::
  "program \<Rightarrow> mir_function \<Rightarrow> assignment_state \<Rightarrow> assignment_state \<Rightarrow> assignment_state" where
  "intersect_two_assignment_states p f lhs rhs =
     map (\<lambda>(i, lhs, rhs). intersect_local p (local_type f i) lhs rhs) (enumerate 0 (zip lhs rhs))"

fun merge_assignment_fallthrough ::
  "program \<Rightarrow> mir_function \<Rightarrow> assignment_state option \<Rightarrow> assignment_state option \<Rightarrow> assignment_state option" where
  "merge_assignment_fallthrough p f (Some lhs) (Some rhs) = Some (intersect_two_assignment_states p f lhs rhs)"
| "merge_assignment_fallthrough p f (Some s) None = Some s"
| "merge_assignment_fallthrough p f None s = s"

fun intersect_assignment_states ::
  "program \<Rightarrow> mir_function \<Rightarrow> assignment_state list \<Rightarrow> assignment_state option" where
  "intersect_assignment_states p f [] = None"
| "intersect_assignment_states p f (first # states) =
     Some (fold (\<lambda>rhs lhs. intersect_two_assignment_states p f lhs rhs) states first)"

subsection \<open>Reads\<close>

definition assignment_read_value ::
  "function_id \<Rightarrow> mir_value \<Rightarrow> source_span \<Rightarrow> assignment_state \<Rightarrow> validation_error list" where
  "assignment_read_value i v src st =
     (case v of
        V_Constant _ \<Rightarrow> []
      | V_Local l \<Rightarrow>
          (case nth_opt st l of
             None \<Rightarrow> []
           | Some init \<Rightarrow>
               if \<not> list_ex (\<lambda>path. path = []) (li_covered init)
               then function_error i src ''local {} is read before it is definitely assigned'' else []))"

definition assignment_read_values ::
  "function_id \<Rightarrow> mir_value list \<Rightarrow> source_span \<Rightarrow> assignment_state \<Rightarrow> validation_error list" where
  "assignment_read_values i vs src st = concat (map (\<lambda>v. assignment_read_value i v src st) vs)"

definition assignment_read_optional_value ::
  "function_id \<Rightarrow> mir_value option \<Rightarrow> source_span \<Rightarrow> assignment_state \<Rightarrow> validation_error list" where
  "assignment_read_optional_value i v src st = (case v of Some v \<Rightarrow> assignment_read_value i v src st | None \<Rightarrow> [])"

definition assignment_read_buffer_ref ::
  "function_id \<Rightarrow> buffer_ref \<Rightarrow> source_span \<Rightarrow> assignment_state \<Rightarrow> validation_error list" where
  "assignment_read_buffer_ref i b src st =
     (case b of BR_ArrayElement _ _ selector _ \<Rightarrow> assignment_read_value i selector src st | BR_Direct _ \<Rightarrow> [])"

definition assignment_read_buffer_param_ref ::
  "function_id \<Rightarrow> buffer_param_ref \<Rightarrow> source_span \<Rightarrow> assignment_state \<Rightarrow> validation_error list" where
  "assignment_read_buffer_param_ref i b src st =
     (case b of BP_ArrayElement _ selector _ \<Rightarrow> assignment_read_value i selector src st | BP_Direct _ \<Rightarrow> [])"

definition assignment_read_process_frame ::
  "function_id \<Rightarrow> mir_value \<Rightarrow> source_span \<Rightarrow> string \<Rightarrow> assignment_state \<Rightarrow> validation_error list" where
  "assignment_read_process_frame i v src operation st =
     assignment_read_value i v src st
     @ (case v of
          V_Constant _ \<Rightarrow> function_error i src (operation @ '' frame must be dominated by process_frame'')
        | V_Local l \<Rightarrow>
            if \<not> (case nth_opt st l of Some init \<Rightarrow> li_process_frame init | None \<Rightarrow> False)
            then function_error i src (operation @ '' frame must be dominated by process_frame'') else [])"

definition assignment_read_place_indices ::
  "function_id \<Rightarrow> place \<Rightarrow> source_span \<Rightarrow> assignment_state \<Rightarrow> validation_error list" where
  "assignment_read_place_indices i pl src st =
     concat (map (\<lambda>pr. case pr of P_Index v _ \<Rightarrow> assignment_read_value i v src st | P_Field _ \<Rightarrow> [])
       (place_projections pl))"

definition assignment_read_place ::
  "function_id \<Rightarrow> place \<Rightarrow> source_span \<Rightarrow> assignment_state \<Rightarrow> validation_error list" where
  "assignment_read_place i pl src st =
     assignment_read_place_indices i pl src st
     @ (case place_base pl of
          PB_Local l \<Rightarrow>
            (case nth_opt st l of
               None \<Rightarrow> []
             | Some init \<Rightarrow>
                 (case static_initialization_path (place_projections pl) of
                    None \<Rightarrow>
                      if \<not> initialization_is_covered (li_covered init) (static_initialization_prefix (place_projections pl))
                      then function_error i src ''local {} is indexed before it is definitely assigned'' else []
                  | Some path \<Rightarrow>
                      if \<not> initialization_is_covered (li_covered init) path
                      then function_error i src ''local {} is read before it is definitely assigned'' else []))
        | _ \<Rightarrow> [])"

definition place_is_slice :: "program \<Rightarrow> mir_function \<Rightarrow> place \<Rightarrow> bool" where
  "place_is_slice p f pl \<longleftrightarrow>
     (case Option.bind (place_type p f pl) (nth_opt (pr_types p)) of Some (T_Slice _ _) \<Rightarrow> True | _ \<Rightarrow> False)"

definition assignment_read_slice_source ::
  "program \<Rightarrow> function_id \<Rightarrow> mir_function \<Rightarrow> slice_source \<Rightarrow> source_span \<Rightarrow> assignment_state \<Rightarrow> validation_error list" where
  "assignment_read_slice_source p i f s src st =
     (case s of
        SS_Place pl \<Rightarrow>
          assignment_read_place_indices i pl src st
          @ (if place_is_slice p f pl then assignment_read_place i pl src st else [])
      | SS_Buffer b channel \<Rightarrow> assignment_read_buffer_ref i b src st @ assignment_read_optional_value i channel src st
      | SS_BufferParam b channel \<Rightarrow>
          assignment_read_buffer_param_ref i b src st @ assignment_read_optional_value i channel src st
      | SS_ConstData _ \<Rightarrow> [])"

definition assignment_read_rvalue ::
  "program \<Rightarrow> function_id \<Rightarrow> mir_function \<Rightarrow> rvalue \<Rightarrow> source_span \<Rightarrow> assignment_state \<Rightarrow> validation_error list" where
  "assignment_read_rvalue p i f r src st =
     (let value = (\<lambda>v. assignment_read_value i v src st);
          optional = (\<lambda>v. assignment_read_optional_value i v src st);
          buffer = (\<lambda>b. assignment_read_buffer_ref i b src st);
          parameter = (\<lambda>b. assignment_read_buffer_param_ref i b src st)
      in case r of
           R_InitAll \<Rightarrow> []
         | R_Use v \<Rightarrow> value v
         | R_Load pl \<Rightarrow> assignment_read_place i pl src st
         | R_Unary _ v \<Rightarrow> value v
         | R_Binary _ a b \<Rightarrow> value a @ value b
         | R_Compare _ a b \<Rightarrow> value a @ value b
         | R_Cast v _ \<Rightarrow> value v
         | R_Intrinsic _ vs \<Rightarrow> concat (map value vs)
         | R_ProcessFrame v \<Rightarrow> value v
         | R_NormalizeIndex k n _ \<Rightarrow> value k @ value n
         | R_InputLoad _ element _ frame \<Rightarrow>
             optional element @ assignment_read_process_frame i frame src ''audio I/O'' st
         | R_OutputLoad _ element _ frame \<Rightarrow>
             optional element @ assignment_read_process_frame i frame src ''audio I/O'' st
         | R_BufferLoad b channel k _ \<Rightarrow> buffer b @ optional channel @ value k
         | R_BufferParamLoad b channel k _ \<Rightarrow> parameter b @ optional channel @ value k
         | R_BufferLen b \<Rightarrow> buffer b
         | R_BufferChannels b \<Rightarrow> buffer b
         | R_BufferSampleRate b \<Rightarrow> buffer b
         | R_BufferIsBound b \<Rightarrow> buffer b
         | R_BufferParamLen b \<Rightarrow> parameter b
         | R_BufferParamChannels b \<Rightarrow> parameter b
         | R_BufferParamSampleRate b \<Rightarrow> parameter b
         | R_BufferParamIsBound b \<Rightarrow> parameter b
         | R_ConstDataLoad _ k _ \<Rightarrow> value k
         | R_MakeSlice s start len _ _ \<Rightarrow> assignment_read_slice_source p i f s src st @ value start @ value len
         | R_SliceLoad s k _ \<Rightarrow> value s @ value k
         | R_SliceLen s \<Rightarrow> value s)"

subsection \<open>Writes\<close>

definition local_written :: "bool \<Rightarrow> local_initialization" where
  "local_written process_frame = \<lparr>li_covered = [[]], li_process_frame = process_frame, li_full_slice_backing = None\<rparr>"

definition assignment_write_local :: "local_id \<Rightarrow> bool \<Rightarrow> assignment_state \<Rightarrow> assignment_state" where
  "assignment_write_local l process_frame st =
     (if l < length st then st[l := local_written process_frame] else st)"

definition assignment_write_place ::
  "program \<Rightarrow> function_id \<Rightarrow> mir_function \<Rightarrow> place \<Rightarrow> bool \<Rightarrow> source_span \<Rightarrow> assignment_state
     \<Rightarrow> validation_error list \<times> assignment_state" where
  "assignment_write_place p i f pl process_frame src st =
     (assignment_read_place_indices i pl src st,
      case place_base pl of
        PB_Local l \<Rightarrow>
          (case nth_opt st l of
             None \<Rightarrow> st
           | Some init \<Rightarrow>
               if place_projections pl = [] then st[l := local_written process_frame]
               else (let init = init\<lparr>li_process_frame := False, li_full_slice_backing := None\<rparr>
                     in case static_initialization_path (place_projections pl) of
                          None \<Rightarrow> st[l := init]
                        | Some path \<Rightarrow>
                            (let covered = cover_insert path (li_covered init)
                             in st[l := init\<lparr>li_covered :=
                                    (case local_type f l of
                                       None \<Rightarrow> covered
                                     | Some ty \<Rightarrow> normalize_initialization_coverage p ty covered path)\<rparr>])))
      | _ \<Rightarrow> st)"

definition full_local_array_slice ::
  "program \<Rightarrow> mir_function \<Rightarrow> rvalue \<Rightarrow> assignment_state \<Rightarrow> local_id option" where
  "full_local_array_slice p f r st =
     (case r of
        R_Use (V_Local s) \<Rightarrow> Option.bind (nth_opt st s) li_full_slice_backing
      | R_MakeSlice (SS_Place pl) (V_Constant (I32 start)) (V_Constant (I32 slice_len)) _ _ \<Rightarrow>
          (case place_base pl of
             PB_Local backing \<Rightarrow>
               if start \<noteq> 0 \<or> place_projections pl \<noteq> [] then None
               else (case Option.bind (local_type f backing) (nth_opt (pr_types p)) of
                       Some (T_Array _ len) \<Rightarrow>
                         if 0 \<le> sint slice_len \<and> nat (sint slice_len) = len then Some backing else None
                     | _ \<Rightarrow> None)
           | _ \<Rightarrow> None)
      | _ \<Rightarrow> None)"

definition assignment_write_full_slice :: "mir_value \<Rightarrow> assignment_state \<Rightarrow> assignment_state" where
  "assignment_write_full_slice v st =
     (case v of
        V_Local s \<Rightarrow>
          (case Option.bind (nth_opt st s) li_full_slice_backing of
             Some backing \<Rightarrow> assignment_write_local backing False st
           | None \<Rightarrow> st)
      | V_Constant _ \<Rightarrow> st)"

definition read_write_local :: "call_argument \<Rightarrow> local_id option" where
  "read_write_local a =
     (case a of
        A_Place pl \<Rightarrow> (case place_base pl of PB_Local l \<Rightarrow> Some l | _ \<Rightarrow> None)
      | A_ArrayWindow pl _ _ \<Rightarrow> (case place_base pl of PB_Local l \<Rightarrow> Some l | _ \<Rightarrow> None)
      | A_SliceWindow (V_Local l) _ _ \<Rightarrow> Some l
      | _ \<Rightarrow> None)"

definition assignment_invalidate_read_write_argument :: "call_argument \<Rightarrow> assignment_state \<Rightarrow> assignment_state" where
  "assignment_invalidate_read_write_argument a st =
     (case read_write_local a of
        Some l \<Rightarrow> (if l < length st then st[l := (st ! l)\<lparr>li_process_frame := False\<rparr>] else st)
      | None \<Rightarrow> st)"

subsection \<open>Statements\<close>

definition callee_params :: "program \<Rightarrow> function_id \<Rightarrow> function_param list" where
  "callee_params p g = (case nth_opt (pr_functions p) g of Some callee \<Rightarrow> fn_params callee | None \<Rightarrow> [])"

definition is_result_argument :: "program \<Rightarrow> function_id \<Rightarrow> nat \<Rightarrow> bool" where
  "is_result_argument p g k =
     (case nth_opt (callee_params p g) k of Some param \<Rightarrow> fp_mode param = PM_ResultReference | None \<Rightarrow> False)"

text \<open>The reads of an argument that is not a result reference; a publication passes its resources by
  themselves.\<close>

definition assignment_read_argument ::
  "function_id \<Rightarrow> bool \<Rightarrow> call_argument \<Rightarrow> source_span \<Rightarrow> assignment_state \<Rightarrow> validation_error list" where
  "assignment_read_argument i published a src st =
     (case a of
        A_Value v \<Rightarrow> assignment_read_value i v src st
      | A_Place pl \<Rightarrow> assignment_read_place i pl src st
      | A_SliceElement s k _ \<Rightarrow> assignment_read_value i s src st @ assignment_read_value i k src st
      | A_ArrayWindow pl start _ \<Rightarrow> assignment_read_place i pl src st @ assignment_read_value i start src st
      | A_SliceWindow s start _ \<Rightarrow> assignment_read_value i s src st @ assignment_read_value i start src st
      | A_Buffer b \<Rightarrow> if published then [] else assignment_read_buffer_ref i b src st
      | A_BufferParam b \<Rightarrow> if published then [] else assignment_read_buffer_param_ref i b src st
      | A_BufferSpan _ \<Rightarrow> [])"

definition assignment_read_call_arguments ::
  "program \<Rightarrow> function_id \<Rightarrow> function_id \<Rightarrow> call_argument list \<Rightarrow> source_span \<Rightarrow> assignment_state \<Rightarrow> validation_error list" where
  "assignment_read_call_arguments p i g args src st =
     concat (map (\<lambda>(k, a).
       if is_result_argument p g k
       then (case a of A_Place pl \<Rightarrow> assignment_read_place_indices i pl src st | _ \<Rightarrow> [])
       else assignment_read_argument i False a src st) (enumerate 0 args))"

fun assignment_call_writes ::
  "program \<Rightarrow> function_id \<Rightarrow> mir_function \<Rightarrow> (call_argument \<times> function_param) list \<Rightarrow> source_span \<Rightarrow> assignment_state
     \<Rightarrow> validation_error list \<times> assignment_state" where
  "assignment_call_writes p i f [] src st = ([], st)"
| "assignment_call_writes p i f ((a, param) # rest) src st =
     (let (errors, st) =
        (if fp_mode param = PM_ResultReference
         then (case a of A_Place pl \<Rightarrow> assignment_write_place p i f pl False src st | _ \<Rightarrow> ([], st))
         else if fp_mode param = PM_ReadWriteReference
         then ([], assignment_invalidate_read_write_argument a st)
         else ([], st));
          (more, st) = assignment_call_writes p i f rest src st
      in (errors @ more, st))"

definition set_slice_backing :: "place \<Rightarrow> local_id option \<Rightarrow> assignment_state \<Rightarrow> assignment_state" where
  "set_slice_backing d backing st =
     (case place_base d of
        PB_Local l \<Rightarrow>
          (if place_projections d = [] \<and> l < length st then st[l := (st ! l)\<lparr>li_full_slice_backing := backing\<rparr>] else st)
      | _ \<Rightarrow> st)"

definition is_process_frame :: "rvalue \<Rightarrow> bool" where
  "is_process_frame r = (case r of R_ProcessFrame _ \<Rightarrow> True | _ \<Rightarrow> False)"

definition validate_assignment_statement ::
  "program \<Rightarrow> function_id \<Rightarrow> mir_function \<Rightarrow> statement_kind \<Rightarrow> source_span \<Rightarrow> assignment_state
     \<Rightarrow> validation_error list \<times> assignment_state" where
  "validate_assignment_statement p i f k src st =
     (let value = (\<lambda>v. assignment_read_value i v src st);
          optional = (\<lambda>v. assignment_read_optional_value i v src st)
      in case k of
           S_Assign d r \<Rightarrow>
             (let backing = full_local_array_slice p f r st;
                  reads = assignment_read_rvalue p i f r src st;
                  (errors, st) = assignment_write_place p i f d (is_process_frame r) src st
              in (reads @ errors, set_slice_backing d backing st))
         | S_Call rs g args \<Rightarrow>
             (let reads = assignment_read_call_arguments p i g args src st;
                  (errors, st) = assignment_call_writes p i f (zip args (callee_params p g)) src st
              in (reads @ errors, fold (\<lambda>l. assignment_write_local l False) rs st))
         | S_PublishDelegate _ args \<Rightarrow>
             (concat (map (\<lambda>a. assignment_read_argument i True a src st) args), st)
         | S_PublishLog _ vs \<Rightarrow> (concat (map value vs), st)
         | S_OutputStore _ element _ frame v \<Rightarrow>
             (optional element @ assignment_read_process_frame i frame src ''audio output store'' st @ value v, st)
         | S_ControlOutputStore _ element _ v \<Rightarrow> (optional element @ value v, st)
         | S_BufferStore b channel index v _ \<Rightarrow>
             (assignment_read_buffer_ref i b src st @ optional channel @ value index @ value v, st)
         | S_BufferParamStore b channel index v _ \<Rightarrow>
             (assignment_read_buffer_param_ref i b src st @ optional channel @ value index @ value v, st)
         | S_SliceStore s index v _ \<Rightarrow> (value s @ value index @ value v, st)
         | S_SliceFill d v \<Rightarrow> (value d @ value v, assignment_write_full_slice d st)
         | S_SliceCopy copies _ \<Rightarrow>
             (concat (map (\<lambda>c. value (copy_destination c) @ value (copy_source c)) copies),
              fold (\<lambda>c. assignment_write_full_slice (copy_destination c)) copies st)
         | _ \<Rightarrow> ([], st))"

subsection \<open>Blocks\<close>

fun validate_assignment_block ::
    "program \<Rightarrow> function_id \<Rightarrow> mir_function \<Rightarrow> block \<Rightarrow> assignment_state \<Rightarrow> validation_error list \<times> assignment_flow"
  and validate_assignment_statements ::
    "program \<Rightarrow> function_id \<Rightarrow> mir_function \<Rightarrow> statement list \<Rightarrow> assignment_state
       \<Rightarrow> validation_error list \<times> assignment_flow"
  and validate_assignment_kind ::
    "program \<Rightarrow> function_id \<Rightarrow> mir_function \<Rightarrow> statement_kind \<Rightarrow> source_span \<Rightarrow> assignment_state
       \<Rightarrow> validation_error list \<times> assignment_flow" where
  "validate_assignment_block p i f (Block ss) st = validate_assignment_statements p i f ss st"
| "validate_assignment_statements p i f [] st =
     ([], \<lparr>af_fallthrough = Some st, af_breaks = [], af_continues = []\<rparr>)"
| "validate_assignment_statements p i f (Statement k src # ss) st =
     (let (errors, flow) = validate_assignment_kind p i f k src st
      in case af_fallthrough flow of
           None \<Rightarrow> (errors, flow)
         | Some st \<Rightarrow>
             (let (more, rest) = validate_assignment_statements p i f ss st
              in (errors @ more, rest\<lparr>af_breaks := af_breaks flow @ af_breaks rest,
                    af_continues := af_continues flow @ af_continues rest\<rparr>)))"
| "validate_assignment_kind p i f k src st =
     (case k of
        S_If c t e \<Rightarrow>
          (let (errors_t, flow_t) = validate_assignment_block p i f t st;
               (errors_e, flow_e) = validate_assignment_block p i f e st
           in (assignment_read_value i c src st @ errors_t @ errors_e,
               \<lparr>af_fallthrough = merge_assignment_fallthrough p f (af_fallthrough flow_t) (af_fallthrough flow_e),
                af_breaks = af_breaks flow_t @ af_breaks flow_e,
                af_continues = af_continues flow_t @ af_continues flow_e\<rparr>))
      | S_Loop body \<Rightarrow>
          (let (errors, flow) = validate_assignment_block p i f body st
           in (errors, \<lparr>af_fallthrough = intersect_assignment_states p f (af_breaks flow),
                af_breaks = [], af_continues = []\<rparr>))
      | S_Break \<Rightarrow> ([], \<lparr>af_fallthrough = None, af_breaks = [st], af_continues = []\<rparr>)
      | S_Continue \<Rightarrow> ([], \<lparr>af_fallthrough = None, af_breaks = [], af_continues = [st]\<rparr>)
      | S_Return vs \<Rightarrow>
          (concat (map (\<lambda>v. assignment_read_value i v src st) vs),
           \<lparr>af_fallthrough = None, af_breaks = [], af_continues = []\<rparr>)
      | _ \<Rightarrow>
          (let (errors, st) = validate_assignment_statement p i f k src st
           in (errors, \<lparr>af_fallthrough = Some st, af_breaks = [], af_continues = []\<rparr>)))"

declare validate_assignment_kind.simps [simp del]

definition validate_definite_assignment :: "program \<Rightarrow> function_id \<Rightarrow> mir_function \<Rightarrow> validation_error list" where
  "validate_definite_assignment p i f =
     fst (validate_assignment_block p i f (fn_body f) (assignment_state_new (length (fn_locals f))))"

end
