(* ===== verification/Validate_Body.thy ===== *)
theory Validate_Body
  imports Definite_Assignment
begin

section \<open>Validation: function bodies\<close>

text \<open>
  The type checks of \<open>onda_mir/src/validate.rs\<close> and \<open>validate/call_arguments.rs\<close> over the statements of a
  function: places, right-hand sides, call arguments and every kind of statement.
\<close>

subsection \<open>Places\<close>

definition validate_place_base ::
  "program \<Rightarrow> function_id \<Rightarrow> mir_function \<Rightarrow> place_base \<Rightarrow> source_span \<Rightarrow> validation_error list" where
  "validate_place_base p i f b src =
     (case b of
        PB_Local l \<Rightarrow> require_local i f l src
      | PB_Parameter k \<Rightarrow>
          if length (fn_params f) \<le> k then function_error i src ''place references missing function parameter {}'' else []
      | PB_State k \<Rightarrow> if length (pr_state p) \<le> k then function_error i src ''place references missing state slot {}'' else []
      | PB_Param k \<Rightarrow>
          if length (if_params (pr_interface p)) \<le> k
          then function_error i src ''place references missing parameter {}'' else []
      | PB_EventParam k \<Rightarrow>
          (case fn_kind f of
             FK_Event e \<Rightarrow>
               (case nth_opt (if_events (pr_interface p)) e of
                  None \<Rightarrow> function_error i src ''event handler references missing event {}''
                | Some event \<Rightarrow>
                    if length (ev_params event) \<le> k
                    then function_error i src ''place references missing event parameter {}'' else [])
           | _ \<Rightarrow> function_error i src ''event parameter place used outside an event handler''))"

text \<open>Without an event the projections are not looked at.\<close>

definition place_base_event_known :: "program \<Rightarrow> mir_function \<Rightarrow> place_base \<Rightarrow> bool" where
  "place_base_event_known p f b \<longleftrightarrow>
     (case b of
        PB_EventParam _ \<Rightarrow>
          (case fn_kind f of FK_Event e \<Rightarrow> e < length (if_events (pr_interface p)) | _ \<Rightarrow> False)
      | _ \<Rightarrow> True)"

fun validate_projections ::
  "program \<Rightarrow> function_id \<Rightarrow> mir_function \<Rightarrow> source_span \<Rightarrow> type_id option \<Rightarrow> projection list \<Rightarrow> validation_error list" where
  "validate_projections p i f src ty [] = []"
| "validate_projections p i f src ty (P_Field k # prs) =
     (case ty of
        None \<Rightarrow> validate_projections p i f src None prs
      | Some current \<Rightarrow>
          (case nth_opt (pr_types p) current of
             Some (T_Struct s) \<Rightarrow>
               (case nth_opt (pr_structs p) s of
                  None \<Rightarrow>
                    function_error i src ''field projection references a missing struct definition''
                    @ validate_projections p i f src None prs
                | Some st \<Rightarrow>
                    (case nth_opt (st_fields st) k of
                       None \<Rightarrow>
                         function_error i src ''field projection references missing field {} of struct '{}' ''
                         @ validate_projections p i f src None prs
                     | Some field \<Rightarrow> validate_projections p i f src (Some (sf_ty field)) prs))
           | Some _ \<Rightarrow>
               function_error i src ''field projection requires a struct place, got {}''
               @ validate_projections p i f src None prs
           | None \<Rightarrow>
               function_error i src ''field projection base references missing type {}''
               @ validate_projections p i f src None prs))"
| "validate_projections p i f src ty (P_Index v _ # prs) =
     validate_value i f v src @ require_i32_value p i f v src ''place index''
     @ (case ty of
          None \<Rightarrow> validate_projections p i f src None prs
        | Some current \<Rightarrow>
            (case nth_opt (pr_types p) current of
               Some (T_Array element _) \<Rightarrow> validate_projections p i f src (Some element) prs
             | Some _ \<Rightarrow>
                 function_error i src ''index projection requires an array place, got {}''
                 @ validate_projections p i f src None prs
             | None \<Rightarrow>
                 function_error i src ''index projection base references missing type {}''
                 @ validate_projections p i f src None prs))"

definition validate_place ::
  "program \<Rightarrow> function_id \<Rightarrow> mir_function \<Rightarrow> place \<Rightarrow> source_span \<Rightarrow> validation_error list" where
  "validate_place p i f pl src =
     validate_place_base p i f (place_base pl) src
     @ (if place_base_event_known p f (place_base pl)
        then validate_projections p i f src (base_type p f (place_base pl)) (place_projections pl) else [])"

subsection \<open>Right-hand sides\<close>

definition intrinsic_is_numeric :: "intrinsic \<Rightarrow> bool" where
  "intrinsic_is_numeric op \<longleftrightarrow> op \<in> {Abs, Min, Max, RangeClamp, RangeWrap}"

definition intrinsic_domain_matches :: "intrinsic \<Rightarrow> scalar_type \<Rightarrow> bool" where
  "intrinsic_domain_matches op s \<longleftrightarrow>
     (if op = RangeWrap then s \<in> {TI32, TI64}
      else if intrinsic_is_numeric op then is_numeric s
      else s \<in> {TF32, TF64})"

fun validate_intrinsic_args ::
  "program \<Rightarrow> function_id \<Rightarrow> mir_function \<Rightarrow> intrinsic \<Rightarrow> source_span \<Rightarrow> scalar_type option \<Rightarrow> mir_value list
     \<Rightarrow> validation_error list" where
  "validate_intrinsic_args p i f op src expected [] = []"
| "validate_intrinsic_args p i f op src expected (v # vs) =
     validate_value i f v src
     @ (case validated_scalar_type p f v of
          None \<Rightarrow>
            function_error i src ''intrinsic '{}' argument {} must be a scalar value''
            @ validate_intrinsic_args p i f op src expected vs
        | Some s \<Rightarrow>
            (if \<not> intrinsic_domain_matches op s
             then function_error i src ''intrinsic '{}' argument {} has unsupported type {}'' else [])
            @ (case expected of
                 Some e \<Rightarrow>
                   (if s \<noteq> e then function_error i src ''intrinsic '{}' arguments must have the same scalar type'' else [])
                   @ validate_intrinsic_args p i f op src (Some e) vs
               | None \<Rightarrow> validate_intrinsic_args p i f op src (Some s) vs))"

fun range_wrap_bounds :: "mir_value list \<Rightarrow> (int \<times> int) option" where
  "range_wrap_bounds [_, V_Constant (I32 lower), V_Constant (I32 upper)] = Some (sint lower, sint upper)"
| "range_wrap_bounds [_, V_Constant (I64 lower), V_Constant (I64 upper)] = Some (sint lower, sint upper)"
| "range_wrap_bounds _ = None"

definition validate_intrinsic ::
  "program \<Rightarrow> function_id \<Rightarrow> mir_function \<Rightarrow> intrinsic \<Rightarrow> mir_value list \<Rightarrow> source_span \<Rightarrow> validation_error list" where
  "validate_intrinsic p i f op args src =
     (if length args \<noteq> intrinsic_arity op
      then function_error i src ''intrinsic '{}' expects {} arguments, got {}'' else [])
     @ validate_intrinsic_args p i f op src None args
     @ (if op = RangeWrap \<and> length args = 3
        then (case range_wrap_bounds args of
                Some (lower, upper) \<Rightarrow>
                  if lower \<le> upper then [] else function_error i src ''range_wrap lower bound exceeds its upper bound''
              | None \<Rightarrow> function_error i src ''range_wrap requires constant integer bounds, got {}'')
        else [])"

definition validate_slice_source ::
  "program \<Rightarrow> function_id \<Rightarrow> mir_function \<Rightarrow> slice_source \<Rightarrow> source_span \<Rightarrow> validation_error list" where
  "validate_slice_source p i f s src =
     (case s of
        SS_Place pl \<Rightarrow> validate_place p i f pl src
      | SS_Buffer b channel \<Rightarrow>
          require_direct_buffer_capability i f src ''buffer slice''
          @ require_buffer p i f b src
          @ validate_optional_value i f channel src
          @ validate_optional_index p i f channel src ''buffer slice channel''
      | SS_BufferParam r channel \<Rightarrow>
          validate_buffer_param_ref p i f r src
          @ (if function_buffer_param_ref p f r = None
             then function_error i src ''slice references non-buffer parameter {}'' else [])
          @ validate_optional_value i f channel src
          @ validate_optional_index p i f channel src ''buffer slice channel''
      | SS_ConstData d \<Rightarrow>
          if length (pr_const_data p) \<le> d then function_error i src ''slice references missing const data {}'' else [])"

definition validate_compare ::
  "program \<Rightarrow> function_id \<Rightarrow> mir_function \<Rightarrow> compare_op \<Rightarrow> mir_value \<Rightarrow> mir_value \<Rightarrow> source_span \<Rightarrow> validation_error list" where
  "validate_compare p i f op lhs rhs src =
     (case (validated_scalar_type p f lhs, validated_scalar_type p f rhs) of
        (Some a, Some b) \<Rightarrow>
          if a = b
          then (if a = TBool \<and> op \<notin> {Equal, NotEqual}
                then function_error i src ''boolean comparisons only support equality and inequality'' else [])
          else function_error i src ''comparison operands must have the same scalar type, got {} and {}''
      | _ \<Rightarrow> function_error i src ''comparison operands must be scalar values'')"

definition validate_buffer_query ::
  "program \<Rightarrow> function_id \<Rightarrow> mir_function \<Rightarrow> buffer_ref \<Rightarrow> source_span \<Rightarrow> validation_error list" where
  "validate_buffer_query p i f b src =
     require_direct_buffer_capability i f src ''buffer metadata query'' @ require_buffer p i f b src"

definition validate_buffer_param_query ::
  "program \<Rightarrow> function_id \<Rightarrow> mir_function \<Rightarrow> buffer_param_ref \<Rightarrow> source_span \<Rightarrow> validation_error list" where
  "validate_buffer_param_query p i f r src =
     validate_buffer_param_ref p i f r src
     @ (if function_buffer_param_ref p f r = None
        then function_error i src ''buffer metadata references non-buffer parameter {}'' else [])"

definition validate_rvalue ::
  "program \<Rightarrow> function_id \<Rightarrow> mir_function \<Rightarrow> rvalue \<Rightarrow> source_span \<Rightarrow> validation_error list" where
  "validate_rvalue p i f r src =
     (let value = (\<lambda>v. validate_value i f v src);
          i32 = (\<lambda>v. require_i32_value p i f v src);
          optional = (\<lambda>v. validate_optional_value i f v src);
          index = (\<lambda>v. validate_optional_index p i f v src)
      in case r of
           R_InitAll \<Rightarrow>
             if fn_kind f \<noteq> FK_Init then function_error i src ''init_all is only valid in the init entry point'' else []
         | R_Use v \<Rightarrow> value v
         | R_Load pl \<Rightarrow> validate_place p i f pl src
         | R_Unary _ v \<Rightarrow> value v
         | R_Binary _ a b \<Rightarrow> value a @ value b
         | R_Compare op a b \<Rightarrow> value a @ value b @ validate_compare p i f op a b src
         | R_Cast v to \<Rightarrow>
             value v
             @ (case validated_scalar_type p f v of
                  Some from_ty \<Rightarrow>
                    if is_numeric from_ty \<and> is_numeric to then []
                    else function_error i src ''cast requires numeric scalar types, got {} to {}''
                | None \<Rightarrow> function_error i src ''cast source must be a numeric scalar value'')
         | R_Intrinsic op args \<Rightarrow> validate_intrinsic p i f op args src
         | R_ProcessFrame v \<Rightarrow>
             require_audio_io_capability i f src ''process_frame'' @ value v @ i32 v ''process-frame offset''
         | R_NormalizeIndex k n _ \<Rightarrow>
             value k @ value n @ i32 k ''normalized index'' @ i32 n ''normalized index length''
         | R_InputLoad inp element _ frame \<Rightarrow>
             require_audio_io_capability i f src ''audio input load''
             @ (if length (if_inputs (pr_interface p)) \<le> inp
                then function_error i src ''load references missing input {}'' else [])
             @ optional element @ value frame @ index element ''input element''
             @ require_process_frame_value p i f frame src
         | R_OutputLoad out element _ frame \<Rightarrow>
             require_audio_io_capability i f src ''audio output load''
             @ (if length (if_outputs (pr_interface p)) \<le> out
                then function_error i src ''load references missing output {}'' else [])
             @ optional element @ value frame @ index element ''output element''
             @ require_process_frame_value p i f frame src
         | R_BufferLoad b channel k _ \<Rightarrow>
             require_direct_buffer_capability i f src ''buffer load'' @ require_buffer p i f b src
             @ optional channel @ value k @ index channel ''buffer channel'' @ i32 k ''buffer index''
         | R_BufferParamLoad b channel k _ \<Rightarrow>
             validate_buffer_param_ref p i f b src
             @ (if function_buffer_param_ref p f b = None
                then function_error i src ''buffer operation references non-buffer parameter {}'' else [])
             @ optional channel @ value k @ index channel ''buffer channel'' @ i32 k ''buffer index''
         | R_BufferLen b \<Rightarrow> validate_buffer_query p i f b src
         | R_BufferChannels b \<Rightarrow> validate_buffer_query p i f b src
         | R_BufferSampleRate b \<Rightarrow> validate_buffer_query p i f b src
         | R_BufferIsBound b \<Rightarrow> validate_buffer_query p i f b src
         | R_BufferParamLen b \<Rightarrow> validate_buffer_param_query p i f b src
         | R_BufferParamChannels b \<Rightarrow> validate_buffer_param_query p i f b src
         | R_BufferParamSampleRate b \<Rightarrow> validate_buffer_param_query p i f b src
         | R_BufferParamIsBound b \<Rightarrow> validate_buffer_param_query p i f b src
         | R_ConstDataLoad d k _ \<Rightarrow>
             (if length (pr_const_data p) \<le> d then function_error i src ''load references missing const data {}'' else [])
             @ value k @ i32 k ''constant-data index''
         | R_MakeSlice s start len bounds _ \<Rightarrow>
             validate_slice_source p i f s src
             @ value start @ value len @ i32 start ''slice start'' @ i32 len ''slice length''
             @ (if bounds = Unchecked \<and> \<not> unchecked_make_slice_constants_are_valid p f s start len
                then function_error i src ''unchecked make_slice has a statically out-of-bounds range'' else [])
         | R_SliceLoad s k _ \<Rightarrow>
             value s @ value k @ i32 k ''slice index''
             @ (if value_slice_type p f s = None then function_error i src ''slice load source is not a slice'' else [])
         | R_SliceLen s \<Rightarrow>
             value s
             @ (if value_slice_type p f s = None then function_error i src ''slice length source is not a slice'' else []))"

definition matches_opt :: "program \<Rightarrow> type_id option \<Rightarrow> type_id \<Rightarrow> bool" where
  "matches_opt p actual expected \<longleftrightarrow> (case actual of Some ty \<Rightarrow> types_equivalent p ty expected | None \<Rightarrow> False)"

definition rvalue_matches_type :: "program \<Rightarrow> mir_function \<Rightarrow> rvalue \<Rightarrow> type_id \<Rightarrow> bool" where
  "rvalue_matches_type p f r expected \<longleftrightarrow>
     (case r of
        R_Use v \<Rightarrow> value_matches_type p f v expected
      | R_Load pl \<Rightarrow> matches_opt p (place_type p f pl) expected
      | R_Unary op v \<Rightarrow>
          (case op of
             LogicalNot \<Rightarrow> type_is_scalar p expected TBool \<and> value_matches_scalar p f v TBool
           | Negate \<Rightarrow> type_is_numeric_scalar p expected \<and> value_matches_type p f v expected
           | BitNot \<Rightarrow> type_is_integer_scalar p expected \<and> value_matches_type p f v expected)
      | R_Binary op a b \<Rightarrow>
          (if op \<in> {BitAnd, BitOr, BitXor, ShiftLeft, ShiftRight} then type_is_integer_scalar p expected
           else type_is_numeric_scalar p expected)
          \<and> value_matches_type p f a expected \<and> value_matches_type p f b expected
      | R_Compare _ a b \<Rightarrow> type_is_scalar p expected TBool \<and> values_have_same_type p f a b
      | R_Cast _ to \<Rightarrow> type_is_scalar p expected to
      | R_Intrinsic _ args \<Rightarrow>
          type_is_numeric_scalar p expected \<and> list_all (\<lambda>v. value_matches_type p f v expected) args
      | R_InitAll \<Rightarrow> type_is_scalar p expected TBool
      | R_ProcessFrame _ \<Rightarrow> type_is_scalar p expected TI32
      | R_NormalizeIndex _ _ _ \<Rightarrow> type_is_scalar p expected TI32
      | R_InputLoad inp element _ _ \<Rightarrow>
          matches_opt p (Option.bind (nth_opt (if_inputs (pr_interface p)) inp)
            (\<lambda>x. indexed_type p (input_ty x) (element \<noteq> None))) expected
      | R_OutputLoad out element _ _ \<Rightarrow>
          matches_opt p (Option.bind (nth_opt (if_outputs (pr_interface p)) out)
            (\<lambda>x. indexed_type p (output_ty x) (element \<noteq> None))) expected
      | R_BufferLoad b _ _ _ \<Rightarrow>
          (case nth_opt (if_buffers (pr_interface p)) (buffer_ref_first b) of
             Some x \<Rightarrow> type_is_scalar p expected (buf_element x) | None \<Rightarrow> False)
      | R_BufferParamLoad b _ _ _ \<Rightarrow>
          (case function_buffer_param_ref p f b of
             Some (element, _) \<Rightarrow> type_is_scalar p expected element | None \<Rightarrow> False)
      | R_BufferLen _ \<Rightarrow> type_is_scalar p expected TI32
      | R_BufferChannels _ \<Rightarrow> type_is_scalar p expected TI32
      | R_BufferParamLen _ \<Rightarrow> type_is_scalar p expected TI32
      | R_BufferParamChannels _ \<Rightarrow> type_is_scalar p expected TI32
      | R_BufferSampleRate _ \<Rightarrow> type_is_scalar p expected TF32
      | R_BufferParamSampleRate _ \<Rightarrow> type_is_scalar p expected TF32
      | R_BufferIsBound _ \<Rightarrow> type_is_scalar p expected TBool
      | R_BufferParamIsBound _ \<Rightarrow> type_is_scalar p expected TBool
      | R_ConstDataLoad d _ _ \<Rightarrow>
          (case nth_opt (pr_const_data p) d of Some x \<Rightarrow> type_is_scalar p expected (cd_element x) | None \<Rightarrow> False)
      | R_MakeSlice s _ _ _ access \<Rightarrow>
          (case nth_opt (pr_types p) expected of
             Some (T_Slice element expected_access) \<Rightarrow>
               expected_access = access
               \<and> (case slice_source_type p f s of
                    Some (source_element, source_access) \<Rightarrow> source_element = element \<and> access_permits source_access access
                  | None \<Rightarrow> False)
           | _ \<Rightarrow> False)
      | R_SliceLoad s _ _ \<Rightarrow>
          (case value_slice_type p f s of Some (element, _) \<Rightarrow> type_is_scalar p expected element | None \<Rightarrow> False)
      | R_SliceLen _ \<Rightarrow> type_is_scalar p expected TI32)"

subsection \<open>Call arguments\<close>

definition buffer_matches_type :: "program \<Rightarrow> buffer_ref \<Rightarrow> type_id \<Rightarrow> bool" where
  "buffer_matches_type p b expected \<longleftrightarrow>
     (case nth_opt (if_buffers (pr_interface p)) (buffer_ref_first b) of
        None \<Rightarrow> False
      | Some first \<Rightarrow>
          (case nth_opt (pr_types p) expected of
             Some (T_Buffer element channels access) \<Rightarrow>
               element = buf_element first \<and> buffer_channels_accept channels (buf_channels first)
               \<and> access_permits (buf_access first) access
           | _ \<Rightarrow> False)
          \<and> list_all (\<lambda>k. case nth_opt (if_buffers (pr_interface p)) k of
                 Some candidate \<Rightarrow> same_descriptor candidate first | None \<Rightarrow> False) (buffer_ref_possible_indices b))"

text \<open>The addition of ids saturates at the host's word; ids and lengths are 32 bits wide, so it is exact
  there.\<close>

definition buffer_span_matches_type :: "program \<Rightarrow> mir_function \<Rightarrow> buffer_span_ref \<Rightarrow> type_id \<Rightarrow> bool" where
  "buffer_span_matches_type p f span expected \<longleftrightarrow>
     (case nth_opt (pr_types p) expected of
        Some (T_BufferSpan expected_element expected_channels expected_access expected_len) \<Rightarrow>
          (case span of
             BS_Interface first len \<Rightarrow>
               len = expected_len
               \<and> (case nth_opt (if_buffers (pr_interface p)) first of
                    None \<Rightarrow> False
                  | Some source \<Rightarrow>
                      buf_element source = expected_element
                      \<and> buffer_channels_accept expected_channels (buf_channels source)
                      \<and> access_permits (buf_access source) expected_access
                      \<and> list_all (\<lambda>k. case nth_opt (if_buffers (pr_interface p)) k of
                            Some candidate \<Rightarrow> same_descriptor candidate source | None \<Rightarrow> False)
                          [first..<first + len])
           | BS_Parameter k start len \<Rightarrow>
               len = expected_len
               \<and> (case parameter_type p f k of
                    Some (T_BufferSpan element channels access source_len) \<Rightarrow>
                      start + len < 2 ^ 32 \<and> start + len \<le> source_len
                      \<and> element = expected_element
                      \<and> buffer_channels_accept expected_channels channels
                      \<and> access_permits access expected_access
                  | _ \<Rightarrow> False))
      | _ \<Rightarrow> False)"

definition reference_type_matches :: "program \<Rightarrow> type_id \<Rightarrow> type_id \<Rightarrow> bool" where
  "reference_type_matches p actual expected \<longleftrightarrow>
     (case (nth_opt (pr_types p) actual, nth_opt (pr_types p) expected) of
        (Some (T_Buffer ae ac aa), Some (T_Buffer ee ec ea)) \<Rightarrow>
          ae = ee \<and> buffer_channels_accept ec ac \<and> access_permits aa ea
      | _ \<Rightarrow> types_equivalent p actual expected)"

definition buffer_param_ref_matches_type :: "program \<Rightarrow> mir_function \<Rightarrow> buffer_param_ref \<Rightarrow> type_id \<Rightarrow> bool" where
  "buffer_param_ref_matches_type p f r expected \<longleftrightarrow>
     (let actual = (case (r, parameter_type p f (buffer_param_ref_first r)) of
            (BP_Direct _, Some (T_Buffer element channels access)) \<Rightarrow> Some (element, channels, access)
          | (BP_ArrayElement _ _ _, Some (T_BufferSpan element channels access _)) \<Rightarrow> Some (element, channels, access)
          | _ \<Rightarrow> None)
      in case (actual, nth_opt (pr_types p) expected) of
           (Some (ae, ac, aa), Some (T_Buffer element channels access)) \<Rightarrow>
             element = ae \<and> buffer_channels_accept channels ac \<and> access_permits aa access
         | _ \<Rightarrow> False)"

definition reference_access :: "passing_mode \<Rightarrow> access_mode" where
  "reference_access mode = (if mode = PM_ReadWriteReference then ReadWrite else ReadOnly)"

definition array_window_matches ::
  "program \<Rightarrow> mir_function \<Rightarrow> place \<Rightarrow> mir_value \<Rightarrow> bounds_mode \<Rightarrow> type_id \<Rightarrow> access_mode \<Rightarrow> bool" where
  "array_window_matches p f pl start bounds expected requested \<longleftrightarrow>
     (case (nth_opt (pr_types p) expected, Option.bind (place_type p f pl) (nth_opt (pr_types p))) of
        (Some (T_Array expected_element required_len), Some (T_Array actual_element actual_len)) \<Rightarrow>
          types_equivalent p actual_element expected_element \<and> required_len \<le> actual_len
          \<and> access_permits (writable_access p f pl) requested
          \<and> window_start_is_statically_valid start bounds actual_len required_len
      | _ \<Rightarrow> False)"

definition slice_window_matches ::
  "program \<Rightarrow> mir_function \<Rightarrow> mir_value \<Rightarrow> type_id \<Rightarrow> access_mode \<Rightarrow> bool" where
  "slice_window_matches p f s expected requested \<longleftrightarrow>
     (case nth_opt (pr_types p) expected of
        Some (T_Array element _) \<Rightarrow>
          (case (nth_opt (pr_types p) element, value_slice_type p f s) of
             (Some (T_Scalar expected_element), Some (slice_element, slice_access)) \<Rightarrow>
               slice_element = expected_element \<and> access_permits slice_access requested
           | _ \<Rightarrow> False)
      | _ \<Rightarrow> False)"

definition slice_element_matches ::
  "program \<Rightarrow> mir_function \<Rightarrow> mir_value \<Rightarrow> type_id \<Rightarrow> access_mode \<Rightarrow> bool" where
  "slice_element_matches p f s expected requested \<longleftrightarrow>
     (case value_slice_type p f s of
        Some (slice_element, slice_access) \<Rightarrow>
          access_permits slice_access requested
          \<and> (case nth_opt (pr_types p) expected of Some (T_Scalar e) \<Rightarrow> e = slice_element | _ \<Rightarrow> False)
      | None \<Rightarrow> False)"

definition call_argument_matches :: "program \<Rightarrow> mir_function \<Rightarrow> call_argument \<Rightarrow> function_param \<Rightarrow> bool" where
  "call_argument_matches p f a param \<longleftrightarrow>
     (if fp_mode param = PM_ResultReference
      then (case a of
              A_Place pl \<Rightarrow> place_projections pl = [] \<and> place_is_writable p f pl
                \<and> matches_opt p (place_type p f pl) (fp_ty param)
            | _ \<Rightarrow> False)
      else (case a of
              A_Value v \<Rightarrow> fp_mode param = PM_Value \<and> value_matches_type p f v (fp_ty param)
            | A_BufferSpan span \<Rightarrow> fp_mode param = PM_Value \<and> buffer_span_matches_type p f span (fp_ty param)
            | A_Buffer b \<Rightarrow> buffer_matches_type p b (fp_ty param)
            | A_Place pl \<Rightarrow>
                fp_mode param \<noteq> PM_Value
                \<and> (case place_type p f pl of
                     Some actual \<Rightarrow> reference_type_matches p actual (fp_ty param)
                       \<and> (\<not> is_writable_reference (fp_mode param) \<or> place_is_writable p f pl)
                   | None \<Rightarrow> False)
            | A_SliceElement s _ _ \<Rightarrow>
                fp_mode param \<noteq> PM_Value \<and> slice_element_matches p f s (fp_ty param) (reference_access (fp_mode param))
            | A_ArrayWindow pl start bounds \<Rightarrow>
                fp_mode param \<noteq> PM_Value
                \<and> array_window_matches p f pl start bounds (fp_ty param) (reference_access (fp_mode param))
            | A_SliceWindow s _ _ \<Rightarrow>
                fp_mode param \<noteq> PM_Value \<and> slice_window_matches p f s (fp_ty param) (reference_access (fp_mode param))
            | A_BufferParam r \<Rightarrow> fp_mode param \<noteq> PM_Value \<and> buffer_param_ref_matches_type p f r (fp_ty param)))"

definition validate_call_argument ::
  "program \<Rightarrow> function_id \<Rightarrow> mir_function \<Rightarrow> call_argument \<Rightarrow> source_span \<Rightarrow> validation_error list" where
  "validate_call_argument p i f a src =
     (case a of
        A_Value v \<Rightarrow> validate_value i f v src
      | A_Place pl \<Rightarrow> validate_place p i f pl src
      | A_SliceElement s k _ \<Rightarrow>
          validate_value i f s src @ require_i32_value p i f k src ''slice call argument index''
          @ (if value_slice_type p f s = None
             then function_error i src ''slice call argument base is not slice-typed'' else [])
      | A_ArrayWindow pl start _ \<Rightarrow>
          validate_place p i f pl src @ validate_value i f start src
          @ require_i32_value p i f start src ''array-window start''
      | A_SliceWindow s start _ \<Rightarrow>
          validate_value i f s src @ validate_value i f start src
          @ require_i32_value p i f start src ''slice-window start''
          @ (if value_slice_type p f s = None
             then function_error i src ''slice-window call argument base is not slice-typed'' else [])
      | A_Buffer b \<Rightarrow>
          require_direct_buffer_capability i f src ''buffer call argument'' @ require_buffer p i f b src
      | A_BufferParam r \<Rightarrow>
          (if function_buffer_param_ref p f r = None
           then function_error i src ''buffer-parameter call argument references a non-buffer parameter'' else [])
          @ (case r of
               BP_ArrayElement _ selector _ \<Rightarrow>
                 require_i32_value p i f selector src ''buffer-parameter collection selector''
             | BP_Direct _ \<Rightarrow> [])
      | A_BufferSpan _ \<Rightarrow> [])"

definition validate_call ::
  "program \<Rightarrow> function_id \<Rightarrow> mir_function \<Rightarrow> local_id list \<Rightarrow> function_id \<Rightarrow> call_argument list \<Rightarrow> source_span
     \<Rightarrow> validation_error list" where
  "validate_call p i f results g args src =
     (case nth_opt (pr_functions p) g of
        None \<Rightarrow> function_error i src ''call references missing function {}''
      | Some callee \<Rightarrow>
          (if fn_kind callee \<noteq> FK_User
           then function_error i src ''calls may only target user functions, not '{}' '' else [])
          @ (if length results \<noteq> length (fn_results callee)
             then function_error i src ''call to '{}' has {} result destinations but function returns {} values'' else [])
          @ (if length args \<noteq> length (fn_params callee)
             then function_error i src ''call to '{}' has {} arguments but function takes {}'' else [])
          @ concat (map (\<lambda>l. require_local i f l src) results)
          @ concat (map (\<lambda>(l, expected).
              case local_type f l of
                None \<Rightarrow> []
              | Some actual \<Rightarrow>
                  if \<not> types_equivalent p actual expected
                  then function_error i src ''call to '{}' result {} has destination type {}, expected {}'' else [])
              (zip results (fn_results callee)))
          @ concat (map (\<lambda>a. validate_call_argument p i f a src) args)
          @ concat (map (\<lambda>(a, param).
              if \<not> call_argument_matches p f a param
              then function_error i src ''call to '{}' argument {} does not match {} parameter type {}'' else [])
              (zip args (fn_params callee))))"

subsection \<open>Statements\<close>

definition publication_matches :: "program \<Rightarrow> mir_function \<Rightarrow> mir_value \<Rightarrow> type_id \<Rightarrow> bool" where
  "publication_matches p f v ty \<longleftrightarrow>
     (case nth_opt (pr_types p) ty of
        Some (T_Scalar _) \<Rightarrow> value_matches_type p f v ty
      | Some (T_Array element _) \<Rightarrow>
          (case (nth_opt (pr_types p) element, value_slice_type p f v) of
             (Some (T_Scalar expected), Some (actual, _)) \<Rightarrow> actual = expected
           | _ \<Rightarrow> False)
      | Some (T_Slice element _) \<Rightarrow>
          (case value_slice_type p f v of Some (actual, _) \<Rightarrow> actual = element | None \<Rightarrow> False)
      | _ \<Rightarrow> False)"

definition validate_publish_delegate ::
  "program \<Rightarrow> function_id \<Rightarrow> mir_function \<Rightarrow> delegate_id \<Rightarrow> call_argument list \<Rightarrow> source_span \<Rightarrow> validation_error list" where
  "validate_publish_delegate p i f d args src =
     (case nth_opt (if_delegates (pr_interface p)) d of
        None \<Rightarrow> function_error i src ''publication references missing delegate {}''
      | Some descriptor \<Rightarrow>
          (if fn_kind f = FK_Init then function_error i src ''init entry point cannot publish delegates'' else [])
          @ (if fn_kind f = FK_User \<and> \<not> attr_runtime_context (fn_attributes f)
             then function_error i src ''delegate publication requires a runtime-context user function'' else [])
          @ (if length args \<noteq> length (dg_params descriptor)
             then function_error i src ''publication of delegate '{}' has {} arguments but the descriptor declares {}'' else [])
          @ concat (map (\<lambda>(k, a).
              case a of
                A_Value v \<Rightarrow>
                  validate_value i f v src
                  @ (case nth_opt (dg_params descriptor) k of
                       None \<Rightarrow> []
                     | Some param \<Rightarrow>
                         if \<not> publication_matches p f v (dp_ty param)
                         then function_error i src ''publication of delegate '{}' argument {} does not match payload parameter '{}' type {}''
                         else [])
              | _ \<Rightarrow> function_error i src ''publication of delegate '{}' argument {} must be an evaluated value'')
              (enumerate 0 args)))"

definition validate_publish_log ::
  "program \<Rightarrow> function_id \<Rightarrow> mir_function \<Rightarrow> log_site_id \<Rightarrow> mir_value list \<Rightarrow> source_span \<Rightarrow> validation_error list" where
  "validate_publish_log p i f site vs src =
     (case nth_opt (pr_log_sites p) site of
        None \<Rightarrow> function_error i src ''print publication references missing log site {}''
      | Some descriptor \<Rightarrow>
          (if fn_kind f = FK_User \<and> \<not> attr_runtime_context (fn_attributes f)
           then function_error i src ''print publication requires a runtime-context user function'' else [])
          @ (if length vs \<noteq> length (log_argument_types descriptor)
             then function_error i src ''print publication at site {} has {} arguments but the descriptor declares {}'' else [])
          @ concat (map (\<lambda>(k, v).
              validate_value i f v src
              @ (case nth_opt (log_argument_types descriptor) k of
                   None \<Rightarrow> []
                 | Some expected \<Rightarrow>
                     if validated_scalar_type p f v \<noteq> Some expected
                     then function_error i src ''print publication at site {} argument {} does not match {}'' else []))
              (enumerate 0 vs)))"

definition require_store ::
  "function_id \<Rightarrow> source_span \<Rightarrow> (scalar_type \<times> access_mode) option \<Rightarrow> (scalar_type \<Rightarrow> bool) \<Rightarrow> string \<Rightarrow> string \<Rightarrow> string
     \<Rightarrow> validation_error list" where
  "require_store i src target matches mismatch read_only missing =
     (case target of
        Some (element, ReadWrite) \<Rightarrow> if \<not> matches element then function_error i src mismatch else []
      | Some (_, ReadOnly) \<Rightarrow> function_error i src read_only
      | None \<Rightarrow> function_error i src missing)"

definition validate_slice_copy ::
  "program \<Rightarrow> function_id \<Rightarrow> mir_function \<Rightarrow> slice_copy \<Rightarrow> source_span \<Rightarrow> validation_error list" where
  "validate_slice_copy p i f c src =
     validate_value i f (copy_destination c) src
     @ validate_value i f (copy_source c) src
     @ (case (value_slice_type p f (copy_destination c), value_slice_type p f (copy_source c)) of
          (Some (de, ReadWrite), Some (se, _)) \<Rightarrow>
            if se \<noteq> de then function_error i src ''slice copy requires identical element types, got {} and {}'' else []
        | (Some (_, ReadOnly), Some _) \<Rightarrow> function_error i src ''slice copy destination is read-only''
        | (None, _) \<Rightarrow> function_error i src ''slice copy destination is not a slice''
        | (_, None) \<Rightarrow> function_error i src ''slice copy source is not a slice'')"

definition validate_simple ::
  "program \<Rightarrow> producer_proof_status \<Rightarrow> function_id \<Rightarrow> mir_function \<Rightarrow> statement_kind \<Rightarrow> source_span \<Rightarrow> validation_error list" where
  "validate_simple p proofs i f k src =
     (let value = (\<lambda>v. validate_value i f v src);
          i32 = (\<lambda>v. require_i32_value p i f v src);
          optional = (\<lambda>v. validate_optional_value i f v src);
          index = (\<lambda>v. validate_optional_index p i f v src)
      in case k of
           S_Assign d r \<Rightarrow>
             validate_place p i f d src @ validate_rvalue p i f r src
             @ (if is_process_frame r \<and> \<not> (case place_base d of PB_Local _ \<Rightarrow> place_projections d = [] | _ \<Rightarrow> False)
                then function_error i src ''process_frame must be the unique definition of an unprojected local'' else [])
             @ (if \<not> place_is_writable p f d then function_error i src ''assignment destination is not writable'' else [])
             @ (case place_type p f d of
                  None \<Rightarrow> []
                | Some ty \<Rightarrow>
                    if \<not> rvalue_matches_type p f r ty
                    then function_error i src ''assignment value does not match destination type {}'' else [])
         | S_Call results g args \<Rightarrow> validate_call p i f results g args src
         | S_PublishDelegate d args \<Rightarrow> validate_publish_delegate p i f d args src
         | S_PublishLog site vs \<Rightarrow> validate_publish_log p i f site vs src
         | S_OutputStore out element _ frame v \<Rightarrow>
             require_audio_io_capability i f src ''audio output store''
             @ (if length (if_outputs (pr_interface p)) \<le> out
                then function_error i src ''store references missing output {}'' else [])
             @ optional element @ value frame @ value v
             @ require_process_frame_value p i f frame src @ index element ''output element''
             @ (case Option.bind (nth_opt (if_outputs (pr_interface p)) out)
                    (\<lambda>x. indexed_type p (output_ty x) (element \<noteq> None)) of
                  None \<Rightarrow> []
                | Some expected \<Rightarrow>
                    if \<not> value_matches_type p f v expected
                    then function_error i src ''output store value does not match output type {}'' else [])
         | S_ControlOutputStore out element _ v \<Rightarrow>
             require_control_output_capability i f src
             @ (if length (if_control_outputs (pr_interface p)) \<le> out
                then function_error i src ''store references missing control output {}'' else [])
             @ optional element @ value v @ index element ''control output element''
             @ (case Option.bind (nth_opt (if_control_outputs (pr_interface p)) out)
                    (\<lambda>x. indexed_type p (co_ty x) (element \<noteq> None)) of
                  None \<Rightarrow> []
                | Some expected \<Rightarrow>
                    if \<not> value_matches_type p f v expected
                    then function_error i src ''control output store value does not match output type {}'' else [])
         | S_BufferStore b channel n v _ \<Rightarrow>
             require_direct_buffer_capability i f src ''buffer store'' @ require_buffer p i f b src
             @ optional channel @ value n @ value v @ index channel ''buffer channel'' @ i32 n ''buffer index''
             @ (case nth_opt (if_buffers (pr_interface p)) (buffer_ref_first b) of
                  None \<Rightarrow> []
                | Some x \<Rightarrow>
                    (if buf_access x \<noteq> ReadWrite
                     then function_error i src ''cannot store to a read-only interface buffer'' else [])
                    @ (if \<not> value_matches_scalar p f v (buf_element x)
                       then function_error i src ''buffer store value does not match element type {}'' else []))
         | S_BufferParamStore b channel n v _ \<Rightarrow>
             validate_buffer_param_ref p i f b src
             @ optional channel @ value n @ value v @ index channel ''buffer channel'' @ i32 n ''buffer index''
             @ require_store i src (function_buffer_param_ref p f b) (value_matches_scalar p f v)
                 ''buffer parameter store value does not match element type {}''
                 ''cannot store through a read-only buffer parameter''
                 ''buffer operation references non-buffer parameter {}''
         | S_SliceStore s n v _ \<Rightarrow>
             value s @ value n @ value v @ i32 n ''slice index''
             @ require_store i src (value_slice_type p f s) (value_matches_scalar p f v)
                 ''slice store value does not match element type {}''
                 ''slice store destination is read-only'' ''slice store destination is not a slice''
         | S_SliceFill d v \<Rightarrow>
             value d @ value v
             @ require_store i src (value_slice_type p f d) (value_matches_scalar p f v)
                 ''slice fill value does not match element type {}''
                 ''slice fill destination is read-only'' ''slice fill destination is not a slice''
         | S_SliceCopy copies preflight \<Rightarrow>
             (if preflight = ProvenUnnecessary \<and> proofs = Absent
              then function_error i src ''omitting slice-copy overlap preflight requires a trusted MIR producer proof''
              else [])
             @ concat (map (\<lambda>c. validate_slice_copy p i f c src) copies)
         | S_Return vs \<Rightarrow>
             (if length vs \<noteq> length (fn_results f)
              then function_error i src ''return has {} values but function declares {} results'' else [])
             @ concat (map (\<lambda>(n, v).
                 value v
                 @ (case nth_opt (fn_results f) n of
                      None \<Rightarrow> []
                    | Some expected \<Rightarrow>
                        if \<not> value_matches_type p f v expected
                        then function_error i src ''return value {} has a different type than declared result {}'' else []))
                 (enumerate 0 vs))
         | _ \<Rightarrow> [])"

definition validate_source :: "program \<Rightarrow> function_id \<Rightarrow> source_span \<Rightarrow> string \<Rightarrow> validation_error list" where
  "validate_source p i src message =
     (case span_file src of
        Some file \<Rightarrow> if length (pr_source_files p) \<le> file then function_error i src message else []
      | None \<Rightarrow> [])"

fun validate_block ::
    "program \<Rightarrow> producer_proof_status \<Rightarrow> function_id \<Rightarrow> mir_function \<Rightarrow> block \<Rightarrow> nat \<Rightarrow> validation_error list"
  and validate_statements ::
    "program \<Rightarrow> producer_proof_status \<Rightarrow> function_id \<Rightarrow> mir_function \<Rightarrow> statement list \<Rightarrow> nat \<Rightarrow> validation_error list" where
  "validate_block p proofs i f (Block ss) depth = validate_statements p proofs i f ss depth"
| "validate_statements p proofs i f [] depth = []"
| "validate_statements p proofs i f (Statement k src # ss) depth =
     validate_source p i src ''statement source references missing file''
     @ (case k of
          S_If c t e \<Rightarrow>
            validate_value i f c src
            @ (if \<not> value_matches_scalar p f c TBool then function_error i src ''if condition must have type bool'' else [])
            @ validate_block p proofs i f t depth @ validate_block p proofs i f e depth
        | S_Loop body \<Rightarrow> validate_block p proofs i f body (depth + 1)
        | S_Break \<Rightarrow> if depth = 0 then function_error i src ''loop control appears outside a loop'' else []
        | S_Continue \<Rightarrow> if depth = 0 then function_error i src ''loop control appears outside a loop'' else []
        | _ \<Rightarrow> validate_simple p proofs i f k src)
     @ validate_statements p proofs i f ss depth"

end
