(* ===== verification/Type_Soundness.thy ===== *)
theory Type_Soundness
  imports Validate_Body
begin

section \<open>Type soundness of validated bodies\<close>

text \<open>
  What the type checks of \<open>onda_mir/src/validate.rs\<close> are for: a scalar expression that passes them never gets stuck, and a run of a
  body that passes them keeps every scalar local at its declared type.
\<close>

subsection \<open>Typed environments\<close>

definition local_scalar :: "program \<Rightarrow> mir_function \<Rightarrow> local_id \<Rightarrow> scalar_type option" where
  "local_scalar p f l = (case Option.bind (local_type f l) (nth_opt (pr_types p)) of Some (T_Scalar s) \<Rightarrow> Some s | _ \<Rightarrow> None)"

fun rt_has :: "scalar_type \<Rightarrow> 'x rt \<Rightarrow> bool" where
  "rt_has s (Sc c) = (scalar_ty c = s)"
| "rt_has s (Opaque _) = False"

text \<open>Every scalar local that holds something holds a value of its type.\<close>

definition typed_env :: "program \<Rightarrow> mir_function \<Rightarrow> 'x env \<Rightarrow> bool" where
  "typed_env p f e \<longleftrightarrow> (\<forall>l s v. local_scalar p f l = Some s \<longrightarrow> e l = Some v \<longrightarrow> rt_has s v)"

lemma typed_env_empty: "typed_env p f (\<lambda>_. None)"
  by (simp add: typed_env_def)

lemma typed_env_update: "typed_env p f e \<Longrightarrow> (\<And>s. local_scalar p f l = Some s \<Longrightarrow> rt_has s v) \<Longrightarrow> typed_env p f (e(l \<mapsto> v))"
  by (simp add: typed_env_def)

lemma typed_env_sliced: "typed_env p f e \<Longrightarrow> typed_env p f new \<Longrightarrow> typed_env p f (set_sliced M e new)"
  by (simp add: typed_env_def set_sliced_def)

lemma rt_has_scalar: "rt_has s v \<longleftrightarrow> (\<exists>c. v = Sc c \<and> scalar_ty c = s)"
  by (cases v) auto

lemma value_matches_local: "value_matches_scalar p f (V_Local l) s \<longleftrightarrow> local_scalar p f l = Some s"
  by (auto simp: value_matches_scalar_def local_scalar_def split: option.splits mir_type.splits)

lemma types_equivalent_scalar:
  "types_equivalent p a b \<Longrightarrow> nth_opt (pr_types p) b = Some (T_Scalar s) \<Longrightarrow> nth_opt (pr_types p) a = Some (T_Scalar s)"
  unfolding types_equivalent_def
  by (subst (asm) types_equivalent_inner.simps) (auto split: if_splits option.splits mir_type.splits)

lemma types_equivalent_scalar_left:
  "types_equivalent p a b \<Longrightarrow> nth_opt (pr_types p) a = Some (T_Scalar s) \<Longrightarrow> nth_opt (pr_types p) b = Some (T_Scalar s)"
  unfolding types_equivalent_def
  by (subst (asm) types_equivalent_inner.simps) (auto split: if_splits option.splits mir_type.splits)

lemma value_matches_type_scalar:
  "value_matches_type p f v ty \<Longrightarrow> nth_opt (pr_types p) ty = Some (T_Scalar s) \<Longrightarrow> value_matches_scalar p f v s"
  by (auto simp: value_matches_type_def value_matches_scalar_def dest: types_equivalent_scalar split: mir_value.splits option.splits)

text \<open>An operand of a scalar type.\<close>

lemma eval_typed:
  assumes "typed_env p f e" and "value_matches_scalar p f v s" and "eval_value e v = Some x"
  shows "\<exists>c. x = Sc c \<and> eval_scalar e v = Some c \<and> scalar_ty c = s"
proof (cases v)
  case (V_Local l)
  then have "rt_has s x" using assms by (auto simp: typed_env_def value_matches_local)
  then show ?thesis using assms(3) by (cases x) (auto simp: eval_scalar_def)
next
  case (V_Constant c)
  then show ?thesis using assms by (auto simp: value_matches_scalar_def eval_scalar_def)
qed

subsection \<open>Scalar operations on values of the right types\<close>

lemma eval_binary_typed:
  assumes "scalar_ty a = s" and "scalar_ty b = s" and "is_numeric s"
    and "op \<in> {BitAnd, BitOr, BitXor, ShiftLeft, ShiftRight} \<Longrightarrow> s \<in> {TI32, TI64}"
  shows "(\<exists>c. eval_binary op a b = Some c \<and> scalar_ty c = s) \<or> op \<in> {Divide, Remainder} \<and> b \<in> {I32 0, I64 0}"
proof (cases s)
  case TF32
  then show ?thesis using assms by (cases a; cases b; cases op; simp)
next
  case TF64
  then show ?thesis using assms by (cases a; cases b; cases op; simp)
next
  case TI32
  then obtain x y where ab: "a = I32 x" "b = I32 y" using assms(1,2) by (cases a; cases b) auto
  show ?thesis
  proof (cases "fold_integer_binary op x y")
    case None
    then show ?thesis unfolding fold_integer_binary_None by (simp add: ab)
  next
    case (Some r)
    then show ?thesis using TI32 by (simp add: ab)
  qed
next
  case TI64
  then obtain x y where ab: "a = I64 x" "b = I64 y" using assms(1,2) by (cases a; cases b) auto
  show ?thesis
  proof (cases "fold_integer_binary op x y")
    case None
    then show ?thesis unfolding fold_integer_binary_None by (simp add: ab)
  next
    case (Some r)
    then show ?thesis using TI64 by (simp add: ab)
  qed
next
  case TBool
  then show ?thesis using assms(3) by (simp add: is_numeric_def)
qed

lemma eval_compare_typed:
  assumes "scalar_ty a = scalar_ty b" and "scalar_ty a = TBool \<Longrightarrow> op \<in> {Equal, NotEqual}"
  shows "\<exists>r. eval_compare op a b = Some r"
  using assms by (cases a; cases b; cases op; simp)

lemma eval_cast_typed: "is_numeric (scalar_ty c) \<Longrightarrow> is_numeric to \<Longrightarrow> \<exists>r. eval_cast c to = Some r \<and> scalar_ty r = to"
  by (cases c; cases to) (simp_all add: is_numeric_def)

lemma those_typed:
  "\<forall>c \<in> set cs. scalar_ty c = TF32 \<Longrightarrow> \<exists>xs. those (map as_f32_bits cs) = Some xs \<and> length xs = length cs"
  "\<forall>c \<in> set cs. scalar_ty c = TF64 \<Longrightarrow> \<exists>xs. those (map as_f64_bits cs) = Some xs \<and> length xs = length cs"
  "\<forall>c \<in> set cs. scalar_ty c = TI32 \<Longrightarrow> \<exists>xs. those (map as_i32 cs) = Some xs \<and> cs = map I32 xs"
  "\<forall>c \<in> set cs. scalar_ty c = TI64 \<Longrightarrow> \<exists>xs. those (map as_i64 cs) = Some xs \<and> cs = map I64 xs"
proof (induction cs)
  case (Cons c cs)
  { case 1 with Cons show ?case by (cases c) auto next case 2 with Cons show ?case by (cases c) auto
    next case 3 with Cons show ?case by (cases c) auto next case 4 with Cons show ?case by (cases c) auto }
qed simp_all

lemma length_arity: "length xs = 1 \<longleftrightarrow> (\<exists>x. xs = [x])" "length xs = 2 \<longleftrightarrow> (\<exists>x y. xs = [x, y])" "length xs = 3 \<longleftrightarrow> (\<exists>x y z. xs = [x, y, z])"
  by (auto simp: length_Suc_conv numeral_eq_Suc)

lemma float_intrinsic_total: "length xs = intrinsic_arity op \<Longrightarrow> op \<noteq> RangeWrap \<Longrightarrow> \<exists>r. float_intrinsic f lib op xs = Some r"
  by (cases op) (auto simp: length_arity float_intrinsic_def numeral_eq_Suc length_Suc_conv)

lemma integer_intrinsic_total:
  assumes "length xs = intrinsic_arity op" and "intrinsic_is_numeric op"
    and "\<And>x lo hi. op = RangeWrap \<Longrightarrow> xs = [x, lo, hi] \<Longrightarrow> sint lo \<le> sint hi"
  shows "\<exists>r. integer_intrinsic op xs = Some r"
  using assms by (cases op) (auto simp: intrinsic_is_numeric_def integer_intrinsic_def numeral_eq_Suc length_Suc_conv range_wrap_def Let_def)

subsection \<open>Progress\<close>

text \<open>Right-hand sides whose meaning is a scalar operation.\<close>

fun scalar_rvalue :: "rvalue \<Rightarrow> bool" where
  "scalar_rvalue (R_Use _) = True"
| "scalar_rvalue (R_Unary _ _) = True"
| "scalar_rvalue (R_Binary _ _ _) = True"
| "scalar_rvalue (R_Compare _ _ _) = True"
| "scalar_rvalue (R_Cast _ _) = True"
| "scalar_rvalue (R_Intrinsic _ _) = True"
| "scalar_rvalue _ = False"

lemma eval_scalars_typed:
  assumes "typed_env p f e" and "\<forall>v \<in> set vs. value_matches_scalar p f v s" and "\<forall>v \<in> set vs. eval_value e v \<noteq> None"
  shows "\<exists>cs. those (map (eval_scalar e) vs) = Some cs \<and> (\<forall>c \<in> set cs. scalar_ty c = s) \<and> length cs = length vs"
  using assms(2,3)
proof (induction vs)
  case (Cons v vs)
  obtain x where "eval_value e v = Some x" using Cons.prems by auto
  then obtain c where "eval_scalar e v = Some c" "scalar_ty c = s" using eval_typed [OF assms(1)] Cons.prems by (metis list.set_intros(1))
  with Cons show ?case by auto
qed simp

lemma validate_intrinsic_domain:
  assumes "validate_intrinsic_args p i f op src None (v # vs) = []" and "value_matches_scalar p f v s"
  shows "intrinsic_domain_matches op s"
  using assms validated_scalar_type_iff [of p f v s] by (auto split: if_splits)

lemma eval_intrinsic_typed:
  assumes cs: "\<forall>c \<in> set cs. scalar_ty c = s" and len: "length cs = intrinsic_arity op" and dom: "intrinsic_domain_matches op s"
    and wrap: "op = RangeWrap \<Longrightarrow> (\<exists>x lo hi. cs = [x, I32 lo, I32 hi] \<and> sint lo \<le> sint hi) \<or> (\<exists>x lo hi. cs = [x, I64 lo, I64 hi] \<and> sint lo \<le> sint hi)"
  shows "\<exists>r. eval_intrinsic m op cs = Some r \<and> scalar_ty r = s"
proof -
  obtain c cs' where c: "cs = c # cs'" using len by (cases cs; cases op) auto
  have int: "intrinsic_is_numeric op" if "s \<in> {TI32, TI64}" using dom that by (auto simp: intrinsic_domain_matches_def intrinsic_is_numeric_def split: if_splits)
  have float: "op \<noteq> RangeWrap" if "s \<in> {TF32, TF64}" using dom that by (auto simp: intrinsic_domain_matches_def)
  show ?thesis
  proof (cases s)
    case TF32
    obtain xs where xs: "those (map as_f32_bits cs) = Some xs" "length xs = length cs" using those_typed(1) cs TF32 by blast
    obtain r where "float_intrinsic fmt32 (libm_f32 m) op xs = Some r" using float_intrinsic_total float TF32 len xs(2) by fastforce
    then show ?thesis using cs c xs TF32 by (cases c) (auto simp: eval_intrinsic_def)
  next
    case TF64
    obtain xs where xs: "those (map as_f64_bits cs) = Some xs" "length xs = length cs" using those_typed(2) cs TF64 by blast
    obtain r where "float_intrinsic fmt64 (libm_f64 m) op xs = Some r" using float_intrinsic_total float TF64 len xs(2) by fastforce
    then show ?thesis using cs c xs TF64 by (cases c) (auto simp: eval_intrinsic_def)
  next
    case TI32
    obtain xs where xs: "those (map as_i32 cs) = Some xs" "cs = map I32 xs" using those_typed(3) cs TI32 by blast
    have "\<exists>r. integer_intrinsic op xs = Some r"
      by (rule integer_intrinsic_total) (use len xs int TI32 wrap in auto)
    then show ?thesis using cs c xs TI32 by (cases c) (auto simp: eval_intrinsic_def)
  next
    case TI64
    obtain xs where xs: "those (map as_i64 cs) = Some xs" "cs = map I64 xs" using those_typed(4) cs TI64 by blast
    have "\<exists>r. integer_intrinsic op xs = Some r"
      by (rule integer_intrinsic_total) (use len xs int TI64 wrap in auto)
    then show ?thesis using cs c xs TI64 by (cases c) (auto simp: eval_intrinsic_def)
  next
    case TBool
    then show ?thesis using dom by (auto simp: intrinsic_domain_matches_def is_numeric_def split: if_splits)
  qed
qed

lemma range_wrap_bounds_values:
  assumes "range_wrap_bounds vs = Some (lower, upper)" and "lower \<le> upper" and "those (map (eval_scalar e) vs) = Some cs"
  shows "(\<exists>x lo hi. cs = [x, I32 lo, I32 hi] \<and> sint lo \<le> sint hi) \<or> (\<exists>x lo hi. cs = [x, I64 lo, I64 hi] \<and> sint lo \<le> sint hi)"
  using assms by (cases vs rule: range_wrap_bounds.cases) (auto simp: eval_scalar_def split: option.splits)

text \<open>A validated scalar expression, evaluated where its operands have values, has a value of its type, or it divides by zero.\<close>

lemma scalar_progress:
  assumes typed: "typed_env p f e" and valid: "validate_rvalue p i f r src = []" and "rvalue_matches_type p f r ty"
    and ty: "nth_opt (pr_types p) ty = Some (T_Scalar s)" and "scalar_rvalue r" and defined: "\<forall>v \<in> set (rvalue_operands r). eval_value e v \<noteq> None"
  shows "(\<exists>c. eval_rvalue M r e w = Some (Sc c) \<and> scalar_ty c = s)
    \<or> (\<exists>op a b. r = R_Binary op a b \<and> op \<in> {Divide, Remainder} \<and> eval_scalar e b \<in> {Some (I32 0), Some (I64 0)})"
proof -
  have operand: "\<exists>c. eval_value e v = Some (Sc c) \<and> eval_scalar e v = Some c \<and> scalar_ty c = t"
    if "v \<in> set (rvalue_operands r)" "value_matches_scalar p f v t" for v t
    using eval_typed [OF typed that(2)] defined that(1) by fastforce
  note match = assms(3) [unfolded rvalue_matches_type_def] and defs = eval_rvalue_def rvalue_operands_def type_is_scalar_def
    type_is_numeric_scalar_def type_is_integer_scalar_def ty
  show ?thesis
  proof (cases r)
    case (R_Use v)
    then have "value_matches_scalar p f v s" using match value_matches_type_scalar [OF _ ty] by simp
    then show ?thesis using operand [of v s] R_Use by (auto simp: defs)
  next
    case (R_Unary op v)
    then have v: "value_matches_scalar p f v s" using match ty value_matches_type_scalar [OF _ ty]
      by (auto simp: type_is_scalar_def split: unary_op.splits)
    then obtain c where c: "eval_scalar e v = Some c" "scalar_ty c = s" using operand [of v s] R_Unary by (auto simp: rvalue_operands_def)
    then show ?thesis using R_Unary match by (cases op; cases c) (auto simp: defs is_numeric_def)
  next
    case (R_Binary op a b)
    then have m: "value_matches_scalar p f a s" "value_matches_scalar p f b s" using match value_matches_type_scalar [OF _ ty] by auto
    obtain x where x: "eval_scalar e a = Some x" "scalar_ty x = s" using operand [of a s] m R_Binary by (auto simp: rvalue_operands_def)
    obtain y where y: "eval_scalar e b = Some y" "scalar_ty y = s" using operand [of b s] m R_Binary by (auto simp: rvalue_operands_def)
    have num: "is_numeric s" and int: "op \<in> {BitAnd, BitOr, BitXor, ShiftLeft, ShiftRight} \<Longrightarrow> s \<in> {TI32, TI64}"
      using match R_Binary ty by (auto simp: type_is_numeric_scalar_def type_is_integer_scalar_def is_numeric_def split: if_splits)
    show ?thesis using eval_binary_typed [OF x(2) y(2) num int] x y R_Binary by (auto simp: defs)
  next
    case (R_Compare op a b)
    have "validate_compare p i f op a b src = []" using valid R_Compare by (simp add: validate_rvalue_def)
    then obtain t where t: "value_matches_scalar p f a t" "value_matches_scalar p f b t" "t = TBool \<longrightarrow> op \<in> {Equal, NotEqual}"
      by (auto simp: validate_compare_def validated_scalar_type_iff split: option.splits if_splits)
    obtain x where x: "eval_scalar e a = Some x" "scalar_ty x = t" using operand [of a t] t R_Compare by (auto simp: rvalue_operands_def)
    obtain y where y: "eval_scalar e b = Some y" "scalar_ty y = t" using operand [of b t] t R_Compare by (auto simp: rvalue_operands_def)
    have "s = TBool" using match R_Compare ty by (simp add: type_is_scalar_def)
    then show ?thesis using eval_compare_typed [of x y op] x y t R_Compare by (auto simp: defs)
  next
    case (R_Cast v to)
    then obtain t where t: "value_matches_scalar p f v t" "is_numeric t" "is_numeric to"
      using valid by (auto simp: validate_rvalue_def validated_scalar_type_iff split: option.splits if_splits)
    obtain x where x: "eval_scalar e v = Some x" "scalar_ty x = t" using operand [of v t] t R_Cast by (auto simp: rvalue_operands_def)
    have "s = to" using match R_Cast ty by (simp add: type_is_scalar_def)
    then show ?thesis using eval_cast_typed [of x to] x t R_Cast by (auto simp: defs)
  next
    case (R_Intrinsic op vs)
    have vs: "\<forall>v \<in> set vs. value_matches_scalar p f v s" using match R_Intrinsic value_matches_type_scalar [OF _ ty] by (auto simp: list_all_iff)
    have ok: "length vs = intrinsic_arity op" "validate_intrinsic_args p i f op src None vs = []"
      and wrap: "op = RangeWrap \<longrightarrow> (\<exists>lower upper. range_wrap_bounds vs = Some (lower, upper) \<and> lower \<le> upper)"
      using valid R_Intrinsic by (auto simp: validate_rvalue_def validate_intrinsic_def split: if_splits option.splits)
    obtain v vs' where "vs = v # vs'" using ok(1) by (cases vs; cases op) auto
    then have dom: "intrinsic_domain_matches op s" using validate_intrinsic_domain ok(2) vs by auto
    obtain cs where cs: "those (map (eval_scalar e) vs) = Some cs" "\<forall>c \<in> set cs. scalar_ty c = s" "length cs = length vs"
      using eval_scalars_typed [OF typed vs] defined R_Intrinsic by (auto simp: rvalue_operands_def)
    have "\<exists>x. eval_intrinsic (op_libm M) op cs = Some x \<and> scalar_ty x = s"
    proof (rule eval_intrinsic_typed [OF cs(2) _ dom])
      show "length cs = intrinsic_arity op" using cs(3) ok(1) by simp
      assume "op = RangeWrap"
      then show "(\<exists>x lo hi. cs = [x, I32 lo, I32 hi] \<and> sint lo \<le> sint hi) \<or> (\<exists>x lo hi. cs = [x, I64 lo, I64 hi] \<and> sint lo \<le> sint hi)"
        using wrap range_wrap_bounds_values cs(1) by blast
    qed
    then show ?thesis using R_Intrinsic cs(1) by (auto simp: defs)
  qed (use assms(5) in simp_all)
qed

subsection \<open>Preservation\<close>

text \<open>
  What type soundness asks of the world outside a body, once and for all functions of a program: a read of a scalar yields a scalar
  of that type, the scalars behind slices keep their types, and a call that the validator accepts
  returns values and writes back arguments of the types of its parameters.
\<close>

definition reads_typed :: "program \<Rightarrow> mir_function \<Rightarrow> ('x, 'w) ops \<Rightarrow> bool" where
  "reads_typed p f M \<longleftrightarrow>
     (\<forall>r ty s vs c sl w v. rvalue_matches_type p f r ty \<longrightarrow> nth_opt (pr_types p) ty = Some (T_Scalar s)
        \<longrightarrow> op_rvalue M (rvalue_shape r) vs c sl w = Some v \<longrightarrow> rt_has s v)"

definition effects_typed :: "program \<Rightarrow> mir_function \<Rightarrow> ('x, 'w) ops \<Rightarrow> bool" where
  "effects_typed p f M \<longleftrightarrow>
     (\<forall>k vs cs sl w sl' w'. typed_env p f sl \<longrightarrow> op_effect M k vs cs sl w = Some (sl', w') \<longrightarrow> typed_env p f sl')"

text \<open>The value has the type, as far as the type is a scalar.\<close>

definition result_has :: "program \<Rightarrow> type_id \<Rightarrow> 'x rt \<Rightarrow> bool" where
  "result_has p ty v \<longleftrightarrow> (\<forall>s. nth_opt (pr_types p) ty = Some (T_Scalar s) \<longrightarrow> rt_has s v)"

definition calls_typed :: "program \<Rightarrow> mir_function \<Rightarrow> ('x, 'w) ops \<Rightarrow> bool" where
  "calls_typed p f M \<longleftrightarrow>
     (\<forall>g callee as vs cs sl w res news sl' w'. nth_opt (pr_functions p) g = Some callee
        \<longrightarrow> op_call M g as vs cs sl w = Some (res, news, sl', w')
        \<longrightarrow> list_all2 (result_has p) (fn_results callee) res
          \<and> (\<forall>i b v. get_flat news i = Some v \<longrightarrow> i < length as \<longrightarrow> i < length (fn_params callee)
               \<longrightarrow> as ! i = A_Place \<lparr>place_base = b, place_projections = []\<rparr> \<longrightarrow> result_has p (fp_ty (fn_params callee ! i)) v)
          \<and> (typed_env p f sl \<longrightarrow> typed_env p f sl'))"

text \<open>The modes the machine uses are those of the functions.\<close>

definition modes_agree :: "program \<Rightarrow> ('x, 'w) ops \<Rightarrow> bool" where
  "modes_agree p M \<longleftrightarrow> op_modes M = map (\<lambda>f. map fp_mode (fn_params f)) (pr_functions p)"

definition world_typed :: "program \<Rightarrow> mir_function \<Rightarrow> ('x, 'w) ops \<Rightarrow> bool" where
  "world_typed p f M \<longleftrightarrow> reads_typed p f M \<and> effects_typed p f M \<and> calls_typed p f M \<and> modes_agree p M"

lemma typed_env_part: "typed_env p f e \<Longrightarrow> typed_env p f (sliced_part M e)"
  by (simp add: typed_env_def sliced_part_def)

lemma bind_results_typed:
  assumes "bind_results ls vs e = Some e'" and "typed_env p f e"
    and "list_all2 (result_has p) tys vs" and "\<forall>(l, ty) \<in> set (zip ls tys). \<forall>a. local_type f l = Some a \<longrightarrow> types_equivalent p a ty"
  shows "typed_env p f e'"
  using assms
proof (induction ls vs e arbitrary: tys rule: bind_results.induct)
  case (2 l ls v vs e)
  obtain ty tys' where tys: "tys = ty # tys'" "result_has p ty v" "list_all2 (result_has p) tys' vs"
    using "2.prems"(3) by (auto simp: list_all2_Cons2)
  have "rt_has s v" if s: "local_scalar p f l = Some s" for s
  proof -
    obtain a where a: "local_type f l = Some a" "nth_opt (pr_types p) a = Some (T_Scalar s)"
      using s by (auto simp: local_scalar_def bind_eq_Some_conv split: option.splits mir_type.splits)
    then have "types_equivalent p a ty" using "2.prems"(4) tys(1) by auto
    then have "nth_opt (pr_types p) ty = Some (T_Scalar s)" using a(2) types_equivalent_scalar_left by blast
    then show ?thesis using tys(2) by (simp add: result_has_def)
  qed
  then have "typed_env p f (e(l \<mapsto> v))" using "2.prems"(2) typed_env_update by blast
  then show ?case by (rule "2.IH" [rotated]) (use "2.prems" tys in \<open>auto simp: fun_upd_def\<close>)
qed auto

lemma local_scalar_type:
  "local_scalar p f l = Some s \<longleftrightarrow> (\<exists>ty. local_type f l = Some ty \<and> nth_opt (pr_types p) ty = Some (T_Scalar s))"
  by (auto simp: local_scalar_def bind_eq_Some_conv split: option.splits mir_type.splits)

lemma place_type_local:
  "place_base pl = PB_Local l \<Longrightarrow> place_type p f pl = Option.bind (local_type f l) (\<lambda>ty. project_types p ty (place_projections pl))"
  by (auto simp: place_type_def local_type_def split: option.splits)

text \<open>A scalar local has no parts.\<close>

lemma scalar_not_projected:
  assumes "local_scalar p f l = Some s" and "place_base pl = PB_Local l" and "place_type p f pl = Some ty"
  shows "place_projections pl = [] \<and> local_type f l = Some ty \<and> nth_opt (pr_types p) ty = Some (T_Scalar s)"
proof -
  obtain a where a: "local_type f l = Some a" "nth_opt (pr_types p) a = Some (T_Scalar s)" using assms(1) by (auto simp: local_scalar_type)
  then have "project_types p a (place_projections pl) = Some ty" using assms by (simp add: place_type_local)
  then show ?thesis using a by (cases "place_projections pl"; cases "hd (place_projections pl)") auto
qed

lemma validated_place_projected:
  assumes "validate_place p i f pl src = []" and "place_base pl = PB_Local l" and "local_scalar p f l = Some s"
  shows "place_projections pl = []"
proof -
  obtain a where a: "local_type f l = Some a" "nth_opt (pr_types p) a = Some (T_Scalar s)" using assms(3) by (auto simp: local_scalar_type)
  then have "validate_projections p i f src (Some a) (place_projections pl) = []"
    using assms(1,2) by (auto simp: validate_place_def place_base_event_known_def local_type_def)
  then show ?thesis using a(2) by (cases "place_projections pl"; cases "hd (place_projections pl)") auto
qed

lemma eval_rvalue_defined:
  assumes "scalar_rvalue r" and "eval_rvalue M r e w = Some v"
  shows "\<forall>x \<in> set (rvalue_operands r). eval_value e x \<noteq> None"
proof -
  have "those (map (eval_scalar e) vs) = Some cs \<Longrightarrow> \<forall>x \<in> set vs. eval_value e x \<noteq> None" for vs cs
    by (induction vs arbitrary: cs) (auto simp: eval_scalar_def bind_eq_Some_conv split: option.splits)
  then show ?thesis using assms
    by (cases r) (auto simp: eval_rvalue_def rvalue_operands_def eval_scalar_def bind_eq_Some_conv)
qed

lemma eval_rvalue_typed:
  assumes world: "world_typed p f M" and typed: "typed_env p f e" and valid: "validate_rvalue p i f r src = []"
    and match: "rvalue_matches_type p f r ty" and ty: "nth_opt (pr_types p) ty = Some (T_Scalar s)" and eval: "eval_rvalue M r e w = Some v"
  shows "rt_has s v"
proof (cases "scalar_rvalue r")
  case True
  have zero: "eval_binary op x y = None" if "op \<in> {Divide, Remainder}" "y \<in> {I32 0, I64 0}" for op x y
    using that by (cases x; auto)
  from scalar_progress [OF typed valid match ty True eval_rvalue_defined [OF True eval], of M w] show ?thesis
  proof
    assume "\<exists>op a b. r = R_Binary op a b \<and> op \<in> {Divide, Remainder} \<and> eval_scalar e b \<in> {Some (I32 0), Some (I64 0)}"
    then obtain op a b y where r: "r = R_Binary op a b" "op \<in> {Divide, Remainder}" "eval_scalar e b = Some y" "y \<in> {I32 0, I64 0}" by blast
    then have False using eval zero [OF r(2,4)] by (auto simp: eval_rvalue_def bind_eq_Some_conv)
    then show ?thesis ..
  qed (use eval in auto)
next
  case False
  have "\<exists>vs. op_rvalue M (rvalue_shape r) vs (rvalue_content e r) (sliced_part M e) w = Some v"
    using eval False by (cases r) (auto simp: eval_rvalue_def bind_eq_Some_conv)
  then show ?thesis using world match ty unfolding world_typed_def reads_typed_def by blast
qed

lemma exec_assign_typed:
  assumes "world_typed p f M" and "typed_env p f e" and "validate_simple p proofs i f (S_Assign d r) src = []"
    and exec: "exec_simple M (S_Assign d r) e w = Some (e', w')"
  shows "typed_env p f e'"
proof -
  have valid: "validate_place p i f d src = []" "validate_rvalue p i f r src = []"
    and match: "\<And>ty. place_type p f d = Some ty \<Longrightarrow> rvalue_matches_type p f r ty"
    using assms(3) by (auto simp: validate_simple_def Let_def split: option.splits if_splits)
  obtain v where v: "eval_rvalue M r e w = Some v" "assign_place M d v e w = Some (e', w')"
    using exec by (auto simp: exec_simple_def bind_eq_Some_conv)
  show ?thesis
  proof (cases "\<exists>l. place_base d = PB_Local l")
    case True
    then obtain l where l: "place_base d = PB_Local l" by blast
    have "\<exists>new. e' = e(l \<mapsto> new) \<and> (place_projections d = [] \<longrightarrow> new = v)"
      using v(2) l by (cases "place_projections d = []") (auto simp: assign_place_def bind_eq_Some_conv)
    then obtain new where new: "e' = e(l \<mapsto> new)" "place_projections d = [] \<Longrightarrow> new = v" by blast
    have "rt_has s new" if s: "local_scalar p f l = Some s" for s
    proof -
      have plain: "place_projections d = []" using validated_place_projected [OF valid(1) l s] .
      obtain ty where ty: "local_type f l = Some ty" "nth_opt (pr_types p) ty = Some (T_Scalar s)" using s by (auto simp: local_scalar_type)
      then have "place_type p f d = Some ty" using l plain by (simp add: place_type_local)
      then show ?thesis using eval_rvalue_typed [OF assms(1,2) valid(2) match ty(2) v(1)] new(2) plain by simp
    qed
    then show ?thesis using new(1) typed_env_update assms(2) by blast
  next
    case False
    then have "e' = e" using v(2) by (cases "place_base d") (auto simp: assign_place_def bind_eq_Some_conv)
    then show ?thesis using assms(2) by simp
  qed
qed

lemma write_back_typed:
  assumes "\<And>l i v s. (l, i) \<in> set ws \<Longrightarrow> get_flat news i = Some v \<Longrightarrow> local_scalar p f l = Some s \<Longrightarrow> rt_has s v"
    and "typed_env p f e"
  shows "typed_env p f (write_back ws news e)"
  using assms
proof (induction ws news e rule: write_back.induct)
  case (2 l i ws news e)
  have "typed_env p f (case get_flat news i of Some v \<Rightarrow> e(l \<mapsto> v) | None \<Rightarrow> e)"
    using "2.prems" by (auto split: option.split intro!: typed_env_update)
  then show ?case unfolding write_back.simps by (rule "2.IH" [rotated]) (use "2.prems"(1) in auto)
qed simp

lemma written_arguments_local:
  assumes "(l, i) \<in> set (written_arguments modes g as)"
  shows "i < length as \<and> argument_local (as ! i) = Some l \<and> argument_is_written modes g i"
proof -
  obtain x where x: "x \<in> set (enumerate 0 as)"
      "(l, i) \<in> set (case x of (k, a) \<Rightarrow>
         if argument_is_written modes g k then (case argument_local a of Some l \<Rightarrow> [(l, k)] | None \<Rightarrow> []) else [])"
    using assms unfolding written_arguments_def set_concat set_map by blast
  obtain k a where ka: "x = (k, a)" by (cases x)
  have "k < length as" "a = as ! k" using x(1) ka by (auto simp: in_set_enumerate_eq)
  then show ?thesis using x(2) ka by (cases "argument_local a"; cases "argument_is_written modes g k") simp_all
qed

text \<open>An argument that is written back into a scalar local is that local.\<close>

lemma written_scalar_argument:
  assumes "call_argument_matches p f a param" and "argument_local a = Some l" and s: "local_scalar p f l = Some s"
  shows "a = A_Place \<lparr>place_base = PB_Local l, place_projections = []\<rparr> \<and> nth_opt (pr_types p) (fp_ty param) = Some (T_Scalar s)"
proof -
  obtain pl where pl: "place_base pl = PB_Local l" "a = A_Place pl \<or> (\<exists>start b. a = A_ArrayWindow pl start b)"
    using assms(2) by (auto simp: argument_local_def split: call_argument.splits place_base.splits)
  have place: "place_projections pl = [] \<and> nth_opt (pr_types p) ty = Some (T_Scalar s)" if "place_type p f pl = Some ty" for ty
    using scalar_not_projected [OF s pl(1) that] by simp
  have eq: "pl = \<lparr>place_base = PB_Local l, place_projections = []\<rparr>" if "place_projections pl = []" using pl(1) that by (cases pl) simp
  from pl(2) show ?thesis
  proof
    assume a: "a = A_Place pl"
    show ?thesis
    proof (cases "fp_mode param = PM_ResultReference")
      case True
      then obtain ty where "place_type p f pl = Some ty" "types_equivalent p ty (fp_ty param)"
        using assms(1) a by (auto simp: call_argument_matches_def matches_opt_def split: option.splits)
      then show ?thesis using place eq a types_equivalent_scalar_left by blast
    next
      case False
      then obtain ty where ty: "place_type p f pl = Some ty" "reference_type_matches p ty (fp_ty param)"
        using assms(1) a by (auto simp: call_argument_matches_def split: option.splits)
      then have "types_equivalent p ty (fp_ty param)"
        using place by (auto simp: reference_type_matches_def split: option.splits)
      then show ?thesis using place [OF ty(1)] eq a types_equivalent_scalar_left by blast
    qed
  next
    assume "\<exists>start b. a = A_ArrayWindow pl start b"
    then obtain start b requested where "array_window_matches p f pl start b (fp_ty param) requested"
      using assms(1) by (auto simp: call_argument_matches_def split: if_splits)
    then show ?thesis using place
      by (auto simp: array_window_matches_def bind_eq_Some_conv split: option.splits mir_type.splits)
  qed
qed

lemma exec_call_typed:
  assumes world: "world_typed p f M" and typed: "typed_env p f e" and valid: "validate_call p i f rs g args src = []"
    and exec: "exec_call M rs g args e w = Some (e', w')"
  shows "typed_env p f e'"
proof -
  obtain callee where g: "nth_opt (pr_functions p) g = Some callee" using valid by (auto simp: validate_call_def split: option.splits)
  note v = valid [unfolded validate_call_def g option.simps append_is_Nil_conv concat_Nil if_Nil]
  have len: "length rs = length (fn_results callee)" "length args = length (fn_params callee)" using v by (auto split: if_splits)
  have result: "\<forall>x \<in> set (zip rs (fn_results callee)). (case x of (l, expected) \<Rightarrow>
      case local_type f l of None \<Rightarrow> [] | Some actual \<Rightarrow> if \<not> types_equivalent p actual expected
        then function_error i src ''call to '{}' result {} has destination type {}, expected {}'' else []) = []"
    and argument: "\<forall>x \<in> set (zip args (fn_params callee)). (case x of (a, param) \<Rightarrow>
      if \<not> call_argument_matches p f a param
      then function_error i src ''call to '{}' argument {} does not match {} parameter type {}'' else []) = []"
    using v by blast+
  have results: "\<forall>(l, ty) \<in> set (zip rs (fn_results callee)). \<forall>a. local_type f l = Some a \<longrightarrow> types_equivalent p a ty"
    using result by (fastforce split: if_splits)
  have match: "call_argument_matches p f (args ! k) (fn_params callee ! k)" if "k < length args" for k
  proof -
    have "(args ! k, fn_params callee ! k) \<in> set (zip args (fn_params callee))" using that len(2) by (auto simp: set_zip)
    then show ?thesis using argument by (fastforce split: if_splits)
  qed
  obtain vs res news sl where call: "op_call M g (map argument_shape args) vs (map (argument_content e) args) (sliced_part M e) w = Some (res, news, sl, w')"
    and bind: "bind_results rs res (write_back (written_arguments (op_modes M) g args) news (set_sliced M e sl)) = Some e'"
    using exec by (auto simp: exec_call_def bind_eq_Some_conv)
  have law: "list_all2 (result_has p) (fn_results callee) res" "typed_env p f sl"
    "\<And>i b v. get_flat news i = Some v \<Longrightarrow> i < length args \<Longrightarrow> i < length (fn_params callee)
       \<Longrightarrow> map argument_shape args ! i = A_Place \<lparr>place_base = b, place_projections = []\<rparr> \<Longrightarrow> result_has p (fp_ty (fn_params callee ! i)) v"
    using world g call typed_env_part [OF typed] unfolding world_typed_def calls_typed_def by (metis length_map)+
  have "typed_env p f (write_back (written_arguments (op_modes M) g args) news (set_sliced M e sl))"
  proof (rule write_back_typed)
    fix l k v s
    assume w: "(l, k) \<in> set (written_arguments (op_modes M) g args)" and v: "get_flat news k = Some v" and s: "local_scalar p f l = Some s"
    have k: "k < length args" "argument_local (args ! k) = Some l" using written_arguments_local [OF w] by simp_all
    note a = written_scalar_argument [OF match [OF k(1)] k(2) s]
    then have "map argument_shape args ! k = A_Place \<lparr>place_base = PB_Local l, place_projections = []\<rparr>"
      using k(1) by (simp add: map_argument_def map_place_def)
    then have "result_has p (fp_ty (fn_params callee ! k)) v" using law(3) [OF v k(1)] k(1) len(2) by simp
    then show "rt_has s v" using a by (simp add: result_has_def)
  qed (rule typed_env_sliced [OF typed law(2)])
  then show ?thesis using bind_results_typed [OF bind _ law(1) results] by blast
qed

lemma exec_simple_typed:
  assumes "world_typed p f M" and "typed_env p f e" and "validate_simple p proofs i f k src = []" and "exec_simple M k e w = Some (e', w')"
  shows "typed_env p f e'"
proof (cases "(\<exists>d r. k = S_Assign d r) \<or> (\<exists>rs g args. k = S_Call rs g args)")
  case True
  then show ?thesis
  proof (elim disjE exE)
    fix d r assume k: "k = S_Assign d r"
    show ?thesis by (rule exec_assign_typed [OF assms(1,2) assms(3,4) [unfolded k]])
  next
    fix rs g args assume k: "k = S_Call rs g args"
    have "validate_call p i f rs g args src = []" using assms(3) by (simp add: k validate_simple_def)
    moreover have "exec_call M rs g args e w = Some (e', w')" using assms(4) by (simp add: k exec_simple_def)
    ultimately show ?thesis by (rule exec_call_typed [OF assms(1,2)])
  qed
next
  case False
  then obtain vs sl where "op_effect M (kind_shape k) vs (kind_contents e k) (sliced_part M e) w = Some (sl, w')" "e' = set_sliced M e sl"
    using assms(4) by (cases k) (auto simp: exec_simple_def bind_eq_Some_conv)
  moreover from this have "typed_env p f sl"
    using assms(1) typed_env_part [OF assms(2)] unfolding world_typed_def effects_typed_def by blast
  ultimately show ?thesis using typed_env_sliced [OF assms(2)] by simp
qed

text \<open>What a run may end with: nothing but a return leaves a loop body with values, and those fit the declared results.\<close>

fun outcome_typed :: "program \<Rightarrow> mir_function \<Rightarrow> nat \<Rightarrow> 'x outcome \<Rightarrow> bool" where
  "outcome_typed p f depth Broke = (0 < depth)"
| "outcome_typed p f depth Continued = (0 < depth)"
| "outcome_typed p f depth (Returned vs) = list_all2 (result_has p) (fn_results f) vs"
| "outcome_typed p f depth _ = True"

definition run_typed :: "program \<Rightarrow> mir_function \<Rightarrow> nat \<Rightarrow> ('x env \<Rightarrow> 'w \<Rightarrow> ('x, 'w) result option) \<Rightarrow> bool" where
  "run_typed p f depth run \<longleftrightarrow>
     (\<forall>e w out e' w'. typed_env p f e \<longrightarrow> run e w = Some (out, e', w') \<longrightarrow> typed_env p f e' \<and> outcome_typed p f depth out)"

lemma run_typedD: "run_typed p f depth run \<Longrightarrow> typed_env p f e \<Longrightarrow> run e w = Some (out, e', w') \<Longrightarrow> typed_env p f e' \<and> outcome_typed p f depth out"
  unfolding run_typed_def by blast

lemma iterate_typed:
  assumes "run_typed p f (Suc depth) run"
  shows "run_typed p f depth (iterate n run)"
  unfolding run_typed_def
proof (intro allI impI)
  fix e w out e' w'
  assume "typed_env p f e" and "iterate n run e w = Some (out, e', w')"
  then show "typed_env p f e' \<and> outcome_typed p f depth out"
  proof (induction n arbitrary: e w)
    case (Suc n)
    then obtain out1 e1 w1 where r: "run e w = Some (out1, e1, w1)" by (auto split: option.splits)
    from run_typedD [OF assms Suc.prems(1) r] have "typed_env p f e1" "outcome_typed p f (Suc depth) out1" by simp_all
    with Suc r show ?case by (cases out1) auto
  qed simp
qed

lemma eval_values_Some: "eval_values e vs = Some rs \<Longrightarrow> length rs = length vs \<and> (\<forall>k < length vs. eval_value e (vs ! k) = Some (rs ! k))"
proof (induction vs arbitrary: rs)
  case (Cons v vs)
  then show ?case by (auto simp: eval_values_def nth_Cons' split: option.splits)
qed (simp add: eval_values_def)

lemma return_typed:
  assumes "typed_env p f e" and "validate_simple p proofs i f (S_Return vs) src = []" and "eval_values e vs = Some rs"
  shows "list_all2 (result_has p) (fn_results f) rs"
proof -
  have len: "length vs = length (fn_results f)"
    and match: "\<And>k. k < length vs \<Longrightarrow> value_matches_type p f (vs ! k) (fn_results f ! k)"
    using assms(2) by (auto simp: validate_simple_def Let_def concat_eq_Nil_conv enumerate_Nil nth_opt_def split: if_splits)
  show ?thesis
    unfolding list_all2_conv_all_nth result_has_def
  proof (intro conjI allI impI)
    show "length (fn_results f) = length rs" using eval_values_Some [OF assms(3)] len by simp
    fix k s assume k: "k < length (fn_results f)" and s: "nth_opt (pr_types p) (fn_results f ! k) = Some (T_Scalar s)"
    have "value_matches_scalar p f (vs ! k) s" using value_matches_type_scalar [OF match s] k len by simp
    moreover have "eval_value e (vs ! k) = Some (rs ! k)" using eval_values_Some [OF assms(3)] k len by simp
    ultimately show "rt_has s (rs ! k)" using eval_typed [OF assms(1)] by fastforce
  qed
qed

lemma runs_typed:
  fixes M :: "('x, 'w) ops"
  assumes "world_typed p f M"
  shows "validate_statements p proofs i f [s] depth = [] \<Longrightarrow> run_typed p f depth (run_statement s M n)"
    and "validate_statements p proofs i f [Statement k src] depth = [] \<Longrightarrow> run_typed p f depth (run_kind k M n)"
    and "validate_block p proofs i f b depth = [] \<Longrightarrow> run_typed p f depth (run_block b M n)"
    and "validate_statements p proofs i f ss depth = [] \<Longrightarrow> run_typed p f depth (run_statements ss M n)"
proof (induction s and k and b and ss arbitrary: depth and src depth and depth and depth rule: mir_induct)
  case (Simple k)
  show ?case
  proof (cases "is_control k")
    case True
    then show ?thesis using Simple return_typed [of p f _ proofs i _ src]
      by (cases k) (auto simp: run_typed_def has_blocks_def is_control_def run_return_def split: option.splits if_splits)
  next
    case False
    then have "validate_simple p proofs i f k src = []" using Simple by (cases k) (auto simp: is_control_def)
    then show ?thesis using exec_simple_typed [OF assms]
      by (auto simp: run_typed_def run_kind_simple [OF False] finish_def split: option.splits)
  qed
next
  case (If c t e)
  then have "run_typed p f depth (run_block t M n)" "run_typed p f depth (run_block e M n)" by simp_all
  moreover have "run_if env w c rt rf \<in> {rt, rf, Some (Trapped, env, w)}" for env :: "'x env" and w :: 'w and rt rf
    by (simp add: run_if_def split: option.split scalar_value.split)
  ultimately show ?case unfolding run_typed_def run_kind.simps by (metis empty_iff insert_iff option.inject outcome_typed.simps(5) prod.inject)
next
  case (Loop b)
  then have "run_typed p f (Suc depth) (run_block b M n)" by simp
  then show ?case unfolding run_kind.simps by (rule iterate_typed)
next
  case (Cons s ss)
  then have IH: "run_typed p f depth (run_statement s M n)" "run_typed p f depth (run_statements ss M n)"
    by (cases s; simp)+
  show ?case
    unfolding run_typed_def
  proof (intro allI impI)
    fix e w out e' w'
    assume e: "typed_env p f e" and run: "run_statements (s # ss) M n e w = Some (out, e', w')"
    obtain out1 e1 w1 where r: "run_statement s M n e w = Some (out1, e1, w1)"
      using run by (cases "run_statement s M n e w") (auto simp: run_statements_Cons seq_def)
    note t = run_typedD [OF IH(1) e r]
    show "typed_env p f e' \<and> outcome_typed p f depth out"
      using run r t run_typedD [OF IH(2)] by (cases out1) (auto simp: run_statements_Cons seq_def)
  qed
qed (auto simp: run_typed_def)

subsection \<open>Type soundness\<close>

text \<open>C7: a scalar expression that passes the type checks never gets stuck: in an environment where every scalar local holds a value
  of its declared type and the operands are initialised, it evaluates to a value of the type of its destination, unless it is
  an integer division or remainder by zero.\<close>

theorem scalar_expressions_progress:
  assumes "typed_env p f e" and "validate_rvalue p i f r src = []" and "rvalue_matches_type p f r ty"
    and "nth_opt (pr_types p) ty = Some (T_Scalar s)" and "scalar_rvalue r" and "\<forall>v \<in> set (rvalue_operands r). eval_value e v \<noteq> None"
  shows "(\<exists>c. eval_rvalue M r e w = Some (Sc c) \<and> scalar_ty c = s)
    \<or> (\<exists>op a b. r = R_Binary op a b \<and> op \<in> {Divide, Remainder} \<and> eval_scalar e b \<in> {Some (I32 0), Some (I64 0)})"
  using assms by (rule scalar_progress)


text \<open>A function that adds two numbers.\<close>

definition sum_function :: mir_function where
  "sum_function =
     \<lparr>fn_name = ''sum'', fn_kind = FK_User, fn_attributes = default_attributes, fn_params = [], fn_results = [0],
      fn_locals = [\<lparr>lc_name = None, lc_ty = 0, lc_integer_range = None\<rparr>],
      fn_body = Block [Statement (S_Assign (place_local 0) (R_Binary Add (V_Constant (I32 2)) (V_Constant (I32 3)))) span_unknown,
                       Statement (S_Return [V_Local 0]) span_unknown],
      fn_source = span_unknown\<rparr>"

definition sum_program :: program where
  "sum_program = (program_new \<lparr>sample_rate = 0x473B8000, block_size = 64\<rparr> 0 1) \<lparr>pr_types := [T_Scalar TI32], pr_functions := [sum_function]\<rparr>"

definition sum_ops :: "(unit, unit) ops" where
  "sum_ops = bare_ops\<lparr>op_modes := [[]]\<rparr>"

theorem scalar_expressions_progress_witness:
  "\<exists>c. eval_rvalue sum_ops (R_Binary Add (V_Constant (I32 2)) (V_Constant (I32 3))) (\<lambda>_. None) () = Some (Sc c) \<and> scalar_ty c = TI32"
proof -
  let ?r = "R_Binary Add (V_Constant (I32 2)) (V_Constant (I32 3))"
  have "validate_rvalue sum_program 0 sum_function ?r span_unknown = []" by code_simp
  moreover have "rvalue_matches_type sum_program sum_function ?r 0" by code_simp
  moreover have "nth_opt (pr_types sum_program) 0 = Some (T_Scalar TI32)" by code_simp
  moreover have "\<forall>v \<in> set (rvalue_operands ?r). eval_value ((\<lambda>_. None) :: unit env) v \<noteq> None" by (simp add: rvalue_operands_def)
  ultimately show ?thesis
    using scalar_expressions_progress [OF typed_env_empty, of sum_program 0 sum_function ?r span_unknown 0 TI32 sum_ops "()"] by simp
qed


end
