(* ===== verification/Validate_Types.thy ===== *)
theory Validate_Types
  imports Validate_Calls
begin

section \<open>Validation: the type table\<close>

text \<open>
  The checks of the type table in \<open>onda_mir/src/validate.rs\<close>: every entry of its own, the sizes of fixed aggregates, computed
  by repeated passes over the table, and the search for runtime handles inside a type.
\<close>

definition static_channel_errors :: "string \<Rightarrow> buffer_channels \<Rightarrow> scalar_type \<Rightarrow> validation_error list" where
  "static_channel_errors label channels element =
     (case channels of
        Static n \<Rightarrow>
          (case buffer_static_channel_validation_error n element of
             Some reason \<Rightarrow> program_error (label @ reason) | None \<Rightarrow> [])
      | _ \<Rightarrow> [])"

definition validate_type_entry :: "program \<Rightarrow> mir_type \<Rightarrow> validation_error list" where
  "validate_type_entry p ty =
     (case ty of
        T_Tuple elements \<Rightarrow> concat (map (\<lambda>e. require_type p e None span_unknown) elements)
      | T_Array element len \<Rightarrow>
          require_type p element None span_unknown
          @ (if len = 0 then program_error ''type {} is a zero-length array'' else [])
          @ (if 2147483647 < len then program_error ''type {} array length exceeds the signed i32 MIR boundary'' else [])
      | T_Struct s \<Rightarrow> if length (pr_structs p) \<le> s then program_error ''type {} references missing struct {}'' else []
      | T_Buffer element channels _ \<Rightarrow> static_channel_errors ''type {} '' channels element
      | T_BufferSpan element channels _ len \<Rightarrow>
          (if len = 0 \<or> 2147483647 < len then program_error ''type {} buffer span length must be in 1..={}'' else [])
          @ static_channel_errors ''type {} '' channels element
      | _ \<Rightarrow> [])"

definition validate_struct :: "program \<Rightarrow> struct_type \<Rightarrow> validation_error list" where
  "validate_struct p s =
     (if st_fields s = [] then program_error ''struct '{}' must declare at least one field'' else [])
     @ concat (map (\<lambda>field. require_type p (sf_ty field) None span_unknown) (st_fields s))"

subsection \<open>Fixed aggregates\<close>

definition struct_field_types :: "program \<Rightarrow> struct_id \<Rightarrow> type_id list" where
  "struct_field_types p s = (case nth_opt (pr_structs p) s of Some st \<Rightarrow> map sf_ty (st_fields st) | None \<Rightarrow> [])"

fun type_dependencies :: "program \<Rightarrow> mir_type \<Rightarrow> type_id list" where
  "type_dependencies p (T_Tuple elements) = elements"
| "type_dependencies p (T_Array element _) = [element]"
| "type_dependencies p (T_Struct s) = struct_field_types p s"
| "type_dependencies p _ = []"

datatype logical_size = LS_Pending | LS_Invalid | LS_Unsized | LS_Fixed nat

fun initial_size :: "mir_type \<Rightarrow> logical_size" where
  "initial_size (T_Scalar s) = LS_Fixed (logical_byte_width s)"
| "initial_size (T_Slice _ _) = LS_Unsized"
| "initial_size (T_Buffer _ _ _) = LS_Unsized"
| "initial_size (T_BufferSpan _ _ _ _) = LS_Unsized"
| "initial_size _ = LS_Pending"

text \<open>The sum of fixed sizes in \<open>u64\<close>. A dependency that is not fixed is unreachable in the code; it is the outer \<open>None\<close>.\<close>

fun sum_fixed :: "logical_size list \<Rightarrow> type_id list \<Rightarrow> nat \<Rightarrow> nat option option" where
  "sum_fixed sizes [] acc = Some (Some acc)"
| "sum_fixed sizes (ty # tys) acc =
     (case nth_opt sizes ty of
        Some (LS_Fixed bytes) \<Rightarrow> if acc + bytes < 2 ^ 64 then sum_fixed sizes tys (acc + bytes) else Some None
      | _ \<Rightarrow> None)"

definition computed_size :: "program \<Rightarrow> logical_size list \<Rightarrow> mir_type \<Rightarrow> nat option option" where
  "computed_size p sizes ty =
     (case ty of
        T_Tuple elements \<Rightarrow> sum_fixed sizes elements 0
      | T_Array element len \<Rightarrow>
          (case nth_opt sizes element of
             Some (LS_Fixed bytes) \<Rightarrow> Some (if bytes * len < 2 ^ 64 then Some (bytes * len) else None)
           | _ \<Rightarrow> None)
      | T_Struct s \<Rightarrow>
          (case nth_opt (pr_structs p) s of
             None \<Rightarrow> Some None
           | Some st \<Rightarrow> sum_fixed sizes (map sf_ty (st_fields st)) 0)
      | _ \<Rightarrow> None)"

text \<open>One entry of a pass: the new size, or \<open>None\<close> when it stays as it is.\<close>

definition resolve_size ::
  "program \<Rightarrow> logical_size list \<Rightarrow> nat \<Rightarrow> (logical_size \<times> validation_error list) option option" where
  "resolve_size p sizes index =
     (let deps = type_dependencies p (pr_types p ! index) in
      if sizes ! index \<noteq> LS_Pending then Some None
      else if list_ex (\<lambda>d. length sizes \<le> d) deps then Some (Some (LS_Invalid, []))
      else if list_ex (\<lambda>d. sizes ! d = LS_Pending) deps then Some None
      else if list_ex (\<lambda>d. sizes ! d = LS_Invalid) deps then Some (Some (LS_Invalid, []))
      else if list_ex (\<lambda>d. sizes ! d = LS_Unsized) deps then Some (Some (LS_Unsized, []))
      else map_option (\<lambda>computed.
             case computed of
               Some bytes \<Rightarrow>
                 if bytes \<le> 2147483647 then Some (LS_Fixed bytes, [])
                 else Some (LS_Invalid, program_error ''type {} fixed aggregate logical size exceeds the signed i32 MIR boundary'')
             | None \<Rightarrow> Some (LS_Invalid, program_error ''type {} fixed aggregate logical size exceeds the signed i32 MIR boundary''))
             (computed_size p sizes (pr_types p ! index)))"

fun size_pass :: "program \<Rightarrow> nat list \<Rightarrow> logical_size list \<Rightarrow> (logical_size list \<times> bool \<times> validation_error list) option" where
  "size_pass p [] sizes = Some (sizes, False, [])"
| "size_pass p (index # rest) sizes =
     (case resolve_size p sizes index of
        None \<Rightarrow> None
      | Some None \<Rightarrow> size_pass p rest sizes
      | Some (Some (computed, errors)) \<Rightarrow>
          map_option (\<lambda>(sizes, changed, more). (sizes, True, errors @ more)) (size_pass p rest (sizes[index := computed])))"

definition pending_sizes :: "logical_size list \<Rightarrow> nat" where
  "pending_sizes sizes = length (filter (\<lambda>s. s = LS_Pending) sizes)"

lemma pending_sizes_update:
  "i < length sizes \<Longrightarrow> sizes ! i = LS_Pending \<Longrightarrow> s \<noteq> LS_Pending \<Longrightarrow> pending_sizes (sizes[i := s]) < pending_sizes sizes"
proof (induction sizes arbitrary: i)
  case (Cons x sizes)
  then show ?case by (cases i) (auto simp: pending_sizes_def)
qed simp

lemma resolve_size_Some:
  "resolve_size p sizes index = Some (Some (s, errors)) \<Longrightarrow> sizes ! index = LS_Pending \<and> s \<noteq> LS_Pending"
  by (auto simp: resolve_size_def Let_def split: if_splits option.splits)

lemma size_pass_pending:
  "size_pass p indices sizes = Some (sizes', changed, errors) \<Longrightarrow> set indices \<subseteq> {..<length sizes} \<Longrightarrow>
     length sizes' = length sizes \<and> pending_sizes sizes' \<le> pending_sizes sizes
     \<and> (changed \<longrightarrow> pending_sizes sizes' < pending_sizes sizes)"
proof (induction indices arbitrary: sizes changed errors)
  case (Cons i indices)
  obtain r where r: "resolve_size p sizes i = Some r" using Cons.prems by (auto split: option.splits)
  show ?case
  proof (cases r)
    case None
    then show ?thesis using Cons r by auto
  next
    case (Some q)
    obtain s es where q: "q = (s, es)" by (cases q)
    obtain changed' errors' where rest: "size_pass p indices (sizes[i := s]) = Some (sizes', changed', errors')"
      using Cons.prems r Some q by auto
    have "pending_sizes (sizes[i := s]) < pending_sizes sizes"
      using resolve_size_Some [of p sizes i s es] r Some q Cons.prems(2) by (intro pending_sizes_update) simp_all
    then show ?thesis using Cons.IH [OF rest] Cons.prems(2) by simp
  qed
qed simp

function size_loop :: "program \<Rightarrow> logical_size list \<Rightarrow> (logical_size list \<times> validation_error list) option" where
  "size_loop p sizes =
     (case size_pass p [0..<length sizes] sizes of
        None \<Rightarrow> None
      | Some (sizes', changed, errors) \<Rightarrow>
          if changed then map_option (map_prod id (append errors)) (size_loop p sizes') else Some (sizes', errors))"
  by pat_completeness auto
termination size_loop
proof (relation "measure (\<lambda>(p, sizes). pending_sizes sizes)")
  fix p sizes x sizes' y changed errors
  assume "size_pass p [0..<length sizes] sizes = Some x" "(sizes', y) = x" "(changed, errors) = y" changed
  then show "((p, sizes'), p, sizes) \<in> measure (\<lambda>(p, sizes). pending_sizes sizes)"
    using size_pass_pending [of p "[0..<length sizes]" sizes sizes' changed errors] by (auto simp: atLeast0LessThan)
qed simp

declare size_loop.simps [simp del]

definition validate_fixed_aggregate_types :: "program \<Rightarrow> validation_error list option" where
  "validate_fixed_aggregate_types p =
     map_option (\<lambda>(sizes, errors).
         errors @ concat (map (\<lambda>s. if s = LS_Pending
           then program_error ''type {} participates in a recursive fixed aggregate definition'' else []) sizes))
       (size_loop p (map initial_size (pr_types p)))"

subsection \<open>Runtime handles\<close>

definition is_handle_type :: "mir_type \<Rightarrow> bool" where
  "is_handle_type ty \<longleftrightarrow> (case ty of T_Slice _ _ \<Rightarrow> True | T_Buffer _ _ _ \<Rightarrow> True | T_BufferSpan _ _ _ _ \<Rightarrow> True | _ \<Rightarrow> False)"

text \<open>The pending types are a stack whose top is the head; \<open>visited\<close> has one mark per type.\<close>

function handle_walk :: "program \<Rightarrow> type_id list \<Rightarrow> bool list \<Rightarrow> bool" where
  "handle_walk p [] visited = False"
| "handle_walk p (ty # pending) visited =
     (if length visited \<le> ty then handle_walk p pending visited
      else if visited ! ty then handle_walk p pending visited
      else is_handle_type (pr_types p ! ty)
        \<or> handle_walk p (rev (type_dependencies p (pr_types p ! ty)) @ pending) (visited[ty := True]))"
  by pat_completeness auto
termination handle_walk
  by (relation "measures [\<lambda>(p, pending, visited). unseen visited, \<lambda>(p, pending, visited). length pending]")
    (auto intro: unseen_update)

definition type_contains_runtime_handle :: "program \<Rightarrow> type_id \<Rightarrow> bool" where
  "type_contains_runtime_handle p root = handle_walk p [root] (replicate (length (pr_types p)) False)"

definition reject_runtime_handle_storage :: "program \<Rightarrow> type_id \<Rightarrow> function_id option \<Rightarrow> source_span \<Rightarrow> validation_error list" where
  "reject_runtime_handle_storage p ty i src =
     (if type_contains_runtime_handle p ty
      then [\<lparr>ve_message = ''{} type must not contain runtime-only slice or buffer handles'', ve_function = i, ve_source = src\<rparr>]
      else [])"

subsection \<open>The dependencies between types\<close>

definition type_deps :: "program \<Rightarrow> (nat \<times> nat) set" where
  "type_deps p = {(i, d). i < length (pr_types p) \<and> d \<in> set (type_dependencies p (pr_types p ! i))}"

definition deps_in_range :: "program \<Rightarrow> bool" where
  "deps_in_range p \<longleftrightarrow>
     (\<forall>i < length (pr_types p). \<forall>d \<in> set (type_dependencies p (pr_types p ! i)). d < length (pr_types p))
     \<and> (\<forall>s. T_Struct s \<in> set (pr_types p) \<longrightarrow> s < length (pr_structs p))"

inductive settled :: "program \<Rightarrow> nat \<Rightarrow> bool" for p where
  "i < length (pr_types p) \<Longrightarrow> (\<And>d. (i, d) \<in> type_deps p \<Longrightarrow> settled p d) \<Longrightarrow> settled p i"

inductive_cases settledE: "settled p i"

lemma settled_acyclic:
  assumes "settled p i" and "(i, j) \<in> (type_deps p)\<^sup>*"
  shows "(j, j) \<notin> (type_deps p)\<^sup>+"
  using assms
proof (induction arbitrary: j)
  case (1 i)
  show ?case
  proof
    assume cycle: "(j, j) \<in> (type_deps p)\<^sup>+"
    with 1(4) have "(i, j) \<in> (type_deps p)\<^sup>+" by (metis rtranclD)
    then obtain d where "(i, d) \<in> type_deps p" "(d, j) \<in> (type_deps p)\<^sup>*" by (blast dest: tranclD)
    with 1(3) cycle show False by blast
  qed
qed

lemma settled_acyclic_iff:
  assumes "deps_in_range p"
  shows "(\<forall>i < length (pr_types p). settled p i) \<longleftrightarrow> acyclic (type_deps p)"
proof
  assume "acyclic (type_deps p)"
  moreover have "type_deps p \<subseteq> {..<length (pr_types p)} \<times> {..<length (pr_types p)}"
    using assms by (auto simp: type_deps_def deps_in_range_def)
  then have "finite (type_deps p)" by (rule finite_subset) simp
  ultimately have wf: "wf ((type_deps p)\<inverse>)" by (intro finite_acyclic_wf_converse)
  have "i < length (pr_types p) \<longrightarrow> settled p i" for i
    using wf by (induction i rule: wf_induct_rule) (use assms in \<open>auto simp: type_deps_def deps_in_range_def intro: settled.intros\<close>)
  then show "\<forall>i < length (pr_types p). settled p i" by blast
next
  assume all: "\<forall>i < length (pr_types p). settled p i"
  show "acyclic (type_deps p)"
    unfolding acyclic_def
  proof
    fix i
    have "i < length (pr_types p)" if "(i, i) \<in> (type_deps p)\<^sup>+" using tranclD [OF that] by (auto simp: type_deps_def)
    with all settled_acyclic [of p i i] show "(i, i) \<notin> (type_deps p)\<^sup>+" by blast
  qed
qed

subsection \<open>The size of a fixed type\<close>

inductive logical_bytes :: "program \<Rightarrow> type_id \<Rightarrow> nat \<Rightarrow> bool" for p where
  scalar: "nth_opt (pr_types p) i = Some (T_Scalar s) \<Longrightarrow> logical_bytes p i (logical_byte_width s)"
| tuple: "nth_opt (pr_types p) i = Some (T_Tuple elements) \<Longrightarrow> list_all2 (logical_bytes p) elements bs
    \<Longrightarrow> logical_bytes p i (sum_list bs)"
| array: "nth_opt (pr_types p) i = Some (T_Array element len) \<Longrightarrow> logical_bytes p element b \<Longrightarrow> logical_bytes p i (b * len)"
| struct: "nth_opt (pr_types p) i = Some (T_Struct s) \<Longrightarrow> s < length (pr_structs p)
    \<Longrightarrow> list_all2 (logical_bytes p) (struct_field_types p s) bs \<Longrightarrow> logical_bytes p i (sum_list bs)"

inductive_simps logical_bytes_iff: "logical_bytes p i b"

lemma list_all2_functional:
  "list_all2 (\<lambda>x y. R x y \<and> (\<forall>z. R x z \<longrightarrow> z = y)) xs ys \<Longrightarrow> list_all2 R xs zs \<Longrightarrow> zs = ys"
  by (induction xs ys arbitrary: zs rule: list_all2_induct) (auto simp: list_all2_Cons1)

lemma logical_bytes_unique: "logical_bytes p i b \<Longrightarrow> logical_bytes p i c \<Longrightarrow> c = b"
proof (induction arbitrary: c rule: logical_bytes.induct)
  case (tuple i elements bs)
  from tuple.prems tuple.hyps(1) obtain cs where "list_all2 (logical_bytes p) elements cs" "c = sum_list cs"
    by (subst (asm) logical_bytes_iff) auto
  with list_all2_functional [OF tuple.IH] show ?case by blast
next
  case (struct i s bs)
  from struct.prems struct.hyps(1) obtain cs where "list_all2 (logical_bytes p) (struct_field_types p s) cs" "c = sum_list cs"
    by (subst (asm) logical_bytes_iff) auto
  with list_all2_functional [OF struct.IH] show ?case by blast
next
  case (array i element len b)
  from array.prems array.hyps(1) obtain d where "logical_bytes p element d" "c = d * len"
    by (subst (asm) logical_bytes_iff) auto
  with array.IH show ?case by blast
qed (subst (asm) logical_bytes_iff, auto)

lemma logical_bytes_deps:
  assumes "logical_bytes p i b" and "(i, d) \<in> type_deps p"
  shows "\<exists>c. logical_bytes p d c"
  using assms by (cases rule: logical_bytes.cases)
    (auto simp: type_deps_def nth_opt_Some_iff list_all2_conv_all_nth in_set_conv_nth)

text \<open>What a size of the table says.\<close>

definition size_means :: "program \<Rightarrow> nat \<Rightarrow> logical_size \<Rightarrow> bool" where
  "size_means p i s \<longleftrightarrow>
     (case s of
        LS_Pending \<Rightarrow> initial_size (pr_types p ! i) = LS_Pending
      | LS_Fixed b \<Rightarrow> settled p i \<and> logical_bytes p i b \<and> b \<le> 2147483647
      | LS_Unsized \<Rightarrow> settled p i \<and> (\<nexists>b. logical_bytes p i b)
      | LS_Invalid \<Rightarrow> settled p i)"

definition some_too_large :: "program \<Rightarrow> bool" where
  "some_too_large p \<longleftrightarrow> (\<exists>i b. logical_bytes p i b \<and> 2147483647 < b)"

definition sizes_ok :: "program \<Rightarrow> logical_size list \<Rightarrow> validation_error list \<Rightarrow> bool" where
  "sizes_ok p sizes errors \<longleftrightarrow>
     length sizes = length (pr_types p) \<and> (\<forall>i < length sizes. size_means p i (sizes ! i))
     \<and> (if errors = [] then LS_Invalid \<notin> set sizes else some_too_large p)"

lemma sum_fixed_total:
  assumes "list_all2 (\<lambda>ty b. nth_opt sizes ty = Some (LS_Fixed b)) tys bs" and "acc < 2 ^ 64"
  shows "sum_fixed sizes tys acc = Some (if acc + sum_list bs < 2 ^ 64 then Some (acc + sum_list bs) else None)"
  using assms
proof (induction tys bs arbitrary: acc rule: list_all2_induct)
  case (Cons ty tys b bs)
  show ?case
  proof (cases "acc + b < 2 ^ 64")
    case True
    with Cons show ?thesis by (simp add: add.assoc)
  qed (use Cons in simp)
qed simp

lemma fixed_deps:
  assumes "\<And>d. d \<in> set tys \<Longrightarrow> \<exists>b. nth_opt sizes d = Some (LS_Fixed b) \<and> logical_bytes p d b"
  obtains bs where "list_all2 (\<lambda>ty b. nth_opt sizes ty = Some (LS_Fixed b)) tys bs" and "list_all2 (logical_bytes p) tys bs"
  using assms
proof (induction tys arbitrary: thesis)
  case (Cons ty tys)
  from Cons.prems(2) [of ty] obtain b where b: "nth_opt sizes ty = Some (LS_Fixed b)" "logical_bytes p ty b" by auto
  obtain bs where "list_all2 (\<lambda>ty b. nth_opt sizes ty = Some (LS_Fixed b)) tys bs" "list_all2 (logical_bytes p) tys bs"
    using Cons.IH Cons.prems(2) by (metis list.set_intros(2))
  with b show ?case using Cons.prems(1) [of "b # bs"] by simp
qed simp

lemma computed_size_total:
  assumes "deps_in_range p" and "i < length (pr_types p)" and "initial_size (pr_types p ! i) = LS_Pending"
    and deps: "\<And>d. d \<in> set (type_dependencies p (pr_types p ! i)) \<Longrightarrow> \<exists>b. nth_opt sizes d = Some (LS_Fixed b) \<and> logical_bytes p d b"
  shows "\<exists>b. logical_bytes p i b \<and> computed_size p sizes (pr_types p ! i) = Some (if b < 2 ^ 64 then Some b else None)"
proof -
  have i: "nth_opt (pr_types p) i = Some (pr_types p ! i)" using assms(2) by (simp add: nth_opt_Some_iff)
  obtain bs where sizes: "list_all2 (\<lambda>ty b. nth_opt sizes ty = Some (LS_Fixed b)) (type_dependencies p (pr_types p ! i)) bs"
    and bytes: "list_all2 (logical_bytes p) (type_dependencies p (pr_types p ! i)) bs"
    using deps by (rule fixed_deps)
  show ?thesis
  proof (cases "pr_types p ! i")
    case (T_Tuple elements)
    then show ?thesis using i sizes bytes sum_fixed_total [of sizes elements bs 0] logical_bytes.tuple [of p i elements bs]
      by (auto simp: computed_size_def)
  next
    case (T_Array element len)
    then obtain b where "bs = [b]" "nth_opt sizes element = Some (LS_Fixed b)" "logical_bytes p element b"
      using sizes bytes by (auto simp: list_all2_Cons1)
    then show ?thesis using T_Array i logical_bytes.array [of p i element len b] by (auto simp: computed_size_def)
  next
    case (T_Struct s)
    then have s: "s < length (pr_structs p)" using assms(1,2) by (metis deps_in_range_def nth_mem)
    have "nth_opt (pr_structs p) s = Some (pr_structs p ! s)" using s by (simp add: nth_opt_Some_iff)
    moreover from this have "struct_field_types p s = map sf_ty (st_fields (pr_structs p ! s))" by (simp add: struct_field_types_def)
    ultimately
    show ?thesis using T_Struct i s sizes bytes sum_fixed_total [of sizes "struct_field_types p s" bs 0] logical_bytes.struct [of p i s bs]
      by (auto simp: computed_size_def)
  qed (use assms(3) in simp_all)
qed

lemma resolve_size_ok:
  assumes "deps_in_range p" and ok: "sizes_ok p sizes errors" and i: "i < length sizes"
  shows "\<exists>r. resolve_size p sizes i = Some r \<and>
    (case r of
       None \<Rightarrow> sizes ! i = LS_Pending \<longrightarrow> (\<exists>d. (i, d) \<in> type_deps p \<and> sizes ! d = LS_Pending)
     | Some (s, new) \<Rightarrow> sizes_ok p (sizes[i := s]) (errors @ new))"
proof (cases "sizes ! i = LS_Pending")
  case False
  then show ?thesis by (simp add: resolve_size_def Let_def)
next
  case pending: True
  let ?deps = "type_dependencies p (pr_types p ! i)"
  have len: "length sizes = length (pr_types p)" and means: "\<And>j. j < length sizes \<Longrightarrow> size_means p j (sizes ! j)"
    and errors: "if errors = [] then LS_Invalid \<notin> set sizes else some_too_large p"
    using ok by (auto simp: sizes_ok_def)
  have range: "\<forall>d \<in> set ?deps. d < length sizes" using assms(1) i len by (simp add: deps_in_range_def)
  have in_range: "\<not> list_ex (\<lambda>d. length sizes \<le> d) ?deps" using range by (auto simp: list_ex_iff)
  have deps: "(i, d) \<in> type_deps p \<longleftrightarrow> d \<in> set ?deps" for d using i len by (auto simp: type_deps_def)
  have update: "sizes_ok p (sizes[i := s]) (errors @ new)"
    if "size_means p i s" "if errors @ new = [] then s \<noteq> LS_Invalid else some_too_large p" for s new
  proof -
    have "\<forall>j < length sizes. size_means p j (sizes[i := s] ! j)" using means that(1) i by (simp add: nth_list_update)
    moreover have "if errors @ new = [] then LS_Invalid \<notin> set (sizes[i := s]) else some_too_large p"
    proof (cases "errors @ new = []")
      case True
      then have "s \<noteq> LS_Invalid" "LS_Invalid \<notin> set sizes" using that(2) errors by simp_all
      then show ?thesis using True set_update_subset_insert [of sizes i s] by auto
    next
      case False
      then show ?thesis using that(2) by metis
    qed
    ultimately show ?thesis using len by (simp add: sizes_ok_def)
  qed
  show ?thesis
  proof (cases "\<exists>d \<in> set ?deps. sizes ! d = LS_Pending")
    case True
    then have "resolve_size p sizes i = Some None" using pending in_range by (simp add: resolve_size_def Let_def list_ex_iff)
    with True deps show ?thesis by auto
  next
    case False
    then have no_pending: "\<not> list_ex (\<lambda>d. sizes ! d = LS_Pending) ?deps" by (simp add: list_ex_iff)
    have settled_deps: "settled p d" if "d \<in> set ?deps" for d
    proof -
      have "d < length sizes" and "sizes ! d \<noteq> LS_Pending" using range False that by blast+
      then show ?thesis using means [of d] by (cases "sizes ! d") (simp_all add: size_means_def)
    qed
    have "i < length (pr_types p)" using i len by simp
    then have settled: "settled p i" by (rule settled.intros) (use deps settled_deps in blast)
    show ?thesis
    proof (cases "\<exists>d \<in> set ?deps. sizes ! d = LS_Invalid")
      case True
      then have "LS_Invalid \<in> set sizes" using range by (metis nth_mem)
      then have "some_too_large p" "errors \<noteq> []" using errors by (auto split: if_splits)
      moreover have "resolve_size p sizes i = Some (Some (LS_Invalid, []))"
        using pending in_range no_pending True by (simp add: resolve_size_def Let_def list_ex_iff)
      ultimately show ?thesis using update [of LS_Invalid "[]"] settled by (simp add: size_means_def)
    next
      case valid: False
      show ?thesis
      proof (cases "\<exists>d \<in> set ?deps. sizes ! d = LS_Unsized")
        case True
        then obtain d where "d \<in> set ?deps" "\<nexists>c. logical_bytes p d c" using means range by (fastforce simp: size_means_def)
        then have "\<nexists>b. logical_bytes p i b" using logical_bytes_deps deps by blast
        moreover have "resolve_size p sizes i = Some (Some (LS_Unsized, []))"
          using pending in_range no_pending valid True by (simp add: resolve_size_def Let_def list_ex_iff)
        ultimately show ?thesis using update [of LS_Unsized "[]"] settled errors by (simp add: size_means_def)
      next
        case fixed: False
        have "\<exists>b. nth_opt sizes d = Some (LS_Fixed b) \<and> logical_bytes p d b" if "d \<in> set ?deps" for d
        proof -
          have "d < length sizes" and "sizes ! d \<noteq> LS_Pending" and "sizes ! d \<noteq> LS_Invalid" and "sizes ! d \<noteq> LS_Unsized"
            using range False valid fixed that by blast+
          then show ?thesis using means [of d] by (cases "sizes ! d") (simp_all add: size_means_def nth_opt_def)
        qed
        moreover have "initial_size (pr_types p ! i) = LS_Pending" using means [of i] i pending by (simp add: size_means_def)
        ultimately obtain b where b: "logical_bytes p i b" "computed_size p sizes (pr_types p ! i) = Some (if b < 2 ^ 64 then Some b else None)"
          using computed_size_total [OF assms(1)] i len by metis
        have resolve: "resolve_size p sizes i = Some (Some (if b \<le> 2147483647 then (LS_Fixed b, [])
            else (LS_Invalid, program_error ''type {} fixed aggregate logical size exceeds the signed i32 MIR boundary'')))"
          using pending in_range no_pending valid fixed b(2) by (simp add: resolve_size_def Let_def list_ex_iff)
        show ?thesis
        proof (cases "b \<le> 2147483647")
          case True
          then show ?thesis using resolve update [of "LS_Fixed b" "[]"] settled b(1) errors by (simp add: size_means_def split: if_splits)
        next
          case big: False
          then have "some_too_large p" using b(1) by (auto simp: some_too_large_def not_le)
          then show ?thesis using resolve update [of LS_Invalid] settled big by (simp add: size_means_def)
        qed
      qed
    qed
  qed
qed

lemma size_pass_ok:
  assumes "deps_in_range p" and "sizes_ok p sizes errors" and "set indices \<subseteq> {..<length sizes}"
  shows "\<exists>sizes' changed new. size_pass p indices sizes = Some (sizes', changed, new) \<and> sizes_ok p sizes' (errors @ new)
    \<and> (\<not> changed \<longrightarrow> sizes' = sizes
         \<and> (\<forall>i \<in> set indices. sizes ! i = LS_Pending \<longrightarrow> (\<exists>d. (i, d) \<in> type_deps p \<and> sizes ! d = LS_Pending)))"
  using assms(2,3)
proof (induction indices arbitrary: sizes errors)
  case (Cons i indices)
  have i: "i < length sizes" using Cons.prems(2) by simp
  obtain r where r: "resolve_size p sizes i = Some r" and
    ok: "case r of None \<Rightarrow> sizes ! i = LS_Pending \<longrightarrow> (\<exists>d. (i, d) \<in> type_deps p \<and> sizes ! d = LS_Pending)
      | Some (s, new) \<Rightarrow> sizes_ok p (sizes[i := s]) (errors @ new)"
    using resolve_size_ok [OF assms(1) Cons.prems(1) i] by blast
  show ?case
  proof (cases r)
    case None
    then show ?thesis using Cons.IH [OF Cons.prems(1)] Cons.prems(2) r ok by fastforce
  next
    case (Some q)
    obtain s new where q: "q = (s, new)" by (cases q)
    obtain sizes' changed new' where rest: "size_pass p indices (sizes[i := s]) = Some (sizes', changed, new')"
        "sizes_ok p sizes' ((errors @ new) @ new')"
      using Cons.IH [of "sizes[i := s]" "errors @ new"] ok Some q Cons.prems(2) by auto
    then show ?thesis using r Some q by (intro exI [of _ sizes'] exI [of _ True] exI [of _ "new @ new'"]) simp
  qed
qed (auto intro!: exI [of _ False])

lemma size_loop_ok:
  assumes "deps_in_range p" and "sizes_ok p sizes errors"
  shows "\<exists>sizes' new. size_loop p sizes = Some (sizes', new) \<and> sizes_ok p sizes' (errors @ new)
    \<and> (\<forall>i < length sizes'. sizes' ! i = LS_Pending \<longrightarrow> (\<exists>d. (i, d) \<in> type_deps p \<and> sizes' ! d = LS_Pending))"
  using assms
proof (induction p sizes arbitrary: errors rule: size_loop.induct)
  case (1 p sizes)
  obtain sizes' changed new where pass: "size_pass p [0..<length sizes] sizes = Some (sizes', changed, new)"
    and ok: "sizes_ok p sizes' (errors @ new)"
    and same: "\<not> changed \<longrightarrow> sizes' = sizes
         \<and> (\<forall>i \<in> set [0..<length sizes]. sizes ! i = LS_Pending \<longrightarrow> (\<exists>d. (i, d) \<in> type_deps p \<and> sizes ! d = LS_Pending))"
    using size_pass_ok [OF 1(2,3), of "[0..<length sizes]"] by (auto simp: atLeast0LessThan)
  show ?case
  proof (cases changed)
    case True
    then obtain sizes'' new' where loop: "size_loop p sizes' = Some (sizes'', new')" "sizes_ok p sizes'' ((errors @ new) @ new')"
        "\<forall>i < length sizes''. sizes'' ! i = LS_Pending \<longrightarrow> (\<exists>d. (i, d) \<in> type_deps p \<and> sizes'' ! d = LS_Pending)"
      using 1(1) [OF pass refl refl _ 1(2) ok] by blast
    have "size_loop p sizes = Some (sizes'', new @ new')" using pass True loop(1) by (subst size_loop.simps) simp
    with loop show ?thesis by simp
  next
    case False
    then have "size_loop p sizes = Some (sizes', new)" using pass by (subst size_loop.simps) simp
    with False same ok show ?thesis by simp
  qed
qed

lemma initial_sizes_ok: "sizes_ok p (map initial_size (pr_types p)) []"
proof -
  have "size_means p i (initial_size (pr_types p ! i))" if i: "i < length (pr_types p)" for i
  proof -
    have "settled p i" if "type_dependencies p (pr_types p ! i) = []"
      using i by (rule settled.intros) (simp add: type_deps_def that)
    moreover have nth: "nth_opt (pr_types p) i = Some (pr_types p ! i)" using i by (simp add: nth_opt_Some_iff)
    moreover have "\<not> logical_bytes p i b" if "is_handle_type (pr_types p ! i)" for b
    proof
      assume "logical_bytes p i b"
      then show False using that nth by (cases rule: logical_bytes.cases) (auto simp: is_handle_type_def split: mir_type.splits)
    qed
    moreover have "logical_byte_width s \<le> 8" for s by (cases s) simp_all
    then have "logical_byte_width s \<le> 2147483647" for s by (rule le_trans) simp
    ultimately show ?thesis
      using nth logical_bytes.scalar [of p i] by (cases "pr_types p ! i") (simp_all add: size_means_def is_handle_type_def)
  qed
  moreover have "initial_size ty \<noteq> LS_Invalid" for ty by (cases ty) simp_all
  then have "LS_Invalid \<notin> set (map initial_size (pr_types p))" by (metis (no_types, lifting) ex_map_conv)
  ultimately show ?thesis by (simp add: sizes_ok_def)
qed

lemma fixed_aggregates_correct:
  assumes "deps_in_range p"
  shows "\<exists>errors. validate_fixed_aggregate_types p = Some errors
    \<and> (errors = [] \<longleftrightarrow> acyclic (type_deps p) \<and> (\<forall>i b. logical_bytes p i b \<longrightarrow> b \<le> 2147483647))"
proof -
  obtain sizes errors where loop: "size_loop p (map initial_size (pr_types p)) = Some (sizes, errors)" and ok: "sizes_ok p sizes errors"
    and stuck: "\<forall>i < length sizes. sizes ! i = LS_Pending \<longrightarrow> (\<exists>d. (i, d) \<in> type_deps p \<and> sizes ! d = LS_Pending)"
    using size_loop_ok [OF assms initial_sizes_ok] by auto
  have len: "length sizes = length (pr_types p)" and means: "\<And>i. i < length sizes \<Longrightarrow> size_means p i (sizes ! i)"
    and errors: "if errors = [] then LS_Invalid \<notin> set sizes else some_too_large p"
    using ok by (auto simp: sizes_ok_def)
  have not_pending: "sizes ! i \<noteq> LS_Pending" if "settled p i" for i
    using that
  proof (induction rule: settled.induct)
    case (1 i)
    then show ?case using stuck len by auto
  qed
  have settled: "settled p i" if "i < length sizes" "sizes ! i \<noteq> LS_Pending" for i
    using means [OF that(1)] that(2) by (cases "sizes ! i") (simp_all add: size_means_def)
  have "LS_Pending \<notin> set sizes \<longleftrightarrow> (\<forall>i < length sizes. sizes ! i \<noteq> LS_Pending)" by (metis in_set_conv_nth)
  also have "\<dots> \<longleftrightarrow> acyclic (type_deps p)"
    using not_pending settled settled_acyclic_iff [OF assms] len by metis
  finally have pending: "LS_Pending \<notin> set sizes \<longleftrightarrow> acyclic (type_deps p)" .
  have small: "b \<le> 2147483647" if "errors = []" "LS_Pending \<notin> set sizes" and bytes: "logical_bytes p i b" for i b
  proof -
    have i: "i < length sizes" using bytes len by (cases rule: logical_bytes.cases) (auto simp: nth_opt_Some_iff)
    then have "sizes ! i \<noteq> LS_Pending" "sizes ! i \<noteq> LS_Invalid" using that(1,2) errors by (metis nth_mem)+
    then obtain c where "sizes ! i = LS_Fixed c" using means [OF i] bytes by (cases "sizes ! i") (auto simp: size_means_def)
    then have "logical_bytes p i c" "c \<le> 2147483647" using means [OF i] by (simp_all add: size_means_def)
    then show ?thesis using logical_bytes_unique [OF bytes] by simp
  qed
  have "errors = [] \<and> LS_Pending \<notin> set sizes
    \<longleftrightarrow> acyclic (type_deps p) \<and> (\<forall>i b. logical_bytes p i b \<longrightarrow> b \<le> 2147483647)"
  proof
    assume "errors = [] \<and> LS_Pending \<notin> set sizes"
    then show "acyclic (type_deps p) \<and> (\<forall>i b. logical_bytes p i b \<longrightarrow> b \<le> 2147483647)" using small pending by blast
  next
    assume fine: "acyclic (type_deps p) \<and> (\<forall>i b. logical_bytes p i b \<longrightarrow> b \<le> 2147483647)"
    then have "\<not> some_too_large p" by (auto simp: some_too_large_def not_le [symmetric])
    then show "errors = [] \<and> LS_Pending \<notin> set sizes" using fine errors pending by metis
  qed
  moreover have "concat (map (\<lambda>s. if s = LS_Pending
      then program_error ''type {} participates in a recursive fixed aggregate definition'' else []) sizes) = [] \<longleftrightarrow> LS_Pending \<notin> set sizes"
    by (auto simp: concat_eq_Nil_conv)
  ultimately show ?thesis by (simp add: validate_fixed_aggregate_types_def loop)
qed

text \<open>C28: the size computation over the type table never panics and is exact: in a table whose references are in range
  it reports nothing exactly when no aggregate contains itself and every aggregate that has a size has one that fits
  a signed 32-bit integer.\<close>

theorem fixed_aggregates_exact:
  assumes "deps_in_range p"
  shows "\<exists>errors. validate_fixed_aggregate_types p = Some errors
    \<and> (errors = [] \<longleftrightarrow> acyclic (type_deps p) \<and> (\<forall>i b. logical_bytes p i b \<longrightarrow> b \<le> 2147483647))"
  using assms by (rule fixed_aggregates_correct)

subsection \<open>The search for handles\<close>

lemma handle_walk_correct:
  assumes "length visited = length (pr_types p)"
    and "\<And>a b. a < length visited \<Longrightarrow> visited ! a \<Longrightarrow> (a, b) \<in> type_deps p \<Longrightarrow> b < length visited \<Longrightarrow> visited ! b \<or> b \<in> set pending"
    and "\<And>a. a < length visited \<Longrightarrow> visited ! a \<Longrightarrow> \<not> is_handle_type (pr_types p ! a)"
  shows "handle_walk p pending visited
    \<longleftrightarrow> (\<exists>i \<in> set pending. \<exists>j < length (pr_types p). (i, j) \<in> (type_deps p)\<^sup>* \<and> is_handle_type (pr_types p ! j))"
  using assms
proof (induction p pending visited rule: handle_walk.induct)
  case (1 p visited)
  then show ?case by simp
next
  case (2 p ty pending visited)
  let ?reach = "\<lambda>i. \<exists>j < length (pr_types p). (i, j) \<in> (type_deps p)\<^sup>* \<and> is_handle_type (pr_types p ! j)"
  have outside: "\<not> ?reach i" if "length (pr_types p) \<le> i" for i
  proof
    assume "?reach i"
    then obtain j where "j < length (pr_types p)" "(i, j) \<in> (type_deps p)\<^sup>*" by blast
    from this(2) show False by (cases rule: converse_rtranclE) (use that \<open>j < _\<close> in \<open>simp_all add: type_deps_def\<close>)
  qed
  show ?case
  proof (cases "length visited \<le> ty")
    case True
    then have "handle_walk p pending visited \<longleftrightarrow> (\<exists>i \<in> set pending. ?reach i)"
      using 2(1) [OF True 2(4) _ 2(6)] 2(5) by fastforce
    then show ?thesis using True outside [of ty] 2(4) by auto
  next
    case inside: False
    show ?thesis
    proof (cases "visited ! ty")
      case True
      have closed: "visited ! b \<or> b \<in> set pending"
        if "a < length visited" "visited ! a" "(a, b) \<in> type_deps p" "b < length visited" for a b
        using 2(5) [OF that] inside True by auto
      have "handle_walk p pending visited \<longleftrightarrow> (\<exists>i \<in> set pending. ?reach i)"
        by (rule 2(2) [OF inside True 2(4)]) (use closed 2(6) in blast)+
      moreover have "\<exists>i \<in> set pending. ?reach i" if reach: "?reach ty"
      proof -
        obtain j where j: "j < length (pr_types p)" "(ty, j) \<in> (type_deps p)\<^sup>*" "is_handle_type (pr_types p ! j)" using reach by blast
        then have "\<not> visited ! j" using 2(4,6) by auto
        have "\<exists>z \<in> {b. length visited \<le> b} \<union> set pending. (z, j) \<in> (type_deps p)\<^sup>*"
          by (rule leave_closed [OF j(2), of "{a. a < length visited \<and> visited ! a}"])
            (use inside True \<open>\<not> visited ! j\<close> in simp_all, meson closed not_le)
        then obtain z where "z \<in> {b. length visited \<le> b} \<union> set pending" "(z, j) \<in> (type_deps p)\<^sup>*" by blast
        then show ?thesis using outside [of z] j 2(4) by auto
      qed
      ultimately show ?thesis using inside True by auto
    next
      case False
      let ?deps = "type_dependencies p (pr_types p ! ty)"
      show ?thesis
      proof (cases "is_handle_type (pr_types p ! ty)")
        case True
        then show ?thesis using inside False 2(4) by auto
      next
        case no_handle: False
        have "handle_walk p (rev ?deps @ pending) (visited[ty := True]) \<longleftrightarrow> (\<exists>i \<in> set (rev ?deps @ pending). ?reach i)"
        proof (rule 2(3) [OF inside False])
          fix a b assume ab: "a < length (visited[ty := True])" "visited[ty := True] ! a" "(a, b) \<in> type_deps p" "b < length (visited[ty := True])"
          show "visited[ty := True] ! b \<or> b \<in> set (rev ?deps @ pending)"
          proof (cases "a = ty")
            case True
            then show ?thesis using ab by (simp add: type_deps_def)
          next
            case False
            then show ?thesis using 2(5) [of a b] ab by (cases "b = ty") (auto simp: nth_list_update)
          qed
        qed (use 2(4,6) inside no_handle in \<open>auto simp: nth_list_update split: if_splits\<close>)
        moreover have "?reach ty \<longleftrightarrow> (\<exists>i \<in> set ?deps. ?reach i)"
        proof
          assume "?reach ty"
          then obtain j where j: "j < length (pr_types p)" "(ty, j) \<in> (type_deps p)\<^sup>*" "is_handle_type (pr_types p ! j)" by blast
          then have "j \<noteq> ty" using no_handle by auto
          with j(2) obtain d where "(ty, d) \<in> type_deps p" "(d, j) \<in> (type_deps p)\<^sup>*" by (auto elim: converse_rtranclE)
          with j show "\<exists>i \<in> set ?deps. ?reach i" by (auto simp: type_deps_def)
        next
          assume "\<exists>i \<in> set ?deps. ?reach i"
          then obtain i where "i \<in> set ?deps" "?reach i" by blast
          moreover from this have "(ty, i) \<in> type_deps p" using inside 2(4) by (simp add: type_deps_def)
          ultimately show "?reach ty" by (meson converse_rtrancl_into_rtrancl)
        qed
        ultimately show ?thesis using inside False no_handle by auto
      qed
    qed
  qed
qed

lemma runtime_handle_correct:
  "type_contains_runtime_handle p root
     \<longleftrightarrow> (\<exists>j < length (pr_types p). (root, j) \<in> (type_deps p)\<^sup>* \<and> is_handle_type (pr_types p ! j))"
proof -
  have "\<not> replicate (length (pr_types p)) False ! a" if "a < length (pr_types p)" for a using that by simp
  then show ?thesis
    unfolding type_contains_runtime_handle_def by (subst handle_walk_correct) auto
qed

text \<open>C30: a type is taken to contain a runtime handle exactly when a slice or buffer type can be reached from it through
  tuples, arrays and structs, also in a table with recursive definitions.\<close>

theorem runtime_handle_exact:
  "type_contains_runtime_handle p root
     \<longleftrightarrow> (\<exists>j < length (pr_types p). (root, j) \<in> (type_deps p)\<^sup>* \<and> is_handle_type (pr_types p ! j))"
  by (rule runtime_handle_correct)

subsection \<open>An example\<close>

text \<open>A struct with an array of itself.\<close>

definition recursive_types :: program where
  "recursive_types = (program_new \<lparr>sample_rate = 0, block_size = 64\<rparr> 0 1)
     \<lparr>pr_types := [T_Scalar TI32, T_Struct 0, T_Array 1 4],
      pr_structs := [\<lparr>st_name = ''node'', st_fields = [\<lparr>sf_name = ''id'', sf_ty = 0\<rparr>, \<lparr>sf_name = ''next'', sf_ty = 2\<rparr>]\<rparr>]\<rparr>"

lemma recursive_types_errors:
  "map_option (map ve_message) (validate_fixed_aggregate_types recursive_types)
     = Some (replicate 2 ''type {} participates in a recursive fixed aggregate definition'')"
  by code_simp

lemma fixed_aggregates_exact_witness:
  "\<not> (acyclic (type_deps recursive_types) \<and> (\<forall>i b. logical_bytes recursive_types i b \<longrightarrow> b \<le> 2147483647))"
proof -
  have "deps_in_range recursive_types"
    by (auto simp: deps_in_range_def recursive_types_def program_new_def struct_field_types_def nth_opt_def less_Suc_eq numeral_eq_Suc)
  then obtain errors where "validate_fixed_aggregate_types recursive_types = Some errors"
    "errors = [] \<longleftrightarrow> acyclic (type_deps recursive_types) \<and> (\<forall>i b. logical_bytes recursive_types i b \<longrightarrow> b \<le> 2147483647)"
    using fixed_aggregates_exact by blast
  then show ?thesis using recursive_types_errors by auto
qed

end
