(* ===== verification/Param_Domain.thy ===== *)
theory Param_Domain
  imports Constant_Eval Mir_Program
begin

section \<open>Parameter domains\<close>

text \<open>
  The host-facing domain of a parameter (\<open>onda_mir/src/types.rs\<close>): the check of its range, step and scale, the legal values on
  its step grid, and the conversions between plain and normalized values. An \<open>f64\<close> is its bit pattern; the functions of the
  mathematical library are the argument \<open>m\<close>.
\<close>

subsection \<open>Step grids\<close>

definition max_exact_host_control_integer :: int where
  "max_exact_host_control_integer = 2 ^ 53 - 1"

text \<open>\<open>f64::MIN_POSITIVE\<close>, \<open>8.0 * f64::EPSILON\<close> and \<open>0.125\<close>\<close>

definition f64_min_positive :: "64 word" where "f64_min_positive = 0x0010000000000000"
definition rounding_tolerance_unit :: "64 word" where "rounding_tolerance_unit = f64_mul 0x4020000000000000 0x3CB0000000000000"
definition max_error_in_steps :: "64 word" where "max_error_in_steps = 0x3FC0000000000000"

definition float_grid_value_matches :: "scalar_type \<Rightarrow> 64 word \<Rightarrow> 64 word \<Rightarrow> 64 word \<Rightarrow> u32 \<Rightarrow> bool" where
  "float_grid_value_matches scalar minimum expected step index =
     (let scaled_step = f64_mul step (f64_of_int (uint index));
          reconstructed = f64_add minimum scaled_step
      in if \<not> f64_is_finite reconstructed then False
         else if scalar = TF32 then f64_to_f32 reconstructed = f64_to_f32 expected
         else
           let scale = f64_max (f64_max (f64_max (f64_abs minimum) (f64_abs expected)) (f64_abs scaled_step)) f64_min_positive;
               rounding_tolerance = f64_mul rounding_tolerance_unit scale;
               grid_tolerance = f64_mul max_error_in_steps step
           in f64_le (f64_abs (f64_sub reconstructed expected)) (f64_min rounding_tolerance grid_tolerance))"

definition f64_integral :: "64 word \<Rightarrow> bool" where
  "f64_integral v = f64_eq (f64_fract v) f64_zero"

definition f64_u32_max :: "64 word" where
  "f64_u32_max = f64_of_int 4294967295"

definition float_step_count :: "scalar_type \<Rightarrow> 64 word \<Rightarrow> 64 word \<Rightarrow> 64 word \<Rightarrow> u32 option" where
  "float_step_count scalar minimum maximum step =
     (let intervals = f64_div (f64_sub maximum minimum) step; rounded = f64_round intervals; count = f64_to_u32 rounded
      in if \<not> f64_is_finite intervals then None
         else if f64_less rounded f64_one \<or> f64_less f64_u32_max rounded then None
         else if float_grid_value_matches scalar minimum maximum step count then Some count else None)"

definition validated_step_count :: "scalar_type \<Rightarrow> 64 word \<Rightarrow> 64 word \<Rightarrow> 64 word \<Rightarrow> u32 option" where
  "validated_step_count scalar minimum maximum step =
     (if \<not> f64_is_finite minimum \<or> \<not> f64_is_finite maximum \<or> \<not> f64_is_finite step
         \<or> f64_le maximum minimum \<or> f64_le step f64_zero
      then None
      else if scalar = TBool then None
      else if scalar = TF32 \<or> scalar = TF64 then float_step_count scalar minimum maximum step
      else if \<not> f64_integral minimum \<or> \<not> f64_integral maximum \<or> \<not> f64_integral step then None
      else
        let width = f64_sub maximum minimum; intervals = f64_div width step
        in if \<not> f64_is_finite width \<or> \<not> f64_is_finite intervals \<or> \<not> f64_integral intervals
             \<or> f64_less intervals f64_one \<or> f64_less f64_u32_max intervals
           then None else Some (f64_to_u32 intervals))"

definition value_is_on_step_grid :: "scalar_type \<Rightarrow> 64 word \<Rightarrow> 64 word \<Rightarrow> 64 word \<Rightarrow> u32 \<Rightarrow> bool" where
  "value_is_on_step_grid scalar minimum v step step_count =
     (if \<not> f64_is_finite v \<or> \<not> f64_is_finite step \<or> f64_le step f64_zero then False
      else if scalar = TBool then False
      else if scalar = TF32 \<or> scalar = TF64 then
        let index = f64_div (f64_sub v minimum) step; rounded = f64_round index
        in if \<not> f64_is_finite index then False
           else if f64_less rounded f64_zero \<or> f64_less (f64_of_int (uint step_count)) rounded then False
           else float_grid_value_matches scalar minimum v step (f64_to_u32 rounded)
      else f64_integral v \<and> f64_integral minimum \<and> f64_integral step
        \<and> f64_eq (f64_rem (f64_sub v minimum) step) f64_zero)"

subsection \<open>Domains\<close>

record param_domain =
  pd_scalar :: scalar_type
  pd_minimum :: "64 word"
  pd_maximum :: "64 word"
  pd_scale :: param_scale
  pd_curve :: "64 word option"
  pd_unit :: "string option"
  pd_step :: "64 word option"
  pd_step_count :: "u32 option"

definition host_control_value_fits_scalar :: "scalar_type \<Rightarrow> 64 word \<Rightarrow> bool" where
  "host_control_value_fits_scalar scalar v =
     (case scalar of
        TF32 \<Rightarrow> f64_eq (f32_to_f64 (f64_to_f32 v)) v
      | TF64 \<Rightarrow> True
      | TI32 \<Rightarrow> f64_integral v \<and> f64_le (f64_of_int (- 2147483648)) v \<and> f64_le v (f64_of_int 2147483647)
      | TI64 \<Rightarrow> f64_integral v \<and> f64_le (f64_abs v) (f64_of_int max_exact_host_control_integer)
      | TBool \<Rightarrow> False)"

definition storage_value :: "scalar_type \<Rightarrow> 64 word \<Rightarrow> 64 word" where
  "storage_value scalar v = (if scalar = TF32 then f32_to_f64 (f64_to_f32 v) else v)"

definition option_fails :: "('a \<Rightarrow> bool) \<Rightarrow> 'a option \<Rightarrow> bool" where
  "option_fails bad v = (case v of Some x \<Rightarrow> bad x | None \<Rightarrow> False)"

definition param_domain_new ::
  "scalar_type \<Rightarrow> 64 word \<Rightarrow> 64 word \<Rightarrow> param_scale \<Rightarrow> 64 word option \<Rightarrow> string option \<Rightarrow> 64 word option \<Rightarrow> u32 option
     \<Rightarrow> param_domain option" where
  "param_domain_new scalar lo hi scale curve unit_name step_given step_count =
     (let minimum = storage_value scalar lo; maximum = storage_value scalar hi; step = map_option (storage_value scalar) step_given in
      if scalar = TBool \<or> \<not> f64_is_finite minimum \<or> \<not> f64_is_finite maximum \<or> f64_le maximum minimum
        \<or> option_fails (\<lambda>c. \<not> f64_is_finite c) curve \<or> option_fails (\<lambda>u. CHR 0x00 \<in> set u) unit_name
        \<or> option_fails (\<lambda>x. \<not> f64_is_finite x \<or> f64_le x f64_zero) step
        \<or> (step = None) \<noteq> (step_count = None) \<or> step_count = Some 0
      then None
      else if \<not> host_control_value_fits_scalar scalar minimum \<or> \<not> host_control_value_fits_scalar scalar maximum
        \<or> option_fails (\<lambda>x. \<not> host_control_value_fits_scalar scalar x) step
        \<or> (scalar = TI64 \<and> f64_less (f64_of_int max_exact_host_control_integer) (f64_sub maximum minimum))
      then None
      else if scale = Scale_Log
        \<and> (scalar \<notin> {TF32, TF64} \<or> f64_le minimum f64_zero \<or> curve \<noteq> None \<or> step \<noteq> None)
      then None
      else if scalar \<in> {TI32, TI64} \<and> step = None then None
      else if option_fails (\<lambda>x. option_fails (\<lambda>n. validated_step_count scalar minimum maximum x \<noteq> Some n) step_count) step then None
      else Some \<lparr>pd_scalar = scalar, pd_minimum = minimum, pd_maximum = maximum, pd_scale = scale, pd_curve = curve,
                 pd_unit = unit_name, pd_step = step, pd_step_count = step_count\<rparr>)"

definition domain_from_control :: "value_range \<Rightarrow> param_control \<Rightarrow> param_domain option" where
  "domain_from_control bounds control =
     (let scalar = scalar_ty (range_min bounds) in
      if scalar_ty (range_max bounds) \<noteq> scalar \<or> option_fails (\<lambda>s. scalar_ty s \<noteq> scalar) (pc_step control) then None
      else param_domain_new scalar (as_f64 (range_min bounds)) (as_f64 (range_max bounds)) (pc_scale control) (pc_curve control)
             (pc_unit control) (map_option as_f64 (pc_step control)) (pc_step_count control))"

subsection \<open>Plain and normalized values\<close>

record control_libm =
  cl_ln :: "64 word \<Rightarrow> 64 word"
  cl_exp :: "64 word \<Rightarrow> 64 word"
  cl_exp_m1 :: "64 word \<Rightarrow> 64 word"
  cl_ln_1p :: "64 word \<Rightarrow> 64 word"

text \<open>\<open>f64::clamp\<close> panics unless its bounds are in order.\<close>

definition checked_clamp :: "64 word \<Rightarrow> 64 word \<Rightarrow> 64 word \<Rightarrow> 64 word option" where
  "checked_clamp x lo hi = (if f64_le lo hi then Some (f64_clamp x lo hi) else None)"

definition constrain_plain :: "param_domain \<Rightarrow> 64 word \<Rightarrow> 64 word option" where
  "constrain_plain d plain =
     Option.bind (if f64_is_nan plain then Some (pd_minimum d) else checked_clamp plain (pd_minimum d) (pd_maximum d)) (\<lambda>clamped.
       case pd_step d of
         None \<Rightarrow> Some clamped
       | Some step \<Rightarrow>
           checked_clamp
             (f64_add (pd_minimum d) (f64_mul (f64_round (f64_div (f64_sub clamped (pd_minimum d)) step)) step))
             (pd_minimum d) (pd_maximum d))"

definition linear_unit_to_plain :: "64 word \<Rightarrow> 64 word \<Rightarrow> 64 word \<Rightarrow> 64 word" where
  "linear_unit_to_plain minimum maximum u =
     (let width = f64_sub maximum minimum
      in if f64_is_finite width then f64_add minimum (f64_mul u width)
         else f64_add (f64_mul (f64_sub f64_one u) minimum) (f64_mul u maximum))"

definition linear_plain_to_unit :: "64 word \<Rightarrow> 64 word \<Rightarrow> 64 word \<Rightarrow> 64 word" where
  "linear_plain_to_unit minimum maximum plain =
     (let width = f64_sub maximum minimum
      in if f64_is_finite width then f64_div (f64_sub plain minimum) width
         else let scale = f64_max (f64_abs minimum) (f64_abs maximum)
              in f64_div (f64_sub (f64_div plain scale) (f64_div minimum scale))
                   (f64_sub (f64_div maximum scale) (f64_div minimum scale)))"

text \<open>\<open>0.001\<close>\<close>

definition curve_linear_epsilon :: "64 word" where
  "curve_linear_epsilon = 0x3F50624DD2F1A9FC"

subsection \<open>Bit patterns that are numbers\<close>

lemma fmt64_simps [simp]:
  "exp_bits fmt64 = 11" "frac_bits fmt64 = 52" "exp_ones fmt64 = 2047" "exp_min fmt64 = - 1074"
  "fsign_bit fmt64 s = (if s then 2 ^ 63 else 0)"
  by (simp_all add: fmt64_def exp_ones_def exp_min_def exp_bias_def fsign_bit_def)

definition decode_body :: "bool \<Rightarrow> nat \<Rightarrow> fnum" where
  "decode_body s body =
    (if body div 2 ^ 52 = 2047 then (if body mod 2 ^ 52 = 0 then Infty s else Nan)
     else if body div 2 ^ 52 = 0 then Fin s (body mod 2 ^ 52) (- 1074)
     else Fin s (2 ^ 52 + body mod 2 ^ 52) (- 1074 + int (body div 2 ^ 52) - 1))"

lemma fdecode_parts:
  assumes "body < 2 ^ 63"
  shows "fdecode fmt64 ((if s then 2 ^ 63 else 0) + body) = decode_body s body"
proof -
  have "(2 ^ 63 + body) div 2 ^ 52 = 2 ^ 63 div 2 ^ 52 + body div 2 ^ 52"
    by (rule div_plus_div_distrib_dvd_left) (rule le_imp_power_dvd, simp)
  moreover have small: "body div 2 ^ 52 < 2 ^ 11" using assms by (simp add: less_mult_imp_div_less)
  ultimately have div52: "((if s then 2 ^ 63 else 0) + body) div 2 ^ 52 mod 2 ^ 11 = body div 2 ^ 52"
    by (cases s) simp_all
  have "(2 ^ 63 + body) mod 2 ^ 52 = (2 ^ 63 mod 2 ^ 52 + body) mod 2 ^ 52" by (rule mod_add_left_eq [symmetric])
  then have mod52: "((if s then 2 ^ 63 else 0) + body) mod 2 ^ 52 = body mod 2 ^ 52" by (cases s) simp_all
  have "(2 ^ 63 + body) div 2 ^ 63 = 1" "body div 2 ^ 63 = 0" using assms by simp_all
  then have div63: "odd (((if s then 2 ^ 63 else 0) + body) div 2 ^ 63) = s" by (cases s) (simp_all only: if_True if_False add_0 odd_one even_zero simp_thms)
  have sixty_three: "11 + 52 = (63 :: nat)" by simp
  show ?thesis
    unfolding fdecode_def decode_body_def Let_def fmt64_simps
    by (simp only: sixty_three div52 mod52 div63)
qed

lemma f64_bits_split:
  fixes a :: "64 word"
  obtains s body where "unat a = (if s then 2 ^ 63 else 0) + body" and "body < 2 ^ 63"
proof (cases "unat a < 2 ^ 63")
  case False
  then show ?thesis using that [of True "unat a - 2 ^ 63"] unsigned_less [of a, where ?'a = nat] by simp
qed (use that [of False "unat a"] in simp)

lemma unat_of_nat_64: "n < 2 ^ 64 \<Longrightarrow> unat (of_nat n :: 64 word) = n"
  by (simp add: unat_of_nat)

lemma top_bit_div: "n < 9223372036854775808 \<Longrightarrow> (9223372036854775808 + n) div 9223372036854775808 = (1 :: nat)"
  by simp

lemma f64_num_bits: "body < 2 ^ 63 \<Longrightarrow> f64_num (of_nat ((if s then 2 ^ 63 else 0) + body)) = decode_body s body"
  unfolding f64_num_def using fdecode_parts [of body s] unat_of_nat_64 [of "(if s then 2 ^ 63 else 0) + body"]
  by (simp del: of_nat_add of_nat_numeral)

lemma fencode_parts:
  assumes "x \<noteq> Nan"
  obtains s body where "fencode fmt64 x = (if s then 2 ^ 63 else 0) + body" and "body < 2 ^ 63" and "decode_body s body \<noteq> Nan"
proof (cases x)
  case Nan
  then show ?thesis using assms by simp
next
  case (Infty s)
  then show ?thesis by (intro that [of s "2047 * 2 ^ 52"]) (simp_all add: decode_body_def)
next
  case (Fin s m e)
  show ?thesis
  proof (cases "m = 0")
    case True
    then show ?thesis using Fin by (intro that [of s 0]) (simp_all add: decode_body_def)
  next
    case False
    obtain body where "fround fmt64 s m e = (if s then 2 ^ 63 else 0) + (if 2047 \<le> body div 2 ^ 52 then 2047 * 2 ^ 52 else body)"
      unfolding fround_def Let_def fmt64_simps by blast
    then show ?thesis using Fin False
      by (intro that [of s "if 2047 \<le> body div 2 ^ 52 then 2047 * 2 ^ 52 else body"]) (auto simp: decode_body_def)
  qed
qed

lemma f64_num_of: "x \<noteq> Nan \<Longrightarrow> f64_num (f64_of x) \<noteq> Nan"
  using fencode_parts [of x] f64_num_bits by (metis f64_of_def)

lemma f64_num_neg: "f64_num a \<noteq> Nan \<Longrightarrow> f64_num (f64_neg a) = fnum_neg (f64_num a)"
proof -
  obtain s body where a: "unat a = (if s then 2 ^ 63 else 0) + body" and body: "body < 2 ^ 63" by (rule f64_bits_split)
  have "fneg_bits fmt64 (unat a) = (if \<not> s then 2 ^ 63 else 0) + body"
    using body top_bit_div by (simp add: fneg_bits_def a Let_def)
  then have neg: "f64_num (f64_neg a) = decode_body (\<not> s) body"
    using f64_num_bits [OF body, of "\<not> s"] by (simp add: f64_neg_def f64_lift1_def)
  have "f64_num a = decode_body s body" using fdecode_parts [OF body] a by (simp add: f64_num_def)
  then show "f64_num a \<noteq> Nan \<Longrightarrow> ?thesis" using neg by (auto simp: decode_body_def)
qed

lemma f64_num_zero [simp]: "f64_num f64_zero = Fin False 0 (- 1074)"
  using f64_num_bits [of 0 False] by (simp add: f64_zero_def decode_body_def)

lemma fnum_zero_less:
  "fnum_less (Fin False 0 q) x \<longleftrightarrow> (case x of Nan \<Rightarrow> False | Infty s \<Rightarrow> \<not> s | Fin s m e \<Rightarrow> \<not> s \<and> m \<noteq> 0)"
  by (cases x) (auto simp: signed_mant_def Let_def zero_less_mult_iff mult_less_0_iff)

lemma f64_less_neg: "f64_less f64_zero a \<Longrightarrow> \<not> f64_less f64_zero (f64_neg a)"
proof -
  assume less: "f64_less f64_zero a"
  then have "f64_num (f64_neg a) = fnum_neg (f64_num a)"
    using fnum_less_not_nan by (intro f64_num_neg) (auto simp: f64_less_def)
  then show ?thesis using less
    by (cases "f64_num a") (simp_all only: f64_less_def f64_num_zero fnum_zero_less fnum_neg.simps fnum.case simp_thms)
qed

subsection \<open>Curves\<close>

text \<open>A rising curve is computed from its mirror image.\<close>

function curve_normalized_to_unit :: "control_libm \<Rightarrow> 64 word \<Rightarrow> 64 word \<Rightarrow> 64 word" where
  "curve_normalized_to_unit m curve normalized =
     (if f64_less (f64_abs curve) curve_linear_epsilon then normalized
      else if f64_less f64_zero curve
      then f64_sub f64_one (curve_normalized_to_unit m (f64_neg curve) (f64_sub f64_one normalized))
      else f64_div (cl_exp_m1 m (f64_mul curve normalized)) (cl_exp_m1 m curve))"
  by pat_completeness auto
termination curve_normalized_to_unit
  by (relation "measure (\<lambda>(m, curve, x). if f64_less f64_zero curve then 1 else 0)") (auto dest: f64_less_neg)

function curve_unit_to_normalized :: "control_libm \<Rightarrow> 64 word \<Rightarrow> 64 word \<Rightarrow> 64 word" where
  "curve_unit_to_normalized m curve u =
     (if f64_less (f64_abs curve) curve_linear_epsilon then u
      else if f64_less f64_zero curve
      then f64_sub f64_one (curve_unit_to_normalized m (f64_neg curve) (f64_sub f64_one u))
      else f64_div (cl_ln_1p m (f64_mul u (cl_exp_m1 m curve))) curve)"
  by pat_completeness auto
termination curve_unit_to_normalized
  by (relation "measure (\<lambda>(m, curve, x). if f64_less f64_zero curve then 1 else 0)") (auto dest: f64_less_neg)

declare curve_normalized_to_unit.simps [simp del] curve_unit_to_normalized.simps [simp del]

text \<open>A logarithmic scale with a curve is unreachable in the code.\<close>

definition normalized_to_plain :: "control_libm \<Rightarrow> param_domain \<Rightarrow> 64 word \<Rightarrow> 64 word option" where
  "normalized_to_plain m d given =
     (let normalized = (if f64_is_nan given then f64_zero else f64_clamp given f64_zero f64_one) in
      if f64_eq normalized f64_zero then Some (pd_minimum d)
      else if f64_eq normalized f64_one then Some (pd_maximum d)
      else Option.bind
        (case (pd_curve d, pd_scale d) of
           (Some curve, Scale_Linear) \<Rightarrow>
             Some (linear_unit_to_plain (pd_minimum d) (pd_maximum d) (curve_normalized_to_unit m curve normalized))
         | (None, Scale_Linear) \<Rightarrow> Some (linear_unit_to_plain (pd_minimum d) (pd_maximum d) normalized)
         | (None, Scale_Log) \<Rightarrow>
             (let log_min = cl_ln m (pd_minimum d)
              in Some (cl_exp m (f64_add log_min (f64_mul normalized (f64_sub (cl_ln m (pd_maximum d)) log_min)))))
         | (Some _, Scale_Log) \<Rightarrow> None)
        (constrain_plain d))"

definition plain_to_normalized :: "control_libm \<Rightarrow> param_domain \<Rightarrow> 64 word \<Rightarrow> 64 word option" where
  "plain_to_normalized m d given =
     Option.bind (constrain_plain d given) (\<lambda>plain.
       if f64_eq plain (pd_minimum d) then Some f64_zero
       else if f64_eq plain (pd_maximum d) then Some f64_one
       else map_option (\<lambda>x. f64_clamp x f64_zero f64_one)
         (case (pd_curve d, pd_scale d) of
            (Some curve, Scale_Linear) \<Rightarrow>
              Some (curve_unit_to_normalized m curve (linear_plain_to_unit (pd_minimum d) (pd_maximum d) plain))
          | (None, Scale_Linear) \<Rightarrow> Some (linear_plain_to_unit (pd_minimum d) (pd_maximum d) plain)
          | (None, Scale_Log) \<Rightarrow>
              (let log_min = cl_ln m (pd_minimum d)
               in Some (f64_div (f64_sub (cl_ln m plain) log_min) (f64_sub (cl_ln m (pd_maximum d)) log_min)))
          | (Some _, Scale_Log) \<Rightarrow> None))"

subsection \<open>Values stay in the domain\<close>

lemma fnum_not_less: "x \<noteq> Nan \<Longrightarrow> y \<noteq> Nan \<Longrightarrow> \<not> fnum_less x y \<Longrightarrow> fnum_less y x \<or> fnum_eq y x"
  by (cases x; cases y) (auto simp: Let_def min.commute)

lemma fnum_eq_refl: "x \<noteq> Nan \<Longrightarrow> fnum_eq x x"
  by (cases x) (auto simp: Let_def)

lemma f64_le_iff: "f64_le a b \<longleftrightarrow> f64_num a \<noteq> Nan \<and> f64_num b \<noteq> Nan \<and> \<not> f64_less b a"
  unfolding f64_le_def f64_less_def f64_eq_def
  by (cases "f64_num a"; cases "f64_num b") (auto simp: Let_def min.commute)

lemma f64_clamp_bounds:
  assumes "f64_num x \<noteq> Nan" and "f64_le lo hi"
  shows "f64_le lo (f64_clamp x lo hi) \<and> f64_le (f64_clamp x lo hi) hi"
  using assms by (auto simp: f64_clamp_def f64_le_iff Let_def f64_less_def dest: fnum_less_asym)

definition in_domain :: "param_domain \<Rightarrow> 64 word \<Rightarrow> bool" where
  "in_domain d v \<longleftrightarrow> f64_le (pd_minimum d) v \<and> f64_le v (pd_maximum d)"

definition domain_ok :: "param_domain \<Rightarrow> bool" where
  "domain_ok d \<longleftrightarrow>
     f64_is_finite (pd_minimum d) \<and> f64_is_finite (pd_maximum d) \<and> f64_less (pd_minimum d) (pd_maximum d)
     \<and> (\<forall>step. pd_step d = Some step \<longrightarrow> f64_is_finite step \<and> f64_less f64_zero step)
     \<and> \<not> (pd_scale d = Scale_Log \<and> pd_curve d \<noteq> None)"

lemma f64_le_total: "f64_num a \<noteq> Nan \<Longrightarrow> f64_num b \<noteq> Nan \<Longrightarrow> \<not> f64_le b a \<longleftrightarrow> f64_less a b"
  by (auto simp: f64_le_iff)

lemma f64_finite_num: "f64_is_finite a \<Longrightarrow> f64_num a \<noteq> Nan"
  by (auto simp: f64_is_finite_def)

lemma param_domain_new_ok: "param_domain_new scalar lo hi scale curve u step n = Some d \<Longrightarrow> domain_ok d"
  by (auto simp: param_domain_new_def domain_ok_def Let_def option_fails_def f64_finite_num f64_le_total [symmetric]
      split: if_splits option.splits)

lemma f64_between_finite:
  assumes "f64_le lo x" and "f64_le x hi" and "f64_is_finite lo" and "f64_is_finite hi"
  shows "f64_is_finite x"
  using assms by (cases "f64_num x"; cases "f64_num lo"; cases "f64_num hi") (auto simp: f64_le_iff f64_less_def f64_is_finite_def)

lemma f64_sub_num: "f64_is_finite a \<Longrightarrow> f64_is_finite b \<Longrightarrow> f64_num (f64_sub a b) \<noteq> Nan"
  unfolding f64_sub_def f64_is_finite_def
  by (intro f64_num_of) (cases "f64_num a"; cases "f64_num b"; simp add: Let_def)

lemma f64_add_num: "f64_is_finite a \<Longrightarrow> f64_num b \<noteq> Nan \<Longrightarrow> f64_num (f64_add a b) \<noteq> Nan"
  unfolding f64_add_def f64_is_finite_def
  by (intro f64_num_of) (cases "f64_num a"; cases "f64_num b"; simp add: Let_def)

lemma f64_positive_Fin:
  assumes "f64_is_finite b" and "f64_less f64_zero b"
  obtains m e where "f64_num b = Fin False m e" and "m \<noteq> 0"
  using assms by (cases "f64_num b") (auto simp: f64_is_finite_def f64_less_def Let_def signed_mant_def zero_less_mult_iff mult_less_0_iff split: if_splits)

lemma f64_div_num: "f64_num a \<noteq> Nan \<Longrightarrow> f64_is_finite b \<Longrightarrow> f64_less f64_zero b \<Longrightarrow> f64_num (f64_div a b) \<noteq> Nan"
  unfolding f64_div_def
  by (intro f64_num_of, erule (1) f64_positive_Fin) (cases "f64_num a"; simp add: Let_def)

lemma f64_mul_num: "f64_num a \<noteq> Nan \<Longrightarrow> f64_is_finite b \<Longrightarrow> f64_less f64_zero b \<Longrightarrow> f64_num (f64_mul a b) \<noteq> Nan"
  unfolding f64_mul_def
  by (intro f64_num_of, erule (1) f64_positive_Fin) (cases "f64_num a"; simp add: Let_def)

lemma f64_round_num: "f64_num a \<noteq> Nan \<Longrightarrow> f64_num (f64_round a) \<noteq> Nan"
proof -
  assume a: "f64_num a \<noteq> Nan"
  have "fnum_integral round_rule (Fin s m e) \<noteq> Nan" for s m e by (simp add: Let_def)
  then have "f64_num (f64_of (fnum_integral round_rule (Fin s m e))) \<noteq> Nan" for s m e by (rule f64_num_of)
  then show ?thesis using a
    by (cases "f64_num a") (auto simp: f64_round_def f64_lift1_def fintegral_bits_def f64_num_def f64_of_def simp del: fnum_integral.simps)
qed

lemma domain_bounds: "domain_ok d \<Longrightarrow> f64_le (pd_minimum d) (pd_maximum d)"
  by (auto simp: domain_ok_def f64_le_def)

lemma clamp_in_domain:
  assumes "domain_ok d" and "f64_num x \<noteq> Nan"
  shows "\<exists>v. checked_clamp x (pd_minimum d) (pd_maximum d) = Some v \<and> in_domain d v"
  using f64_clamp_bounds [OF assms(2) domain_bounds [OF assms(1)]] domain_bounds [OF assms(1)]
  by (simp add: checked_clamp_def in_domain_def)

lemma constrain_plain_in_domain:
  assumes "domain_ok d"
  shows "\<exists>v. constrain_plain d plain = Some v \<and> in_domain d v"
proof -
  note bounds = domain_bounds [OF assms]
  obtain clamped where clamped: "in_domain d clamped"
      "(if f64_is_nan plain then Some (pd_minimum d) else checked_clamp plain (pd_minimum d) (pd_maximum d)) = Some clamped"
  proof (cases "f64_is_nan plain")
    case True
    then show ?thesis using that [of "pd_minimum d"] bounds
      by (auto simp: in_domain_def f64_le_iff f64_less_def)
  next
    case False
    then show ?thesis using that clamp_in_domain [OF assms, of plain] by (auto simp: f64_is_nan_def)
  qed
  show ?thesis
  proof (cases "pd_step d")
    case None
    then show ?thesis using clamped by (simp add: constrain_plain_def)
  next
    case (Some step)
    have finite: "f64_is_finite (pd_minimum d)" "f64_is_finite (pd_maximum d)" "f64_is_finite step" "f64_less f64_zero step"
      using assms Some by (auto simp: domain_ok_def)
    have "f64_is_finite clamped" using clamped(1) finite by (auto simp: in_domain_def intro: f64_between_finite)
    then have "f64_num (f64_add (pd_minimum d) (f64_mul (f64_round (f64_div (f64_sub clamped (pd_minimum d)) step)) step)) \<noteq> Nan"
      using finite by (intro f64_add_num f64_mul_num f64_round_num f64_div_num f64_sub_num)
    then show ?thesis using clamp_in_domain [OF assms] clamped(2) Some by (simp add: constrain_plain_def)
  qed
qed

lemma f64_num_one: "f64_num f64_one = Fin False (2 ^ 52) (- 52)"
  using f64_num_bits [of "1023 * 2 ^ 52" False] by (simp add: f64_one_def decode_body_def)

lemma f64_unit_values:
  "\<not> f64_is_nan f64_zero" "\<not> f64_is_nan f64_one" "f64_clamp f64_zero f64_zero f64_one = f64_zero"
  "f64_clamp f64_one f64_zero f64_one = f64_one" "f64_eq f64_zero f64_zero" "\<not> f64_eq f64_one f64_zero" "f64_eq f64_one f64_one"
  by (simp_all add: f64_is_nan_def f64_clamp_def f64_eq_def f64_less_def f64_num_one signed_mant_def Let_def)

lemma normalized_to_plain_in_domain:
  assumes "domain_ok d"
  shows "\<exists>w. normalized_to_plain m d x = Some w \<and> in_domain d w"
proof -
  have ends: "in_domain d (pd_minimum d)" "in_domain d (pd_maximum d)"
    using domain_bounds [OF assms] by (auto simp: in_domain_def f64_le_iff f64_less_def)
  have total: "\<exists>w. Option.bind (Some plain) (constrain_plain d) = Some w \<and> in_domain d w" for plain
    using constrain_plain_in_domain [OF assms] by simp
  show ?thesis
  proof (cases "pd_scale d")
    case Scale_Linear
    then show ?thesis unfolding normalized_to_plain_def Let_def using ends total by (simp split: option.split)
  next
    case Scale_Log
    then have "pd_curve d = None" using assms by (simp add: domain_ok_def)
    with Scale_Log show ?thesis unfolding normalized_to_plain_def Let_def using ends total by simp
  qed
qed

text \<open>C29: a prepared domain never lets a value escape: whatever a host sends, a NaN included, and whatever its
  mathematical library computes, constraining a plain value and converting a normalized one do not panic and end between
  the minimum and the maximum; the ends of the normalized range are the ends of the plain one.\<close>

theorem param_domain_contains:
  assumes "param_domain_new scalar lo hi scale curve u step n = Some d"
  shows "\<exists>v w. constrain_plain d x = Some v \<and> in_domain d v \<and> normalized_to_plain m d x = Some w \<and> in_domain d w
    \<and> normalized_to_plain m d f64_zero = Some (pd_minimum d) \<and> normalized_to_plain m d f64_one = Some (pd_maximum d)"
proof -
  have ok: "domain_ok d" using param_domain_new_ok [OF assms] .
  have "normalized_to_plain m d f64_zero = Some (pd_minimum d)" "normalized_to_plain m d f64_one = Some (pd_maximum d)"
    by (simp_all add: normalized_to_plain_def f64_unit_values)
  then show ?thesis using constrain_plain_in_domain [OF ok, of x] normalized_to_plain_in_domain [OF ok, of m x] by blast
qed

text \<open>The unit range in \<open>f64\<close>, without a step.\<close>

definition demo_domain :: param_domain where
  "demo_domain =
     \<lparr>pd_scalar = TF64, pd_minimum = f64_zero, pd_maximum = f64_one, pd_scale = Scale_Linear, pd_curve = None, pd_unit = Some ''dB'',
      pd_step = None, pd_step_count = None\<rparr>"

lemma demo_domain_new:
  "param_domain_new TF64 f64_zero f64_one Scale_Linear None (Some ''dB'') None None = Some demo_domain"
  by (simp add: param_domain_new_def demo_domain_def storage_value_def option_fails_def f64_is_finite_def f64_num_one
      f64_le_iff f64_less_def signed_mant_def host_control_value_fits_scalar_def Let_def)

lemma param_domain_contains_witness:
  "\<exists>v. constrain_plain demo_domain 0x7FF8000000000000 = Some v \<and> in_domain demo_domain v"
  using param_domain_contains [OF demo_domain_new, of "0x7FF8000000000000"] by blast

end
