(* ===== verification/Validate_Interface.thy ===== *)
theory Validate_Interface
  imports Validate_Types Param_Domain Payload_Layout
begin

section \<open>Validation: the interface\<close>

text \<open>
  The checks of the interface tables in \<open>onda_mir/src/validate.rs\<close>: names, groups of buffers, the mirrors of control outputs,
  constants and ranges, the controls of parameters, and (\<open>validate/messages.rs\<close>) the parameters of events and delegates
  against their schemas.
\<close>

subsection \<open>Names\<close>

fun duplicate_names :: "string \<Rightarrow> string list \<Rightarrow> string list \<Rightarrow> validation_error list" where
  "duplicate_names message seen [] = []"
| "duplicate_names message seen (x # xs) =
     (if x \<in> set seen then program_error message else []) @ duplicate_names message (x # seen) xs"

text \<open>A declaration with its own parameters and the message for a duplicate among them.\<close>

fun interface_name_errors :: "(string \<times> string \<times> string list) list \<Rightarrow> string list \<Rightarrow> validation_error list" where
  "interface_name_errors [] seen = []"
| "interface_name_errors ((name, message, params) # rest) seen =
     (if name \<in> set seen then program_error ''interface name '{}' is used by both {} and {}'' else [])
     @ duplicate_names message [] params
     @ interface_name_errors rest (name # seen)"

definition plain_item :: "string \<Rightarrow> string \<times> string \<times> string list" where
  "plain_item name = (name, [], [])"

definition interface_items :: "interface \<Rightarrow> (string \<times> string \<times> string list) list" where
  "interface_items i =
     map (plain_item \<circ> input_name) (if_inputs i) @ map (plain_item \<circ> output_name) (if_outputs i)
     @ map (plain_item \<circ> co_name) (if_control_outputs i) @ map (plain_item \<circ> param_name) (if_params i)
     @ map (plain_item \<circ> buf_name) (if_buffers i) @ map (plain_item \<circ> ba_name) (if_buffer_arrays i)
     @ map (\<lambda>e. (ev_name e, ''event '{}' has duplicate parameter name '{}'' @ [CHR 0x27], map ep_name (ev_params e))) (if_events i)
     @ map (\<lambda>d. (dg_name d, ''delegate '{}' has duplicate parameter name '{}'' @ [CHR 0x27], map dp_name (dg_params d))) (if_delegates i)"

definition validate_interface_names :: "program \<Rightarrow> validation_error list" where
  "validate_interface_names p = interface_name_errors (interface_items (pr_interface p)) []"

subsection \<open>Groups of buffers\<close>

text \<open>\<open>occupied\<close> marks the buffers that belong to a group already.\<close>

fun claim_buffers :: "program \<Rightarrow> mir_buffer \<Rightarrow> nat list \<Rightarrow> bool list \<Rightarrow> bool list \<times> validation_error list" where
  "claim_buffers p expected [] occupied = (occupied, [])"
| "claim_buffers p expected (index # rest) occupied =
     (let (occupied', errors) = claim_buffers p expected rest (occupied[index := True])
      in (occupied',
          (if occupied ! index then program_error ''buffer arrays '{}' and '{}' overlap at buffer {}'' else [])
          @ (if \<not> same_descriptor (if_buffers (pr_interface p) ! index) expected
             then program_error (''buffer array '{}' contains incompatible descriptor '{}'' @ [CHR 0x27]) else [])
          @ errors))"

definition validate_buffer_array :: "program \<Rightarrow> buffer_array \<Rightarrow> bool list \<Rightarrow> bool list \<times> validation_error list" where
  "validate_buffer_array p grp occupied =
     (let buffers = if_buffers (pr_interface p); first = ba_first grp; end_at = first + ba_len grp in
      if ba_len grp = 0 then (occupied, program_error ''buffer array '{}' has zero length'')
      else if 2 ^ 64 \<le> end_at then (occupied, program_error ''buffer array '{}' range overflows'')
      else if length buffers < end_at then (occupied, program_error ''buffer array '{}' range {}..{} exceeds {} buffers'')
      else claim_buffers p (buffers ! first) [first..<end_at] occupied)"

fun validate_groups :: "program \<Rightarrow> buffer_array list \<Rightarrow> bool list \<Rightarrow> validation_error list" where
  "validate_groups p [] occupied = []"
| "validate_groups p (grp # rest) occupied =
     (let (occupied', errors) = validate_buffer_array p grp occupied in errors @ validate_groups p rest occupied')"

definition validate_buffer_arrays :: "program \<Rightarrow> validation_error list" where
  "validate_buffer_arrays p =
     validate_groups p (if_buffer_arrays (pr_interface p)) (replicate (length (if_buffers (pr_interface p))) False)"

subsection \<open>Mirrors of control outputs\<close>

text \<open>The counts saturate at the largest \<open>u32\<close>.\<close>

fun count_mirrors :: "program \<Rightarrow> control_output list \<Rightarrow> nat list \<Rightarrow> nat list \<times> validation_error list" where
  "count_mirrors p [] counts = (counts, [])"
| "count_mirrors p (out # rest) counts =
     (case nth_opt (pr_state p) (co_mirror out) of
        None \<Rightarrow> map_prod id (append (program_error ''control output '{}' references missing mirror state {}'')) (count_mirrors p rest counts)
      | Some slot \<Rightarrow>
          map_prod id (append
              ((if ss_persistence slot \<noteq> ControlMirror
                then program_error ''control output '{}' mirror state '{}' is not a control mirror'' else [])
               @ (if \<not> types_equivalent p (co_ty out) (ss_ty slot)
                  then program_error ''control output '{}' type {} does not match mirror state '{}' type {}'' else [])))
            (count_mirrors p rest (counts[co_mirror out := min 4294967295 (counts ! co_mirror out + 1)])))"

definition mirror_use_errors :: "state_slot \<Rightarrow> nat \<Rightarrow> validation_error list" where
  "mirror_use_errors slot count =
     (if ss_persistence slot \<noteq> ControlMirror then []
      else if count = 0 then program_error ''control mirror state '{}' is not referenced by a control output''
      else if count = 1 then []
      else program_error ''control mirror state '{}' is referenced by {} control outputs'')"

definition validate_control_output_mirrors :: "program \<Rightarrow> validation_error list" where
  "validate_control_output_mirrors p =
     (let (counts, errors) = count_mirrors p (if_control_outputs (pr_interface p)) (replicate (length (pr_state p)) 0)
      in errors @ concat (map (\<lambda>(slot, count). mirror_use_errors slot count) (zip (pr_state p) counts)))"

subsection \<open>Constants and ranges\<close>

fun constant_matches_type :: "program \<Rightarrow> constant_value \<Rightarrow> type_id \<Rightarrow> bool"
  and constants_match :: "program \<Rightarrow> constant_value list \<Rightarrow> type_id list \<Rightarrow> bool" where
  "constant_matches_type p (C_Scalar v) ty = (nth_opt (pr_types p) ty = Some (T_Scalar (scalar_ty v)))"
| "constant_matches_type p (C_Aggregate vs) ty =
     (case nth_opt (pr_types p) ty of
        Some (T_Tuple elements) \<Rightarrow> length vs = length elements \<and> constants_match p vs elements
      | Some (T_Array element len) \<Rightarrow> length vs = len \<and> constants_match p vs (replicate (length vs) element)
      | Some (T_Struct s) \<Rightarrow>
          (case nth_opt (pr_structs p) s of
             None \<Rightarrow> False
           | Some st \<Rightarrow> length vs = length (st_fields st) \<and> constants_match p vs (map sf_ty (st_fields st)))
      | _ \<Rightarrow> False)"
| "constants_match p (v # vs) (ty # tys) = (constant_matches_type p v ty \<and> constants_match p vs tys)"
| "constants_match p _ _ = True"

definition float_range_error :: "float_format \<Rightarrow> nat \<Rightarrow> nat \<Rightarrow> string option" where
  "float_range_error f lo hi =
     (if \<not> fnum_finite (fdecode f lo) \<or> \<not> fnum_finite (fdecode f hi) then Some ''endpoints must be finite''
      else if fless_bits f hi lo then Some ''minimum is greater than its maximum'' else None)"

definition value_range_validation_error :: "program \<Rightarrow> value_range \<Rightarrow> type_id \<Rightarrow> string option" where
  "value_range_validation_error p r ty =
     (case nth_opt (pr_types p) ty of
        Some (T_Scalar expected) \<Rightarrow>
          if scalar_ty (range_min r) \<noteq> expected \<or> scalar_ty (range_max r) \<noteq> expected then Some ''does not match scalar type {}''
          else (case (range_min r, range_max r) of
             (F32 lo, F32 hi) \<Rightarrow> float_range_error fmt32 (unat lo) (unat hi)
           | (F64 lo, F64 hi) \<Rightarrow> float_range_error fmt64 (unat lo) (unat hi)
           | (I32 lo, I32 hi) \<Rightarrow> if sint hi < sint lo then Some ''minimum is greater than its maximum'' else None
           | (I64 lo, I64 hi) \<Rightarrow> if sint hi < sint lo then Some ''minimum is greater than its maximum'' else None
           | (Bool _, Bool _) \<Rightarrow> Some ''is not supported for bool''
           | _ \<Rightarrow> Some ''does not match scalar type {}'')
      | _ \<Rightarrow> Some ''does not apply to non-scalar type {}'')"

definition integer_range_validation_error :: "program \<Rightarrow> integer_range_invariant \<Rightarrow> type_id \<Rightarrow> string option" where
  "integer_range_validation_error p r ty =
     (case value_range_validation_error p \<lparr>range_min = inv_min r, range_max = inv_max r\<rparr> ty of
        Some reason \<Rightarrow> Some reason
      | None \<Rightarrow> if scalar_ty (inv_min r) \<in> {TI32, TI64} then None else Some ''requires an i32 or i64 scalar type'')"

definition float_within :: "float_format \<Rightarrow> nat \<Rightarrow> nat \<Rightarrow> nat \<Rightarrow> bool" where
  "float_within f v lo hi \<longleftrightarrow>
     fnum_finite (fdecode f v) \<and> (fless_bits f lo v \<or> feq_bits f lo v) \<and> (fless_bits f v hi \<or> feq_bits f v hi)"

definition scalar_within_range :: "scalar_value \<Rightarrow> value_range \<Rightarrow> bool" where
  "scalar_within_range v r =
     (case (v, range_min r, range_max r) of
        (F32 x, F32 lo, F32 hi) \<Rightarrow> float_within fmt32 (unat x) (unat lo) (unat hi)
      | (F64 x, F64 lo, F64 hi) \<Rightarrow> float_within fmt64 (unat x) (unat lo) (unat hi)
      | (I32 x, I32 lo, I32 hi) \<Rightarrow> sint lo \<le> sint x \<and> sint x \<le> sint hi
      | (I64 x, I64 lo, I64 hi) \<Rightarrow> sint lo \<le> sint x \<and> sint x \<le> sint hi
      | _ \<Rightarrow> False)"

fun constant_is_within_range :: "constant_value \<Rightarrow> value_range \<Rightarrow> bool" where
  "constant_is_within_range (C_Scalar v) r = scalar_within_range v r"
| "constant_is_within_range (C_Aggregate vs) r = list_all (\<lambda>v. constant_is_within_range v r) vs"

subsection \<open>Controls of parameters\<close>

definition float_control_grid_error ::
  "scalar_type \<Rightarrow> 64 word \<Rightarrow> 64 word \<Rightarrow> 64 word \<Rightarrow> 64 word \<Rightarrow> u32 \<Rightarrow> string option" where
  "float_control_grid_error scalar lo hi given step step_count =
     (if \<not> f64_is_finite step \<or> f64_le step f64_zero then Some ''step must be finite and greater than zero''
      else if validated_step_count scalar lo hi step \<noteq> Some step_count then Some ''step_count does not match the range and step''
      else if \<not> value_is_on_step_grid scalar lo given step step_count then Some ''default is not on the step grid''
      else None)"

definition integer_control_grid_error :: "int \<Rightarrow> int \<Rightarrow> int \<Rightarrow> int \<Rightarrow> u32 \<Rightarrow> string option" where
  "integer_control_grid_error lo hi given step step_count =
     (if step \<le> 0 then Some ''step must be greater than zero''
      else if (hi - lo) smod step \<noteq> 0 \<or> (hi - lo) sdiv step \<noteq> uint step_count
      then Some ''step_count does not match the range and step''
      else if (given - lo) smod step \<noteq> 0 then Some ''default is not on the step grid''
      else None)"

definition control_grid_error :: "value_range \<Rightarrow> scalar_value \<Rightarrow> scalar_value \<Rightarrow> u32 \<Rightarrow> string option" where
  "control_grid_error r given step step_count =
     (case (range_min r, range_max r, given, step) of
        (I32 lo, I32 hi, I32 d, I32 s) \<Rightarrow> integer_control_grid_error (sint lo) (sint hi) (sint d) (sint s) step_count
      | (I64 lo, I64 hi, I64 d, I64 s) \<Rightarrow> integer_control_grid_error (sint lo) (sint hi) (sint d) (sint s) step_count
      | (F32 lo, F32 hi, F32 d, F32 s) \<Rightarrow>
          float_control_grid_error TF32 (f32_to_f64 lo) (f32_to_f64 hi) (f32_to_f64 d) (f32_to_f64 s) step_count
      | (F64 lo, F64 hi, F64 d, F64 s) \<Rightarrow> float_control_grid_error TF64 lo hi d s step_count
      | _ \<Rightarrow> Some ''step requires a numeric scalar parameter'')"

definition exact_host_range :: "value_range \<Rightarrow> bool" where
  "exact_host_range r \<longleftrightarrow>
     (case (range_min r, range_max r) of
        (I64 lo, I64 hi) \<Rightarrow>
          \<bar>sint lo\<bar> \<le> max_exact_host_control_integer \<and> \<bar>sint hi\<bar> \<le> max_exact_host_control_integer
          \<and> sint hi - sint lo \<le> max_exact_host_control_integer
      | _ \<Rightarrow> True)"

definition log_scale_error :: "scalar_type \<Rightarrow> 64 word \<Rightarrow> param_control \<Rightarrow> string option" where
  "log_scale_error ty lo control =
     (if pc_scale control \<noteq> Scale_Log then None
      else if pc_curve control \<noteq> None then Some ''cannot combine logarithmic scale with curve''
      else if ty \<notin> {TF32, TF64} then Some ''logarithmic scale requires f32 or f64''
      else if f64_le lo f64_zero then Some ''logarithmic scale requires min > 0''
      else if pc_step control \<noteq> None \<or> pc_step_count control \<noteq> None then Some ''cannot combine logarithmic scale with step''
      else None)"

definition scalar_control_error :: "program \<Rightarrow> type_id \<Rightarrow> constant_value \<Rightarrow> value_range \<Rightarrow> param_control \<Rightarrow> string option" where
  "scalar_control_error p ty_id given r control =
     (if option_fails (\<lambda>u. CHR 0x00 \<in> set u) (pc_unit control) then Some ''unit must not contain a NUL character''
      else case nth_opt (pr_types p) ty_id of
        Some (T_Scalar ty) \<Rightarrow>
          if \<not> exact_host_range r then Some ''i64 range and width must fit the exact host integer range''
          else if f64_le (as_f64 (range_max r)) (as_f64 (range_min r)) then Some ''range requires min < max''
          else if option_fails (\<lambda>c. \<not> f64_is_finite c) (pc_curve control) then Some ''curve must be finite''
          else (case log_scale_error ty (as_f64 (range_min r)) control of
             Some e \<Rightarrow> Some e
           | None \<Rightarrow>
               (case (pc_step control, pc_step_count control) of
                  (Some step, Some step_count) \<Rightarrow>
                    if scalar_ty step \<noteq> ty then Some ''step does not match the parameter scalar type''
                    else if step_count = 0 then Some ''step_count must be greater than zero''
                    else (case given of
                       C_Aggregate _ \<Rightarrow> Some ''requires a scalar default''
                     | C_Scalar v \<Rightarrow> control_grid_error r v step step_count)
                | (None, None) \<Rightarrow> if ty \<in> {TI32, TI64} then Some ''integer ranges require a step'' else None
                | _ \<Rightarrow> Some ''step and step_count must either both be present or absent''))
      | _ \<Rightarrow> Some ''requires a scalar parameter'')"

text \<open>An array parameter is checked default by default.\<close>

fun param_control_validation_error ::
    "program \<Rightarrow> type_id \<Rightarrow> constant_value \<Rightarrow> value_range \<Rightarrow> param_control \<Rightarrow> string option"
  and param_controls_error ::
    "program \<Rightarrow> type_id \<Rightarrow> constant_value list \<Rightarrow> value_range \<Rightarrow> param_control \<Rightarrow> string option" where
  "param_control_validation_error p ty (C_Scalar v) r control =
     (case nth_opt (pr_types p) ty of
        Some (T_Array element len) \<Rightarrow> Some ''requires array defaults''
      | _ \<Rightarrow> scalar_control_error p ty (C_Scalar v) r control)"
| "param_control_validation_error p ty (C_Aggregate vs) r control =
     (case nth_opt (pr_types p) ty of
        Some (T_Array element len) \<Rightarrow> param_controls_error p element vs r control
      | _ \<Rightarrow> scalar_control_error p ty (C_Aggregate vs) r control)"
| "param_controls_error p ty [] r control = None"
| "param_controls_error p ty (v # vs) r control =
     (case param_control_validation_error p ty v r control of
        Some e \<Rightarrow> Some e
      | None \<Rightarrow> param_controls_error p ty vs r control)"

subsection \<open>Events and delegates against their schemas\<close>

fun encoding_of_scalar :: "scalar_type \<Rightarrow> scalar_encoding" where
  "encoding_of_scalar TF32 = Enc_F32"
| "encoding_of_scalar TF64 = Enc_F64"
| "encoding_of_scalar TI32 = Enc_I32"
| "encoding_of_scalar TI64 = Enc_I64"
| "encoding_of_scalar TBool = Enc_Bool"

definition leaf_element :: "program \<Rightarrow> bool \<Rightarrow> payload_tensor \<Rightarrow> type_id \<Rightarrow> scalar_type option" where
  "leaf_element p dynamic leaf ty =
     (case nth_opt (pr_types p) ty of
        Some (T_Scalar s) \<Rightarrow> if \<not> dynamic \<and> pt_shape leaf = [] then Some s else None
      | Some (T_Array element len) \<Rightarrow>
          if \<not> dynamic \<and> pt_shape leaf \<noteq> [] \<and> len = pt_elements leaf
          then (case nth_opt (pr_types p) element of Some (T_Scalar s) \<Rightarrow> Some s | _ \<Rightarrow> None) else None
      | Some (T_Slice element ReadOnly) \<Rightarrow> if dynamic then Some element else None
      | _ \<Rightarrow> None)"

definition leaf_matches :: "program \<Rightarrow> bool \<Rightarrow> payload_tensor \<Rightarrow> (string \<times> type_id) list \<Rightarrow> bool" where
  "leaf_matches p dynamic leaf params \<longleftrightarrow>
     (case nth_opt params (pt_parameter leaf) of
        None \<Rightarrow> True
      | Some (path, ty) \<Rightarrow> path = pt_path leaf \<and> map_option encoding_of_scalar (leaf_element p dynamic leaf ty) = Some (pt_encoding leaf))"

definition length_parameter_matches :: "program \<Rightarrow> parameter_plan \<Rightarrow> string \<Rightarrow> (string \<times> type_id) list \<Rightarrow> bool" where
  "length_parameter_matches p grp name params \<longleftrightarrow>
     (case pp_length_parameter grp of
        None \<Rightarrow> True
      | Some index \<Rightarrow>
          (case nth_opt params index of
             None \<Rightarrow> False
           | Some (path, ty) \<Rightarrow> path = name \<and> nth_opt (pr_types p) ty = Some (T_Scalar TI32)))"

text \<open>A tensor index out of range is a panic.\<close>

definition group_matches :: "program \<Rightarrow> payload_plan \<Rightarrow> parameter_plan \<Rightarrow> string \<Rightarrow> (string \<times> type_id) list \<Rightarrow> bool option" where
  "group_matches p plan grp name params =
     (if list_ex (\<lambda>index. length (plan_tensors plan) \<le> index) (indices (pp_tensors grp)) then None
      else Some (length_parameter_matches p grp name params
        \<and> list_all (\<lambda>index. leaf_matches p (pp_dynamic grp) (plan_tensors plan ! index) params) (indices (pp_tensors grp))))"

definition schema_matches :: "program \<Rightarrow> payload_plan \<Rightarrow> payload_field list \<Rightarrow> (string \<times> type_id) list \<Rightarrow> bool option" where
  "schema_matches p plan fs params =
     map_option (\<lambda>matches. length params = abi_parameter_count plan \<and> list_all id matches)
       (those (map (\<lambda>(grp, field). group_matches p plan grp (pf_name field) params) (zip (plan_params plan) fs)))"

definition validate_message_schema :: "program \<Rightarrow> payload_schema \<Rightarrow> (string \<times> type_id) list \<Rightarrow> validation_error list option" where
  "validate_message_schema p schema params =
     (case payload_plan_new schema of
        None \<Rightarrow> None
      | Some (Inl e) \<Rightarrow> Some (program_error ''message '{}' has an invalid schema: {}'')
      | Some (Inr plan) \<Rightarrow>
          map_option (\<lambda>ok. if ok then [] else program_error ''message '{}' tensor parameters do not match its recursive schema'')
            (schema_matches p plan (schema_params schema) params))"

definition validate_message_schemas :: "program \<Rightarrow> validation_error list option" where
  "validate_message_schemas p =
     map_option concat (those
       (map (\<lambda>e. validate_message_schema p (ev_schema e) (map (\<lambda>x. (ep_name x, ep_ty x)) (ev_params e))) (if_events (pr_interface p))
        @ map (\<lambda>d. validate_message_schema p (dg_schema d) (map (\<lambda>x. (dp_name x, dp_ty x)) (dg_params d))) (if_delegates (pr_interface p))))"

subsection \<open>What the checks establish\<close>

subsubsection \<open>Names\<close>

lemma duplicate_names_Nil: "duplicate_names message seen xs = [] \<longleftrightarrow> distinct xs \<and> set xs \<inter> set seen = {}"
  by (induction message seen xs rule: duplicate_names.induct) auto

lemma interface_name_errors_Nil:
  "interface_name_errors items seen = []
     \<longleftrightarrow> distinct (map fst items) \<and> fst ` set items \<inter> set seen = {} \<and> (\<forall>(name, message, params) \<in> set items. distinct params)"
  by (induction items seen rule: interface_name_errors.induct) (auto simp: duplicate_names_Nil)

text \<open>The names of an interface in the order of their declaration.\<close>

definition interface_names :: "interface \<Rightarrow> string list" where
  "interface_names i =
     map input_name (if_inputs i) @ map output_name (if_outputs i) @ map co_name (if_control_outputs i)
     @ map param_name (if_params i) @ map buf_name (if_buffers i) @ map ba_name (if_buffer_arrays i)
     @ map ev_name (if_events i) @ map dg_name (if_delegates i)"

text \<open>The check of names is exact: it reports nothing exactly when no two inputs, outputs, parameters, buffers, groups of
  buffers, events and delegates share a name, and no event or delegate names two of its parameters alike.\<close>

theorem interface_names_exact:
  "validate_interface_names p = [] \<longleftrightarrow>
     distinct (interface_names (pr_interface p))
     \<and> (\<forall>e \<in> set (if_events (pr_interface p)). distinct (map ep_name (ev_params e)))
     \<and> (\<forall>d \<in> set (if_delegates (pr_interface p)). distinct (map dp_name (dg_params d)))"
proof -
  have "map fst (interface_items (pr_interface p)) = interface_names (pr_interface p)"
    by (simp add: interface_items_def interface_names_def plain_item_def comp_def)
  moreover have "(\<forall>(name, message, params) \<in> set (interface_items (pr_interface p)). distinct params)
      \<longleftrightarrow> (\<forall>e \<in> set (if_events (pr_interface p)). distinct (map ep_name (ev_params e)))
        \<and> (\<forall>d \<in> set (if_delegates (pr_interface p)). distinct (map dp_name (dg_params d)))"
    by (simp add: interface_items_def plain_item_def ball_Un ball_simps)
  ultimately show ?thesis by (simp add: validate_interface_names_def interface_name_errors_Nil)
qed

subsubsection \<open>Groups of buffers\<close>

definition group_range :: "buffer_array \<Rightarrow> nat set" where
  "group_range g = {ba_first g..<ba_first g + ba_len g}"

text \<open>A group of at least one buffer, inside the table, whose buffers look alike.\<close>

definition group_wellformed :: "program \<Rightarrow> buffer_array \<Rightarrow> bool" where
  "group_wellformed p g \<longleftrightarrow>
     (let buffers = if_buffers (pr_interface p) in
      0 < ba_len g \<and> ba_first g + ba_len g < 2 ^ 64 \<and> ba_first g + ba_len g \<le> length buffers
      \<and> (\<forall>k \<in> group_range g. same_descriptor (buffers ! k) (buffers ! ba_first g)))"

lemma claim_buffers_correct:
  assumes "claim_buffers p expected ks occupied = (occupied', errors)" and "distinct ks" and "set ks \<subseteq> {..<length occupied}"
  shows "length occupied' = length occupied \<and> (\<forall>k < length occupied. occupied' ! k \<longleftrightarrow> occupied ! k \<or> k \<in> set ks)
    \<and> (errors = [] \<longleftrightarrow> (\<forall>k \<in> set ks. \<not> occupied ! k \<and> same_descriptor (if_buffers (pr_interface p) ! k) expected))"
  using assms
proof (induction ks arbitrary: occupied occupied' errors)
  case (Cons k ks)
  obtain occupied'' errors' where rest: "claim_buffers p expected ks (occupied[k := True]) = (occupied'', errors')" by fastforce
  have IH: "length occupied'' = length occupied \<and> (\<forall>j < length occupied. occupied'' ! j \<longleftrightarrow> occupied[k := True] ! j \<or> j \<in> set ks)
    \<and> (errors' = [] \<longleftrightarrow> (\<forall>j \<in> set ks. \<not> occupied[k := True] ! j \<and> same_descriptor (if_buffers (pr_interface p) ! j) expected))"
    using Cons.IH [OF rest] Cons.prems by simp
  have "occupied[k := True] ! j = occupied ! j" if "j \<in> set ks" for j using that Cons.prems(2) by (metis distinct.simps(2) nth_list_update_neq)
  then show ?case using IH Cons.prems rest by (auto simp: nth_list_update split: if_splits)
qed auto

lemma validate_buffer_array_correct:
  assumes "validate_buffer_array p g occupied = (occupied', errors)" and "length occupied = length (if_buffers (pr_interface p))"
  shows "length occupied' = length occupied
    \<and> (errors = [] \<longleftrightarrow> group_wellformed p g \<and> (\<forall>k \<in> group_range g. \<not> occupied ! k))
    \<and> (errors = [] \<longrightarrow> (\<forall>k < length occupied. occupied' ! k \<longleftrightarrow> occupied ! k \<or> k \<in> group_range g))"
proof (cases "ba_len g = 0 \<or> 2 ^ 64 \<le> ba_first g + ba_len g \<or> length (if_buffers (pr_interface p)) < ba_first g + ba_len g")
  case True
  then show ?thesis using assms(1) by (auto simp: validate_buffer_array_def Let_def group_wellformed_def split: if_splits)
next
  case False
  then have "claim_buffers p (if_buffers (pr_interface p) ! ba_first g) [ba_first g..<ba_first g + ba_len g] occupied = (occupied', errors)"
    using assms(1) by (simp add: validate_buffer_array_def Let_def)
  moreover have "set [ba_first g..<ba_first g + ba_len g] = group_range g" by (simp add: group_range_def)
  moreover have "group_range g \<subseteq> {..<length occupied}" using False assms(2) by (auto simp: group_range_def)
  ultimately have "length occupied' = length occupied \<and> (\<forall>k < length occupied. occupied' ! k \<longleftrightarrow> occupied ! k \<or> k \<in> group_range g)
    \<and> (errors = [] \<longleftrightarrow> (\<forall>k \<in> group_range g. \<not> occupied ! k
          \<and> same_descriptor (if_buffers (pr_interface p) ! k) (if_buffers (pr_interface p) ! ba_first g)))"
    using claim_buffers_correct by (metis distinct_upt)
  then show ?thesis using False by (auto simp: group_wellformed_def Let_def)
qed

lemma validate_groups_Nil:
  assumes "length occupied = length (if_buffers (pr_interface p))"
  shows "validate_groups p gs occupied = [] \<longleftrightarrow>
     (\<forall>g \<in> set gs. group_wellformed p g \<and> (\<forall>k \<in> group_range g. \<not> occupied ! k))
     \<and> sorted_wrt (\<lambda>g h. group_range g \<inter> group_range h = {}) gs"
  using assms
proof (induction gs arbitrary: occupied)
  case (Cons g gs)
  obtain occupied' errors where r: "validate_buffer_array p g occupied = (occupied', errors)" by fastforce
  note c = validate_buffer_array_correct [OF r Cons.prems]
  show ?case
  proof (cases "errors = []")
    case True
    then have wf: "group_wellformed p g" "\<forall>k \<in> group_range g. \<not> occupied ! k"
      and occ: "\<forall>k < length occupied. occupied' ! k \<longleftrightarrow> occupied ! k \<or> k \<in> group_range g" using c by simp_all
    have "(\<forall>k \<in> group_range h. \<not> occupied' ! k) \<longleftrightarrow> (\<forall>k \<in> group_range h. \<not> occupied ! k) \<and> group_range g \<inter> group_range h = {}"
      if "group_wellformed p h" for h
    proof -
      have "\<forall>k \<in> group_range h. k < length occupied" using that Cons.prems by (auto simp: group_wellformed_def group_range_def Let_def)
      then show ?thesis using occ by auto
    qed
    then have "(\<forall>h \<in> set gs. group_wellformed p h \<and> (\<forall>k \<in> group_range h. \<not> occupied' ! k))
        \<longleftrightarrow> (\<forall>h \<in> set gs. group_wellformed p h \<and> (\<forall>k \<in> group_range h. \<not> occupied ! k)) \<and> (\<forall>h \<in> set gs. group_range g \<inter> group_range h = {})"
      by blast
    moreover have "validate_groups p (g # gs) occupied = validate_groups p gs occupied'" using r True by simp
    moreover have "length occupied' = length (if_buffers (pr_interface p))" using c Cons.prems by simp
    ultimately show ?thesis using Cons.IH [of occupied'] wf by (simp only: list.set ball_simps sorted_wrt.simps) blast
  next
    case False
    then have "\<not> (group_wellformed p g \<and> (\<forall>k \<in> group_range g. \<not> occupied ! k))" using c by simp
    then show ?thesis using False r by (simp only: validate_groups.simps list.set ball_simps case_prod_conv Let_def append_is_Nil_conv) simp
  qed
qed simp

text \<open>C32: the check of buffer groups is exact: it reports nothing exactly when every group has at least one buffer and lies in the
  table of buffers, all buffers of a group have the same element, channels and access, and no buffer is in two groups.\<close>

theorem buffer_groups_exact:
  "validate_buffer_arrays p = [] \<longleftrightarrow>
     (\<forall>g \<in> set (if_buffer_arrays (pr_interface p)). group_wellformed p g)
     \<and> sorted_wrt (\<lambda>g h. group_range g \<inter> group_range h = {}) (if_buffer_arrays (pr_interface p))"
proof -
  have "\<not> replicate (length (if_buffers (pr_interface p))) False ! k" if "group_wellformed p g" "k \<in> group_range g" for g k
    using that by (simp add: group_wellformed_def group_range_def Let_def)
  then show ?thesis unfolding validate_buffer_arrays_def by (subst validate_groups_Nil) auto
qed

text \<open>Two groups over three buffers: they are accepted side by side and rejected when they overlap.\<close>

definition empty_program :: program where
  "empty_program = program_new \<lparr>sample_rate = 0x473B8000, block_size = 64\<rparr> 0 0"

definition grouped_interface :: "nat \<Rightarrow> interface" where
  "grouped_interface first =
     (let b = \<lambda>name. \<lparr>buf_name = name, buf_element = TF32, buf_channels = Mono, buf_access = ReadOnly\<rparr> in
      empty_interface
        \<lparr>if_buffers := [b ''a'', b ''b'', b ''c''],
         if_buffer_arrays := [\<lparr>ba_name = ''low'', ba_first = 0, ba_len = 2\<rparr>, \<lparr>ba_name = ''high'', ba_first = first, ba_len = 1\<rparr>]\<rparr>)"

theorem buffer_groups_exact_witness:
  "validate_buffer_arrays (empty_program\<lparr>pr_interface := grouped_interface 2\<rparr>) = []
   \<and> validate_buffer_arrays (empty_program\<lparr>pr_interface := grouped_interface 1\<rparr>) \<noteq> []"
  unfolding buffer_groups_exact
  by (auto simp: grouped_interface_def Let_def group_wellformed_def group_range_def same_descriptor_def nth_Cons' empty_interface_def)

subsubsection \<open>Mirrors of control outputs\<close>

lemma count_mirrors_correct:
  assumes "count_mirrors p outs counts = (counts', errors)" and "length counts = length (pr_state p)"
  shows "length counts' = length counts
    \<and> (errors = [] \<longleftrightarrow> (\<forall>out \<in> set outs. co_mirror out < length (pr_state p)
          \<and> ss_persistence (pr_state p ! co_mirror out) = ControlMirror
          \<and> types_equivalent p (co_ty out) (ss_ty (pr_state p ! co_mirror out))))
    \<and> (\<forall>k < length counts. counts ! k \<le> 4294967295 \<longrightarrow>
         counts' ! k = min 4294967295 (counts ! k + length (filter (\<lambda>out. co_mirror out = k) outs)))"
  using assms
proof (induction outs arbitrary: counts counts' errors)
  case (Cons out outs)
  show ?case
  proof (cases "co_mirror out < length (pr_state p)")
    case True
    let ?c = "counts[co_mirror out := min 4294967295 (counts ! co_mirror out + 1)]"
    obtain c e where rest: "count_mirrors p outs ?c = (c, e)" by fastforce
    note IH = Cons.IH [OF rest]
    have "nth_opt (pr_state p) (co_mirror out) = Some (pr_state p ! co_mirror out)" using True by (simp add: nth_opt_def)
    then show ?thesis using IH Cons.prems rest True by (auto simp: nth_list_update split: if_splits)
  next
    case False
    obtain c e where rest: "count_mirrors p outs counts = (c, e)" by fastforce
    have "nth_opt (pr_state p) (co_mirror out) = None" using False by (simp add: nth_opt_def)
    then show ?thesis using Cons.IH [OF rest] Cons.prems rest False by auto
  qed
qed auto

lemma length_filter_one: "length (filter P xs) = 1 \<longleftrightarrow> (\<exists>!i. i < length xs \<and> P (xs ! i))"
proof -
  have "length (filter P xs) = card {i. i < length xs \<and> P (xs ! i)}" by (rule length_filter_conv_card)
  moreover have "(\<exists>a. {i. i < length xs \<and> P (xs ! i)} = {a}) \<longleftrightarrow> (\<exists>!i. i < length xs \<and> P (xs ! i))"
    unfolding Ex1_def set_eq_iff by fastforce
  ultimately show ?thesis by (simp add: card_1_singleton_iff)
qed

text \<open>C33: the check of mirrors is exact: it reports nothing exactly when every control output names a control mirror of an equivalent
  type, and every control mirror in the state is named by exactly one control output.\<close>

theorem control_mirrors_exact:
  "validate_control_output_mirrors p = [] \<longleftrightarrow>
     (\<forall>out \<in> set (if_control_outputs (pr_interface p)). co_mirror out < length (pr_state p)
        \<and> ss_persistence (pr_state p ! co_mirror out) = ControlMirror
        \<and> types_equivalent p (co_ty out) (ss_ty (pr_state p ! co_mirror out)))
     \<and> (\<forall>k < length (pr_state p). ss_persistence (pr_state p ! k) = ControlMirror \<longrightarrow>
          (\<exists>!i. i < length (if_control_outputs (pr_interface p)) \<and> co_mirror (if_control_outputs (pr_interface p) ! i) = k))"
proof -
  let ?outs = "if_control_outputs (pr_interface p)" and ?n = "length (pr_state p)"
  obtain counts errors where run: "count_mirrors p ?outs (replicate ?n 0) = (counts, errors)" by fastforce
  note c = count_mirrors_correct [OF run]
  have len: "length counts = ?n" using c by simp
  have count: "counts ! k = min 4294967295 (length (filter (\<lambda>out. co_mirror out = k) ?outs))" if "k < ?n" for k using c that by simp
  have one: "counts ! k = 1 \<longleftrightarrow> length (filter (\<lambda>out. co_mirror out = k) ?outs) = 1" if "k < ?n" for k
    unfolding count [OF that] by (simp add: min_def)
  have "mirror_use_errors slot c = [] \<longleftrightarrow> (ss_persistence slot = ControlMirror \<longrightarrow> c = 1)" for slot c
    by (simp add: mirror_use_errors_def)
  then have "mirror_use_errors (pr_state p ! k) (counts ! k) = []
      \<longleftrightarrow> (ss_persistence (pr_state p ! k) = ControlMirror \<longrightarrow> (\<exists>!i. i < length ?outs \<and> co_mirror (?outs ! i) = k))" if "k < ?n" for k
    using one [OF that] length_filter_one [of "\<lambda>out. co_mirror out = k" ?outs] by simp
  moreover have "(\<forall>x \<in> set (zip (pr_state p) counts). (case x of (slot, count) \<Rightarrow> mirror_use_errors slot count) = [])
      \<longleftrightarrow> (\<forall>k < ?n. mirror_use_errors (pr_state p ! k) (counts ! k) = [])"
    using len by (fastforce simp: set_zip)
  ultimately show ?thesis using c run by (simp add: validate_control_output_mirrors_def concat_eq_Nil_conv)
qed

theorem control_mirrors_exact_witness:
  "validate_control_output_mirrors (empty_program
       \<lparr>pr_types := [T_Scalar TF32],
        pr_interface := empty_interface\<lparr>if_control_outputs := [\<lparr>co_name = ''meter'', co_ty = 0, co_mirror = 0\<rparr>]\<rparr>,
        pr_state := [\<lparr>ss_name = ''meter'', ss_ty = 0, ss_persistence = ControlMirror, ss_authored = False, ss_pinned = False,
                      ss_integer_range = None\<rparr>]\<rparr>) = []"
  unfolding control_mirrors_exact
  by (simp add: types_equivalent_def types_equivalent_inner.simps, rule ex1I [of _ 0], simp_all)

subsubsection \<open>Integer controls\<close>

lemma integer_grid_Nil:
  assumes "lo \<le> hi"
  shows "integer_control_grid_error lo hi given step count = None
    \<longleftrightarrow> 0 < step \<and> hi = lo + uint count * step \<and> (\<exists>k. given = lo + k * step)"
proof (cases "0 < step")
  case True
  have divmod: "(hi - lo) smod step = (hi - lo) mod step" "(hi - lo) sdiv step = (hi - lo) div step"
    using True assms by (cases "lo = hi"; simp add: signed_modulo_int_def signed_divide_int_def minus_div_mult_eq_mod)+
  have zero: "a smod step = 0 \<longleftrightarrow> step dvd a" for a
    using True by (auto simp: signed_modulo_int_def signed_divide_int_def minus_div_mult_eq_mod mod_eq_0_iff_dvd sgn_0_0)
  have "step dvd hi - lo \<and> (hi - lo) div step = uint count \<longleftrightarrow> hi = lo + uint count * step"
    using True by (auto simp: algebra_simps)
  moreover have "step dvd given - lo \<longleftrightarrow> (\<exists>k. given = lo + k * step)"
    by (auto simp: dvd_def algebra_simps)
  ultimately show ?thesis using True zero divmod(2) by (auto simp: integer_control_grid_error_def)
qed (simp add: integer_control_grid_error_def)

end
