(* ===== verification/Validate_Program.thy ===== *)
theory Validate_Program
  imports Validate_Interface Validate_Body
begin

section \<open>Validation: whole programs\<close>

text \<open>
  \<open>Validator::run\<close> (\<open>onda_mir/src/validate.rs\<close>): every check in the order of the code, the entry points and the roles of functions,
  the declarations of a function, and the entry points \<open>validate\<close>, \<open>validate_owned\<close> and their trusted forms.
\<close>

subsection \<open>Interface values, state and constant data\<close>

definition optional_error :: "string \<Rightarrow> string option \<Rightarrow> validation_error list" where
  "optional_error label reason = (case reason of Some r \<Rightarrow> program_error (label @ r) | None \<Rightarrow> [])"

definition validate_input :: "program \<Rightarrow> mir_input \<Rightarrow> validation_error list" where
  "validate_input p x =
     require_type p (input_ty x) None span_unknown
     @ reject_runtime_handle_storage p (input_ty x) None span_unknown
     @ (if option_fails (\<lambda>d. \<not> constant_matches_type p d (input_ty x)) (input_default x)
        then program_error ''input '{}' default does not match type {}'' else [])
     @ (case input_range x of
          None \<Rightarrow> []
        | Some r \<Rightarrow>
            (case value_range_validation_error p r (input_ty x) of
               Some reason \<Rightarrow> program_error (''input '{}' range '' @ reason)
             | None \<Rightarrow>
                 if option_fails (\<lambda>d. \<not> constant_is_within_range d r) (input_default x)
                 then program_error ''input '{}' default is outside its declared range'' else []))"

definition validate_output_type :: "program \<Rightarrow> type_id \<Rightarrow> validation_error list" where
  "validate_output_type p ty = require_type p ty None span_unknown @ reject_runtime_handle_storage p ty None span_unknown"

definition param_control_default :: param_control where
  "param_control_default = \<lparr>pc_scale = Scale_Linear, pc_curve = None, pc_unit = None, pc_step = None, pc_step_count = None\<rparr>"

definition validate_param :: "program \<Rightarrow> mir_param \<Rightarrow> validation_error list" where
  "validate_param p x =
     require_type p (param_ty x) None span_unknown
     @ reject_runtime_handle_storage p (param_ty x) None span_unknown
     @ (if \<not> constant_matches_type p (param_default x) (param_ty x)
        then program_error ''parameter '{}' default does not match type {}'' else [])
     @ (case param_range x of
          Some r \<Rightarrow>
            (let element = (case nth_opt (pr_types p) (param_ty x) of Some (T_Array e _) \<Rightarrow> e | _ \<Rightarrow> param_ty x) in
             case value_range_validation_error p r element of
               Some reason \<Rightarrow> program_error (''parameter '{}' range '' @ reason)
             | None \<Rightarrow>
                 if \<not> constant_is_within_range (param_default x) r
                 then program_error ''parameter '{}' default is outside its declared range''
                 else optional_error ''parameter '{}' control ''
                   (param_control_validation_error p (param_ty x) (param_default x) r (param_control x)))
        | None \<Rightarrow>
            if param_control x \<noteq> param_control_default then program_error ''parameter '{}' has control metadata without a range'' else [])"

fun state_storage :: "state_persistence \<Rightarrow> string" where
  "state_storage Snapshot = ''snapshot state''"
| "state_storage InstanceScratch = ''instance-scratch state''"
| "state_storage ControlMirror = ''control-mirror state''"

definition validate_state :: "program \<Rightarrow> producer_proof_status \<Rightarrow> state_slot \<Rightarrow> validation_error list" where
  "validate_state p proofs s =
     (let storage = state_storage (ss_persistence s) in
      require_type p (ss_ty s) None span_unknown
      @ reject_runtime_handle_storage p (ss_ty s) None span_unknown
      @ (if ss_pinned s \<and> proofs = Absent
         then program_error (storage @ '' '{}' pinned initialization requires trusted producer validation'') else [])
      @ (case ss_integer_range s of
           None \<Rightarrow> []
         | Some r \<Rightarrow>
             (if proofs = Absent then program_error (storage @ '' '{}' integer range requires trusted producer validation'') else [])
             @ optional_error (storage @ '' '{}' integer range '') (integer_range_validation_error p r (ss_ty s))))"

definition validate_const_data :: "const_data \<Rightarrow> validation_error list" where
  "validate_const_data d =
     (if 2147483647 < length (cd_values d)
      then program_error ''constant data '{}' length exceeds the signed i32 MIR boundary'' else [])
     @ (if \<not> scalar_sequence_fits_i32_bytes (length (cd_values d)) (cd_element d)
        then program_error ''constant data '{}' logical byte size exceeds the signed i32 MIR boundary'' else [])
     @ concat (map (\<lambda>v. if scalar_ty v \<noteq> cd_element d then program_error ''constant data '{}' contains {}, expected {}'' else [])
         (cd_values d))"

definition log_payload :: "scalar_type list \<Rightarrow> nat" where
  "log_payload tys = fold (\<lambda>ty total_bytes. min 4294967295 (total_bytes + logical_byte_width ty)) tys 0"

definition validate_log_site :: "program \<Rightarrow> log_site \<Rightarrow> validation_error list" where
  "validate_log_site p site =
     (case span_file (log_source site) of
        Some file \<Rightarrow> if length (pr_source_files p) \<le> file then program_error ''log site {} source references missing file {}'' else []
      | None \<Rightarrow> [])
     @ (if log_payload_size site \<noteq> log_payload (log_argument_types site)
        then program_error ''log site {} payload size is {}, expected {}'' else [])"

subsection \<open>Entry points and roles\<close>

definition require_function_kind :: "program \<Rightarrow> function_id \<Rightarrow> function_kind \<Rightarrow> string \<Rightarrow> validation_error list" where
  "require_function_kind p i expected label =
     (case nth_opt (pr_functions p) i of
        Some f \<Rightarrow> if fn_kind f = expected then [] else program_error (label @ '' {} has kind {}, expected {}'')
      | None \<Rightarrow> program_error (label @ '' references missing function {}''))"

definition validate_parameterless_entry_signature :: "program \<Rightarrow> function_id \<Rightarrow> string \<Rightarrow> validation_error list" where
  "validate_parameterless_entry_signature p i label =
     (case nth_opt (pr_functions p) i of
        None \<Rightarrow> []
      | Some f \<Rightarrow>
          (if fn_params f \<noteq> []
           then function_error i (fn_source f) (label @ '' must not declare function parameters; entry ABI values use dedicated MIR places'')
           else [])
          @ (if fn_results f \<noteq> [] then function_error i (fn_source f) (label @ '' must not return values'') else []))"

definition process_param_errors :: "program \<Rightarrow> function_id \<Rightarrow> source_span \<Rightarrow> function_param \<Rightarrow> string \<Rightarrow> validation_error list" where
  "process_param_errors p i src param expected =
     (if fp_name param \<noteq> expected then function_error i src (''process parameter {} must be named '{}', found '{}'' @ [CHR 0x27]) else [])
     @ (if fp_mode param \<noteq> PM_Value then function_error i src ''process parameter '{}' must use value passing mode'' else [])
     @ (if nth_opt (pr_types p) (fp_ty param) \<noteq> Some (T_Scalar TI32)
        then function_error i src ''process parameter '{}' must have type i32'' else [])"

definition validate_process_entry_signature :: "program \<Rightarrow> validation_error list" where
  "validate_process_entry_signature p =
     (let i = entry_process (pr_entry_points p) in
      case nth_opt (pr_functions p) i of
        None \<Rightarrow> []
      | Some f \<Rightarrow>
          (if fn_results f \<noteq> [] then function_error i (fn_source f) ''process entry point must not return values'' else [])
          @ (if length (fn_params f) \<noteq> length process_param_names
             then function_error i (fn_source f) ''process entry point must have exactly {} parameters (start_frame, frames, flags)''
             else concat (map (\<lambda>(param, expected). process_param_errors p i (fn_source f) param expected)
                    (zip (fn_params f) process_param_names))))"

definition entry_role_errors :: "program \<Rightarrow> function_id \<Rightarrow> mir_function \<Rightarrow> validation_error list" where
  "entry_role_errors p i f =
     (case fn_kind f of
        FK_Init \<Rightarrow>
          if i \<noteq> entry_init (pr_entry_points p)
          then function_error i (fn_source f) ''init-kind function is not the program init entry point'' else []
      | FK_Process \<Rightarrow>
          if i \<noteq> entry_process (pr_entry_points p)
          then function_error i (fn_source f) ''process-kind function is not the program process entry point'' else []
      | FK_Event e \<Rightarrow>
          (case nth_opt (if_events (pr_interface p)) e of
             None \<Rightarrow> function_error i (fn_source f) ''event-kind function references missing event {}''
           | Some ev \<Rightarrow>
               if ev_handler ev \<noteq> i
               then function_error i (fn_source f) (''event-kind function is not the registered handler for event '{}'' @ [CHR 0x27])
               else [])
      | FK_User \<Rightarrow> [])"

definition validate_entry_role_ownership :: "program \<Rightarrow> validation_error list" where
  "validate_entry_role_ownership p = concat (map (\<lambda>(i, f). entry_role_errors p i f) (enumerate 0 (pr_functions p)))"

subsection \<open>Events and delegates\<close>

definition validate_event_param :: "program \<Rightarrow> event_param \<Rightarrow> validation_error list" where
  "validate_event_param p x =
     require_type p (ep_ty x) None span_unknown
     @ (if type_contains_runtime_handle p (ep_ty x)
        then (case nth_opt (pr_types p) (ep_ty x) of
            Some (T_Slice _ ReadOnly) \<Rightarrow> []
          | Some (T_Slice _ _) \<Rightarrow> program_error ''event '{}' parameter '{}' slice must be read-only''
          | _ \<Rightarrow> program_error ''event '{}' parameter '{}' may only use a direct read-only slice as a runtime handle'')
        else [])
     @ (if option_fails (\<lambda>d. \<not> constant_matches_type p d (ep_ty x)) (ep_default x)
        then program_error ''event '{}' parameter '{}' default does not match type {}'' else [])"

definition validate_event :: "program \<Rightarrow> nat \<Rightarrow> mir_event \<Rightarrow> validation_error list" where
  "validate_event p index e =
     concat (map (validate_event_param p) (ev_params e))
     @ require_function_kind p (ev_handler e) (FK_Event index) ''event handler''
     @ validate_parameterless_entry_signature p (ev_handler e) ''event '{}' handler''"

definition validate_delegate_param :: "program \<Rightarrow> delegate_param \<Rightarrow> validation_error list" where
  "validate_delegate_param p x =
     require_type p (dp_ty x) None span_unknown
     @ (case nth_opt (pr_types p) (dp_ty x) of
          Some (T_Scalar _) \<Rightarrow> []
        | Some (T_Array element _) \<Rightarrow>
            (case nth_opt (pr_types p) element of
               Some (T_Scalar _) \<Rightarrow> []
             | _ \<Rightarrow> program_error ''delegate '{}' parameter '{}' fixed array element must be a primitive scalar'')
        | Some (T_Slice _ ReadOnly) \<Rightarrow> []
        | Some (T_Slice _ _) \<Rightarrow> program_error ''delegate '{}' parameter '{}' slice must be read-only''
        | Some _ \<Rightarrow>
            program_error ''delegate '{}' parameter '{}' must be a primitive scalar, fixed primitive array, or read-only primitive slice''
        | None \<Rightarrow> [])"

subsection \<open>Functions\<close>

definition integer_invariant_errors ::
  "program \<Rightarrow> producer_proof_status \<Rightarrow> function_id \<Rightarrow> source_span \<Rightarrow> string \<Rightarrow> integer_range_invariant option \<Rightarrow> type_id \<Rightarrow> validation_error list" where
  "integer_invariant_errors p proofs i src label r ty =
     (case r of
        None \<Rightarrow> []
      | Some r \<Rightarrow>
          (if proofs = Absent then function_error i src (label @ '' integer range requires trusted producer validation'') else [])
          @ (case integer_range_validation_error p r ty of
               Some reason \<Rightarrow> function_error i src (label @ '' integer range '' @ reason) | None \<Rightarrow> []))"

definition validate_function_param :: "program \<Rightarrow> producer_proof_status \<Rightarrow> function_id \<Rightarrow> source_span \<Rightarrow> function_param \<Rightarrow> validation_error list" where
  "validate_function_param p proofs i src x =
     (let ty = nth_opt (pr_types p) (fp_ty x); result = (fp_mode x = PM_ResultReference) in
      require_type p (fp_ty x) (Some i) src
      @ (if result \<and> \<not> (case ty of Some (T_Scalar _) \<Rightarrow> True | Some (T_Array _ _) \<Rightarrow> True | _ \<Rightarrow> False)
         then function_error i src ''result reference must refer to fixed scalar or array storage'' else [])
      @ (if result \<and> proofs = Absent then function_error i src ''result reference requires trusted producer validation'' else [])
      @ integer_invariant_errors p proofs i src (''parameter '{}'' @ [CHR 0x27]) (fp_integer_range x) (fp_ty x)
      @ (case ty of
           Some (T_BufferSpan _ _ _ _) \<Rightarrow>
             if fp_mode x \<noteq> PM_Value then function_error i src ''buffer span parameter '{}' must use value passing mode'' else []
         | Some (T_Buffer _ _ _) \<Rightarrow>
             if fp_mode x = PM_Value then function_error i src ''buffer parameter '{}' must use reference passing mode'' else []
         | _ \<Rightarrow> []))"

definition validate_result :: "program \<Rightarrow> function_id \<Rightarrow> source_span \<Rightarrow> type_id \<Rightarrow> validation_error list" where
  "validate_result p i src ty = require_type p ty (Some i) src @ reject_runtime_handle_storage p ty (Some i) src"

definition validate_local :: "program \<Rightarrow> producer_proof_status \<Rightarrow> function_id \<Rightarrow> source_span \<Rightarrow> mir_local \<Rightarrow> validation_error list" where
  "validate_local p proofs i src x =
     require_type p (lc_ty x) (Some i) src
     @ integer_invariant_errors p proofs i src ''local {}'' (lc_integer_range x) (lc_ty x)"

definition validate_function :: "program \<Rightarrow> producer_proof_status \<Rightarrow> function_id \<Rightarrow> mir_function \<Rightarrow> validation_error list" where
  "validate_function p proofs i f =
     (let src = fn_source f in
      (if max_function_parameter_count < length (fn_params f)
       then function_error i src ''function declares {} parameters, exceeding the limit of {}'' else [])
      @ (if max_function_local_count < length (fn_locals f)
         then function_error i src ''function declares {} locals, exceeding the limit of {}'' else [])
      @ validate_source p i src ''function source references missing file''
      @ concat (map (validate_function_param p proofs i src) (fn_params f))
      @ concat (map (validate_result p i src) (fn_results f))
      @ concat (map (validate_local p proofs i src) (fn_locals f))
      @ (if proofs = Absent then reject_unchecked_bounds i (fn_body f) else [])
      @ validate_block p proofs i f (fn_body f) 0
      @ validate_definite_assignment p i f
      @ (if fn_results f \<noteq> [] \<and> cf_falls_through (block_control_flow (fn_body f))
         then function_error i src ''result-bearing function has a reachable path that falls through without returning a value''
         else []))"

subsection \<open>The run\<close>

definition config_errors :: "compile_config \<Rightarrow> validation_error list" where
  "config_errors c =
     (case config_validate c of
        Inl InvalidSampleRate \<Rightarrow> program_error ''sample rate must be finite and greater than zero''
      | Inl InvalidBlockSize \<Rightarrow> program_error ''block size must be between 1 and {} frames''
      | Inr _ \<Rightarrow> [])"

text \<open>The checks before and after the three that can panic.\<close>

definition interface_value_errors :: "program \<Rightarrow> producer_proof_status \<Rightarrow> validation_error list" where
  "interface_value_errors p proofs =
     (let i = pr_interface p in
      concat (map (validate_input p) (if_inputs i))
      @ concat (map (validate_output_type p \<circ> output_ty) (if_outputs i))
      @ concat (map (validate_output_type p \<circ> co_ty) (if_control_outputs i))
      @ concat (map (validate_param p) (if_params i))
      @ concat (map (validate_state p proofs) (pr_state p))
      @ validate_control_output_mirrors p
      @ concat (map (\<lambda>b. static_channel_errors ''buffer '{}' '' (buf_channels b) (buf_element b)) (if_buffers i))
      @ validate_buffer_arrays p
      @ concat (map validate_const_data (pr_const_data p))
      @ concat (map (validate_log_site p) (pr_log_sites p)))"

definition entry_errors :: "program \<Rightarrow> validation_error list" where
  "entry_errors p =
     require_function_kind p (entry_init (pr_entry_points p)) FK_Init ''init entry point''
     @ validate_parameterless_entry_signature p (entry_init (pr_entry_points p)) ''init entry point''
     @ require_function_kind p (entry_process (pr_entry_points p)) FK_Process ''process entry point''
     @ validate_process_entry_signature p
     @ concat (map (\<lambda>(index, e). validate_event p index e) (enumerate 0 (if_events (pr_interface p))))
     @ concat (map (\<lambda>d. concat (map (validate_delegate_param p) (dg_params d))) (if_delegates (pr_interface p)))
     @ validate_entry_role_ownership p"

definition validator_run :: "program \<Rightarrow> producer_proof_status \<Rightarrow> validation_error list option" where
  "validator_run p proofs =
     Option.bind (validate_fixed_aggregate_types p) (\<lambda>aggregates.
     Option.bind (validate_message_schemas p) (\<lambda>messages.
     Option.bind (validate_init_cannot_reach_publication p) (\<lambda>publications.
     Option.bind (validate_acyclic_call_graph p) (\<lambda>cycles. Some
       ((if pr_schema_version p \<noteq> mir_schema_version
         then program_error ''schema version {} does not match compiler schema version {}'' else [])
        @ config_errors (pr_config p)
        @ concat (map (validate_type_entry p) (pr_types p))
        @ concat (map (validate_struct p) (pr_structs p))
        @ aggregates
        @ validate_interface_names p
        @ messages
        @ interface_value_errors p proofs
        @ entry_errors p
        @ concat (map (\<lambda>(i, f). validate_function p proofs i f) (enumerate 0 (pr_functions p)))
        @ publications
        @ cycles)))))"

definition validate_with_proof_status :: "program \<Rightarrow> producer_proof_status \<Rightarrow> (validation_error list + unit) option" where
  "validate_with_proof_status p proofs =
     map_option (\<lambda>errors. if errors = [] then Inr () else Inl errors) (validator_run p proofs)"

definition validate :: "program \<Rightarrow> (validation_error list + unit) option" where
  "validate p = validate_with_proof_status p Absent"

definition validate_with_producer_proofs :: "program \<Rightarrow> (validation_error list + unit) option" where
  "validate_with_producer_proofs p = validate_with_proof_status p Trusted"

record validated_program =
  vp_program :: program
  vp_producer_proofs :: producer_proof_status

definition revalidate_owned :: "program \<Rightarrow> producer_proof_status \<Rightarrow> (validation_error list + validated_program) option" where
  "revalidate_owned p proofs =
     map_option (\<lambda>r. case r of Inl errors \<Rightarrow> Inl errors | Inr _ \<Rightarrow> Inr \<lparr>vp_program = p, vp_producer_proofs = proofs\<rparr>)
       (validate_with_proof_status p proofs)"

definition validate_owned :: "program \<Rightarrow> (validation_error list + validated_program) option" where
  "validate_owned p =
     map_option (\<lambda>r. case r of Inl errors \<Rightarrow> Inl errors | Inr _ \<Rightarrow> Inr \<lparr>vp_program = p, vp_producer_proofs = Absent\<rparr>) (validate p)"

definition validate_owned_with_producer_proofs :: "program \<Rightarrow> (validation_error list + validated_program) option" where
  "validate_owned_with_producer_proofs p =
     map_option (\<lambda>r. case r of Inl errors \<Rightarrow> Inl errors | Inr _ \<Rightarrow> Inr \<lparr>vp_program = p, vp_producer_proofs = Trusted\<rparr>)
       (validate_with_producer_proofs p)"

subsection \<open>The validator never panics\<close>

definition sizes_started :: "program \<Rightarrow> logical_size list \<Rightarrow> bool" where
  "sizes_started p sizes \<longleftrightarrow>
     length sizes = length (pr_types p)
     \<and> (\<forall>i < length sizes. sizes ! i = LS_Pending \<longrightarrow> initial_size (pr_types p ! i) = LS_Pending)"

lemma sum_fixed_not_None: "(\<And>d. d \<in> set tys \<Longrightarrow> \<exists>b. nth_opt sizes d = Some (LS_Fixed b)) \<Longrightarrow> sum_fixed sizes tys acc \<noteq> None"
proof (induction tys arbitrary: acc)
  case (Cons ty tys)
  from Cons.prems [of ty] obtain b where "nth_opt sizes ty = Some (LS_Fixed b)" by auto
  with Cons show ?case by (simp del: not_None_eq)
qed simp

lemma computed_size_not_None:
  assumes "initial_size ty = LS_Pending" and "\<And>d. d \<in> set (type_dependencies p ty) \<Longrightarrow> \<exists>b. nth_opt sizes d = Some (LS_Fixed b)"
  shows "computed_size p sizes ty \<noteq> None"
proof (cases ty)
  case (T_Tuple elements)
  then show ?thesis using assms(2) sum_fixed_not_None [of elements sizes 0] by (simp add: computed_size_def del: not_None_eq)
next
  case (T_Array element len)
  then show ?thesis using assms(2) [of element] by (auto simp: computed_size_def)
next
  case (T_Struct s)
  then show ?thesis using assms(2) sum_fixed_not_None [of "struct_field_types p s" sizes 0]
    by (auto simp: computed_size_def struct_field_types_def simp del: not_None_eq split: option.splits)
qed (use assms(1) in simp_all)

lemma resolve_size_not_None:
  assumes "sizes_started p sizes" and "i < length sizes"
  shows "resolve_size p sizes i \<noteq> None"
proof (cases "sizes ! i = LS_Pending \<and> list_all (\<lambda>d. \<exists>b. nth_opt sizes d = Some (LS_Fixed b)) (type_dependencies p (pr_types p ! i))")
  case True
  then have "computed_size p sizes (pr_types p ! i) \<noteq> None"
    using assms by (intro computed_size_not_None) (auto simp: sizes_started_def list_all_iff)
  then show ?thesis by (auto simp: resolve_size_def Let_def)
next
  case False
  show ?thesis
  proof (cases "sizes ! i = LS_Pending")
    case True
    then obtain d where d: "d \<in> set (type_dependencies p (pr_types p ! i))" "\<nexists>b. nth_opt sizes d = Some (LS_Fixed b)"
      using False by (auto simp: list_all_iff)
    then have "length sizes \<le> d \<or> sizes ! d = LS_Pending \<or> sizes ! d = LS_Invalid \<or> sizes ! d = LS_Unsized"
      by (cases "sizes ! d") (auto simp: nth_opt_def split: if_splits)
    then show ?thesis using d(1) by (auto simp: resolve_size_def Let_def list_ex_iff)
  qed (simp add: resolve_size_def)
qed

lemma sizes_started_update: "sizes_started p sizes \<Longrightarrow> s \<noteq> LS_Pending \<Longrightarrow> sizes_started p (sizes[i := s])"
  unfolding sizes_started_def by (metis length_list_update nth_list_update_eq nth_list_update_neq)

lemma size_pass_not_None:
  "sizes_started p sizes \<Longrightarrow> set ids \<subseteq> {..<length sizes} \<Longrightarrow>
     \<exists>sizes' changed errors. size_pass p ids sizes = Some (sizes', changed, errors) \<and> sizes_started p sizes'"
proof (induction ids arbitrary: sizes)
  case (Cons i ids)
  obtain r where r: "resolve_size p sizes i = Some r" using resolve_size_not_None [of p sizes i] Cons.prems by auto
  show ?case
  proof (cases r)
    case None
    then show ?thesis using Cons r by simp
  next
    case (Some q)
    obtain s errors where q: "q = (s, errors)" by (cases q)
    have "s \<noteq> LS_Pending" using resolve_size_Some [of p sizes i s errors] r Some q by simp
    then show ?thesis using Cons.IH [OF sizes_started_update [OF Cons.prems(1)], of s i] Cons.prems(2) r Some q by fastforce
  qed
qed (auto intro!: exI [of _ False])

lemma size_loop_not_None: "sizes_started p sizes \<Longrightarrow> size_loop p sizes \<noteq> None"
proof (induction p sizes rule: size_loop.induct)
  case (1 p sizes)
  obtain sizes' changed errors where pass: "size_pass p [0..<length sizes] sizes = Some (sizes', changed, errors)"
    and started: "sizes_started p sizes'"
    using size_pass_not_None [OF 1(2), of "[0..<length sizes]"] by (auto simp: atLeast0LessThan)
  show ?case
  proof (cases changed)
    case True
    then show ?thesis using 1(1) [OF pass refl refl True started] pass by (subst size_loop.simps) simp
  next
    case False
    then show ?thesis using pass by (subst size_loop.simps) simp
  qed
qed

lemma fixed_aggregates_total: "validate_fixed_aggregate_types p \<noteq> None"
proof -
  have "sizes_started p (map initial_size (pr_types p))" by (simp add: sizes_started_def)
  then show ?thesis using size_loop_not_None by (auto simp: validate_fixed_aggregate_types_def)
qed

lemma schema_matches_total:
  assumes "plan_ok plan"
  shows "schema_matches p plan fs params \<noteq> None"
proof -
  have "set (indices (pp_tensors grp)) \<subseteq> {..<length (plan_tensors plan)}" if "grp \<in> set (plan_params plan)" for grp
  proof -
    have "set (indices (pp_tensors grp)) \<subseteq> set (concat (map (indices \<circ> pp_tensors) (plan_params plan)))" using that by auto
    moreover have "concat (map (indices \<circ> pp_tensors) (plan_params plan)) = [0..<length (plan_tensors plan)]"
      using assms by (simp add: plan_ok_def)
    ultimately show ?thesis by (metis atLeast0LessThan set_upt)
  qed
  then have "group_matches p plan grp name params \<noteq> None" if "grp \<in> set (plan_params plan)" for grp name
    using that by (fastforce simp: group_matches_def list_ex_iff)
  then have "None \<notin> set (map (\<lambda>(grp, field). group_matches p plan grp (pf_name field) params) (zip (plan_params plan) fs))"
    by (auto dest!: set_zip_leftD) (metis option.distinct(1))
  moreover have "None \<notin> set xs \<Longrightarrow> those xs \<noteq> None" for xs :: "bool option list"
  proof (induction xs)
    case (Cons x xs)
    then show ?case by (cases x) auto
  qed simp
  ultimately show ?thesis by (simp add: schema_matches_def)
qed

lemma those_not_None: "(\<And>x. x \<in> set xs \<Longrightarrow> f x \<noteq> None) \<Longrightarrow> those (map f xs) \<noteq> None"
  by (induction xs) (auto split: option.splits)

lemma message_schema_total: "validate_message_schema p schema params \<noteq> None"
  using plan_new_total [of schema] schema_matches_total plan_new_ok [of schema]
  by (auto simp: validate_message_schema_def simp del: not_None_eq split: option.splits sum.splits)

lemma those_append: "those (xs @ ys) = Option.bind (those xs) (\<lambda>a. map_option (append a) (those ys))"
  by (induction xs) (auto simp: option.map_comp comp_def map_option_case split: option.splits)

lemma message_schemas_total: "validate_message_schemas p \<noteq> None"
proof -
  have "those (map (\<lambda>e. validate_message_schema p (ev_schema e) (map (\<lambda>x. (ep_name x, ep_ty x)) (ev_params e)))
      (if_events (pr_interface p))) \<noteq> None" (is "?a \<noteq> None")
    by (rule those_not_None) (rule message_schema_total)
  moreover have "those (map (\<lambda>d. validate_message_schema p (dg_schema d) (map (\<lambda>x. (dp_name x, dp_ty x)) (dg_params d)))
      (if_delegates (pr_interface p))) \<noteq> None" (is "?b \<noteq> None")
    by (rule those_not_None) (rule message_schema_total)
  ultimately obtain a b where "?a = Some a" "?b = Some b" by blast
  then show ?thesis by (simp add: validate_message_schemas_def those_append)
qed

text \<open>C13: the validator always answers: no table, type definition, schema or call graph, however malformed, makes it panic
  or run forever.\<close>

theorem validator_total: "\<exists>errors. validator_run p proofs = Some errors"
proof -
  obtain a m where "validate_fixed_aggregate_types p = Some a" "validate_message_schemas p = Some m"
    using fixed_aggregates_total [of p] message_schemas_total [of p] by auto
  moreover obtain u c where "validate_init_cannot_reach_publication p = Some u" "validate_acyclic_call_graph p = Some c"
    using init_publication_correct [of p] acyclic_call_graph_correct [of p] by blast
  ultimately show ?thesis by (simp add: validator_run_def)
qed

end
