(* ===== verification/Definite_Sound.thy ===== *)
theory Definite_Sound
  imports Definite_Assignment "HOL-Library.Sublist"
begin

section \<open>Definite assignment is sound\<close>

text \<open>
  A semantics of initialisation for function bodies: which cells of each local are written, which
  locals hold a process frame, and which local array a slice covers. Values are abstracted, so a
  conditional takes either branch and a dynamic index any element; \<open>Bad\<close> is a read of a cell that is
  not written or an audio access at something that is not a process frame.
\<close>

subsection \<open>Cells\<close>

text \<open>A cell is the path to a leaf of a type.\<close>

fun is_cell :: "program \<Rightarrow> type_id \<Rightarrow> init_path \<Rightarrow> bool" where
  "is_cell p ty [] =
     (case nth_opt (pr_types p) ty of Some (T_Array _ _) \<Rightarrow> False | Some (T_Struct _) \<Rightarrow> False | _ \<Rightarrow> True)"
| "is_cell p ty (IP_Field k # path) =
     (case nth_opt (pr_types p) ty of
        Some (T_Struct s) \<Rightarrow>
          (case Option.bind (nth_opt (pr_structs p) s) (\<lambda>st. nth_opt (st_fields st) k) of
             Some field \<Rightarrow> is_cell p (sf_ty field) path
           | None \<Rightarrow> False)
      | _ \<Rightarrow> False)"
| "is_cell p ty (IP_Index k # path) =
     (case nth_opt (pr_types p) ty of
        Some (T_Array element len) \<Rightarrow> k < len \<and> is_cell p element path
      | _ \<Rightarrow> False)"

text \<open>An index past the end of an array denotes its last element, as clamping does; a checked
  access there has no successor.\<close>

fun clamp_path :: "program \<Rightarrow> type_id \<Rightarrow> init_path \<Rightarrow> init_path" where
  "clamp_path p ty [] = []"
| "clamp_path p ty (IP_Field k # path) =
     IP_Field k #
       (case nth_opt (pr_types p) ty of
          Some (T_Struct s) \<Rightarrow>
            (case Option.bind (nth_opt (pr_structs p) s) (\<lambda>st. nth_opt (st_fields st) k) of
               Some field \<Rightarrow> clamp_path p (sf_ty field) path
             | None \<Rightarrow> path)
        | _ \<Rightarrow> path)"
| "clamp_path p ty (IP_Index k # path) =
     (case nth_opt (pr_types p) ty of
        Some (T_Array element len) \<Rightarrow> IP_Index (min k (len - 1)) # clamp_path p element path
      | _ \<Rightarrow> IP_Index k # path)"

definition cells_under :: "program \<Rightarrow> mir_function \<Rightarrow> local_id \<Rightarrow> init_path \<Rightarrow> init_path set" where
  "cells_under p f l path =
     (case local_type f l of
        Some ty \<Rightarrow> {q. is_cell p ty q \<and> prefix (clamp_path p ty path) q}
      | None \<Rightarrow> {})"

text \<open>The paths a list of projections may denote.\<close>

fun path_instances :: "projection list \<Rightarrow> init_path set" where
  "path_instances [] = {[]}"
| "path_instances (P_Field k # prs) = Cons (IP_Field k) ` path_instances prs"
| "path_instances (P_Index v _ # prs) =
     (case static_index v of
        Some k \<Rightarrow> Cons (IP_Index k) ` path_instances prs
      | None \<Rightarrow> (\<Union>k. Cons (IP_Index k) ` path_instances prs))"

subsection \<open>Execution\<close>

record init_state =
  is_cells :: "local_id \<Rightarrow> init_path set"
  is_frame :: "local_id \<Rightarrow> bool"
  is_view :: "local_id \<Rightarrow> local_id option"

definition value_written :: "program \<Rightarrow> mir_function \<Rightarrow> init_state \<Rightarrow> mir_value \<Rightarrow> bool" where
  "value_written p f s v \<longleftrightarrow> (case v of V_Local l \<Rightarrow> cells_under p f l [] \<subseteq> is_cells s l | V_Constant _ \<Rightarrow> True)"

definition place_written :: "program \<Rightarrow> mir_function \<Rightarrow> init_state \<Rightarrow> place \<Rightarrow> bool" where
  "place_written p f s pl \<longleftrightarrow>
     (case place_base pl of
        PB_Local l \<Rightarrow> (\<forall>path \<in> path_instances (place_projections pl). cells_under p f l path \<subseteq> is_cells s l)
      | _ \<Rightarrow> True)"

definition frame_written :: "init_state \<Rightarrow> mir_value \<Rightarrow> bool" where
  "frame_written s v \<longleftrightarrow> (case v of V_Local l \<Rightarrow> is_frame s l | V_Constant _ \<Rightarrow> False)"

definition rvalue_written :: "program \<Rightarrow> mir_function \<Rightarrow> init_state \<Rightarrow> rvalue \<Rightarrow> bool" where
  "rvalue_written p f s r \<longleftrightarrow>
     (\<forall>v \<in> set (rvalue_operands r). value_written p f s v)
     \<and> (case r of
          R_Load pl \<Rightarrow> place_written p f s pl
        | R_MakeSlice (SS_Place pl) _ _ _ _ \<Rightarrow> place_is_slice p f pl \<longrightarrow> place_written p f s pl
        | R_InputLoad _ _ _ frame \<Rightarrow> frame_written s frame
        | R_OutputLoad _ _ _ frame \<Rightarrow> frame_written s frame
        | _ \<Rightarrow> True)"

definition argument_written :: "program \<Rightarrow> mir_function \<Rightarrow> init_state \<Rightarrow> call_argument \<Rightarrow> bool" where
  "argument_written p f s a \<longleftrightarrow>
     (\<forall>v \<in> set (argument_operands a). value_written p f s v)
     \<and> (case a of A_Place pl \<Rightarrow> place_written p f s pl | A_ArrayWindow pl _ _ \<Rightarrow> place_written p f s pl | _ \<Rightarrow> True)"

text \<open>A result reference is written by the callee, so only its indices are read.\<close>

definition kind_written :: "program \<Rightarrow> mir_function \<Rightarrow> init_state \<Rightarrow> statement_kind \<Rightarrow> bool" where
  "kind_written p f s k \<longleftrightarrow>
     (case k of
        S_Assign d r \<Rightarrow> rvalue_written p f s r \<and> (\<forall>v \<in> set (place_operands d). value_written p f s v)
      | S_Call _ g args \<Rightarrow>
          (\<forall>(n, a) \<in> set (enumerate 0 args).
             if is_result_argument p g n
             then (case a of A_Place pl \<Rightarrow> \<forall>v \<in> set (place_operands pl). value_written p f s v | _ \<Rightarrow> True)
             else argument_written p f s a)
      | S_PublishDelegate _ args \<Rightarrow> (\<forall>a \<in> set args. argument_written p f s a)
      | S_OutputStore _ _ _ frame _ \<Rightarrow> frame_written s frame \<and> (\<forall>v \<in> set (kind_operands k). value_written p f s v)
      | _ \<Rightarrow> (\<forall>v \<in> set (kind_operands k). value_written p f s v))"

text \<open>What a slice made from an array covers: the whole array when it starts at 0 and has its length.\<close>

definition array_length :: "program \<Rightarrow> mir_function \<Rightarrow> local_id \<Rightarrow> nat option" where
  "array_length p f l =
     (case Option.bind (local_type f l) (nth_opt (pr_types p)) of Some (T_Array _ len) \<Rightarrow> Some len | _ \<Rightarrow> None)"

definition covers_array :: "program \<Rightarrow> mir_function \<Rightarrow> rvalue \<Rightarrow> local_id \<Rightarrow> bool" where
  "covers_array p f r l \<longleftrightarrow>
     (case r of
        R_MakeSlice (SS_Place pl) (V_Constant (I32 start)) (V_Constant (I32 len)) _ _ \<Rightarrow>
          pl = place_local l \<and> start = 0 \<and> 0 \<le> sint len \<and> array_length p f l = Some (nat (sint len))
      | _ \<Rightarrow> False)"

definition only_grows :: "init_state \<Rightarrow> init_state \<Rightarrow> bool" where
  "only_grows s t \<longleftrightarrow> (\<forall>l. is_cells s l \<subseteq> is_cells t l)"

text \<open>\<open>A\<close> is the set of locals whose storage a slice may reach; a frame there may be overwritten at any
  time.\<close>

definition same_slots :: "local_id set \<Rightarrow> local_id set \<Rightarrow> init_state \<Rightarrow> init_state \<Rightarrow> bool" where
  "same_slots A L s t \<longleftrightarrow>
     (\<forall>l. l \<notin> L \<longrightarrow> (l \<notin> A \<longrightarrow> is_frame t l = is_frame s l) \<and> is_view t l = is_view s l)"

definition writes_place :: "program \<Rightarrow> mir_function \<Rightarrow> place \<Rightarrow> init_state \<Rightarrow> bool" where
  "writes_place p f pl t \<longleftrightarrow>
     (case place_base pl of
        PB_Local l \<Rightarrow> (\<exists>path \<in> path_instances (place_projections pl). cells_under p f l path \<subseteq> is_cells t l)
      | _ \<Rightarrow> True)"

text \<open>The locals a statement may bind anew. A result reference is a place.\<close>

definition argument_rebinds :: "call_argument \<times> function_param \<Rightarrow> local_id set" where
  "argument_rebinds ap =
     (case ap of (a, param) \<Rightarrow>
        (case a of
           A_Place pl \<Rightarrow> if is_writable_reference (fp_mode param) then base_locals pl else {}
         | A_ArrayWindow pl _ _ \<Rightarrow> if fp_mode param = PM_ReadWriteReference then base_locals pl else {}
         | _ \<Rightarrow> {}))"

definition kind_rebinds :: "program \<Rightarrow> statement_kind \<Rightarrow> local_id set" where
  "kind_rebinds p k =
     (case k of
        S_Assign d _ \<Rightarrow> base_locals d
      | S_Call rs g args \<Rightarrow> set rs \<union> (\<Union>ap \<in> set (zip args (callee_params p g)). argument_rebinds ap)
      | _ \<Rightarrow> {})"

definition init_step :: "local_id set \<Rightarrow> program \<Rightarrow> mir_function \<Rightarrow> statement_kind \<Rightarrow> init_state \<Rightarrow> init_state \<Rightarrow> bool" where
  "init_step A p f k s t \<longleftrightarrow> only_grows s t \<and> same_slots A (kind_rebinds p k) s t
     \<and> (case k of
          S_Assign d r \<Rightarrow>
            writes_place p f d t
            \<and> (\<forall>l. d = place_local l \<longrightarrow>
                 (l \<notin> A \<longrightarrow> is_frame t l = is_process_frame r)
                 \<and> (\<forall>v. r = R_Use (V_Local v) \<longrightarrow> is_view t l = is_view s v)
                 \<and> (\<forall>b. covers_array p f r b \<longrightarrow> is_view t l = Some b))
        | S_Call rs g args \<Rightarrow>
            (\<forall>l \<in> set rs. cells_under p f l [] \<subseteq> is_cells t l)
            \<and> (\<forall>(a, param) \<in> set (zip args (callee_params p g)).
                 fp_mode param = PM_ResultReference \<longrightarrow> (\<forall>pl. a = A_Place pl \<longrightarrow> writes_place p f pl t))
        | S_SliceFill (V_Local v) _ \<Rightarrow> (\<forall>b. is_view s v = Some b \<longrightarrow> cells_under p f b [] \<subseteq> is_cells t b)
        | S_SliceCopy copies _ \<Rightarrow>
            (\<forall>c \<in> set copies. \<forall>v u b a n m.
               copy_destination c = V_Local v \<and> copy_source c = V_Local u \<and> is_view s v = Some b \<and> is_view s u = Some a
               \<and> array_length p f b = Some n \<and> array_length p f a = Some m \<and> n \<le> m \<longrightarrow>
                 cells_under p f b [] \<subseteq> is_cells t b)
        | _ \<Rightarrow> True)"

datatype init_outcome = IO_Normal | IO_Broke | IO_Continued | IO_Returned | Bad

inductive init_kind :: "local_id set \<Rightarrow> program \<Rightarrow> mir_function \<Rightarrow> statement_kind \<Rightarrow> init_state \<Rightarrow> init_outcome \<Rightarrow> init_state \<Rightarrow> bool"
  and init_statements :: "local_id set \<Rightarrow> program \<Rightarrow> mir_function \<Rightarrow> statement list \<Rightarrow> init_state \<Rightarrow> init_outcome \<Rightarrow> init_state \<Rightarrow> bool"
  for A p f where
  Simple: "\<not> is_control k \<Longrightarrow> kind_written p f s k \<Longrightarrow> init_step A p f k s t \<Longrightarrow> init_kind A p f k s IO_Normal t"
| Simple_Bad: "\<not> is_control k \<Longrightarrow> \<not> kind_written p f s k \<Longrightarrow> init_kind A p f k s Bad s"
| Branch: "value_written p f s c \<Longrightarrow> b \<in> {t, e} \<Longrightarrow> init_statements A p f (block_statements b) s out u \<Longrightarrow>
    init_kind A p f (S_If c t e) s out u"
| Branch_Bad: "\<not> value_written p f s c \<Longrightarrow> init_kind A p f (S_If c t e) s Bad s"
| Break: "init_kind A p f S_Break s IO_Broke s"
| Continue: "init_kind A p f S_Continue s IO_Continued s"
| Return: "\<forall>v \<in> set vs. value_written p f s v \<Longrightarrow> init_kind A p f (S_Return vs) s IO_Returned s"
| Return_Bad: "\<not> (\<forall>v \<in> set vs. value_written p f s v) \<Longrightarrow> init_kind A p f (S_Return vs) s Bad s"
| Loop_Again: "init_statements A p f (block_statements body) s out u \<Longrightarrow> out = IO_Normal \<or> out = IO_Continued \<Longrightarrow>
    init_kind A p f (S_Loop body) u out' v \<Longrightarrow> init_kind A p f (S_Loop body) s out' v"
| Loop_Break: "init_statements A p f (block_statements body) s IO_Broke u \<Longrightarrow> init_kind A p f (S_Loop body) s IO_Normal u"
| Loop_Leave: "init_statements A p f (block_statements body) s out u \<Longrightarrow> out = IO_Returned \<or> out = Bad \<Longrightarrow>
    init_kind A p f (S_Loop body) s out u"
| Nil: "init_statements A p f [] s IO_Normal s"
| Cons: "init_kind A p f (stmt_kind x) s IO_Normal t \<Longrightarrow> init_statements A p f xs t out u \<Longrightarrow>
    init_statements A p f (x # xs) s out u"
| Stop: "init_kind A p f (stmt_kind x) s out t \<Longrightarrow> out \<noteq> IO_Normal \<Longrightarrow> init_statements A p f (x # xs) s out t"

subsection \<open>Coverage of cells\<close>

lemma path_is_prefix_iff: "path_is_prefix a b \<longleftrightarrow> prefix a b"
proof (induction a arbitrary: b)
  case (Cons x a)
  then show ?case by (cases b) (auto simp: path_is_prefix_def)
qed (simp add: path_is_prefix_def)

lemma clamp_path_prefix: "prefix a b \<Longrightarrow> prefix (clamp_path p ty a) (clamp_path p ty b)"
proof (induction p ty a arbitrary: b rule: clamp_path.induct)
  case (2 p ty k path)
  from 2(2) obtain b' where "b = IP_Field k # b'" "prefix path b'" by (cases b) auto
  with 2 show ?case by (auto split: option.splits mir_type.splits)
next
  case (3 p ty k path)
  from 3(2) obtain b' where "b = IP_Index k # b'" "prefix path b'" by (cases b) auto
  with 3 show ?case by (auto split: option.splits mir_type.splits)
qed simp

lemma cells_under_prefix: "prefix a b \<Longrightarrow> cells_under p f l b \<subseteq> cells_under p f l a"
  using clamp_path_prefix by (fastforce simp: cells_under_def split: option.splits intro: prefix_order.trans)

lemma static_path_instances:
  "static_initialization_path prs = Some path \<Longrightarrow> path_instances prs = {path}"
  by (induction prs arbitrary: path rule: static_initialization_path.induct) (auto split: option.splits)

lemma static_prefix_instances:
  "path \<in> path_instances prs \<Longrightarrow> prefix (static_initialization_prefix prs) path"
  by (induction prs arbitrary: path rule: static_initialization_prefix.induct) (auto split: option.splits)

definition covers :: "program \<Rightarrow> mir_function \<Rightarrow> local_id \<Rightarrow> init_path list \<Rightarrow> init_path set \<Rightarrow> bool" where
  "covers p f l covered cells \<longleftrightarrow> (\<forall>path \<in> set covered. cells_under p f l path \<subseteq> cells)"

lemma covers_covered:
  "covers p f l covered cells \<Longrightarrow> initialization_is_covered covered path \<Longrightarrow> cells_under p f l path \<subseteq> cells"
  using cells_under_prefix by (fastforce simp: covers_def initialization_is_covered_def list_ex_iff path_is_prefix_iff)

lemma covers_insert: "covers p f l (cover_insert path covered) cells \<longleftrightarrow> covers p f l covered cells \<and> cells_under p f l path \<subseteq> cells"
  by (auto simp: covers_def cover_insert_def)

lemma covers_mono: "covers p f l covered cells \<Longrightarrow> cells \<subseteq> cells' \<Longrightarrow> covers p f l covered cells'"
  by (auto simp: covers_def)

lemma covers_filter: "covers p f l covered cells \<Longrightarrow> covers p f l (filter P covered) cells"
  by (auto simp: covers_def)

text \<open>A path whose indices are in range denotes itself, and the cells below it are those below its
  children.\<close>

lemma clamp_path_in_range:
  "type_at_initialization_path p ty path = Some ty' \<Longrightarrow>
     clamp_path p ty (path @ rest) = path @ clamp_path p ty' rest"
proof (induction p ty path rule: type_at_initialization_path.induct)
  case (2 p ty k path)
  then show ?case by (auto simp: bind_eq_Some_conv split: option.splits mir_type.splits)
next
  case (3 p ty k path)
  then show ?case by (auto split: option.splits mir_type.splits if_splits)
qed simp

lemma is_cell_split:
  "type_at_initialization_path p ty path = Some ty' \<Longrightarrow> is_cell p ty (path @ rest) \<longleftrightarrow> is_cell p ty' rest"
proof (induction p ty path rule: type_at_initialization_path.induct)
  case (2 p ty k path)
  then show ?case by (auto simp: bind_eq_Some_conv split: option.splits mir_type.splits)
next
  case (3 p ty k path)
  then show ?case by (auto split: option.splits mir_type.splits if_splits)
qed simp

lemma is_cell_child:
  assumes "is_cell p ty rest" and "direct_initialization_children p ty n = Some children"
  shows "\<exists>c \<in> set children. \<exists>rest'. rest = c # rest' \<and> clamp_path p ty [c] = [c]"
proof (cases "nth_opt (pr_types p) ty")
  case None
  with assms(2) show ?thesis by (simp add: direct_initialization_children_def)
next
  case (Some t)
  show ?thesis
  proof (cases t)
    case (T_Array element len)
    with assms Some obtain k rest' where "rest = IP_Index k # rest'" "k < len" "children = map IP_Index [0..<len]"
      by (cases rest; cases "hd rest") (auto simp: direct_initialization_children_def split: if_splits)
    with Some T_Array show ?thesis by auto
  next
    case (T_Struct sid)
    with assms Some obtain st where st: "nth_opt (pr_structs p) sid = Some st"
        "children = map IP_Field [0..<length (st_fields st)]"
      by (auto simp: direct_initialization_children_def bind_eq_Some_conv split: if_splits)
    with assms Some T_Struct obtain k rest' where "rest = IP_Field k # rest'" "k < length (st_fields st)"
      by (cases rest; cases "hd rest") (auto split: option.splits simp: nth_opt_def split: if_splits)
    with Some T_Struct st show ?thesis by (auto split: option.splits)
  qed (use assms Some in \<open>simp_all add: direct_initialization_children_def\<close>)
qed

lemma covers_normalize_parent:
  assumes "covers p f l covered cells" and "local_type f l = Some root"
  shows "covers p f l (normalize_parent p root parent covered) cells"
proof -
  have "cells_under p f l parent \<subseteq> cells"
    if ty: "type_at_initialization_path p root parent = Some ty"
      and children: "direct_initialization_children p ty (length covered) = Some children"
      and all: "list_all (\<lambda>child. initialization_is_covered covered (parent @ [child])) children" for ty children
  proof
    fix q assume "q \<in> cells_under p f l parent"
    then have q: "is_cell p root q" "prefix (clamp_path p root parent) q"
      using assms(2) by (simp_all add: cells_under_def)
    then obtain rest where rest: "q = parent @ rest"
      using clamp_path_in_range [OF ty, of "[]"] by (auto simp: prefix_def)
    then have "is_cell p ty rest" using q(1) is_cell_split [OF ty] by simp
    then obtain c rest' where c: "c \<in> set children" "rest = c # rest'" "clamp_path p ty [c] = [c]"
      using is_cell_child children by blast
    have "q \<in> cells_under p f l (parent @ [c])"
      using q(1) assms(2) rest c clamp_path_in_range [OF ty, of "[c]"] by (simp add: cells_under_def)
    moreover have "cells_under p f l (parent @ [c]) \<subseteq> cells"
      using covers_covered [OF assms(1)] all c(1) by (simp add: list_all_iff)
    ultimately show "q \<in> cells" by blast
  qed
  with assms(1) show ?thesis
    by (auto simp: normalize_parent_def covers_insert covers_filter split: option.splits)
qed

lemma covers_normalize:
  assumes "covers p f l covered cells" and "local_type f l = Some root"
  shows "covers p f l (normalize_initialization_coverage p root covered path) cells"
proof -
  have "covers p f l (fold (\<lambda>depth. normalize_parent p root (take depth path)) ds covered) cells" for ds
    using assms(1) by (induction ds arbitrary: covered) (auto simp: covers_normalize_parent assms(2))
  then show ?thesis by (simp add: normalize_initialization_coverage_def)
qed

lemma covers_common_paths:
  assumes "covers p f l lhs cells \<or> covers p f l rhs cells"
  shows "covers p f l (common_paths lhs rhs) cells"
proof -
  let ?step = "\<lambda>left right covered. if path_is_prefix left right then cover_insert right covered
        else if path_is_prefix right left then cover_insert left covered else covered"
  have step: "covers p f l (?step left right covered) cells"
    if "covers p f l covered cells" "left \<in> set lhs" "right \<in> set rhs" for left right covered
  proof -
    have "cells_under p f l left \<subseteq> cells \<or> cells_under p f l right \<subseteq> cells"
      using assms that(2,3) by (auto simp: covers_def)
    then have "prefix left right \<Longrightarrow> cells_under p f l right \<subseteq> cells"
      and "prefix right left \<Longrightarrow> cells_under p f l left \<subseteq> cells"
      using cells_under_prefix by blast+
    with that(1) show ?thesis by (simp add: covers_insert path_is_prefix_iff)
  qed
  have inner: "covers p f l (fold (?step left) rs covered) cells"
    if "covers p f l covered cells" "left \<in> set lhs" "set rs \<subseteq> set rhs" for left rs covered
    using that by (induction rs arbitrary: covered) (simp_all add: step)
  have outer: "covers p f l (fold (\<lambda>left. fold (?step left) rhs) ls covered) cells"
    if "covers p f l covered cells" "set ls \<subseteq> set lhs" for ls covered
    using that by (induction ls arbitrary: covered) (simp_all add: inner)
  show ?thesis unfolding common_paths_def by (rule outer) (simp_all add: covers_def)
qed

subsection \<open>States the analysis describes\<close>

definition describes ::
  "local_id set \<Rightarrow> program \<Rightarrow> mir_function \<Rightarrow> assignment_state \<Rightarrow> init_state \<Rightarrow> bool" where
  "describes A p f st s \<longleftrightarrow> length st = length (fn_locals f)
     \<and> (\<forall>l < length st. covers p f l (li_covered (st ! l)) (is_cells s l)
          \<and> (li_process_frame (st ! l) \<longrightarrow> is_frame s l \<and> l \<notin> A)
          \<and> (\<forall>b. li_full_slice_backing (st ! l) = Some b \<longrightarrow> is_view s l = Some b))"

lemma describesD:
  assumes "describes A p f st s" and "nth_opt st l = Some init"
  shows "covers p f l (li_covered init) (is_cells s l)" and "li_process_frame init \<Longrightarrow> is_frame s l \<and> l \<notin> A"
    and "li_full_slice_backing init = Some b \<Longrightarrow> is_view s l = Some b"
  using assms by (auto simp: describes_def nth_opt_Some_iff)

lemma describes_length: "describes A p f st s \<Longrightarrow> length st = length (fn_locals f)"
  by (simp add: describes_def)

lemma describes_initial: "describes A p f (assignment_state_new (length (fn_locals f))) s"
  by (simp add: describes_def assignment_state_new_def local_uninitialized_def covers_def)

lemma cells_under_undeclared: "length (fn_locals f) \<le> l \<Longrightarrow> cells_under p f l path = {}"
  by (simp add: cells_under_def local_type_def nth_opt_def)

text \<open>A state that grows and keeps its slots is still described.\<close>

lemma describes_grow:
  assumes "describes A p f st s" and "only_grows s t" and "same_slots A L s t"
    and "\<And>l. l \<in> L \<Longrightarrow> l < length st \<Longrightarrow> \<not> li_process_frame (st ! l) \<and> li_full_slice_backing (st ! l) = None"
  shows "describes A p f st t"
proof -
  have "covers p f l (li_covered (st ! l)) (is_cells t l)" if "l < length st" for l
    using that assms(1,2) covers_mono by (auto simp: describes_def only_grows_def)
  moreover have "is_frame t l \<and> l \<notin> A" if "l < length st" "li_process_frame (st ! l)" for l
  proof -
    have "l \<notin> L" using that assms(4) [of l] by auto
    then show ?thesis using that assms(1,3) by (simp add: describes_def same_slots_def)
  qed
  moreover have "is_view t l = Some b" if "l < length st" "li_full_slice_backing (st ! l) = Some b" for l b
  proof -
    have "l \<notin> L" using that assms(4) [of l] by auto
    then show ?thesis using that assms(1,3) by (simp add: describes_def same_slots_def)
  qed
  ultimately show ?thesis using assms(1) by (simp add: describes_def)
qed

subsection \<open>Reads without an error read written cells\<close>

lemma read_value_ok:
  assumes "describes A p f st s" and "assignment_read_value i v src st = []"
  shows "value_written p f s v"
proof (cases v)
  case (V_Local l)
  show ?thesis
  proof (cases "nth_opt st l")
    case None
    then have "cells_under p f l [] = {}"
      using describes_length [OF assms(1)] by (simp add: cells_under_undeclared nth_opt_None_iff)
    then show ?thesis by (simp add: V_Local value_written_def)
  next
    case (Some init)
    then have "[] \<in> set (li_covered init)"
      using assms(2) V_Local by (auto simp: assignment_read_value_def list_ex_iff split: if_splits)
    then show ?thesis using describesD(1) [OF assms(1) Some] by (simp add: V_Local value_written_def covers_def)
  qed
qed (simp add: value_written_def)

lemma read_optional_value_ok:
  "describes A p f st s \<Longrightarrow> assignment_read_optional_value i v src st = [] \<Longrightarrow>
     \<forall>x \<in> set (option_operands v). value_written p f s x"
  by (auto simp: assignment_read_optional_value_def option_operands_def read_value_ok split: option.splits)

lemma read_buffer_ref_ok:
  "describes A p f st s \<Longrightarrow> assignment_read_buffer_ref i b src st = [] \<Longrightarrow>
     \<forall>x \<in> set (buffer_ref_operands b). value_written p f s x"
  by (auto simp: assignment_read_buffer_ref_def buffer_ref_operands_def read_value_ok split: buffer_ref.splits)

lemma read_buffer_param_ref_ok:
  "describes A p f st s \<Longrightarrow> assignment_read_buffer_param_ref i b src st = [] \<Longrightarrow>
     \<forall>x \<in> set (buffer_param_ref_operands b). value_written p f s x"
  by (auto simp: assignment_read_buffer_param_ref_def buffer_param_ref_operands_def read_value_ok
      split: buffer_param_ref.splits)

lemma read_process_frame_ok:
  assumes "describes A p f st s" and "assignment_read_process_frame i v src label st = []"
  shows "value_written p f s v \<and> frame_written s v"
proof (cases v)
  case (V_Local l)
  then obtain init where "nth_opt st l = Some init" "li_process_frame init"
    using assms(2) by (auto simp: assignment_read_process_frame_def split: option.splits if_splits)
  with V_Local assms describesD(2) [OF assms(1)] show ?thesis
    by (auto simp: frame_written_def assignment_read_process_frame_def intro: read_value_ok)
qed (use assms in \<open>simp add: assignment_read_process_frame_def\<close>)

lemma read_place_indices_ok:
  assumes "describes A p f st s" and "assignment_read_place_indices i pl src st = []"
  shows "\<forall>v \<in> set (place_operands pl). value_written p f s v"
proof -
  have "\<forall>v \<in> set (concat (map index_operands prs)). value_written p f s v"
    if "concat (map (\<lambda>pr. case pr of P_Index v _ \<Rightarrow> assignment_read_value i v src st | P_Field _ \<Rightarrow> []) prs) = []" for prs
    using that by (induction prs) (auto simp: index_operands_def read_value_ok [OF assms(1)] split: projection.splits)
  then show ?thesis using assms(2) by (simp add: assignment_read_place_indices_def place_operands_def)
qed

lemma read_place_ok:
  assumes "describes A p f st s" and "assignment_read_place i pl src st = []"
  shows "(\<forall>v \<in> set (place_operands pl). value_written p f s v) \<and> place_written p f s pl"
proof (cases "place_base pl")
  case (PB_Local l)
  let ?prs = "place_projections pl"
  have "cells_under p f l path \<subseteq> is_cells s l" if path: "path \<in> path_instances ?prs" for path
  proof (cases "nth_opt st l")
    case None
    then show ?thesis
      using describes_length [OF assms(1)] by (simp add: cells_under_undeclared nth_opt_None_iff)
  next
    case (Some init)
    then have "initialization_is_covered (li_covered init)
        (case static_initialization_path ?prs of Some p \<Rightarrow> p | None \<Rightarrow> static_initialization_prefix ?prs)"
      using assms(2) PB_Local by (auto simp: assignment_read_place_def split: option.splits if_splits)
    then have "cells_under p f l (case static_initialization_path ?prs of Some p \<Rightarrow> p | None \<Rightarrow> static_initialization_prefix ?prs)
        \<subseteq> is_cells s l"
      using covers_covered describesD(1) [OF assms(1) Some] by blast
    moreover have "prefix (case static_initialization_path ?prs of Some p \<Rightarrow> p | None \<Rightarrow> static_initialization_prefix ?prs) path"
      using path static_path_instances [of ?prs] static_prefix_instances [of path ?prs] by (auto split: option.splits)
    ultimately show ?thesis using cells_under_prefix by blast
  qed
  then show ?thesis
    using PB_Local assms read_place_indices_ok [OF assms(1)] by (auto simp: place_written_def assignment_read_place_def)
qed (use assms read_place_indices_ok [OF assms(1)] in \<open>simp_all add: place_written_def assignment_read_place_def\<close>)

lemmas read_ok = read_value_ok read_optional_value_ok read_buffer_ref_ok read_buffer_param_ref_ok
  read_process_frame_ok read_place_indices_ok read_place_ok

lemma read_values_ok:
  "describes A p f st s \<Longrightarrow> concat (map (\<lambda>v. assignment_read_value i v src st) vs) = [] \<Longrightarrow>
     \<forall>v \<in> set vs. value_written p f s v"
  by (auto simp: read_value_ok)

lemma read_slice_source_ok:
  assumes "describes A p f st s" and "assignment_read_slice_source p i f x src st = []"
  shows "(\<forall>v \<in> set (slice_source_operands x). value_written p f s v)
    \<and> (case x of SS_Place pl \<Rightarrow> place_is_slice p f pl \<longrightarrow> place_written p f s pl | _ \<Rightarrow> True)"
  using assms
  by (cases x) (auto simp: assignment_read_slice_source_def slice_source_operands_def
      dest: read_place_indices_ok read_place_ok read_buffer_ref_ok read_buffer_param_ref_ok read_optional_value_ok
      split: if_splits)

lemma read_rvalue_ok:
  assumes "describes A p f st s" and "assignment_read_rvalue p i f r src st = []"
  shows "rvalue_written p f s r"
  using assms(2)
  by (cases r) (auto simp: assignment_read_rvalue_def rvalue_written_def rvalue_operands_def Let_def
      dest: read_ok [OF assms(1)] read_values_ok [OF assms(1)] read_slice_source_ok [OF assms(1)]
      split: slice_source.splits)

lemma read_argument_ok:
  assumes "describes A p f st s" and "assignment_read_argument i published a src st = []"
    and "published \<Longrightarrow> \<exists>v. a = A_Value v"
  shows "argument_written p f s a"
  using assms(2,3)
  by (cases a) (auto simp: assignment_read_argument_def argument_written_def argument_operands_def
      dest: read_ok [OF assms(1)] split: if_splits)

subsection \<open>Writes keep the description\<close>

lemma nth_opt_update_eq: "l < length st \<Longrightarrow> nth_opt (st[l := x]) l = Some x"
  by (simp add: nth_opt_def)

text \<open>A description up to the locals \<open>L\<close> that a step binds anew; the analysis has reset those it
  has passed.\<close>

definition describes_local ::
  "local_id set \<Rightarrow> local_id set \<Rightarrow> program \<Rightarrow> mir_function \<Rightarrow> init_state \<Rightarrow> local_id \<Rightarrow> local_initialization \<Rightarrow> bool" where
  "describes_local L A p f s l init \<longleftrightarrow> covers p f l (li_covered init) (is_cells s l)
     \<and> (l \<notin> L \<longrightarrow> (li_process_frame init \<longrightarrow> is_frame s l \<and> l \<notin> A)
          \<and> (\<forall>b. li_full_slice_backing init = Some b \<longrightarrow> is_view s l = Some b))"

definition describes_except ::
  "local_id set \<Rightarrow> local_id set \<Rightarrow> program \<Rightarrow> mir_function \<Rightarrow> assignment_state \<Rightarrow> init_state \<Rightarrow> bool" where
  "describes_except L A p f st s \<longleftrightarrow> length st = length (fn_locals f)
     \<and> (\<forall>l < length st. describes_local L A p f s l (st ! l))"

lemma describes_except_empty: "describes_except {} A p f st s \<longleftrightarrow> describes A p f st s"
  by (simp add: describes_except_def describes_local_def describes_def)

lemma describes_step:
  assumes "describes A p f st s" and "only_grows s t" and "same_slots A L s t"
  shows "describes_except L A p f st t"
proof -
  have "describes_local L A p f t l (st ! l)" if "l < length st" for l
    using that assms covers_mono [of p f l "li_covered (st ! l)" "is_cells s l" "is_cells t l"]
    by (auto simp: describes_def describes_local_def only_grows_def same_slots_def)
  then show ?thesis using assms(1) by (simp add: describes_except_def describes_def)
qed

lemma all_update:
  "\<forall>k < length xs. P k (xs ! k) \<Longrightarrow> (l < length xs \<Longrightarrow> P l x) \<Longrightarrow> \<forall>k < length xs. P k (xs[l := x] ! k)"
  by (metis length_list_update nth_list_update_eq nth_list_update_neq)

lemma describes_except_update:
  assumes "describes_except L A p f st t"
    and "l < length st \<Longrightarrow> covers p f l (li_covered x) (is_cells t l)"
    and "li_process_frame x \<Longrightarrow> is_frame t l \<and> l \<notin> A"
    and "\<And>b. li_full_slice_backing x = Some b \<Longrightarrow> is_view t l = Some b"
  shows "describes_except (L - {l}) A p f (st[l := x]) t"
proof -
  have "describes_local (L - {l}) A p f t k (st[l := x] ! k)" if k: "k < length st" for k
  proof (cases "k = l")
    case True
    with k assms(2-) show ?thesis by (simp add: describes_local_def)
  next
    case False
    have "describes_local L A p f t k (st ! k)" using assms(1) k by (simp add: describes_except_def)
    with False show ?thesis by (simp add: describes_local_def)
  qed
  then show ?thesis using assms(1) by (simp add: describes_except_def)
qed

lemma describes_except_mono:
  "describes_except L A p f st t \<Longrightarrow> L \<subseteq> L' \<Longrightarrow> describes_except L' A p f st t"
  by (auto simp: describes_except_def describes_local_def)

lemma describes_except_undeclared:
  "describes_except L A p f st t \<Longrightarrow> length st \<le> l \<Longrightarrow> describes_except (L - {l}) A p f st t"
  by (auto simp: describes_except_def describes_local_def)

lemma describes_except_keep:
  assumes "describes_except L A p f st t" and "l < length st \<Longrightarrow> \<not> li_process_frame (st ! l)"
    and "l < length st \<Longrightarrow> li_full_slice_backing (st ! l) = None"
  shows "describes_except (L - {l}) A p f st t"
  using assms by (auto simp: describes_except_def describes_local_def)

lemma write_local_ok:
  assumes "describes_except L A p f st t" and "cells_under p f l [] \<subseteq> is_cells t l"
  shows "describes_except (L - {l}) A p f (assignment_write_local l False st) t"
  using describes_except_update [OF assms(1), of l "local_written False"] assms(2)
    describes_except_undeclared [OF assms(1), of l]
  by (auto simp: assignment_write_local_def local_written_def covers_def)

lemma write_locals_ok:
  assumes "describes_except L A p f st t" and "\<forall>l \<in> set ls. cells_under p f l [] \<subseteq> is_cells t l"
  shows "describes_except (L - set ls) A p f (fold (\<lambda>l. assignment_write_local l False) ls st) t"
  using assms
proof (induction ls arbitrary: st L)
  case (Cons l ls)
  have "describes_except (L - {l}) A p f (assignment_write_local l False st) t"
    by (rule write_local_ok [OF Cons.prems(1)]) (use Cons.prems(2) in simp)
  from Cons.IH [OF this] Cons.prems(2) have "describes_except (L - {l} - set ls) A p f
      (fold (\<lambda>l. assignment_write_local l False) ls (assignment_write_local l False st)) t" by auto
  moreover have "L - {l} - set ls = L - set (l # ls)" by auto
  ultimately show ?case by simp
qed simp

lemma length_write_local [simp]: "length (assignment_write_local l b st) = length st"
  by (simp add: assignment_write_local_def)

lemma length_write_place [simp]: "length (snd (assignment_write_place p i f pl b src st)) = length st"
  by (simp add: assignment_write_place_def Let_def split: place_base.split option.split)

text \<open>A place write covers what every instance of the place, hence the written one, covers.\<close>

lemma write_place_ok:
  assumes "describes_except L A p f st t" and "writes_place p f pl t"
    and "\<And>l. pl = place_local l \<Longrightarrow> frame \<Longrightarrow> is_frame t l \<and> l \<notin> A"
  shows "describes_except (L - base_locals pl) A p f (snd (assignment_write_place p i f pl frame src st)) t"
proof (cases "place_base pl")
  case (PB_Local l)
  have L: "base_locals pl = {l}" by (simp add: base_locals_def PB_Local)
  show ?thesis
  proof (cases "nth_opt st l")
    case None
    then have "describes_except (L - {l}) A p f st t"
      using describes_except_undeclared [OF assms(1)] by (simp add: nth_opt_None_iff)
    then show ?thesis by (simp add: assignment_write_place_def PB_Local L None)
  next
    case (Some init)
    then have old: "covers p f l (li_covered init) (is_cells t l)"
      using assms(1) by (auto simp: describes_except_def describes_local_def nth_opt_Some_iff)
    obtain path where path: "path \<in> path_instances (place_projections pl)" "cells_under p f l path \<subseteq> is_cells t l"
      using assms(2) PB_Local by (auto simp: writes_place_def)
    show ?thesis
    proof (cases "place_projections pl = []")
      case True
      then have pl: "pl = place_local l" using PB_Local by (simp add: place_local_def)
      have "describes_except (L - {l}) A p f (st[l := local_written frame]) t"
        by (rule describes_except_update [OF assms(1)])
          (use assms(3) [OF pl] path True in \<open>auto simp: local_written_def covers_def\<close>)
      then show ?thesis using True by (simp add: assignment_write_place_def PB_Local L Some)
    next
      case False
      show ?thesis
      proof (cases "static_initialization_path (place_projections pl)")
        case None
        then show ?thesis
          using describes_except_update [OF assms(1), of l "init\<lparr>li_process_frame := False, li_full_slice_backing := None\<rparr>"] old False
          by (auto simp: assignment_write_place_def PB_Local L Some Let_def)
      next
        case (Some q)
        let ?covered = "case local_type f l of
            None \<Rightarrow> cover_insert q (li_covered init)
          | Some ty \<Rightarrow> normalize_initialization_coverage p ty (cover_insert q (li_covered init)) q"
        have "q = path" using static_path_instances [OF Some] path(1) by simp
        then have "covers p f l (cover_insert q (li_covered init)) (is_cells t l)"
          using old path(2) by (simp add: covers_insert)
        then have "covers p f l ?covered (is_cells t l)"
          using covers_normalize by (auto split: option.splits)
        then have "describes_except (L - {l}) A p f
            (st[l := init\<lparr>li_process_frame := False, li_full_slice_backing := None, li_covered := ?covered\<rparr>]) t"
          by (intro describes_except_update [OF assms(1)]) simp_all
        then show ?thesis using False
          by (simp add: assignment_write_place_def PB_Local L \<open>nth_opt st l = Some init\<close> Some Let_def cong: option.case_cong)
      qed
    qed
  qed
qed (use assms(1) in \<open>simp_all add: assignment_write_place_def base_locals_def\<close>)

lemma set_slice_backing_ok:
  assumes "describes_except L A p f st t" and "\<And>l b. d = place_local l \<Longrightarrow> backing = Some b \<Longrightarrow> is_view t l = Some b"
  shows "describes_except L A p f (set_slice_backing d backing st) t"
proof (cases "\<exists>l. d = place_local l \<and> l < length st")
  case True
  then obtain l where l: "d = place_local l" "l < length st" by blast
  have "describes_local L A p f t k (st[l := (st ! l)\<lparr>li_full_slice_backing := backing\<rparr>] ! k)" if "k < length st" for k
    using that assms(1) assms(2) [OF l(1)]
    by (cases "k = l") (auto simp: describes_except_def describes_local_def)
  with l assms(1) show ?thesis
    by (simp add: set_slice_backing_def place_local_def describes_except_def)
next
  case False
  then have "set_slice_backing d backing st = st"
    by (cases d) (auto simp: set_slice_backing_def place_local_def split: place_base.splits)
  then show ?thesis using assms(1) by simp
qed

subsection \<open>Conditions on slices and frames\<close>

text \<open>The locals a block may bind anew.\<close>

fun block_rebinds :: "program \<Rightarrow> block \<Rightarrow> local_id set"
  and statements_rebind :: "program \<Rightarrow> statement list \<Rightarrow> local_id set" where
  "block_rebinds p (Block ss) = statements_rebind p ss"
| "statements_rebind p [] = {}"
| "statements_rebind p (Statement k src # ss) =
     (case k of
        S_If _ t e \<Rightarrow> block_rebinds p t \<union> block_rebinds p e
      | S_Loop body \<Rightarrow> block_rebinds p body
      | _ \<Rightarrow> kind_rebinds p k) \<union> statements_rebind p ss"

definition slice_backing :: "assignment_state \<Rightarrow> mir_value \<Rightarrow> local_id option" where
  "slice_backing st v = (case v of V_Local l \<Rightarrow> Option.bind (nth_opt st l) li_full_slice_backing | V_Constant _ \<Rightarrow> None)"

text \<open>A copy into a slice of a whole array fills it when the source is a slice of an array at least as
  long.\<close>

definition copy_fills :: "program \<Rightarrow> mir_function \<Rightarrow> assignment_state \<Rightarrow> slice_copy \<Rightarrow> bool" where
  "copy_fills p f st c \<longleftrightarrow>
     (case slice_backing st (copy_destination c) of
        None \<Rightarrow> True
      | Some b \<Rightarrow>
          (case (slice_backing st (copy_source c), array_length p f b) of
             (Some a, Some n) \<Rightarrow> (case array_length p f a of Some m \<Rightarrow> n \<le> m | None \<Rightarrow> False)
           | _ \<Rightarrow> False))"

text \<open>Along the analysis: a loop does not bind anew a local with a tracked slice or frame, a local with
  a tracked slice is not passed for writing, and tracked slices are copied into in full.\<close>

fun slices_kept :: "program \<Rightarrow> function_id \<Rightarrow> mir_function \<Rightarrow> block \<Rightarrow> assignment_state \<Rightarrow> bool"
  and slices_kept_statements :: "program \<Rightarrow> function_id \<Rightarrow> mir_function \<Rightarrow> statement list \<Rightarrow> assignment_state \<Rightarrow> bool"
  and slices_kept_kind :: "program \<Rightarrow> function_id \<Rightarrow> mir_function \<Rightarrow> statement_kind \<Rightarrow> assignment_state \<Rightarrow> bool" where
  "slices_kept p i f (Block ss) st = slices_kept_statements p i f ss st"
| "slices_kept_statements p i f [] st = True"
| "slices_kept_statements p i f (Statement k src # ss) st =
     (slices_kept_kind p i f k st
      \<and> (case af_fallthrough (snd (validate_assignment_kind p i f k src st)) of
           None \<Rightarrow> True | Some st \<Rightarrow> slices_kept_statements p i f ss st))"
| "slices_kept_kind p i f k st =
     (case k of
        S_If _ t e \<Rightarrow> slices_kept p i f t st \<and> slices_kept p i f e st
      | S_Loop body \<Rightarrow>
          (\<forall>l \<in> block_rebinds p body. l < length st \<longrightarrow>
             \<not> li_process_frame (st ! l) \<and> li_full_slice_backing (st ! l) = None)
          \<and> slices_kept p i f body st
      | S_Call _ g args \<Rightarrow>
          (\<forall>ap \<in> set (zip args (callee_params p g)). fp_mode (snd ap) = PM_ReadWriteReference \<longrightarrow>
             (\<forall>l \<in> argument_rebinds ap. l < length st \<longrightarrow> li_full_slice_backing (st ! l) = None))
      | S_SliceCopy copies _ \<Rightarrow> (\<forall>c \<in> set copies. copy_fills p f st c)
      | _ \<Rightarrow> True)"

declare slices_kept_kind.simps [simp del]

text \<open>\<open>A\<close> holds the locals slices are made of, no frame is stored there, and publications pass values.\<close>

definition storage_apart :: "local_id set \<Rightarrow> statement_kind \<Rightarrow> bool" where
  "storage_apart A k \<longleftrightarrow>
     (case k of
        S_Assign d (R_MakeSlice (SS_Place pl) _ _ _ _) \<Rightarrow> base_locals pl \<subseteq> A
      | S_Assign d (R_ProcessFrame _) \<Rightarrow> base_locals d \<inter> A = {}
      | S_PublishDelegate _ args \<Rightarrow> \<forall>a \<in> set args. \<exists>v. a = A_Value v
      | _ \<Rightarrow> True)"

subsection \<open>Simple statements\<close>

lemma read_call_arguments_ok:
  assumes "describes A p f st s" and "assignment_read_call_arguments p i g args src st = []"
  shows "\<forall>(n, a) \<in> set (enumerate 0 args).
     if is_result_argument p g n
     then (case a of A_Place pl \<Rightarrow> \<forall>v \<in> set (place_operands pl). value_written p f s v | _ \<Rightarrow> True)
     else argument_written p f s a"
proof (rule ballI, clarify)
  fix n a assume "(n, a) \<in> set (enumerate 0 args)"
  then have "(if is_result_argument p g n
       then (case a of A_Place pl \<Rightarrow> assignment_read_place_indices i pl src st | _ \<Rightarrow> [])
       else assignment_read_argument i False a src st) = []"
    using assms(2) unfolding assignment_read_call_arguments_def concat_eq_Nil_conv by force
  then show "if is_result_argument p g n
     then (case a of A_Place pl \<Rightarrow> \<forall>v \<in> set (place_operands pl). value_written p f s v | _ \<Rightarrow> True)
     else argument_written p f s a"
    using read_place_indices_ok [OF assms(1)] read_argument_ok [OF assms(1), of i False]
    by (auto split: call_argument.splits if_splits)
qed

lemma read_kind_ok:
  assumes "describes A p f st s" and "\<not> is_control k" and "storage_apart A k"
    and "fst (validate_assignment_statement p i f k src st) = []"
  shows "kind_written p f s k"
proof (cases "\<exists>rs g args. k = S_Call rs g args")
  case True
  then obtain rs g args where k: "k = S_Call rs g args" by blast
  then have "assignment_read_call_arguments p i g args src st = []"
    using assms(4) by (simp add: validate_assignment_statement_def Let_def split_def)
  then show ?thesis using read_call_arguments_ok [OF assms(1)] by (simp add: k kind_written_def)
next
  case False
  then show ?thesis using assms(2-)
    by (cases k)
      (auto simp: validate_assignment_statement_def kind_written_def kind_operands_def Let_def split_def is_control_def
        storage_apart_def assignment_write_place_def
        dest: read_rvalue_ok [OF assms(1)] read_ok [OF assms(1)] read_argument_ok [OF assms(1)])
qed

text \<open>The writes of the arguments of a call.\<close>

lemma nth_opt_write_backing:
  assumes "nth_opt (snd (assignment_write_place p i f pl b src st)) l = Some init"
    and "li_full_slice_backing init = Some c"
  shows "\<exists>old. nth_opt st l = Some old \<and> li_full_slice_backing old = Some c"
  using assms
  by (auto simp: assignment_write_place_def Let_def local_written_def nth_opt_update
      split: place_base.splits option.splits if_splits)

lemma describes_except_frame:
  assumes "describes_except L A p f st t"
  shows "describes_except L A p f (st[l := (st ! l)\<lparr>li_process_frame := False\<rparr>]) t"
proof -
  have "describes_local L A p f t k (st[l := (st ! l)\<lparr>li_process_frame := False\<rparr>] ! k)" if "k < length st" for k
    using that assms by (cases "k = l") (auto simp: describes_except_def describes_local_def)
  then show ?thesis using assms by (simp add: describes_except_def)
qed

lemma invalidate_ok:
  assumes "describes_except L A p f st t" and "fp_mode param = PM_ReadWriteReference"
    and "\<forall>l \<in> argument_rebinds (a, param). \<forall>init. nth_opt st l = Some init \<longrightarrow> li_full_slice_backing init = None"
  shows "describes_except (L - argument_rebinds (a, param)) A p f (assignment_invalidate_read_write_argument a st) t"
proof (cases "read_write_local a")
  case None
  then have "argument_rebinds (a, param) = {}"
    by (cases a) (auto simp: argument_rebinds_def read_write_local_def base_locals_def split: place_base.splits)
  with None assms(1) show ?thesis by (simp add: assignment_invalidate_read_write_argument_def)
next
  case (Some l)
  let ?st = "assignment_invalidate_read_write_argument a st"
  have keep: "describes_except L A p f ?st t"
    using describes_except_frame [OF assms(1), of l] assms(1) by (simp add: assignment_invalidate_read_write_argument_def Some)
  have "argument_rebinds (a, param) \<subseteq> {l}"
    using Some by (cases a) (auto simp: argument_rebinds_def read_write_local_def base_locals_def split: place_base.splits)
  then consider "argument_rebinds (a, param) = {}" | "argument_rebinds (a, param) = {l}" by blast
  then show ?thesis
  proof cases
    case 2
    then have "l < length st \<Longrightarrow> li_full_slice_backing (st ! l) = None" using assms(3) by (auto simp: nth_opt_def)
    then have "describes_except (L - {l}) A p f ?st t"
      using describes_except_keep [OF keep, of l]
      by (auto simp: assignment_invalidate_read_write_argument_def Some)
    with 2 show ?thesis by simp
  qed (use keep in simp)
qed

lemma invalidate_backing:
  "nth_opt (assignment_invalidate_read_write_argument a st) l = Some init \<Longrightarrow> li_full_slice_backing init = Some c \<Longrightarrow>
     \<exists>old. nth_opt st l = Some old \<and> li_full_slice_backing old = Some c"
  by (cases "the (read_write_local a) = l")
    (auto simp: assignment_invalidate_read_write_argument_def nth_opt_def split: option.splits if_splits)

lemma call_writes_ok:
  assumes "describes_except L A p f st t"
    and "\<forall>(a, param) \<in> set aps. fp_mode param = PM_ResultReference \<longrightarrow> (\<forall>pl. a = A_Place pl \<longrightarrow> writes_place p f pl t)"
    and "\<forall>ap \<in> set aps. fp_mode (snd ap) = PM_ReadWriteReference \<longrightarrow>
           (\<forall>l \<in> argument_rebinds ap. \<forall>init. nth_opt st l = Some init \<longrightarrow> li_full_slice_backing init = None)"
  shows "describes_except (L - (\<Union>ap \<in> set aps. argument_rebinds ap)) A p f
    (snd (assignment_call_writes p i f aps src st)) t"
  using assms
proof (induction aps arbitrary: st L)
  case (Cons ap aps)
  obtain a param where ap: "ap = (a, param)" by (cases ap)
  let ?st = "if fp_mode param = PM_ResultReference
      then (case a of A_Place pl \<Rightarrow> snd (assignment_write_place p i f pl False src st) | _ \<Rightarrow> st)
      else if fp_mode param = PM_ReadWriteReference then assignment_invalidate_read_write_argument a st else st"
  have step: "describes_except (L - argument_rebinds ap) A p f ?st t"
  proof -
    consider (res) pl where "fp_mode param = PM_ResultReference" "a = A_Place pl"
      | (writes) "fp_mode param = PM_ReadWriteReference"
      | (other) "fp_mode param \<noteq> PM_ReadWriteReference" "\<And>pl. fp_mode param = PM_ResultReference \<Longrightarrow> a \<noteq> A_Place pl"
      by blast
    then show ?thesis
    proof cases
      case res
      then have "writes_place p f pl t" using Cons.prems(2) ap by auto
      then show ?thesis
        using write_place_ok [OF Cons.prems(1), of pl False] res by (simp add: ap argument_rebinds_def)
    next
      case writes
      then have "\<forall>l \<in> argument_rebinds ap. \<forall>init. nth_opt st l = Some init \<longrightarrow> li_full_slice_backing init = None"
        using Cons.prems(3) by (simp add: ap)
      then show ?thesis using invalidate_ok [OF Cons.prems(1), of param a] writes by (simp add: ap)
    next
      case other
      then have "argument_rebinds ap = {}"
        by (cases "fp_mode param"; cases a) (auto simp: ap argument_rebinds_def)
      then show ?thesis using Cons.prems(1) other by (auto split: call_argument.splits)
    qed
  qed
  have kept: "\<exists>old. nth_opt st l = Some old \<and> li_full_slice_backing old = Some c"
    if "nth_opt ?st l = Some init" "li_full_slice_backing init = Some c" for l init c
    using that nth_opt_write_backing invalidate_backing by (cases a) (auto split: if_splits)
  have "snd (assignment_call_writes p i f (ap # aps) src st) = snd (assignment_call_writes p i f aps src ?st)"
    by (simp add: ap Let_def split_def split: call_argument.split)
  moreover have "describes_except (L - argument_rebinds ap - (\<Union>ap \<in> set aps. argument_rebinds ap)) A p f
      (snd (assignment_call_writes p i f aps src ?st)) t"
  proof (rule Cons.IH [OF step])
    show "\<forall>ap \<in> set aps. fp_mode (snd ap) = PM_ReadWriteReference \<longrightarrow>
        (\<forall>l \<in> argument_rebinds ap. \<forall>init. nth_opt ?st l = Some init \<longrightarrow> li_full_slice_backing init = None)"
      using Cons.prems(3) kept by (metis list.set_intros(2) not_None_eq)
  qed (use Cons.prems(2) in simp)
  ultimately show ?case by (simp add: Diff_eq Int_assoc)
qed simp

lemma full_slice_view:
  assumes "describes A p f st s" and "full_local_array_slice p f r st = Some b"
    and "\<forall>v. r = R_Use (V_Local v) \<longrightarrow> is_view t l = is_view s v" and "\<forall>b. covers_array p f r b \<longrightarrow> is_view t l = Some b"
  shows "is_view t l = Some b"
proof -
  consider (copy) v where "r = R_Use (V_Local v)" "Option.bind (nth_opt st v) li_full_slice_backing = Some b"
    | (whole) "covers_array p f r b"
    using assms(2)
    by (cases r) (auto simp: full_local_array_slice_def covers_array_def array_length_def place_local_def
        split: mir_value.splits slice_source.splits scalar_value.splits place_base.splits if_splits option.splits mir_type.splits)
  then show ?thesis
  proof cases
    case copy
    then show ?thesis using assms(3) describesD(3) [OF assms(1)] by (auto simp: bind_eq_Some_conv)
  qed (use assms(4) in blast)
qed

lemma write_full_slice_ok:
  assumes "describes A p f st t" and "\<And>b. slice_backing st v = Some b \<Longrightarrow> cells_under p f b [] \<subseteq> is_cells t b"
  shows "describes A p f (assignment_write_full_slice v st) t"
proof (cases "slice_backing st v")
  case None
  then show ?thesis using assms(1)
    by (auto simp: assignment_write_full_slice_def slice_backing_def split: mir_value.splits option.splits)
next
  case (Some b)
  then have "assignment_write_full_slice v st = assignment_write_local b False st"
    by (auto simp: assignment_write_full_slice_def slice_backing_def split: mir_value.splits option.splits)
  then show ?thesis
    using write_local_ok [of "{}" A p f st t b] assms Some by (simp add: describes_except_empty)
qed

lemma write_full_slice_backing:
  "slice_backing (assignment_write_full_slice v st) u = Some b \<Longrightarrow> slice_backing st u = Some b"
  by (auto simp: slice_backing_def assignment_write_full_slice_def assignment_write_local_def local_written_def
      nth_opt_update split: mir_value.splits option.splits if_splits)

lemma write_copies_ok:
  assumes "describes A p f st t"
    and "\<And>c b. c \<in> set copies \<Longrightarrow> slice_backing st (copy_destination c) = Some b \<Longrightarrow> cells_under p f b [] \<subseteq> is_cells t b"
  shows "describes A p f (fold (\<lambda>c. assignment_write_full_slice (copy_destination c)) copies st) t"
  using assms
proof (induction copies arbitrary: st)
  case (Cons c copies)
  have "describes A p f (assignment_write_full_slice (copy_destination c) st) t"
    by (rule write_full_slice_ok [OF Cons.prems(1)]) (use Cons.prems(2) in auto)
  then have "describes A p f (fold (\<lambda>c. assignment_write_full_slice (copy_destination c)) copies
      (assignment_write_full_slice (copy_destination c) st)) t"
  proof (rule Cons.IH)
    show "cells_under p f b [] \<subseteq> is_cells t b"
      if "c' \<in> set copies" "slice_backing (assignment_write_full_slice (copy_destination c) st) (copy_destination c') = Some b" for c' b
      using Cons.prems(2) [of c' b] that(1) write_full_slice_backing [OF that(2)] by simp
  qed
  then show ?case by simp
qed simp

lemma slice_backing_view:
  "describes A p f st s \<Longrightarrow> slice_backing st v = Some b \<Longrightarrow> \<exists>l. v = V_Local l \<and> is_view s l = Some b"
  by (auto simp: slice_backing_def bind_eq_Some_conv describesD(3) split: mir_value.splits)

lemma step_assign_ok:
  assumes "describes A p f st s" and "init_step A p f (S_Assign d r) s t" and "storage_apart A (S_Assign d r)"
  shows "describes A p f (snd (validate_assignment_statement p i f (S_Assign d r) src st)) t"
proof -
  have step: "only_grows s t" "same_slots A (base_locals d) s t" "writes_place p f d t"
      "\<And>l. d = place_local l \<Longrightarrow> (l \<notin> A \<longrightarrow> is_frame t l = is_process_frame r)
         \<and> (\<forall>v. r = R_Use (V_Local v) \<longrightarrow> is_view t l = is_view s v) \<and> (\<forall>b. covers_array p f r b \<longrightarrow> is_view t l = Some b)"
    using assms(2) by (auto simp: init_step_def kind_rebinds_def)
  have frame: "is_frame t l \<and> l \<notin> A" if "d = place_local l" "is_process_frame r" for l
    using that step(4) assms(3)
    by (auto simp: storage_apart_def is_process_frame_def base_locals_def place_local_def split: rvalue.splits)
  have "describes A p f (snd (assignment_write_place p i f d (is_process_frame r) src st)) t"
    using write_place_ok [OF describes_step [OF assms(1) step(1,2)] step(3) frame]
    by (simp add: describes_except_empty)
  then have "describes A p f (set_slice_backing d (full_local_array_slice p f r st)
      (snd (assignment_write_place p i f d (is_process_frame r) src st))) t"
    unfolding describes_except_empty [symmetric]
    by (rule set_slice_backing_ok) (use full_slice_view [OF assms(1)] step(4) in blast)
  then show ?thesis by (simp add: validate_assignment_statement_def Let_def split_def)
qed

lemma step_call_ok:
  assumes "describes A p f st s" and "init_step A p f (S_Call rs g args) s t" and "slices_kept_kind p i f (S_Call rs g args) st"
  shows "describes A p f (snd (validate_assignment_statement p i f (S_Call rs g args) src st)) t"
proof -
  let ?aps = "zip args (callee_params p g)"
  let ?R = "\<Union>ap \<in> set ?aps. argument_rebinds ap"
  have step: "only_grows s t" "same_slots A (set rs \<union> ?R) s t" "\<forall>l \<in> set rs. cells_under p f l [] \<subseteq> is_cells t l"
      "\<forall>(a, param) \<in> set ?aps. fp_mode param = PM_ResultReference \<longrightarrow> (\<forall>pl. a = A_Place pl \<longrightarrow> writes_place p f pl t)"
    using assms(2) by (auto simp: init_step_def kind_rebinds_def)
  have "describes_except (set rs \<union> ?R - ?R) A p f (snd (assignment_call_writes p i f ?aps src st)) t"
  proof (rule call_writes_ok [OF describes_step [OF assms(1) step(1,2)] step(4)])
    show "\<forall>ap \<in> set ?aps. fp_mode (snd ap) = PM_ReadWriteReference \<longrightarrow>
        (\<forall>l \<in> argument_rebinds ap. \<forall>init. nth_opt st l = Some init \<longrightarrow> li_full_slice_backing init = None)"
      using assms(3) by (auto simp: slices_kept_kind.simps nth_opt_Some_iff)
  qed
  then have "describes_except (set rs \<union> ?R - ?R - set rs) A p f
      (fold (\<lambda>l. assignment_write_local l False) rs (snd (assignment_call_writes p i f ?aps src st))) t"
    by (rule write_locals_ok) (rule step(3))
  moreover have "set rs \<union> ?R - ?R - set rs = {}" by blast
  ultimately show ?thesis
    by (simp add: describes_except_empty validate_assignment_statement_def Let_def split_def)
qed

lemma step_copy_ok:
  assumes "describes A p f st s" and "init_step A p f (S_SliceCopy copies b) s t" and "slices_kept_kind p i f (S_SliceCopy copies b) st"
  shows "describes A p f (snd (validate_assignment_statement p i f (S_SliceCopy copies b) src st)) t"
proof -
  have "describes A p f st t"
    using describes_step [OF assms(1), of t "{}"] assms(2) by (simp add: init_step_def kind_rebinds_def describes_except_empty)
  moreover have "cells_under p f b [] \<subseteq> is_cells t b"
    if c: "c \<in> set copies" and b: "slice_backing st (copy_destination c) = Some b" for c b
  proof -
    have "copy_fills p f st c" using assms(3) c by (simp add: slices_kept_kind.simps)
    then obtain a n m where a: "slice_backing st (copy_source c) = Some a" "array_length p f b = Some n"
        "array_length p f a = Some m" "n \<le> m"
      using b by (auto simp: copy_fills_def split: option.splits)
    obtain v u where "copy_destination c = V_Local v" "is_view s v = Some b" "copy_source c = V_Local u" "is_view s u = Some a"
      using slice_backing_view [OF assms(1)] a(1) b by metis
    moreover have "\<forall>c \<in> set copies. \<forall>v u b a n m.
        copy_destination c = V_Local v \<and> copy_source c = V_Local u \<and> is_view s v = Some b \<and> is_view s u = Some a
        \<and> array_length p f b = Some n \<and> array_length p f a = Some m \<and> n \<le> m \<longrightarrow> cells_under p f b [] \<subseteq> is_cells t b"
      using assms(2) unfolding init_step_def by (elim conjE) simp
    ultimately show ?thesis using c a(2-4) by blast
  qed
  ultimately have "describes A p f (fold (\<lambda>c. assignment_write_full_slice (copy_destination c)) copies st) t"
    by (rule write_copies_ok)
  then show ?thesis by (simp add: validate_assignment_statement_def Let_def)
qed

lemma step_kind_ok:
  assumes "describes A p f st s" and "\<not> is_control k" and "storage_apart A k" and "init_step A p f k s t"
    and "slices_kept_kind p i f k st"
  shows "describes A p f (snd (validate_assignment_statement p i f k src st)) t"
proof -
  have grow: "describes A p f st t" if "kind_rebinds p k = {}"
    using describes_step [OF assms(1), of t "{}"] assms(4) that by (simp add: init_step_def describes_except_empty)
  show ?thesis
  proof (cases k)
    case (S_SliceFill d v)
    have "cells_under p f b [] \<subseteq> is_cells t b" if "slice_backing st d = Some b" for b
      using slice_backing_view [OF assms(1) that] assms(4) S_SliceFill by (auto simp: init_step_def)
    moreover have "describes A p f st t" using grow S_SliceFill by (simp add: kind_rebinds_def)
    ultimately have "describes A p f (assignment_write_full_slice d st) t" by (intro write_full_slice_ok)
    then show ?thesis by (simp add: S_SliceFill validate_assignment_statement_def Let_def)
  qed (use assms step_assign_ok step_call_ok step_copy_ok grow in
      \<open>simp_all add: validate_assignment_statement_def Let_def kind_rebinds_def is_control_def\<close>)
qed

subsection \<open>Joins\<close>

lemma intersect_two_ok:
  assumes "describes A p f lhs s \<or> describes A p f rhs s" and "length lhs = length rhs"
  shows "describes A p f (intersect_two_assignment_states p f lhs rhs) s"
proof -
  let ?st = "intersect_two_assignment_states p f lhs rhs"
  have len: "length ?st = length lhs" "length ?st = length rhs"
    using assms(2) by (simp_all add: intersect_two_assignment_states_def)
  have entry: "covers p f l (li_covered (?st ! l)) (is_cells s l)
      \<and> (li_process_frame (?st ! l) \<longrightarrow> is_frame s l \<and> l \<notin> A)
      \<and> (\<forall>b. li_full_slice_backing (?st ! l) = Some b \<longrightarrow> is_view s l = Some b)" if l: "l < length ?st" for l
  proof -
    have nth: "?st ! l = intersect_local p (local_type f l) (lhs ! l) (rhs ! l)"
      using l len by (simp add: intersect_two_assignment_states_def nth_enumerate_eq)
    let ?paths = "common_paths (li_covered (lhs ! l)) (li_covered (rhs ! l))"
    have paths: "covers p f l ?paths (is_cells s l)"
      using assms(1) l len by (intro covers_common_paths) (auto simp: describes_def)
    have "covers p f l (fold (\<lambda>path covered. normalize_initialization_coverage p ty covered path) ps covered) (is_cells s l)"
      if "local_type f l = Some ty" "covers p f l covered (is_cells s l)" for ty ps covered
      using that by (induction ps arbitrary: covered) (simp_all add: covers_normalize)
    then have "covers p f l (li_covered (?st ! l)) (is_cells s l)"
      using paths by (auto simp: nth intersect_local_def Let_def split: option.splits)
    moreover have "li_process_frame (?st ! l) \<longrightarrow> is_frame s l \<and> l \<notin> A"
      using assms(1) l len by (auto simp: nth intersect_local_def Let_def describes_def)
    moreover have "\<forall>b. li_full_slice_backing (?st ! l) = Some b \<longrightarrow> is_view s l = Some b"
      using assms(1) l len by (auto simp: nth intersect_local_def Let_def describes_def)
    ultimately show ?thesis by blast
  qed
  show ?thesis using entry len assms(1) by (auto simp: describes_def)
qed

lemma length_intersect_two [simp]:
  "length (intersect_two_assignment_states p f lhs rhs) = min (length lhs) (length rhs)"
  by (simp add: intersect_two_assignment_states_def)

lemma intersect_states_ok:
  assumes "\<exists>st \<in> set sts. describes A p f st s" and "\<forall>st \<in> set sts. length st = n"
  shows "\<exists>st. intersect_assignment_states p f sts = Some st \<and> describes A p f st s"
proof -
  have fold: "describes A p f (fold (\<lambda>rhs lhs. intersect_two_assignment_states p f lhs rhs) sts first) s"
    if "describes A p f first s \<or> (\<exists>st \<in> set sts. describes A p f st s)"
      "length first = n" "\<forall>st \<in> set sts. length st = n" for sts first
    using that
  proof (induction sts arbitrary: first)
    case (Cons x sts)
    have "describes A p f (intersect_two_assignment_states p f first x) s \<or> (\<exists>st \<in> set sts. describes A p f st s)"
      using Cons.prems intersect_two_ok [of A p f first s x] by auto
    with Cons show ?case by simp
  qed simp
  obtain first rest where sts: "sts = first # rest" using assms(1) by (cases sts) auto
  have "describes A p f (fold (\<lambda>rhs lhs. intersect_two_assignment_states p f lhs rhs) rest first) s"
    by (rule fold) (use assms sts in auto)
  with sts show ?thesis by simp
qed

lemma length_intersect_states:
  "intersect_assignment_states p f sts = Some st \<Longrightarrow> \<forall>x \<in> set sts. length x = n \<Longrightarrow> length st = n"
proof -
  have "length (fold (\<lambda>rhs lhs. intersect_two_assignment_states p f lhs rhs) sts first) = n"
    if "length first = n" "\<forall>x \<in> set sts. length x = n" for sts and first :: assignment_state
    using that by (induction sts arbitrary: first) simp_all
  then show "intersect_assignment_states p f sts = Some st \<Longrightarrow> \<forall>x \<in> set sts. length x = n \<Longrightarrow> ?thesis"
    by (cases sts) auto
qed

subsection \<open>The analysis keeps the number of locals\<close>

lemma length_call_writes [simp]: "length (snd (assignment_call_writes p i f aps src st)) = length st"
proof (induction aps arbitrary: st)
  case (Cons ap aps)
  then show ?case
    by (cases ap) (simp add: Let_def split_def assignment_invalidate_read_write_argument_def split: call_argument.split option.split)
qed simp

lemma length_write_locals [simp]: "length (fold (\<lambda>l. assignment_write_local l b) ls st) = length st"
  by (induction ls arbitrary: st) simp_all

lemma length_write_full_slice [simp]: "length (assignment_write_full_slice v st) = length st"
  by (simp add: assignment_write_full_slice_def split: mir_value.split option.split)

lemma length_write_copies [simp]:
  "length (fold (\<lambda>c. assignment_write_full_slice (copy_destination c)) cs st) = length st"
  by (induction cs arbitrary: st) simp_all

lemma length_set_slice_backing [simp]: "length (set_slice_backing d b st) = length st"
  by (simp add: set_slice_backing_def split: place_base.split)

lemma length_statement [simp]: "length (snd (validate_assignment_statement p i f k src st)) = length st"
  by (simp add: validate_assignment_statement_def Let_def split_def split: statement_kind.split)

definition flow_length :: "assignment_flow \<Rightarrow> nat \<Rightarrow> bool" where
  "flow_length flow n \<longleftrightarrow> (\<forall>st. af_fallthrough flow = Some st \<longrightarrow> length st = n) \<and> (\<forall>st \<in> set (af_breaks flow). length st = n)"

lemma length_merge:
  "merge_assignment_fallthrough p f a b = Some st \<Longrightarrow> (\<forall>x. a = Some x \<longrightarrow> length x = n) \<Longrightarrow>
     (\<forall>x. b = Some x \<longrightarrow> length x = n) \<Longrightarrow> length st = n"
  by (cases a; cases b) auto

lemma analysis_length:
  shows "flow_length (snd (validate_assignment_kind p i f (stmt_kind s) src st)) (length st)"
    and "flow_length (snd (validate_assignment_kind p i f k src st)) (length st)"
    and "flow_length (snd (validate_assignment_block p i f b st)) (length st)"
    and "flow_length (snd (validate_assignment_statements p i f ss st)) (length st)"
proof (induction s and k and b and ss arbitrary: src st and src st and st and st rule: mir_induct)
  case (Simple k)
  then show ?case
    by (cases k) (simp_all add: validate_assignment_kind.simps flow_length_def Let_def split_def)
next
  case (If c t e)
  then show ?case
    by (auto simp: validate_assignment_kind.simps flow_length_def Let_def split_def intro: length_merge)
next
  case (Loop b)
  then show ?case
    by (auto simp: validate_assignment_kind.simps flow_length_def Let_def split_def intro: length_intersect_states)
next
  case (Cons s ss)
  obtain k src where s: "s = Statement k src" by (cases s)
  show ?case
  proof (cases "af_fallthrough (snd (validate_assignment_kind p i f k src st))")
    case None
    then show ?thesis using Cons.IH(1) [of src st] by (simp add: s Let_def split_def)
  next
    case (Some st')
    then have "length st' = length st" using Cons.IH(1) [of src st] by (simp add: s flow_length_def)
    then show ?thesis using Cons.IH(1) [of src st] Cons.IH(2) [of st'] Some
      by (auto simp: s Let_def split_def flow_length_def)
  qed
qed (simp_all add: flow_length_def)

subsection \<open>Execution\<close>

lemma block_rebinds_statements: "block_rebinds p b = statements_rebind p (block_statements b)"
  by (cases b) simp

lemma slices_kept_statements_block: "slices_kept p i f b st = slices_kept_statements p i f (block_statements b) st"
  by (cases b) simp

lemma validate_assignment_block_statements:
  "validate_assignment_block p i f b st = validate_assignment_statements p i f (block_statements b) st"
  by (cases b) simp

lemma all_kinds_block_statements: "all_kinds_block P b = all_kinds_statements P (block_statements b)"
  by (cases b) simp

lemma kind_rebinds_control: "is_control k \<Longrightarrow> kind_rebinds p k = {}"
  by (cases k) (simp_all add: is_control_def kind_rebinds_def)

lemma same_slots_trans: "same_slots A L s t \<Longrightarrow> same_slots A L t u \<Longrightarrow> same_slots A L s u"
  by (simp add: same_slots_def)

lemma same_slots_mono: "same_slots A L s t \<Longrightarrow> L \<subseteq> L' \<Longrightarrow> same_slots A L' s t"
  by (auto simp: same_slots_def)

lemma only_grows_trans: "only_grows s t \<Longrightarrow> only_grows t u \<Longrightarrow> only_grows s u"
  by (auto simp: only_grows_def)

lemma same_slots_refl [simp]: "same_slots A L s s" "only_grows s s"
  by (simp_all add: same_slots_def only_grows_def)

text \<open>A run only grows the written cells and only binds anew what its statements bind.\<close>

definition rebinds_of :: "program \<Rightarrow> statement_kind \<Rightarrow> local_id set" where
  "rebinds_of p k = statements_rebind p [Statement k span_unknown]"

lemma statements_rebind_Cons: "statements_rebind p (x # xs) = rebinds_of p (stmt_kind x) \<union> statements_rebind p xs"
  by (cases x) (simp add: rebinds_of_def)

lemma init_run_grows:
  "init_kind A p f k s out t \<Longrightarrow> only_grows s t \<and> same_slots A (rebinds_of p k) s t"
  "init_statements A p f ss s out t \<Longrightarrow> only_grows s t \<and> same_slots A (statements_rebind p ss) s t"
proof (induction rule: init_kind_init_statements.inducts)
  case (Simple k s t)
  then show ?case
    by (cases k) (simp_all add: is_control_def init_step_def rebinds_of_def)
next
  case (Branch s c b t e out u)
  then show ?case by (auto simp: rebinds_of_def block_rebinds_statements intro: same_slots_mono)
next
  case (Cons x s t xs out u)
  then show ?case
    unfolding statements_rebind_Cons by (blast intro: same_slots_trans same_slots_mono only_grows_trans)
next
  case (Stop x s out t xs)
  then show ?case unfolding statements_rebind_Cons by (blast intro: same_slots_mono)
qed (auto simp: rebinds_of_def block_rebinds_statements intro: same_slots_trans only_grows_trans)

fun flow_describes ::
  "local_id set \<Rightarrow> program \<Rightarrow> mir_function \<Rightarrow> assignment_flow \<Rightarrow> init_outcome \<Rightarrow> init_state \<Rightarrow> bool" where
  "flow_describes A p f flow IO_Normal s = (\<exists>st. af_fallthrough flow = Some st \<and> describes A p f st s)"
| "flow_describes A p f flow IO_Broke s = (\<exists>st \<in> set (af_breaks flow). describes A p f st s)"
| "flow_describes A p f flow Bad s = False"
| "flow_describes A p f flow _ s = True"

lemma merge_ok:
  assumes "(\<exists>st. a = Some st \<and> describes A p f st s) \<or> (\<exists>st. b = Some st \<and> describes A p f st s)"
    and "\<forall>x. a = Some x \<longrightarrow> length x = n" and "\<forall>x. b = Some x \<longrightarrow> length x = n"
  shows "\<exists>st. merge_assignment_fallthrough p f a b = Some st \<and> describes A p f st s"
  using assms intersect_two_ok by (cases a; cases b) auto

lemma simple_analysis:
  "\<not> is_control k \<Longrightarrow> validate_assignment_kind p i f k src st =
     (fst (validate_assignment_statement p i f k src st),
      \<lparr>af_fallthrough = Some (snd (validate_assignment_statement p i f k src st)), af_breaks = [], af_continues = []\<rparr>)"
  by (cases k) (simp_all add: validate_assignment_kind.simps is_control_def split_def Let_def)

lemma all_kinds_stmt: "all_kinds P s \<longleftrightarrow> all_kinds P (Statement (stmt_kind s) src)"
  by (cases s) (rename_tac k src', case_tac k; simp)

lemma analysis_sound:
  "init_kind A p f k s out t \<Longrightarrow>
     (\<forall>src st. describes A p f st s \<longrightarrow> fst (validate_assignment_kind p i f k src st) = [] \<longrightarrow>
       slices_kept_kind p i f k st \<longrightarrow> all_kinds (storage_apart A) (Statement k span_unknown) \<longrightarrow>
       flow_describes A p f (snd (validate_assignment_kind p i f k src st)) out t)"
  "init_statements A p f ss s out t \<Longrightarrow>
     (\<forall>st. describes A p f st s \<longrightarrow> fst (validate_assignment_statements p i f ss st) = [] \<longrightarrow>
       slices_kept_statements p i f ss st \<longrightarrow> all_kinds_statements (storage_apart A) ss \<longrightarrow>
       flow_describes A p f (snd (validate_assignment_statements p i f ss st)) out t)"
proof (induction rule: init_kind_init_statements.inducts)
  case (Simple k s t)
  then have "storage_apart A k" if "all_kinds (storage_apart A) (Statement k span_unknown)"
    using that by (cases k) (simp_all add: is_control_def)
  with Simple show ?case by (auto simp: simple_analysis intro: step_kind_ok)
next
  case (Simple_Bad k s)
  then have "storage_apart A k" if "all_kinds (storage_apart A) (Statement k span_unknown)"
    using that by (cases k) (simp_all add: is_control_def)
  with Simple_Bad show ?case using read_kind_ok by (fastforce simp: simple_analysis)
next
  case (Branch s c b t e out u)
  show ?case
  proof (intro allI impI)
    fix src st
    assume st: "describes A p f st s" and errors: "fst (validate_assignment_kind p i f (S_If c t e) src st) = []"
      and kept: "slices_kept_kind p i f (S_If c t e) st"
      and apart: "all_kinds (storage_apart A) (Statement (S_If c t e) span_unknown)"
    let ?flow = "\<lambda>b. snd (validate_assignment_block p i f b st)"
    have "flow_describes A p f (?flow b) out u"
      using Branch st errors kept apart
      by (auto simp: validate_assignment_kind.simps slices_kept_kind.simps Let_def split_def
          validate_assignment_block_statements slices_kept_statements_block all_kinds_block_statements)
    moreover have "flow_length (?flow t) (length st)" "flow_length (?flow e) (length st)" by (rule analysis_length(3))+
    ultimately show "flow_describes A p f (snd (validate_assignment_kind p i f (S_If c t e) src st)) out u"
      using Branch merge_ok [of "af_fallthrough (?flow t)" A p f u "af_fallthrough (?flow e)" "length st"]
      by (cases out) (auto simp: validate_assignment_kind.simps Let_def split_def flow_length_def)
  qed
next
  case (Branch_Bad s c t e)
  then show ?case
    using read_value_ok by (fastforce simp: validate_assignment_kind.simps Let_def split_def)
next
  case (Return_Bad vs s)
  then show ?case
    using read_values_ok by (fastforce simp: validate_assignment_kind.simps)
next
  case (Loop_Again body s out u out' v)
  show ?case
  proof (intro allI impI)
    fix src st
    assume st: "describes A p f st s" and errors: "fst (validate_assignment_kind p i f (S_Loop body) src st) = []"
      and kept: "slices_kept_kind p i f (S_Loop body) st"
      and apart: "all_kinds (storage_apart A) (Statement (S_Loop body) span_unknown)"
    have "describes A p f st u"
      using init_run_grows(2) [OF Loop_Again(1)] kept
      by (intro describes_grow [OF st]) (auto simp: slices_kept_kind.simps block_rebinds_statements)
    then show "flow_describes A p f (snd (validate_assignment_kind p i f (S_Loop body) src st)) out' v"
      using Loop_Again errors kept apart by blast
  qed
next
  case (Loop_Break body s u)
  show ?case
  proof (intro allI impI)
    fix src st
    assume st: "describes A p f st s" and errors: "fst (validate_assignment_kind p i f (S_Loop body) src st) = []"
      and kept: "slices_kept_kind p i f (S_Loop body) st"
      and apart: "all_kinds (storage_apart A) (Statement (S_Loop body) span_unknown)"
    let ?flow = "snd (validate_assignment_block p i f body st)"
    have "\<exists>st \<in> set (af_breaks ?flow). describes A p f st u"
      using Loop_Break st errors kept apart
      by (auto simp: validate_assignment_kind.simps slices_kept_kind.simps Let_def split_def
          validate_assignment_block_statements slices_kept_statements_block all_kinds_block_statements)
    then show "flow_describes A p f (snd (validate_assignment_kind p i f (S_Loop body) src st)) IO_Normal u"
      using intersect_states_ok [of "af_breaks ?flow" A p f u "length st"] analysis_length(3) [of p i f body st]
      by (simp add: validate_assignment_kind.simps Let_def split_def flow_length_def)
  qed
next
  case (Loop_Leave body s out u)
  then show ?case
    by (auto simp: validate_assignment_kind.simps slices_kept_kind.simps Let_def split_def
        validate_assignment_block_statements slices_kept_statements_block all_kinds_block_statements)
next
  case (Cons x s t xs out u)
  show ?case
  proof (intro allI impI)
    fix st
    assume st: "describes A p f st s" and errors: "fst (validate_assignment_statements p i f (x # xs) st) = []"
      and kept: "slices_kept_statements p i f (x # xs) st" and apart: "all_kinds_statements (storage_apart A) (x # xs)"
    obtain k src where x: "x = Statement k src" by (cases x)
    let ?r = "validate_assignment_kind p i f k src st"
    have "fst ?r = []" using errors by (auto simp: x Let_def split_def split: option.splits)
    moreover have "all_kinds (storage_apart A) (Statement k span_unknown)"
      using apart all_kinds_stmt [of "storage_apart A" x span_unknown] by (simp add: x)
    ultimately obtain st' where st': "af_fallthrough (snd ?r) = Some st'" "describes A p f st' t"
      using Cons st kept by (fastforce simp: x)
    then have "flow_describes A p f (snd (validate_assignment_statements p i f xs st')) out u"
      using Cons errors kept apart by (auto simp: x Let_def split_def)
    then show "flow_describes A p f (snd (validate_assignment_statements p i f (x # xs) st)) out u"
      using st'(1) by (cases out) (auto simp: x Let_def split_def)
  qed
next
  case (Stop x s out t xs)
  show ?case
  proof (intro allI impI)
    fix st
    assume st: "describes A p f st s" and errors: "fst (validate_assignment_statements p i f (x # xs) st) = []"
      and kept: "slices_kept_statements p i f (x # xs) st" and apart: "all_kinds_statements (storage_apart A) (x # xs)"
    obtain k src where x: "x = Statement k src" by (cases x)
    let ?r = "validate_assignment_kind p i f k src st"
    have "fst ?r = []" using errors by (auto simp: x Let_def split_def split: option.splits)
    moreover have "all_kinds (storage_apart A) (Statement k span_unknown)"
      using apart all_kinds_stmt [of "storage_apart A" x span_unknown] by (simp add: x)
    ultimately have "flow_describes A p f (snd ?r) out t" using Stop st kept by (simp add: x)
    then show "flow_describes A p f (snd (validate_assignment_statements p i f (x # xs) st)) out t"
      using Stop by (cases out) (auto simp: x Let_def split_def split: option.splits)
  qed
qed (auto simp: validate_assignment_kind.simps)


end
