(* ===== verification/Definite_Examples.thy ===== *)
theory Definite_Examples
  imports Definite_Sound Validate_Body
begin

section \<open>Definite assignment at work\<close>

text \<open>
  Two function bodies over the same locals: one that fills an array through a slice of it, and one that
  copies a shorter array there. The validator accepts both.
\<close>

text \<open>Locals: an array of eight \<open>f32\<close>, a slice, an array of one, a value and an index.\<close>

definition scalar_local :: "type_id \<Rightarrow> mir_local" where
  "scalar_local ty = \<lparr>lc_name = None, lc_ty = ty, lc_integer_range = None\<rparr>"

definition slice_function :: "statement_kind list \<Rightarrow> mir_function" where
  "slice_function ks =
     \<lparr>fn_name = ''init'', fn_kind = FK_Init, fn_attributes = default_attributes, fn_params = [], fn_results = [],
      fn_locals = map scalar_local [1, 2, 2, 0, 4], fn_body = Block (map (\<lambda>k. Statement k span_unknown) ks),
      fn_source = span_unknown\<rparr>"

definition slice_program :: "statement_kind list \<Rightarrow> program" where
  "slice_program ks =
     (program_new \<lparr>sample_rate = 0x473B8000, block_size = 64\<rparr> 0 1)
       \<lparr>pr_types := [T_Scalar TF32, T_Array 0 8, T_Slice TF32 ReadWrite, T_Scalar TI32, T_Array 0 1],
        pr_functions :=
          [slice_function ks,
           (slice_function [])\<lparr>fn_name := ''process'', fn_kind := FK_Process, fn_params := process_function_params 3, fn_locals := []\<rparr>]\<rparr>"

definition whole_slice :: "local_id \<Rightarrow> 32 word \<Rightarrow> rvalue" where
  "whole_slice l len = R_MakeSlice (SS_Place (place_local l)) (V_Constant (I32 0)) (V_Constant (I32 len)) Checked ReadWrite"

definition array_element :: "local_id \<Rightarrow> 32 word \<Rightarrow> place" where
  "array_element l k = \<lparr>place_base = PB_Local l, place_projections = [P_Index (V_Constant (I32 k)) Checked]\<rparr>"

text \<open>A fill of the whole array before its last element is read.\<close>

definition fill_kinds :: "statement_kind list" where
  "fill_kinds =
     [S_Assign (place_local 1) (whole_slice 0 8),
      S_SliceFill (V_Local 1) (V_Constant (F32 0)),
      S_Assign (place_local 3) (R_Load (array_element 0 7)),
      S_Return []]"

text \<open>A copy of one element instead.\<close>

definition copy_kinds :: "statement_kind list" where
  "copy_kinds =
     [S_Assign (array_element 4 0) (R_Use (V_Constant (F32 0))),
      S_Assign (place_local 2) (whole_slice 4 1),
      S_Assign (place_local 1) (whole_slice 0 8),
      S_SliceCopy [\<lparr>copy_destination = V_Local 1, copy_source = V_Local 2\<rparr>] Required,
      S_Assign (place_local 3) (R_Load (array_element 0 7)),
      S_Return []]"

lemmas slice_defs = slice_program_def slice_function_def program_new_def scalar_local_def default_attributes_def whole_slice_def array_element_def
  place_local_def fill_kinds_def copy_kinds_def

lemma demo_types:
  "nth_opt (pr_types (slice_program ks)) 0 = Some (T_Scalar TF32)"
  "nth_opt (pr_types (slice_program ks)) (Suc 0) = Some (T_Array 0 8)"
  "nth_opt (pr_types (slice_program ks)) 2 = Some (T_Slice TF32 ReadWrite)"
  "nth_opt (pr_types (slice_program ks)) 4 = Some (T_Array 0 1)"
  "local_type (slice_function ks) 0 = Some 1" "local_type (slice_function ks) (Suc 0) = Some 2"
  "local_type (slice_function ks) 2 = Some 2" "local_type (slice_function ks) 3 = Some 0"
  "local_type (slice_function ks) 4 = Some 4"
  by (simp_all add: slice_defs local_type_def nth_opt_def)

lemma demo_cells:
  "cells_under (slice_program ks) (slice_function ks) (Suc 0) [] = {[]}"
  "cells_under (slice_program ks) (slice_function ks) 2 [] = {[]}"
  "cells_under (slice_program ks) (slice_function ks) 3 [] = {[]}"
  "cells_under (slice_program ks) (slice_function ks) 0 [IP_Index 7] = {[IP_Index 7]}"
  "cells_under (slice_program ks) (slice_function ks) 4 [IP_Index 0] = {[IP_Index 0]}"
proof -
  have leaf: "is_cell (slice_program ks) ty q \<longleftrightarrow> q = []" if "ty = 0 \<or> ty = 2" for ty q
    using that by (cases "(slice_program ks, ty, q)" rule: is_cell.cases) (auto simp: demo_types)
  show "cells_under (slice_program ks) (slice_function ks) (Suc 0) [] = {[]}"
    "cells_under (slice_program ks) (slice_function ks) 2 [] = {[]}"
    "cells_under (slice_program ks) (slice_function ks) 3 [] = {[]}"
    by (auto simp: cells_under_def leaf demo_types)
  show "cells_under (slice_program ks) (slice_function ks) 0 [IP_Index 7] = {[IP_Index 7]}"
    "cells_under (slice_program ks) (slice_function ks) 4 [IP_Index 0] = {[IP_Index 0]}"
    using leaf by (auto simp: cells_under_def prefix_Cons prefix_def demo_types)
qed

definition demo_state :: "(local_id \<Rightarrow> init_path set) \<Rightarrow> (local_id \<Rightarrow> local_id option) \<Rightarrow> init_state" where
  "demo_state c v = \<lparr>is_cells = c, is_frame = (\<lambda>_. False), is_view = v\<rparr>"

abbreviation "demo_kind ks \<equiv> init_kind {0, 4} (slice_program ks) (slice_function ks)"


lemmas demo_step_defs = init_step_def only_grows_def same_slots_def demo_state_def kind_rebinds_def writes_place_def
  covers_array_def is_process_frame_def place_local_def base_locals_def

lemmas demo_read_defs = kind_written_def rvalue_written_def value_written_def place_is_slice_def place_type_def place_written_def
  rvalue_operands_def place_operands_def slice_source_operands_def kind_operands_def index_operands_def option_operands_def

lemma demo_slice:
  assumes "(l, b, len) \<in> {(1, 0, 8), (2, 4, 1)}" and "c' = c(l := {[]})" and "v' = v(l := Some b)" and "c l = {}"
  shows "demo_kind ks (S_Assign (place_local l) (whole_slice b len)) (demo_state c v) IO_Normal (demo_state c' v')"
    (is "demo_kind ks ?k _ _ _")
proof (rule Simple)
  show "\<not> is_control ?k" by (simp add: is_control_def)
  show "kind_written (slice_program ks) (slice_function ks) (demo_state c v) ?k"
    using assms(1) by (auto simp: demo_read_defs whole_slice_def place_local_def demo_types local_type_def [symmetric])
  show "init_step {0, 4} (slice_program ks) (slice_function ks) ?k (demo_state c v) (demo_state c' v')"
    using assms by (auto simp: demo_step_defs whole_slice_def demo_cells)
qed

lemma demo_fill:
  assumes "c 1 = {[]}" and "v 1 = Some 0"
  shows "demo_kind ks (S_SliceFill (V_Local 1) (V_Constant x)) (demo_state c v) IO_Normal (demo_state (c(0 := UNIV)) v)"
proof (rule Simple)
  show "\<not> is_control (S_SliceFill (V_Local 1) (V_Constant x))" by (simp add: is_control_def)
  show "kind_written (slice_program ks) (slice_function ks) (demo_state c v) (S_SliceFill (V_Local 1) (V_Constant x))"
    using assms by (simp add: demo_read_defs demo_state_def demo_cells)
  show "init_step {0, 4} (slice_program ks) (slice_function ks) (S_SliceFill (V_Local 1) (V_Constant x))
      (demo_state c v) (demo_state (c(0 := UNIV)) v)"
    using assms by (auto simp: demo_step_defs)
qed

text \<open>The copy writes the one element there is.\<close>

lemma demo_copy:
  assumes "c 1 = {[]}" and "c 2 = {[]}" and "v 1 = Some 0" and "v 2 = Some 4" and "c' = c(0 := insert [IP_Index 0] (c 0))"
  shows "demo_kind ks (S_SliceCopy [\<lparr>copy_destination = V_Local 1, copy_source = V_Local 2\<rparr>] Required)
    (demo_state c v) IO_Normal (demo_state c' v)" (is "demo_kind ks ?k _ _ _")
proof (rule Simple)
  show "\<not> is_control ?k" by (simp add: is_control_def)
  show "kind_written (slice_program ks) (slice_function ks) (demo_state c v) ?k"
    using assms by (simp add: demo_read_defs demo_state_def demo_cells)
  show "init_step {0, 4} (slice_program ks) (slice_function ks) ?k (demo_state c v) (demo_state c' v)"
    using assms by (auto simp: demo_step_defs array_length_def demo_types)
qed

lemma demo_element:
  "demo_kind ks (S_Assign (array_element 4 0) (R_Use (V_Constant x))) (demo_state c v) IO_Normal
     (demo_state (c(4 := insert [IP_Index 0] (c 4))) v)" (is "demo_kind ks ?k _ _ _")
proof (rule Simple)
  show "\<not> is_control ?k" by (simp add: is_control_def)
  show "kind_written (slice_program ks) (slice_function ks) (demo_state c v) ?k"
    by (simp add: demo_read_defs array_element_def)
  show "init_step {0, 4} (slice_program ks) (slice_function ks) ?k (demo_state c v)
      (demo_state (c(4 := insert [IP_Index 0] (c 4))) v)"
    by (auto simp: demo_step_defs array_element_def demo_cells static_index_def)
qed

lemma demo_load:
  assumes "[IP_Index 7] \<in> c 0"
  shows "demo_kind ks (S_Assign (place_local 3) (R_Load (array_element 0 7))) (demo_state c v) IO_Normal
     (demo_state (c(3 := insert [] (c 3))) v)" (is "demo_kind ks ?k _ _ _")
proof (rule Simple)
  show "\<not> is_control ?k" by (simp add: is_control_def)
  show "kind_written (slice_program ks) (slice_function ks) (demo_state c v) ?k"
    using assms by (simp add: demo_read_defs array_element_def place_local_def demo_cells demo_state_def static_index_def)
  show "init_step {0, 4} (slice_program ks) (slice_function ks) ?k (demo_state c v)
      (demo_state (c(3 := insert [] (c 3))) v)"
    by (auto simp: demo_step_defs array_element_def demo_cells)
qed

lemma demo_bad_load:
  assumes "[IP_Index 7] \<notin> c 0"
  shows "demo_kind ks (S_Assign (place_local 3) (R_Load (array_element 0 7))) (demo_state c v) Bad (demo_state c v)"
  using assms by (intro Simple_Bad) (simp_all add: is_control_def demo_read_defs array_element_def demo_cells demo_state_def
      place_local_def static_index_def)

lemma demo_kinds:
  "demo_kind ks k s IO_Normal t \<Longrightarrow>
     init_statements A p f (map (\<lambda>k. Statement k span_unknown) ks') t out u \<Longrightarrow>
     A = {0, 4} \<Longrightarrow> p = slice_program ks \<Longrightarrow> f = slice_function ks \<Longrightarrow>
     init_statements A p f (map (\<lambda>k. Statement k span_unknown) (k # ks')) s out u"
  "demo_kind ks k s out t \<Longrightarrow> out \<noteq> IO_Normal \<Longrightarrow> A = {0, 4} \<Longrightarrow> p = slice_program ks \<Longrightarrow> f = slice_function ks \<Longrightarrow>
     init_statements A p f (map (\<lambda>k. Statement k span_unknown) (k # ks')) s out t"
  using Cons [of A p f "Statement k span_unknown" s t] Stop [of A p f "Statement k span_unknown" s out t] by auto

abbreviation "demo_runs ks out \<equiv>
  \<exists>t. init_statements {0, 4} (slice_program ks) (slice_function ks) (map (\<lambda>k. Statement k span_unknown) ks)
        (demo_state (\<lambda>_. {}) (\<lambda>_. None)) out t"

lemma fill_run: "demo_runs fill_kinds IO_Returned"
  by (rule exI, subst (3) fill_kinds_def,
      rule demo_kinds(1) [OF demo_slice], simp, rule refl, rule refl, simp,
      rule demo_kinds(1) [OF demo_fill], simp, simp,
      rule demo_kinds(1) [OF demo_load], simp,
      rule demo_kinds(2) [OF Return], simp_all)

lemma copy_run: "demo_runs copy_kinds Bad"
  by (rule exI, subst (3) copy_kinds_def,
      rule demo_kinds(1) [OF demo_element],
      rule demo_kinds(1) [OF demo_slice], simp, rule refl, rule refl, simp,
      rule demo_kinds(1) [OF demo_slice], simp, rule refl, rule refl, simp,
      rule demo_kinds(1) [OF demo_copy], simp, simp, simp, simp, rule refl,
      rule demo_kinds(2) [OF demo_bad_load], simp_all)

lemma slice_function_body:
  "block_statements (fn_body (slice_function ks)) = map (\<lambda>k. Statement k span_unknown) ks"
  by (simp add: slice_function_def)


text \<open>A copy through a slice counts as a write of the whole array beneath the destination, while it
  writes only the prefix that fits: the validator accepts a body that copies one element into an array of
  eight and then reads the last, and a run of that body reads it before it is written.\<close>

theorem short_copy_accepted:
  "validate_definite_assignment (slice_program copy_kinds) 0 (slice_function copy_kinds) = []
   \<and> validate_block (slice_program copy_kinds) Absent 0 (slice_function copy_kinds) (fn_body (slice_function copy_kinds)) 0 = []
   \<and> demo_runs copy_kinds Bad"
proof (intro conjI)
  show "validate_definite_assignment (slice_program copy_kinds) 0 (slice_function copy_kinds) = []" by code_simp
  show "validate_block (slice_program copy_kinds) Absent 0 (slice_function copy_kinds) (fn_body (slice_function copy_kinds)) 0 = []"
    by code_simp
qed (rule copy_run)

text \<open>A frame that is overwritten at the end of an endless loop.\<close>

definition frame_loop :: block where
  "frame_loop =
     Block [Statement (S_OutputStore 0 None Checked (V_Local 0) (V_Constant (F32 0))) span_unknown,
            Statement (S_Assign (place_local 0) (R_Use (V_Constant (I32 99)))) span_unknown]"

definition frame_function :: mir_function where
  "frame_function =
     \<lparr>fn_name = ''process'', fn_kind = FK_Process, fn_attributes = default_attributes, fn_params = process_function_params 1,
      fn_results = [], fn_locals = [scalar_local 1],
      fn_body = Block [Statement (S_Assign (place_local 0) (R_ProcessFrame (V_Constant (I32 0)))) span_unknown,
                       Statement (S_Loop frame_loop) span_unknown],
      fn_source = span_unknown\<rparr>"

definition frame_program :: program where
  "frame_program =
     (program_new \<lparr>sample_rate = 0x473B8000, block_size = 64\<rparr> 0 1)
       \<lparr>pr_types := [T_Scalar TF32, T_Scalar TI32],
        pr_interface := empty_interface\<lparr>if_outputs := [\<lparr>output_name = ''out'', output_ty = 0\<rparr>]\<rparr>,
        pr_functions :=
          [frame_function\<lparr>fn_name := ''init'', fn_kind := FK_Init, fn_params := [], fn_locals := [], fn_body := Block []\<rparr>,
           frame_function]\<rparr>"

lemma frame_cells: "cells_under frame_program frame_function 0 [] = {[]}"
proof -
  have "is_cell frame_program 1 q \<longleftrightarrow> q = []" for q
    by (cases "(frame_program, 1::nat, q)" rule: is_cell.cases) (auto simp: frame_program_def program_new_def nth_opt_def)
  then show ?thesis by (auto simp: cells_under_def frame_function_def local_type_def scalar_local_def nth_opt_def)
qed

lemma frame_run:
  "\<exists>t. init_statements {} frame_program frame_function (block_statements (fn_body frame_function))
     (demo_state (\<lambda>_. {}) (\<lambda>_. None)) Bad t"
proof -
  let ?s = "demo_state (\<lambda>_. {}) (\<lambda>_. None)" and ?u = "demo_state ((\<lambda>_. {})(0 := {[]})) (\<lambda>_. None)"
  let ?t = "?u\<lparr>is_frame := (\<lambda>_. False)(0 := True)\<rparr>"
  let ?kind = "init_kind {} frame_program frame_function" and ?run = "init_statements {} frame_program frame_function"
  let ?store = "S_OutputStore 0 None Checked (V_Local 0) (V_Constant (F32 0))"
  have enter: "?kind (S_Assign (place_local 0) (R_ProcessFrame (V_Constant (I32 0)))) ?s IO_Normal ?t"
    by (rule Simple) (auto simp: is_control_def demo_read_defs demo_step_defs frame_cells)
  have store: "?kind ?store ?t IO_Normal ?t"
    by (rule Simple) (auto simp: is_control_def demo_read_defs demo_step_defs frame_cells frame_written_def)
  have lose: "?kind (S_Assign (place_local 0) (R_Use (V_Constant (I32 99)))) ?t IO_Normal ?u"
    by (rule Simple) (auto simp: is_control_def demo_read_defs demo_step_defs frame_cells)
  have bad: "?kind ?store ?u Bad ?u"
    by (rule Simple_Bad) (simp_all add: is_control_def demo_read_defs demo_state_def frame_written_def)
  have "?run (block_statements frame_loop) ?t IO_Normal ?u"
    using store lose by (auto simp: frame_loop_def intro!: Cons Nil)
  moreover have "?kind (S_Loop frame_loop) ?u Bad ?u"
    by (rule Loop_Leave) (auto simp: frame_loop_def intro!: Stop bad)
  ultimately have again: "?kind (S_Loop frame_loop) ?t Bad ?u" by (auto intro: Loop_Again)
  have "block_statements (fn_body frame_function) =
      [Statement (S_Assign (place_local 0) (R_ProcessFrame (V_Constant (I32 0)))) span_unknown,
       Statement (S_Loop frame_loop) span_unknown]" by (simp add: frame_function_def)
  moreover have "?run [Statement (S_Assign (place_local 0) (R_ProcessFrame (V_Constant (I32 0)))) span_unknown,
       Statement (S_Loop frame_loop) span_unknown] ?s Bad ?u"
    by (rule Cons, simp, rule enter, rule Stop, simp, rule again, simp)
  ultimately show ?thesis by auto
qed

text \<open>A loop is analysed once, from the state before it, so a fact that its body destroys is still
  assumed in the next iteration: the validator accepts a body that overwrites its process frame at the end
  of a loop, and the second iteration writes audio at something that is not a frame.\<close>

theorem stale_frame_accepted:
  "validate_definite_assignment frame_program 1 frame_function = []
   \<and> validate_block frame_program Absent 1 frame_function (fn_body frame_function) 0 = []
   \<and> (\<exists>t. init_statements {} frame_program frame_function (block_statements (fn_body frame_function))
        (demo_state (\<lambda>_. {}) (\<lambda>_. None)) Bad t)"
proof (intro conjI)
  show "validate_definite_assignment frame_program 1 frame_function = []" by code_simp
  show "validate_block frame_program Absent 1 frame_function (fn_body frame_function) 0 = []" by code_simp
qed (rule frame_run)

end
