(* ===== verification/Accepted_Programs.thy ===== *)
theory Accepted_Programs
  imports Type_Soundness Validate_Program Definite_Examples Effect_Solver
begin

section \<open>What an accepted program guarantees\<close>

text \<open>
  The checks of the validator composed with the passes and analyses that run on its output: the facts those take for granted
  hold of every program for which \<open>validator_run\<close> reports nothing.
\<close>

definition accepted :: "program \<Rightarrow> producer_proof_status \<Rightarrow> bool" where
  "accepted p proofs \<longleftrightarrow> validator_run p proofs = Some []"

lemma accepted_iff:
  "accepted p proofs \<longleftrightarrow>
     pr_schema_version p = mir_schema_version \<and> config_errors (pr_config p) = []
     \<and> (\<forall>ty \<in> set (pr_types p). validate_type_entry p ty = []) \<and> (\<forall>st \<in> set (pr_structs p). validate_struct p st = [])
     \<and> validate_fixed_aggregate_types p = Some [] \<and> validate_interface_names p = [] \<and> validate_message_schemas p = Some []
     \<and> interface_value_errors p proofs = [] \<and> entry_errors p = []
     \<and> (\<forall>i < length (pr_functions p). validate_function p proofs i (pr_functions p ! i) = [])
     \<and> validate_init_cannot_reach_publication p = Some [] \<and> validate_acyclic_call_graph p = Some []"
  by (auto simp: accepted_def validator_run_def bind_eq_Some_conv enumerate_Nil concat_eq_Nil_conv split: if_splits)

text \<open>The answer of the entry points.\<close>

lemma validate_accepted: "validate p = Some (Inr ()) \<longleftrightarrow> accepted p Absent"
  by (auto simp: validate_def validate_with_proof_status_def accepted_def split: if_splits)

lemma validate_producer_accepted: "validate_with_producer_proofs p = Some (Inr ()) \<longleftrightarrow> accepted p Trusted"
  by (auto simp: validate_with_producer_proofs_def validate_with_proof_status_def accepted_def split: if_splits)

subsection \<open>Types\<close>

lemma validate_type_entry_deps: "validate_type_entry p ty = [] \<Longrightarrow> \<forall>d \<in> set (type_dependencies p ty). (\<nexists>s. ty = T_Struct s) \<longrightarrow> d < length (pr_types p)"
  by (cases ty) (auto simp: validate_type_entry_def require_type_Nil concat_eq_Nil_conv)

lemma accepted_types:
  assumes "accepted p proofs"
  shows "deps_in_range p"
  unfolding deps_in_range_def
proof (intro conjI allI impI ballI)
  fix s assume s: "T_Struct s \<in> set (pr_types p)"
  then have "validate_type_entry p (T_Struct s) = []" using assms by (simp add: accepted_iff)
  then show "s < length (pr_structs p)" by (auto simp: validate_type_entry_def split: if_splits)
next
  fix i d assume i: "i < length (pr_types p)" and d: "d \<in> set (type_dependencies p (pr_types p ! i))"
  have entry: "validate_type_entry p (pr_types p ! i) = []" using assms i by (simp add: accepted_iff)
  show "d < length (pr_types p)"
  proof (cases "\<exists>s. pr_types p ! i = T_Struct s")
    case True
    then obtain s where s: "pr_types p ! i = T_Struct s" by blast
    then have "s < length (pr_structs p)" using entry by (auto simp: validate_type_entry_def split: if_splits)
    moreover from this have "validate_struct p (pr_structs p ! s) = []" using assms by (simp add: accepted_iff)
    ultimately show ?thesis using d s
      by (auto simp: validate_struct_def struct_field_types_def nth_opt_def concat_eq_Nil_conv require_type_Nil)
  next
    case False
    then show ?thesis using validate_type_entry_deps [OF entry] d by blast
  qed
qed

subsection \<open>Calls\<close>

lemma validate_call_target: "validate_call p i f results g args src = [] \<Longrightarrow> \<exists>callee. nth_opt (pr_functions p) g = Some callee \<and> fn_kind callee = FK_User"
  by (auto simp: validate_call_def split: option.splits if_splits)

lemma validate_simple_call: "validate_simple p proofs i f (S_Call results g args) src = validate_call p i f results g args src"
  by (simp add: validate_simple_def)

lemma statements_callees_Cons: "statements_callees (s # ss) = statements_callees [s] @ statements_callees ss"
  by (cases s) simp

lemma validated_callees:
  shows "validate_statements p proofs i f [s] depth = [] \<Longrightarrow> \<forall>g \<in> set (statements_callees [s]). \<exists>callee. nth_opt (pr_functions p) g = Some callee \<and> fn_kind callee = FK_User"
    and "validate_statements p proofs i f [Statement k src] depth = [] \<Longrightarrow> \<forall>g \<in> set (statements_callees [Statement k src]). \<exists>callee. nth_opt (pr_functions p) g = Some callee \<and> fn_kind callee = FK_User"
    and "validate_block p proofs i f b depth = [] \<Longrightarrow> \<forall>g \<in> set (block_callees b). \<exists>callee. nth_opt (pr_functions p) g = Some callee \<and> fn_kind callee = FK_User"
    and "validate_statements p proofs i f ss depth = [] \<Longrightarrow> \<forall>g \<in> set (statements_callees ss). \<exists>callee. nth_opt (pr_functions p) g = Some callee \<and> fn_kind callee = FK_User"
proof (induction s and k and b and ss arbitrary: depth and src depth and depth and depth rule: mir_induct)
  case (Simple k)
  then show ?case by (cases k) (auto dest: validate_call_target simp: validate_simple_call)
next
  case (Cons s ss)
  then show ?case unfolding statements_callees_Cons [of s ss] by (cases s) (auto split: statement_kind.splits)
qed (auto simp: has_blocks_def)

text \<open>Calls of an accepted program target existing user functions.\<close>

lemma accepted_body: "accepted p proofs \<Longrightarrow> i < length (pr_functions p) \<Longrightarrow>
    validate_block p proofs i (pr_functions p ! i) (fn_body (pr_functions p ! i)) 0 = []"
  by (simp add: accepted_iff validate_function_def Let_def)

lemma accepted_calls:
  assumes "accepted p proofs" and "calls p i c"
  shows "c < length (pr_functions p) \<and> fn_kind (pr_functions p ! c) = FK_User"
proof -
  have "i < length (pr_functions p)" and "c \<in> set (block_callees (fn_body (pr_functions p ! i)))"
    using assms(2) by (simp_all add: calls_def)
  then show ?thesis using validated_callees(3) [OF accepted_body [OF assms(1)]] by (fastforce simp: nth_opt_Some_iff)
qed

lemma accepted_calls_in_range: "accepted p proofs \<Longrightarrow> calls_in_range p"
  using accepted_calls by (auto simp: calls_in_range_def calls_def in_set_conv_nth) blast

lemma program_calls_calls: "calls_in_range p \<Longrightarrow> program_calls p = {(i, c). calls p i c}"
  unfolding program_calls_def calls_def calls_in_range_def by auto

lemma accepted_acyclic:
  assumes "accepted p proofs"
  shows "acyclic {(i, c). calls p i c}"
proof -
  have "validate_acyclic_call_graph p = Some []" using assms by (simp add: accepted_iff)
  then show ?thesis using acyclic_call_graph_correct [of p] program_calls_calls [OF accepted_calls_in_range [OF assms]] by auto
qed

subsection \<open>Locals\<close>

lemma value_locals_in_range: "value_locals vs \<subseteq> {..<length (fn_locals f)} \<longleftrightarrow> (\<forall>v \<in> set vs. value_in_range f v)"
  by (fastforce simp: value_locals_def value_in_range_def split: mir_value.splits)

lemma validate_projections_values:
  "validate_projections p i f src ty prs = [] \<Longrightarrow> \<forall>v \<in> set (concat (map index_operands prs)). value_in_range f v"
  by (induction p i f src ty prs rule: validate_projections.induct)
    (auto simp: index_operands_def validate_value_Nil split: option.splits mir_type.splits if_splits)

lemma validate_place_locals:
  assumes "validate_place p i f pl src = []"
  shows "base_locals pl \<subseteq> {..<length (fn_locals f)} \<and> (\<forall>v \<in> set (place_operands pl). value_in_range f v)"
proof
  have base: "validate_place_base p i f (place_base pl) src = []" using assms by (simp add: validate_place_def)
  then show "base_locals pl \<subseteq> {..<length (fn_locals f)}"
    by (auto simp: validate_place_base_def base_locals_def require_local_Nil split: place_base.splits)
  have "place_base_event_known p f (place_base pl)"
    using base by (auto simp: validate_place_base_def place_base_event_known_def nth_opt_Some_iff
        split: place_base.splits function_kind.splits option.splits)
  then show "\<forall>v \<in> set (place_operands pl). value_in_range f v"
    using assms validate_projections_values [of p i f src _ "place_projections pl"] by (auto simp: validate_place_def place_operands_def)
qed

lemma require_buffer_values: "require_buffer p i f b src = [] \<Longrightarrow> \<forall>v \<in> set (buffer_ref_operands b). value_in_range f v"
  by (auto simp: require_buffer_def buffer_ref_operands_def require_i32_value_Nil value_matches_scalar_in_range Let_def split: buffer_ref.splits)

lemma validate_buffer_param_ref_values:
  "validate_buffer_param_ref p i f b src = [] \<Longrightarrow> \<forall>v \<in> set (buffer_param_ref_operands b). value_in_range f v"
  by (auto simp: validate_buffer_param_ref_def buffer_param_ref_operands_def validate_value_Nil split: buffer_param_ref.splits)

lemma validate_intrinsic_args_values:
  "validate_intrinsic_args p i f op src expected vs = [] \<Longrightarrow> \<forall>v \<in> set vs. value_in_range f v"
  by (induction vs arbitrary: expected) (auto simp: validate_value_Nil split: option.splits)

lemma validate_slice_source_locals:
  assumes "validate_slice_source p i f s src = []"
  shows "(\<forall>v \<in> set (slice_source_operands s). value_in_range f v)
    \<and> (case s of SS_Place pl \<Rightarrow> base_locals pl \<subseteq> {..<length (fn_locals f)} | _ \<Rightarrow> True)"
  using assms validate_place_locals [of p i f _ src] require_buffer_values [of p i f _ src] validate_buffer_param_ref_values [of p i f _ src]
  by (cases s) (fastforce simp: validate_slice_source_def slice_source_operands_def validate_optional_value_Nil)+

lemmas operand_checks = validate_value_Nil validate_optional_value_Nil value_locals_in_range require_i32_value_Nil

lemma validate_rvalue_locals:
  assumes "validate_rvalue p i f r src = []"
  shows "(\<forall>v \<in> set (rvalue_operands r). value_in_range f v) \<and> rvalue_bases r \<subseteq> {..<length (fn_locals f)}"
proof (cases r)
  case (R_Load pl)
  then show ?thesis using assms validate_place_locals [of p i f pl src]
    by (simp add: validate_rvalue_def rvalue_operands_def rvalue_bases_def)
next
  case (R_Intrinsic op vs)
  then show ?thesis using assms validate_intrinsic_args_values [of p i f op src None vs]
    by (simp add: validate_rvalue_def validate_intrinsic_def rvalue_operands_def rvalue_bases_def)
next
  case (R_MakeSlice s start len bounds access)
  then show ?thesis using assms validate_slice_source_locals [of p i f s src]
    by (cases s) (simp_all add: validate_rvalue_def rvalue_operands_def rvalue_bases_def validate_value_Nil)
next
  case (R_Cast v to)
  then show ?thesis using assms by (simp add: validate_rvalue_def rvalue_operands_def rvalue_bases_def validate_value_Nil)
qed (use assms in \<open>auto simp: validate_rvalue_def rvalue_operands_def rvalue_bases_def operand_checks
      validate_buffer_query_def validate_buffer_param_query_def dest: require_buffer_values validate_buffer_param_ref_values\<close>)

lemma validate_call_argument_locals:
  assumes "validate_call_argument p i f a src = []"
  shows "(\<forall>v \<in> set (argument_operands a). value_in_range f v) \<and> argument_bases a \<subseteq> {..<length (fn_locals f)}"
proof (cases a)
  case (A_BufferParam r)
  then show ?thesis using assms
    by (cases r) (auto simp: validate_call_argument_def argument_operands_def argument_bases_def buffer_param_ref_operands_def
        require_i32_value_Nil dest: value_matches_scalar_in_range)
qed (use assms in \<open>auto simp: validate_call_argument_def argument_operands_def argument_bases_def operand_checks
      dest: require_buffer_values value_matches_scalar_in_range validate_place_locals\<close>)

lemma kind_in_rangeI:
  "kind_targets k \<subseteq> {..<length (fn_locals f)} \<Longrightarrow> kind_bases k \<subseteq> {..<length (fn_locals f)} \<Longrightarrow> (\<forall>v \<in> set (kind_operands k). value_in_range f v)
    \<Longrightarrow> kind_in_range (length (fn_locals f)) k"
  by (simp add: kind_in_range_def statement_reads_def value_locals_in_range)

lemma validate_slice_copy_values:
  "validate_slice_copy p i f c src = [] \<Longrightarrow> value_in_range f (copy_destination c) \<and> value_in_range f (copy_source c)"
  by (simp add: validate_slice_copy_def validate_value_Nil)

lemma validate_publish_delegate_locals:
  assumes "validate_publish_delegate p i f d args src = []" and "a \<in> set args"
  shows "(\<forall>v \<in> set (argument_operands a). value_in_range f v) \<and> argument_bases a = {}"
proof -
  obtain descriptor where "nth_opt (if_delegates (pr_interface p)) d = Some descriptor"
    using assms(1) by (cases "nth_opt (if_delegates (pr_interface p)) d") (simp_all add: validate_publish_delegate_def)
  moreover obtain k where "(k, a) \<in> set (enumerate 0 args)"
    using assms(2) by (metis in_set_conv_nth in_set_enumerate_eq le0 add_0_right diff_zero fst_conv snd_conv)
  ultimately have "(case a of A_Value v \<Rightarrow> validate_value i f v src
      @ (case nth_opt (dg_params descriptor) k of
           None \<Rightarrow> []
         | Some param \<Rightarrow>
             if \<not> publication_matches p f v (dp_ty param)
             then function_error i src ''publication of delegate '{}' argument {} does not match payload parameter '{}' type {}''
             else [])
    | _ \<Rightarrow> function_error i src ''publication of delegate '{}' argument {} must be an evaluated value'') = []"
    using assms(1) unfolding validate_publish_delegate_def by (simp only: option.simps append_is_Nil_conv concat_Nil) fastforce
  then show ?thesis by (cases a) (simp_all add: argument_operands_def argument_bases_def validate_value_Nil)
qed

lemma enumerate_values:
  "(\<forall>x \<in> set (enumerate 0 vs). (case x of (k, v) \<Rightarrow> validate_value i f v src @ g k v) = []) \<Longrightarrow> \<forall>v \<in> set vs. value_in_range f v"
  unfolding enumerate_Nil by (auto simp: validate_value_Nil in_set_conv_nth)

lemma validate_simple_locals:
  assumes "validate_simple p proofs i f k src = []" and "\<not> has_blocks k"
  shows "kind_in_range (length (fn_locals f)) k"
proof (rule kind_in_rangeI)
  note defs = validate_simple_def Let_def
  show "kind_targets k \<subseteq> {..<length (fn_locals f)}"
    using assms validate_place_locals [of p i f _ src]
    by (cases k) (auto simp: defs kind_targets_def validate_call_def concat_eq_Nil_conv require_local_Nil split: option.splits if_splits)
  show "kind_bases k \<subseteq> {..<length (fn_locals f)}"
    using assms validate_rvalue_locals [of p i f _ src] validate_call_argument_locals [of p i f _ src] validate_publish_delegate_locals [of p i f _ _ src]
    by (cases k) (fastforce simp: defs kind_bases_def validate_call_def concat_eq_Nil_conv split: option.splits if_splits)+
  show "\<forall>v \<in> set (kind_operands k). value_in_range f v"
  proof (cases k)
    case (S_Assign d r)
    then show ?thesis using assms validate_rvalue_locals [of p i f r src] validate_place_locals [of p i f d src] by (auto simp: defs kind_operands_def)
  next
    case (S_Call rs g args)
    then show ?thesis using assms validate_call_argument_locals [of p i f _ src]
      by (fastforce simp: defs kind_operands_def validate_call_def concat_eq_Nil_conv split: option.splits)
  next
    case (S_PublishDelegate d args)
    then show ?thesis using assms validate_publish_delegate_locals [of p i f d args src] by (fastforce simp: defs kind_operands_def)
  next
    case (S_PublishLog site vs)
    then show ?thesis using assms enumerate_values [of vs i f src]
      by (auto simp: defs kind_operands_def validate_publish_log_def concat_eq_Nil_conv split: option.splits)
  next
    case (S_SliceCopy copies preflight)
    then show ?thesis using assms validate_slice_copy_values [of p i f _ src] by (auto simp: defs kind_operands_def concat_eq_Nil_conv)
  next
    case (S_Return vs)
    then show ?thesis using assms enumerate_values [of vs i f src] by (auto simp: defs kind_operands_def concat_eq_Nil_conv)
  qed (use assms in \<open>auto simp: defs has_blocks_def kind_operands_def operand_checks dest: require_buffer_values validate_buffer_param_ref_values\<close>)
qed

lemma validated_locals:
  shows "validate_statements p proofs i f [s] depth = [] \<Longrightarrow> all_kinds (kind_in_range (length (fn_locals f))) s"
    and "validate_statements p proofs i f [Statement k src] depth = [] \<Longrightarrow> all_kinds (kind_in_range (length (fn_locals f))) (Statement k src)"
    and "validate_block p proofs i f b depth = [] \<Longrightarrow> all_kinds_block (kind_in_range (length (fn_locals f))) b"
    and "validate_statements p proofs i f ss depth = [] \<Longrightarrow> all_kinds_statements (kind_in_range (length (fn_locals f))) ss"
proof (induction s and k and b and ss arbitrary: depth and src depth and depth and depth rule: mir_induct)
  case (Simple k)
  then show ?case
  proof (cases "k = S_Break \<or> k = S_Continue")
    case True
    then show ?thesis by (auto simp: kind_in_range_def statement_reads_def kind_targets_def kind_bases_def kind_operands_def)
  next
    case False
    then have "validate_simple p proofs i f k src = []" using Simple by (cases k) (auto simp: has_blocks_def)
    then show ?thesis using Simple validate_simple_locals by (cases k) (auto simp: has_blocks_def)
  qed
next
  case (Cons s ss)
  then show ?case by (cases s) (auto split: statement_kind.splits)
next
  case (If c t e)
  have "kind_in_range (length (fn_locals f)) (S_If c t e)"
    using If(3) by (intro kind_in_rangeI) (auto simp: kind_targets_def kind_bases_def kind_operands_def validate_value_Nil)
  then show ?case using If by auto
next
  case (Loop b)
  have "kind_in_range (length (fn_locals f)) (S_Loop b)"
    by (intro kind_in_rangeI) (auto simp: kind_targets_def kind_bases_def kind_operands_def)
  then show ?case using Loop by auto
qed auto

lemma accepted_locals: "accepted p proofs \<Longrightarrow> f \<in> set (pr_functions p) \<Longrightarrow> locals_in_range f"
  using validated_locals(3) accepted_body by (fastforce simp: locals_in_range_def in_set_conv_nth)

subsection \<open>Sizes of stored types\<close>

text \<open>The types the interface and the state store.\<close>

definition stored_types :: "program \<Rightarrow> type_id set" where
  "stored_types p = (let i = pr_interface p in
     set (map input_ty (if_inputs i)) \<union> set (map output_ty (if_outputs i)) \<union> set (map co_ty (if_control_outputs i))
     \<union> set (map param_ty (if_params i)) \<union> set (map ss_ty (pr_state p)))"

lemma reject_storage_Nil: "reject_runtime_handle_storage p ty i src = [] \<longleftrightarrow> \<not> type_contains_runtime_handle p ty"
  by (simp add: reject_runtime_handle_storage_def)

lemma accepted_stored:
  assumes "accepted p proofs" and "ty \<in> stored_types p"
  shows "ty < length (pr_types p) \<and> \<not> type_contains_runtime_handle p ty"
proof -
  have "interface_value_errors p proofs = []" using assms(1) by (simp add: accepted_iff)
  note e = this [unfolded interface_value_errors_def Let_def, simplified append_is_Nil_conv concat_Nil comp_def]
  have "require_type p ty None span_unknown = [] \<and> reject_runtime_handle_storage p ty None span_unknown = []"
    using assms(2) e
    by (auto simp: stored_types_def Let_def validate_input_def validate_output_type_def validate_param_def validate_state_def)
  then show ?thesis by (simp add: require_type_Nil reject_storage_Nil)
qed

lemma list_all2_choice: "(\<And>x. x \<in> set xs \<Longrightarrow> \<exists>y. P x y) \<Longrightarrow> \<exists>ys. list_all2 P xs ys"
  by (induction xs) (auto simp: list_all2_Cons1)

lemma settled_sized:
  assumes "deps_in_range p" and "settled p i" and "\<And>j. (i, j) \<in> (type_deps p)\<^sup>* \<Longrightarrow> \<not> is_handle_type (pr_types p ! j)"
  shows "\<exists>b. logical_bytes p i b"
  using assms(2,3)
proof (induction rule: settled.induct)
  case (1 i)
  have nth: "nth_opt (pr_types p) i = Some (pr_types p ! i)" using 1(1) by (simp add: nth_opt_def)
  have sized: "\<exists>b. logical_bytes p d b" if "d \<in> set (type_dependencies p (pr_types p ! i))" for d
  proof -
    have edge: "(i, d) \<in> type_deps p" using that 1(1) by (simp add: type_deps_def)
    moreover have "\<not> is_handle_type (pr_types p ! j)" if "(d, j) \<in> (type_deps p)\<^sup>*" for j
      using 1(4) converse_rtrancl_into_rtrancl [OF edge that] by blast
    ultimately show ?thesis using 1(3) by blast
  qed
  have "\<not> is_handle_type (pr_types p ! i)" using 1(4) by blast
  then show ?case
  proof (cases "pr_types p ! i")
    case (T_Scalar s)
    then show ?thesis using nth logical_bytes.scalar by metis
  next
    case (T_Tuple elements)
    then obtain bs where "list_all2 (logical_bytes p) elements bs" using sized list_all2_choice [of elements "logical_bytes p"] by auto
    then show ?thesis using nth T_Tuple logical_bytes.tuple by metis
  next
    case (T_Array element len)
    then obtain b where "logical_bytes p element b" using sized by auto
    then show ?thesis using nth T_Array logical_bytes.array by metis
  next
    case (T_Struct s)
    then have "s < length (pr_structs p)" using assms(1) 1(1) by (metis deps_in_range_def nth_mem)
    moreover obtain bs where "list_all2 (logical_bytes p) (struct_field_types p s) bs"
      using sized T_Struct list_all2_choice [of "struct_field_types p s" "logical_bytes p"] by auto
    ultimately show ?thesis using nth T_Struct logical_bytes.struct by metis
  qed (simp_all add: is_handle_type_def)
qed

lemma accepted_type_table:
  assumes "accepted p proofs"
  shows "acyclic (type_deps p) \<and> (\<forall>i b. logical_bytes p i b \<longrightarrow> b \<le> 2147483647)"
proof -
  have "validate_fixed_aggregate_types p = Some []" using assms by (simp add: accepted_iff)
  then show ?thesis using fixed_aggregates_correct [OF accepted_types [OF assms]] by auto
qed

lemma accepted_storage:
  assumes "accepted p proofs" and "ty \<in> stored_types p"
  shows "\<exists>b. logical_bytes p ty b \<and> b \<le> 2147483647 \<and> (\<forall>c. logical_bytes p ty c \<longrightarrow> c = b)"
proof -
  note range = accepted_types [OF assms(1)]
  have ty: "ty < length (pr_types p)" "\<not> type_contains_runtime_handle p ty" using accepted_stored [OF assms] by auto
  have "settled p ty" using settled_acyclic_iff [OF range] accepted_type_table [OF assms(1)] ty(1) by blast
  moreover have "\<not> is_handle_type (pr_types p ! j)" if "(ty, j) \<in> (type_deps p)\<^sup>*" for j
  proof -
    have "j < length (pr_types p)" using that
      by (rule rtranclE) (use ty(1) range in \<open>auto simp: type_deps_def deps_in_range_def\<close>)
    then show ?thesis using ty(2) that runtime_handle_correct [of p ty] by auto
  qed
  ultimately obtain b where "logical_bytes p ty b" using settled_sized [OF range] by blast
  then show ?thesis using accepted_type_table [OF assms(1)] logical_bytes_unique by blast
qed

subsection \<open>Entry points\<close>

lemma require_function_kind_Nil:
  "require_function_kind p i k label = [] \<longleftrightarrow> i < length (pr_functions p) \<and> fn_kind (pr_functions p ! i) = k"
  by (auto simp: require_function_kind_def nth_opt_def)

lemma accepted_entries:
  assumes "accepted p proofs"
  shows "entry_init (pr_entry_points p) < length (pr_functions p)" and "entry_process (pr_entry_points p) < length (pr_functions p)"
    and "i < length (pr_functions p) \<Longrightarrow> fn_kind (pr_functions p ! i) = FK_Init \<longleftrightarrow> i = entry_init (pr_entry_points p)"
    and "i < length (pr_functions p) \<Longrightarrow> fn_kind (pr_functions p ! i) = FK_Process \<longleftrightarrow> i = entry_process (pr_entry_points p)"
    and "i < length (pr_functions p) \<Longrightarrow> fn_kind (pr_functions p ! i) = FK_Event e
           \<longleftrightarrow> (e < length (if_events (pr_interface p)) \<and> ev_handler (if_events (pr_interface p) ! e) = i)"
    and "e < length (if_events (pr_interface p)) \<Longrightarrow> ev_handler (if_events (pr_interface p) ! e) < length (pr_functions p)"
proof -
  have "entry_errors p = []" using assms by (simp add: accepted_iff)
  note e = this [unfolded entry_errors_def append_is_Nil_conv require_function_kind_Nil validate_entry_role_ownership_def
      concat_Nil enumerate_Nil]
  note init = e [THEN conjunct1]
  have process: "entry_process (pr_entry_points p) < length (pr_functions p)
      \<and> fn_kind (pr_functions p ! entry_process (pr_entry_points p)) = FK_Process" using e by blast
  have events: "\<forall>k < length (if_events (pr_interface p)). validate_event p k (if_events (pr_interface p) ! k) = []" using e by blast
  have roles: "\<forall>k < length (pr_functions p). entry_role_errors p k (pr_functions p ! k) = []" using e by blast
  have handler: "ev_handler (if_events (pr_interface p) ! k) < length (pr_functions p)
      \<and> fn_kind (pr_functions p ! ev_handler (if_events (pr_interface p) ! k)) = FK_Event k" if "k < length (if_events (pr_interface p))" for k
    using events that by (simp add: validate_event_def require_function_kind_Nil)
  show "entry_init (pr_entry_points p) < length (pr_functions p)" "entry_process (pr_entry_points p) < length (pr_functions p)"
    using init process by simp_all
  show "e < length (if_events (pr_interface p)) \<Longrightarrow> ev_handler (if_events (pr_interface p) ! e) < length (pr_functions p)" using handler by blast
  assume i: "i < length (pr_functions p)"
  then have r: "entry_role_errors p i (pr_functions p ! i) = []" using roles by blast
  show "fn_kind (pr_functions p ! i) = FK_Init \<longleftrightarrow> i = entry_init (pr_entry_points p)"
    using r init by (auto simp: entry_role_errors_def split: if_splits)
  show "fn_kind (pr_functions p ! i) = FK_Process \<longleftrightarrow> i = entry_process (pr_entry_points p)"
    using r process by (auto simp: entry_role_errors_def split: if_splits)
  show "fn_kind (pr_functions p ! i) = FK_Event e
      \<longleftrightarrow> (e < length (if_events (pr_interface p)) \<and> ev_handler (if_events (pr_interface p) ! e) = i)"
  proof
    assume "fn_kind (pr_functions p ! i) = FK_Event e"
    then show "e < length (if_events (pr_interface p)) \<and> ev_handler (if_events (pr_interface p) ! e) = i"
      using r by (auto simp: entry_role_errors_def nth_opt_Some_iff split: option.splits if_splits)
  qed (use handler in blast)
qed

subsection \<open>The accepted program\<close>

lemma frame_program_accepted: "accepted frame_program Absent"
  unfolding accepted_def by code_simp

lemma slice_program_accepted: "accepted (slice_program copy_kinds) Absent"
  unfolding accepted_def by code_simp



text \<open>Dead value elimination and renumbering never panic on a function of an accepted program, and leave a function whose
  declared locals are exactly the ones its body mentions.\<close>

theorem accepted_dead_values:
  assumes "accepted p proofs" and "f \<in> set (pr_functions p)"
  shows "\<exists>f' st'. remove_dead_pure_locals (pr_types p) f st = Some (f', st') \<and> referenced_locals (fn_body f') = {..<length (fn_locals f')}"
  using reindex_locals_correct [OF accepted_locals [OF assms], of "pr_types p" st] by blast

theorem accepted_dead_values_witness:
  "\<forall>st. \<exists>f' st'. remove_dead_pure_locals (pr_types frame_program) frame_function st = Some (f', st')
     \<and> referenced_locals (fn_body f') = {..<length (fn_locals f')}"
  using accepted_dead_values [OF frame_program_accepted, of frame_function] by (simp add: frame_program_def)

text \<open>C16: everything an accepted program stores has a size: the type of every input, output, control output, parameter and state
  slot has exactly one logical size in bytes, and it fits a signed 32-bit integer.\<close>

theorem accepted_storage_sized:
  assumes "accepted p proofs" and "ty \<in> stored_types p"
  shows "\<exists>!b. logical_bytes p ty b \<and> b \<le> 2147483647"
  using accepted_storage [OF assms] by blast

theorem accepted_storage_sized_witness: "\<exists>!b. logical_bytes frame_program 0 b \<and> b \<le> 2147483647"
  by (rule accepted_storage_sized [OF frame_program_accepted]) (simp add: stored_types_def frame_program_def program_new_def empty_interface_def)

text \<open>C17: in an accepted program the roles of functions are exact: the init entry point is the only function of its kind, so is the
  process entry point, the handlers of the events are the event functions, one each, no role is reached by a call, and no chain
  of calls from init publishes a delegate.\<close>

theorem accepted_roles:
  assumes "accepted p proofs" and "i < length (pr_functions p)"
  shows "(fn_kind (pr_functions p ! i) = FK_Init \<longleftrightarrow> i = entry_init (pr_entry_points p))
    \<and> (fn_kind (pr_functions p ! i) = FK_Process \<longleftrightarrow> i = entry_process (pr_entry_points p))
    \<and> (\<forall>e. fn_kind (pr_functions p ! i) = FK_Event e
          \<longleftrightarrow> e < length (if_events (pr_interface p)) \<and> ev_handler (if_events (pr_interface p) ! e) = i)
    \<and> (\<forall>j. calls p j i \<longrightarrow> fn_kind (pr_functions p ! i) = FK_User)
    \<and> ((entry_init (pr_entry_points p), i) \<in> (program_calls p)\<^sup>* \<longrightarrow> \<not> publishes p i)"
proof -
  have "validate_init_cannot_reach_publication p = Some []" using assms(1) by (simp add: accepted_iff)
  then have "(entry_init (pr_entry_points p), i) \<in> (program_calls p)\<^sup>* \<longrightarrow> \<not> publishes p i"
    using init_publication_correct [of p] accepted_entries(1) [OF assms(1)] by auto
  then show ?thesis
    using accepted_entries(3,4,5) [OF assms(1) assms(2)] accepted_calls [OF assms(1)] by blast
qed

theorem accepted_roles_witness: "fn_kind (pr_functions frame_program ! 1) = FK_Process \<and> (\<forall>j. \<not> calls frame_program j 1)"
  using accepted_roles [OF frame_program_accepted, of 1] by (simp add: frame_program_def frame_function_def program_new_def)

text \<open>C11: a loop is analysed once, from the state before it, so a fact that its body destroys is still assumed in the next iteration:
  the validator accepts a whole program whose process function overwrites its frame at the end of a loop, and the second
  iteration writes audio at something that is not a frame.\<close>

theorem stale_frame_validates:
  "validate frame_program = Some (Inr ())
   \<and> (\<exists>t. init_statements {} frame_program frame_function (block_statements (fn_body frame_function))
        (demo_state (\<lambda>_. {}) (\<lambda>_. None)) Bad t)"
  using frame_program_accepted frame_run by (simp add: validate_accepted)

text \<open>C12: a copy through a slice counts as a write of the whole array beneath the destination, while it writes only the prefix that
  fits: the validator accepts a whole program whose init function copies one element into an array of eight and then reads
  the last, and a run of that body reads it before it is written.\<close>

theorem short_copy_validates:
  "validate (slice_program copy_kinds) = Some (Inr ()) \<and> demo_runs copy_kinds Bad"
  using slice_program_accepted copy_run by (simp add: validate_accepted)


text \<open>A program with one function that returns the sum of two numbers.\<close>

definition return_program :: program where
  "return_program = (program_new \<lparr>sample_rate = 0x473B8000, block_size = 64\<rparr> 1 2)
     \<lparr>pr_types := [T_Scalar TI32],
      pr_functions := [sum_function,
        sum_function\<lparr>fn_name := ''init'', fn_kind := FK_Init, fn_results := [], fn_body := Block []\<rparr>,
        sum_function\<lparr>fn_name := ''process'', fn_kind := FK_Process, fn_params := process_function_params 0, fn_results := [], fn_body := Block []\<rparr>]\<rparr>"


end
