(* ===== verification/Accepted_Pruning.thy ===== *)
theory Accepted_Pruning
  imports Parameter_Pruning Accepted_Programs
begin

section \<open>Pruning of accepted programs\<close>

text \<open>The references to parameters and the calls of a program without validation errors fit its declarations, so pruning applies to it.\<close>

definition params_of :: "mir_function \<Rightarrow> nat set" where
  "params_of f = {..<length (fn_params f)}"

lemma validate_place_params: "validate_place p i f pl src = [] \<Longrightarrow> place_params pl \<subseteq> params_of f"
  by (auto simp: validate_place_def validate_place_base_def place_params_def params_of_def split: place_base.splits if_splits)

lemma parameter_type_range: "parameter_type p f k = Some ty \<Longrightarrow> k \<in> params_of f"
  by (auto simp: parameter_type_def params_of_def nth_opt_def split: if_splits)

lemma buffer_param_range: "function_buffer_param_ref p f r = Some t \<Longrightarrow> buffer_param_ref_first r \<in> params_of f"
  by (cases r) (auto simp: function_buffer_param_ref_def dest: parameter_type_range split: option.splits)

lemma validate_source_params: "validate_slice_source p i f s src = [] \<Longrightarrow> source_params s \<subseteq> params_of f"
  by (cases s) (auto simp: validate_slice_source_def source_params_def dest: validate_place_params buffer_param_range split: if_splits)

lemma validate_rvalue_params: "validate_rvalue p i f r src = [] \<Longrightarrow> rvalue_params r \<subseteq> params_of f"
  using validate_place_params [of p i f _ src] validate_source_params [of p i f _ src]
  by (cases r) (auto simp: validate_rvalue_def rvalue_params_def validate_buffer_param_query_def dest: buffer_param_range split: if_splits)

lemma span_matches_params: "buffer_span_matches_type p f span ty \<Longrightarrow> span_params span \<subseteq> params_of f"
  by (auto simp: buffer_span_matches_type_def span_params_def dest: parameter_type_range split: option.splits mir_type.splits buffer_span_ref.splits)

lemma validate_argument_params:
  assumes "validate_call_argument p i f a src = []" and "call_argument_matches p f a param"
  shows "argument_params a \<subseteq> params_of f"
  using assms by (cases a) (auto simp: validate_call_argument_def call_argument_matches_def argument_params_def
      dest: validate_place_params buffer_param_range span_matches_params split: if_splits)

lemma validate_call_params:
  assumes "validate_call p i f results g args src = []"
  shows "(\<forall>a \<in> set args. argument_params a \<subseteq> params_of f) \<and> g < length (pr_functions p) \<and> length args = length (fn_params (pr_functions p ! g))"
proof -
  obtain callee where callee: "nth_opt (pr_functions p) g = Some callee" using assms by (cases "nth_opt (pr_functions p) g") (simp_all add: validate_call_def)
  note c = assms [unfolded validate_call_def callee option.simps append_is_Nil_conv concat_Nil]
  have len: "length args = length (fn_params callee)" using c by (auto split: if_splits)
  have "argument_params a \<subseteq> params_of f" if mem: "a \<in> set args" for a
  proof -
    obtain k where k: "k < length args" "a = args ! k" using mem by (auto simp: in_set_conv_nth)
    then have "(a, fn_params callee ! k) \<in> set (zip args (fn_params callee))" using len by (auto simp: set_zip)
    then have "call_argument_matches p f a (fn_params callee ! k)" using c by (fastforce split: if_splits)
    moreover have "validate_call_argument p i f a src = []" using c mem by fastforce
    ultimately show ?thesis using validate_argument_params by blast
  qed
  then show ?thesis using callee len by (simp add: nth_opt_Some_iff)
qed

lemma publish_arguments_params:
  assumes "validate_publish_delegate p i f d args src = []" and "a \<in> set args"
  shows "argument_params a = {}"
proof (rule ccontr)
  assume "argument_params a \<noteq> {}"
  then have other: "\<nexists>v. a = A_Value v" by (auto simp: argument_params_def)
  obtain descriptor where d: "nth_opt (if_delegates (pr_interface p)) d = Some descriptor"
    using assms(1) by (cases "nth_opt (if_delegates (pr_interface p)) d") (simp_all add: validate_publish_delegate_def)
  obtain k where "(k, a) \<in> set (enumerate 0 args)"
    using assms(2) by (metis in_set_conv_nth in_set_enumerate_eq le0 add_0_right diff_zero fst_conv snd_conv)
  then show False
    using assms(1) other unfolding validate_publish_delegate_def d by (cases a) (fastforce simp: concat_eq_Nil_conv)+
qed

definition site_fits :: "program \<Rightarrow> nat \<times> call_argument list \<Rightarrow> bool" where
  "site_fits p site \<longleftrightarrow> fst site < length (pr_functions p) \<and> length (snd site) = length (fn_params (pr_functions p ! fst site))"

lemma validated_params:
  shows "validate_statements p proofs i f [s] depth = [] \<Longrightarrow> statements_params [s] \<subseteq> params_of f \<and> (\<forall>c \<in> statements_sites [s]. site_fits p c)"
    and "validate_statements p proofs i f [Statement k src] depth = [] \<Longrightarrow>
      statements_params [Statement k src] \<subseteq> params_of f \<and> (\<forall>c \<in> statements_sites [Statement k src]. site_fits p c)"
    and "validate_block p proofs i f b depth = [] \<Longrightarrow> block_params b \<subseteq> params_of f \<and> (\<forall>c \<in> block_sites b. site_fits p c)"
    and "validate_statements p proofs i f ss depth = [] \<Longrightarrow> statements_params ss \<subseteq> params_of f \<and> (\<forall>c \<in> statements_sites ss. site_fits p c)"
proof (induction s and k and b and ss arbitrary: depth and src depth and depth and depth rule: mir_induct)
  case (Simple k)
  show ?case
  proof (cases "k = S_Break \<or> k = S_Continue")
    case False
    then have v: "validate_simple p proofs i f k src = []" using Simple by (cases k) (auto simp: has_blocks_def)
    show ?thesis
    proof (cases k)
      case (S_Assign d r)
      then show ?thesis using v validate_place_params [of p i f d src] validate_rvalue_params [of p i f r src]
        by (simp add: validate_simple_def)
    next
      case (S_Call rs g args)
      then show ?thesis using validate_call_params [of p i f rs g args src] v by (auto simp: validate_simple_call site_fits_def)
    next
      case (S_PublishDelegate d args)
      then show ?thesis using v publish_arguments_params [of p i f d args src] by (auto simp: validate_simple_def)
    next
      case (S_BufferParamStore b c n x bounds)
      then show ?thesis using v by (cases "function_buffer_param_ref p f b") (auto simp: validate_simple_def require_store_def Let_def dest: buffer_param_range)
    qed (use Simple in \<open>simp_all add: has_blocks_def\<close>)
  qed auto
next
  case (Cons s ss)
  have "validate_statements p proofs i f [s] depth = [] \<and> validate_statements p proofs i f ss depth = []"
    using Cons(3) by (cases s) (auto split: statement_kind.splits)
  then show ?case using Cons(1,2) unfolding statements_params_Cons [of s ss] statements_sites_Cons [of s ss] by blast
next
  case (If c t e)
  have "validate_block p proofs i f t depth = []" "validate_block p proofs i f e depth = []" using If(3) by simp_all
  then show ?case using If(1,2) by (simp del: collect_block_parameters.simps) blast
qed auto

lemma accepted_params_fit: "accepted p proofs \<Longrightarrow> params_fit p"
  using validated_params(3) [OF accepted_body] by (fastforce simp: params_fit_def params_of_def site_fits_def program_sites_iff)

subsection \<open>The call graph stays\<close>

lemma rewrite_callees:
  shows "statements_callees (rewrite_statements_parameters m [s]) = statements_callees [s]
      \<and> statements_callees (rewrite_statements_arguments ms [s]) = statements_callees [s]"
    and "statements_callees (rewrite_statements_parameters m [Statement k src]) = statements_callees [Statement k src]
      \<and> statements_callees (rewrite_statements_arguments ms [Statement k src]) = statements_callees [Statement k src]"
    and "block_callees (rewrite_block_parameters m b) = block_callees b \<and> block_callees (rewrite_call_arguments ms b) = block_callees b"
    and "statements_callees (rewrite_statements_parameters m ss) = statements_callees ss
      \<and> statements_callees (rewrite_statements_arguments ms ss) = statements_callees ss"
proof (induction s and k and b and ss arbitrary: and src and and rule: mir_induct)
  case (Simple k)
  then show ?case by (cases k) (auto simp: has_blocks_def split: option.split)
next
  case (Cons s ss)
  obtain k src where s: "s = Statement k src" by (cases s)
  show ?case using Cons unfolding s by simp
qed simp_all

lemma pruned_calls: "calls (pruned_by p F) i c \<longleftrightarrow> calls p i c"
proof (cases "i < length (pr_functions p)")
  case True
  then have "block_callees (fn_body (pr_functions (pruned_by p F) ! i)) = block_callees (fn_body (pr_functions p ! i))"
    by (simp add: rewrite_callees(3))
  then show ?thesis using True by (simp add: calls_def)
qed (simp add: calls_def)



end
