(* ===== verification/Spec2Isabelle.thy ===== *)
theory Spec2Isabelle
  imports Pass_Cse Payload_Transfer Accepted_Pruning
begin

section \<open>The Onda mid-level representation and its passes\<close>

text \<open>
  Onda is a language for audio processors. Its compiler parses source text (\<open>onda_frontend\<close>), checks
  and lowers it (\<open>onda_semantics\<close>) to a mid-level representation, the MIR (\<open>onda_mir\<close>), runs analyses and
  passes over it, and hands it to a code generator (\<open>onda_codegen_llvm\<close>) or to an external tool as a
  file. This development verifies the MIR: the data model, the constant evaluator, the analyses
  and the passes of \<open>src/crates/onda_mir/src\<close>. These decide what the generated machine code means, and
  every front end and back end relies on them.

  Data model. \<open>Mir_Types\<close> (\<open>ids.rs\<close>, \<open>types.rs\<close>): identifiers, scalar types, scalar values and
  their lossless JSON codecs; \<open>f32\<close> and \<open>f64\<close> constants are bit patterns, decoded and rounded by
  \<open>Float_Bits\<close>. \<open>Payload_Types\<close> (\<open>onda_processor_abi/src/payload.rs\<close>): the schema of events and delegates. \<open>Mir_Ir\<close>
  (\<open>ir.rs\<close>): places, values, right-hand sides, statements and functions. \<open>Mir_Program\<close> (\<open>ir.rs\<close>,
  \<open>types.rs\<close>): the program record, the compile configuration, the type of a place and type
  equivalence. An enum is a datatype with the code's constructors, a struct a record, a machine integer
  a word where it can wrap and a number where the code only compares it, a mutated argument a
  returned one, and a panic of the code (an index out of range, an unwrapped \<open>None\<close>) the value
  \<open>None\<close> of an option.

  Constant evaluation. \<open>Constant_Eval\<close> (\<open>constant_eval.rs\<close>): unary, binary, comparison, cast and
  intrinsic operations on constants; the transcendental functions of the C library are the argument
  \<open>libm\<close>. The lemmas show the integer operations to be the exact operation wrapped to the width, with
  the trapping cases exactly those without a result, the range intrinsics to have their
  documented meaning, and every result to have the type announced for it.

  Meaning of programs. \<open>Mir_Operands\<close> gives the operand list of every construct and \<open>Mir_Semantics\<close> a
  reference semantics of function bodies: an environment of locals, an outer world, and the outcome of
  a block (it ends normally, breaks, continues, returns values or traps). Scalar operations mean what
  \<open>Constant_Eval\<close> computes. Memory, host tables and callees, which are not part of a body, are the
  record of operations \<open>ops\<close>; its laws are hypotheses of the theorems that need them and hold of the
  concrete instance the witnesses use. A loop takes a bound on its iterations and a run that
  exceeds the bound is \<open>None\<close>; the theorems relate runs at the same bound, so the bound
  never has to be chosen. The passes of a structured program never change it.

  Passes (\<open>passes.rs\<close> and \<open>passes/\<close>). Each is judged by \<open>Mir_Semantics\<close>. \<open>Pass_Canonicalize\<close>: folding, algebraic
  identities, removal of unreachable code. \<open>Operand_Rewriting\<close> is the interface between a pass that
  rewrites operands and the semantics, \<open>Pass_Propagate\<close> and \<open>Propagate_Sound\<close> are constant and copy
  propagation and its soundness, \<open>Pass_Cse\<close> (\<open>cse.rs\<close>) local value numbering. \<open>Local_Reads\<close> holds the collectors of
  reads and writes, \<open>Pass_Dead_Values\<close> (\<open>dead_values.rs\<close>) liveness and the removal of dead assignments,
  and \<open>Reindex_Locals\<close> the renumbering of the locals that remain. \<open>Parameter_Pruning\<close>
  (\<open>parameter_pruning.rs\<close>) removes parameters nobody needs with their arguments, round by round; the rounds
  are shown to amount to one removal and one renaming that drops no argument that can fail. The properties of the others say that
  every completed run of the original body is a run of the result, and where the code is
  not sound in general they carry the condition: propagation treats a store through a slice
  as harmless to the array beneath it, which \<open>propagate_misses_slice_writes\<close> exhibits.

  Analyses. \<open>Int_Range\<close> (\<open>analysis.rs\<close>): the interval domain, with the result of every
  binary operation contained in the computed interval. \<open>Call_Graph\<close> (\<open>call_graph.rs\<close>): callees, callers,
  the depth-first postorder and the worklist; the order puts callees first in programs without
  recursion, and the construction is total in all. \<open>Effects\<close> and \<open>Effect_Solver\<close> (\<open>analysis.rs\<close>): the
  regions a function reads and writes, whether it may fail or not return, per statement and across calls. The
  worklist loop terminates by a measure on the room left in the summaries, so the solver needs no
  fuel, and its result is the least one above the direct effects and closed under calls.

  Validation (\<open>validate.rs\<close> and \<open>validate/\<close>). A check returns its errors in the order the code
  reports them, with the names and numbers of a message left as holes. \<open>Validate_Base\<close>: types of operands and the
  checks of single identifiers. \<open>Validate_Flow\<close>: control-flow summaries and the rejection of unchecked
  bounds. \<open>Validate_Calls\<close>: call cycles and publications reachable from init, both proved exact.
  \<open>Definite_Assignment\<close>: which parts of a local are written before it is read. \<open>Definite_Sound\<close> gives bodies a semantics of
  initialisation and proves the analysis sound for bodies that do not rebind tracked slices or frames in
  loops and copy into tracked slices in full; \<open>Definite_Examples\<close> shows that neither condition is checked by the code
  and neither can be dropped. \<open>Validate_Body\<close>: the type checks of every statement. \<open>Validate_Types\<close>: the type table; the sizes of
  fixed aggregates, found by passes that repeat until nothing changes, and the search for runtime handles are exact.
  \<open>Param_Domain\<close> (\<open>types.rs\<close>): the host-facing range of a parameter, its step grid, and conversions that never leave it.
  \<open>Validate_Interface\<close>: names, groups of buffers, mirrors of control outputs, ranges and controls of parameters, and
  (\<open>validate/messages.rs\<close>) the parameters of events against their schemas. \<open>Validate_Program\<close>: the whole run, \<open>validator_run\<close>, with
  the entry points \<open>validate\<close> and \<open>validate_owned\<close>; it never panics and always ends.

  What validation is for. \<open>Type_Soundness\<close>: a scalar expression that passes the type checks never gets stuck, and a run of a body that
  passes them keeps every scalar local at its type. \<open>Accepted_Programs\<close> composes the validator with its clients: in a program
  with an empty error list calls stay in the table and never recurse, so the analyses end after one visit of each function;
  all locals are declared, so dead values are removed and locals renumbered without a panic; everything stored
  has one size; the roles of functions are exact; and functions with results return them. \<open>Accepted_Pruning\<close> adds that such a program can be
  pruned, with its call graph and the end of the effect analysis kept. The two examples
  of \<open>Definite_Examples\<close> are shown to pass the complete validator.

  Payloads (\<open>onda_processor_abi/src/payload\<close>). Events and delegates carry values as packed little-endian bytes.
  \<open>Payload_Shape\<close> (\<open>shape.rs\<close>, \<open>value.rs\<close>): the leaves of a type and the traversal of host values. \<open>Payload_Layout\<close>
  (\<open>layout.rs\<close>): the plan of a schema and the walk over its regions; an accepted payload fills the wire without gaps, every
  region of the workspace is aligned, disjoint from the others and inside the required size, and the advertised capacity
  suffices. \<open>Payload_Transfer\<close> (\<open>transfer.rs\<close>): preparing never panics, its errors are exact, and encoding a
  prepared payload gives the normalized input back on targets of either endianness.

  Interfaces. The locales state what a client relies on: \<open>operand_rewriting\<close> (\<open>Operand_Rewriting\<close>), a rewriting that
  keeps operand values, and \<open>work_queue\<close> (\<open>Call_Graph\<close>), the queue of an analysis. Each is interpreted on the
  definitions of the model.

  Not modelled. In \<open>onda_mir\<close>: memory and slice-length facts, the bounds proofs, state promotion, loop and
  interprocedural passes, whose soundness rests on the range analysis over bodies and on a model of memory that the
  reference semantics leaves abstract, and the container formats, which are serialisation glue. Outside it: the front end and the lowering, several times the size
  of the MIR; code generation, whose meaning is that of LLVM; the runtime, tools and user
  interfaces, which are input and output.
\<close>

end
